(* ===== verification/Helm_Prelude.thy ===== *)
theory Helm_Prelude
  imports Main "HOL-Library.AList" "HOL-Library.Sublist"
begin

text \<open>
  The shared ground of the development: how a JavaScript failure is a value (\<open>'e + 'a\<close>,
  \<open>Inl\<close> for what is thrown), how a SQLite table with a primary key is an association
  list, the few string functions of the language that the hub uses, and the lemmas about
  them that every component needs.

  A table is a list of pairs in insertion order. \<open>tbl_upsert\<close> is
  \<open>INSERT ... ON CONFLICT DO UPDATE\<close> (and \<open>UPDATE ... WHERE key = ?\<close> on a key that is there),
  \<open>tbl_insert_ignore\<close> is \<open>INSERT OR IGNORE\<close>, \<open>tbl_delete\<close> is \<open>DELETE ... WHERE key = ?\<close>.
  The interface locale \<open>keyed_table\<close> states what a client of such a table relies on.
\<close>

named_theorems helm_simps \<open>characteristic equations of the model's small operations\<close>
named_theorems helm_frame \<open>what an operation leaves unchanged\<close>

subsection \<open>Failures as values\<close>

fun and_then :: "'e + 'a \<Rightarrow> ('a \<Rightarrow> 'e + 'b) \<Rightarrow> 'e + 'b" where
  "and_then (Inl e) f = Inl e"
| "and_then (Inr x) f = f x"

lemma and_then_Inr [simp]: "and_then r f = Inr y \<longleftrightarrow> (\<exists>x. r = Inr x \<and> f x = Inr y)"
  by (cases r) auto

lemma and_then_Inl [simp]:
  "and_then r f = Inl e \<longleftrightarrow> r = Inl e \<or> (\<exists>x. r = Inr x \<and> f x = Inl e)"
  by (cases r) auto

definition guard_err :: "bool \<Rightarrow> 'e \<Rightarrow> 'e + unit" where
  "guard_err b e = (if b then Inr () else Inl e)"

lemma guard_err_Inr [simp]: "guard_err b e = Inr u \<longleftrightarrow> b"
  by (simp add: guard_err_def)

lemma guard_err_Inl [simp]: "guard_err b e = Inl e' \<longleftrightarrow> \<not> b \<and> e' = e"
  by (auto simp: guard_err_def)

lemma find_SomeD: "find P xs = Some x \<Longrightarrow> x \<in> set xs \<and> P x"
  by (induction xs) (auto split: if_splits)

subsection \<open>Tables with a primary key\<close>

type_synonym ('k, 'v) tbl = "('k \<times> 'v) list"

abbreviation tbl_get :: "('k, 'v) tbl \<Rightarrow> 'k \<Rightarrow> 'v option" where
  "tbl_get t k \<equiv> map_of t k"

definition tbl_upsert :: "'k \<Rightarrow> 'v \<Rightarrow> ('k, 'v) tbl \<Rightarrow> ('k, 'v) tbl" where
  "tbl_upsert k v t = AList.update k v t"

definition tbl_insert_ignore :: "'k \<Rightarrow> 'v \<Rightarrow> ('k, 'v) tbl \<Rightarrow> ('k, 'v) tbl" where
  "tbl_insert_ignore k v t = (case map_of t k of None \<Rightarrow> t @ [(k, v)] | Some _ \<Rightarrow> t)"

definition tbl_delete :: "'k \<Rightarrow> ('k, 'v) tbl \<Rightarrow> ('k, 'v) tbl" where
  "tbl_delete k t = filter (\<lambda>p. fst p \<noteq> k) t"

definition tbl_replace :: "'k \<Rightarrow> 'v \<Rightarrow> ('k, 'v) tbl \<Rightarrow> ('k, 'v) tbl" where
  \<comment> \<open>\<open>INSERT OR REPLACE\<close>: the old row goes, the new one is last\<close>
  "tbl_replace k v t = tbl_delete k t @ [(k, v)]"

definition tbl_update_where :: "'k \<Rightarrow> ('v \<Rightarrow> 'v) \<Rightarrow> ('k, 'v) tbl \<Rightarrow> ('k, 'v) tbl" where
  \<comment> \<open>\<open>UPDATE ... WHERE key = ?\<close>, which does nothing when there is no such row\<close>
  "tbl_update_where k f t = map (\<lambda>(k', v). (k', if k' = k then f v else v)) t"

definition tbl_keys_unique :: "('k, 'v) tbl \<Rightarrow> bool" where
  "tbl_keys_unique t \<longleftrightarrow> distinct (map fst t)"

lemma tbl_get_upsert [simp]:
  "tbl_get (tbl_upsert k v t) k' = (if k' = k then Some v else tbl_get t k')"
  by (simp add: tbl_upsert_def update_conv)

lemma map_of_snoc:
  "map_of (t @ [(k, v)]) k' =
     (case map_of t k' of None \<Rightarrow> if k' = k then Some v else None | Some x \<Rightarrow> Some x)"
  by (auto simp: map_add_def split: option.splits)

lemma tbl_get_insert_ignore [simp]:
  "tbl_get (tbl_insert_ignore k v t) k' =
     (case tbl_get t k' of Some x \<Rightarrow> Some x | None \<Rightarrow> if k' = k then Some v else None)"
  by (auto simp: tbl_insert_ignore_def map_add_def split: option.splits)

lemma tbl_get_delete [simp]:
  "tbl_get (tbl_delete k t) k' = (if k' = k then None else tbl_get t k')"
  by (induction t) (auto simp: tbl_delete_def)

lemma tbl_get_replace [simp]:
  "tbl_get (tbl_replace k v t) k' = (if k' = k then Some v else tbl_get t k')"
  by (auto simp: tbl_replace_def map_add_def split: option.split)

lemma tbl_get_update_where [simp]:
  "tbl_get (tbl_update_where k f t) k' = (if k' = k then map_option f (tbl_get t k') else tbl_get t k')"
  by (induction t) (auto simp: tbl_update_where_def)

lemma tbl_keys_unique_update_where [simp]: "tbl_keys_unique (tbl_update_where k f t) = tbl_keys_unique t"
  by (simp add: tbl_keys_unique_def tbl_update_where_def comp_def split_def)

lemma tbl_keys_unique_Nil [simp]: "tbl_keys_unique []"
  by (simp add: tbl_keys_unique_def)

lemma tbl_keys_unique_upsert [simp]: "tbl_keys_unique t \<Longrightarrow> tbl_keys_unique (tbl_upsert k v t)"
  by (simp add: tbl_keys_unique_def tbl_upsert_def distinct_update)

lemma tbl_keys_unique_insert_ignore [simp]:
  "tbl_keys_unique t \<Longrightarrow> tbl_keys_unique (tbl_insert_ignore k v t)"
  by (auto simp: tbl_keys_unique_def tbl_insert_ignore_def map_of_eq_None_iff split: option.splits)

lemma tbl_keys_unique_delete [simp]: "tbl_keys_unique t \<Longrightarrow> tbl_keys_unique (tbl_delete k t)"
  unfolding tbl_keys_unique_def tbl_delete_def by (rule distinct_map_filter)

lemma tbl_keys_unique_replace [simp]: "tbl_keys_unique t \<Longrightarrow> tbl_keys_unique (tbl_replace k v t)"
  using tbl_keys_unique_delete [of t k] by (auto simp: tbl_keys_unique_def tbl_replace_def tbl_delete_def)

lemma tbl_insert_ignore_present: "tbl_get t k = Some x \<Longrightarrow> tbl_insert_ignore k v t = t"
  by (simp add: tbl_insert_ignore_def)

subsection \<open>The interface of a keyed table\<close>

text \<open>
  What the stores of the hub rely on: a row written is read back, other rows are not
  touched, and the key stays unique. \<open>frozen_unless_written\<close> is the client's lemma: a row
  survives any sequence of writes to other keys.
\<close>

locale keyed_table =
  fixes get :: "'t \<Rightarrow> 'k \<Rightarrow> 'v option"
    and put :: "'k \<Rightarrow> 'v \<Rightarrow> 't \<Rightarrow> 't"
    and unique :: "'t \<Rightarrow> bool"
  assumes get_put: "get (put k v t) k = Some v"
    and get_put_other: "k' \<noteq> k \<Longrightarrow> get (put k v t) k' = get t k'"
    and unique_put: "unique t \<Longrightarrow> unique (put k v t)"
begin

lemma frozen_unless_written:
  "k \<notin> fst ` set ws \<Longrightarrow> get (fold (\<lambda>(k', v). put k' v) ws t) k = get t k"
proof (induction ws arbitrary: t)
  case Nil
  then show ?case by simp
next
  case (Cons w ws)
  then show ?case by (cases w) (simp add: get_put_other)
qed

lemma last_write_wins:
  "k \<notin> fst ` set ws \<Longrightarrow> get (fold (\<lambda>(k', v). put k' v) ((k, v) # ws) t) k = Some v"
  by (simp add: frozen_unless_written get_put)

lemma unique_writes: "unique t \<Longrightarrow> unique (fold (\<lambda>(k', v). put k' v) ws t)"
  by (induction ws arbitrary: t) (auto simp: unique_put)

end

interpretation sql_table: keyed_table "map_of" tbl_upsert tbl_keys_unique
  by unfold_locales auto

interpretation replaced_table: keyed_table "map_of" tbl_replace tbl_keys_unique
  by unfold_locales auto

subsection \<open>Characters and strings of the language\<close>

text \<open>
  A JavaScript string is a list of code units; the model's \<open>string\<close> holds code units
  below 256. \<open>String(n)\<close> of a non-negative integer is its decimal numeral.
\<close>

definition digit_char :: "nat \<Rightarrow> char" where
  "digit_char d = char_of (48 + d)"

fun show_nat :: "nat \<Rightarrow> string" where
  "show_nat n = (if n < 10 then [digit_char n] else show_nat (n div 10) @ [digit_char (n mod 10)])"

declare show_nat.simps [simp del]

definition show_int :: "int \<Rightarrow> string" where
  "show_int i = (if i < 0 then CHR ''-'' # show_nat (nat (- i)) else show_nat (nat i))"

definition char_digit :: "char \<Rightarrow> nat" where
  "char_digit c = of_char c - 48"

definition read_nat :: "string \<Rightarrow> nat" where
  "read_nat s = foldl (\<lambda>n c. 10 * n + char_digit c) 0 s"

definition is_digit :: "char \<Rightarrow> bool" where
  "is_digit c \<longleftrightarrow> 48 \<le> (of_char c :: nat) \<and> (of_char c :: nat) \<le> 57"

lemma char_digit_digit_char [simp]: "d < 10 \<Longrightarrow> char_digit (digit_char d) = d"
  by (simp add: char_digit_def digit_char_def)

lemma is_digit_digit_char [simp]: "d < 10 \<Longrightarrow> is_digit (digit_char d)"
  by (simp add: is_digit_def digit_char_def)

lemma read_show_nat [simp]: "read_nat (show_nat n) = n"
proof (induction n rule: show_nat.induct)
  case (1 n)
  show ?case
  proof (cases "n < 10")
    case True
    then show ?thesis by (simp add: show_nat.simps [of n] read_nat_def)
  next
    case False
    with 1 show ?thesis by (simp add: show_nat.simps [of n] read_nat_def)
  qed
qed

lemma show_nat_inject [simp]: "show_nat m = show_nat n \<longleftrightarrow> m = n"
  by (metis read_show_nat)

lemma show_nat_digits: "\<forall>c \<in> set (show_nat n). is_digit c"
proof (induction n rule: show_nat.induct)
  case (1 n)
  then show ?case
    by (cases "n < 10") (auto simp: show_nat.simps [of n])
qed

lemma show_nat_nonempty [simp]: "show_nat n \<noteq> []"
  by (simp add: show_nat.simps [of n])

lemma show_nat_hd_digit: "is_digit (hd (show_nat n))"
  using show_nat_digits [of n] by (cases "show_nat n") auto

lemma not_is_digit_minus [simp]: "\<not> is_digit (CHR ''-'')"
  by (simp add: is_digit_def)

lemma show_int_inject [simp]: "show_int i = show_int j \<longleftrightarrow> i = j"
proof -
  have "show_nat n \<noteq> CHR ''-'' # s" for n s
    using show_nat_hd_digit [of n] by (metis list.sel(1) not_is_digit_minus)
  then show ?thesis by (auto simp: show_int_def split: if_splits) (metis)+
qed

subsection \<open>Hexadecimal digests\<close>

definition is_hex_char :: "char \<Rightarrow> bool" where
  "is_hex_char c \<longleftrightarrow> is_digit c \<or> (97 \<le> (of_char c :: nat) \<and> (of_char c :: nat) \<le> 102)"

definition is_hex64 :: "string \<Rightarrow> bool" where
  "is_hex64 s \<longleftrightarrow> length s = 64 \<and> list_all is_hex_char s"

definition hex_val :: "char \<Rightarrow> nat option" where
  "hex_val c = (let n = of_char c :: nat in
     if 48 \<le> n \<and> n \<le> 57 then Some (n - 48)
     else if 97 \<le> n \<and> n \<le> 102 then Some (n - 87)
     else if 65 \<le> n \<and> n \<le> 70 then Some (n - 55)
     else None)"

text \<open>
  \<open>Buffer.from(s, "hex")\<close>: pairs of hexadecimal digits become bytes, and decoding stops
  at the first pair that is not one.
\<close>

fun hex_bytes :: "string \<Rightarrow> string" where
  "hex_bytes (a # b # r) =
     (case (hex_val a, hex_val b) of
        (Some x, Some y) \<Rightarrow> char_of (16 * x + y) # hex_bytes r
      | _ \<Rightarrow> [])"
| "hex_bytes _ = []"

lemma hex_val_cases:
  assumes "is_hex_char c"
  shows "\<exists>v < 16. hex_val c = Some v \<and> of_char c = (if v < 10 then v + 48 else v + (87::nat))"
proof -
  have "of_char c < (256::nat)" by simp
  with assms show ?thesis
    by (auto simp: is_hex_char_def is_digit_def hex_val_def Let_def)
qed

lemma hex_val_inject:
  assumes "is_hex_char c" and "is_hex_char d" and "hex_val c = hex_val d"
  shows "c = d"
proof -
  obtain v where v: "hex_val c = Some v" "of_char c = (if v < 10 then v + 48 else v + (87::nat))"
    using hex_val_cases [OF assms(1)] by blast
  obtain w where w: "hex_val d = Some w" "of_char d = (if w < 10 then w + 48 else w + (87::nat))"
    using hex_val_cases [OF assms(2)] by blast
  from v(1) w(1) assms(3) have "v = w" by simp
  with v(2) w(2) have "(of_char c :: nat) = of_char d" by (simp only:)
  then show ?thesis by (rule injD [OF inj_of_char])
qed

lemma char_of_inject_256:
  assumes "m < 256" "n < 256" "(char_of m :: char) = char_of n"
  shows "m = (n :: nat)"
proof -
  from assms(3) have "(of_char (char_of m :: char) :: nat) = of_char (char_of n :: char)" by simp
  with assms(1,2) show ?thesis by (simp add: of_char_of)
qed

lemma hex_bytes_pair:
  assumes "is_hex_char a" "is_hex_char b"
  obtains va vb where "hex_val a = Some va" "hex_val b = Some vb" "va < 16" "vb < 16"
    "hex_bytes (a # b # r) = char_of (16 * va + vb) # hex_bytes r"
proof -
  obtain va where va: "hex_val a = Some va" "va < 16" using hex_val_cases [OF assms(1)] by blast
  obtain vb where vb: "hex_val b = Some vb" "vb < 16" using hex_val_cases [OF assms(2)] by blast
  show ?thesis by (rule that [OF va(1) vb(1) va(2) vb(2)]) (simp add: va vb)
qed

lemma hex_pair_inject:
  assumes h: "is_hex_char a" "is_hex_char b" "is_hex_char c" "is_hex_char d"
    and eq: "hex_bytes (a # b # r) = hex_bytes (c # d # r')"
  shows "a = c \<and> b = d \<and> hex_bytes r = hex_bytes r'"
proof -
  obtain va vb where v: "hex_val a = Some va" "hex_val b = Some vb" "va < 16" "vb < 16"
    and e1: "hex_bytes (a # b # r) = char_of (16 * va + vb) # hex_bytes r"
    by (rule hex_bytes_pair [OF h(1,2)])
  obtain vc vd where w: "hex_val c = Some vc" "hex_val d = Some vd" "vc < 16" "vd < 16"
    and e2: "hex_bytes (c # d # r') = char_of (16 * vc + vd) # hex_bytes r'"
    by (rule hex_bytes_pair [OF h(3,4)])
  from eq e1 e2 have "(char_of (16 * va + vb) :: char) = char_of (16 * vc + vd)"
    and rest: "hex_bytes r = hex_bytes r'" by (simp_all only: list.inject)
  then have "16 * va + vb = 16 * vc + vd" using v w by (intro char_of_inject_256) linarith+
  moreover have "(16 * va + vb) div 16 = va" "(16 * va + vb) mod 16 = vb" using v(4) by simp_all
  moreover have "(16 * vc + vd) div 16 = vc" "(16 * vc + vd) mod 16 = vd" using w(4) by simp_all
  ultimately have "va = vc" and "vb = vd" by metis+
  then have "a = c" and "b = d" using v(1,2) w(1,2) h hex_val_inject by simp_all
  with rest show ?thesis by simp
qed

lemma length_hex_bytes:
  "list_all is_hex_char s \<Longrightarrow> even (length s) \<Longrightarrow> length (hex_bytes s) = length s div 2"
proof (induction s rule: hex_bytes.induct)
  case (1 a b r)
  then have h: "is_hex_char a" "is_hex_char b" by simp_all
  obtain va vb where "hex_val a = Some va" "hex_val b = Some vb"
    by (rule hex_bytes_pair [OF h])
  with 1 show ?case by simp
qed auto

lemma length_hex_bytes_64 [simp]: "is_hex64 s \<Longrightarrow> length (hex_bytes s) = 32"
  by (simp add: is_hex64_def length_hex_bytes)

lemma hex_bytes_inject:
  "list_all is_hex_char s \<Longrightarrow> list_all is_hex_char t \<Longrightarrow> length s = length t \<Longrightarrow> even (length s)
   \<Longrightarrow> hex_bytes s = hex_bytes t \<Longrightarrow> s = t"
proof (induction s arbitrary: t rule: hex_bytes.induct)
  case (1 a b r)
  then obtain c d r' where t: "t = c # d # r'" by (auto simp: length_Suc_conv Suc_length_conv)
  have h: "is_hex_char a" "is_hex_char b" "is_hex_char c" "is_hex_char d"
    using "1.prems" t by simp_all
  from hex_pair_inject [OF h] "1.prems" t
  have eq: "a = c" "b = d" "hex_bytes r = hex_bytes r'" by auto
  obtain va vb where "hex_val a = Some va" "hex_val b = Some vb"
    by (rule hex_bytes_pair [OF h(1,2)])
  then have "r = r'" using "1.IH" "1.prems" t eq by auto
  with eq t show ?case by simp
qed auto

lemma hex_bytes_inject_64: "is_hex64 s \<Longrightarrow> is_hex64 t \<Longrightarrow> hex_bytes s = hex_bytes t \<Longrightarrow> s = t"
  by (rule hex_bytes_inject) (auto simp: is_hex64_def)

end
