(* ===== verification/Json_Canon.thy ===== *)
theory Json_Canon
  imports Helm_Prelude "HOL-Library.List_Lexorder" "HOL-Library.Char_ord" "HOL-Library.Multiset"
begin

text \<open>
  JSON values and the frozen record canonicalisation of \<^verbatim>\<open>hub/record-canon-v1.mjs\<close>, over whose
  output every stored Helm record is hashed.

  An object is the list of its own members in enumeration order; a member whose value is
  \<open>undefined\<close> is an absent member, which is what \<open>JSON.stringify\<close> makes of it. Numbers are the
  integers of JSON (the records of the hub hold no fractions).
\<close>

datatype json =
    JNull
  | JBool bool
  | JNum int
  | JStr string
  | JArr "json list"
  | JObj "(string \<times> json) list"

subsection \<open>Member access of the language\<close>

fun jget :: "json \<Rightarrow> string \<Rightarrow> json option" where
  "jget (JObj kvs) k = map_of kvs k"
| "jget _ _ = None"

definition jget_opt :: "json option \<Rightarrow> string \<Rightarrow> json option" where
  \<comment> \<open>optional chaining: \<open>x?.k\<close>\<close>
  "jget_opt x k = Option.bind x (\<lambda>v. jget v k)"

fun js_truthy :: "json option \<Rightarrow> bool" where
  "js_truthy None = False"
| "js_truthy (Some JNull) = False"
| "js_truthy (Some (JBool b)) = b"
| "js_truthy (Some (JNum n)) = (n \<noteq> 0)"
| "js_truthy (Some (JStr s)) = (s \<noteq> [])"
| "js_truthy (Some _) = True"

fun js_nullish :: "json option \<Rightarrow> bool" where
  "js_nullish None = True"
| "js_nullish (Some JNull) = True"
| "js_nullish _ = False"

text \<open>\<open>x ?? []\<close> for a member that is an array when it is there.\<close>

fun jarr_or_empty :: "json option \<Rightarrow> json list" where
  "jarr_or_empty (Some (JArr xs)) = xs"
| "jarr_or_empty _ = []"

fun jstr_of :: "json option \<Rightarrow> string option" where
  "jstr_of (Some (JStr s)) = Some s"
| "jstr_of _ = None"

text \<open>Object spread \<open>{...a, ...b}\<close> : later members replace the value of earlier ones.\<close>

definition jspread :: "(string \<times> json) list \<Rightarrow> (string \<times> json) list \<Rightarrow> (string \<times> json) list" where
  "jspread a b = fold (\<lambda>(k, v). AList.update k v) b a"

lemma map_of_jspread: "distinct (map fst b) \<Longrightarrow> map_of (jspread a b) = map_of a ++ map_of b"
proof (induction b arbitrary: a)
  case Nil
  then show ?case by (simp add: jspread_def)
next
  case (Cons p b)
  obtain k v where p: "p = (k, v)" by (cases p)
  have "map_of (jspread a (p # b)) = map_of (jspread (AList.update k v a) b)"
    by (simp add: jspread_def p)
  also have "\<dots> = map_of (AList.update k v a) ++ map_of b" using Cons by simp
  also have "\<dots> = map_of a ++ map_of (p # b)"
  proof (rule ext)
    fix x
    have "map_of b k = None" using Cons.prems by (simp add: p map_of_eq_None_iff)
    then show "(map_of (AList.update k v a) ++ map_of b) x = (map_of a ++ map_of (p # b)) x"
      by (auto simp: p update_conv' map_add_def split: option.splits)
  qed
  finally show ?case .
qed

subsection \<open>Canonicalisation v1\<close>

text \<open>
  The enumeration order of an object built by assigning its members one after another:
  array-index names first in numeric order, then the other names in order of assignment.
\<close>

definition is_array_index :: "string \<Rightarrow> bool" where
  "is_array_index k \<longleftrightarrow> k \<noteq> [] \<and> list_all is_digit k \<and> (k = ''0'' \<or> hd k \<noteq> CHR ''0'')
     \<and> read_nat k < 4294967295"

definition enum_order :: "(string \<times> 'a) list \<Rightarrow> (string \<times> 'a) list" where
  "enum_order kvs =
     sort_key (\<lambda>p. read_nat (fst p)) (filter (\<lambda>p. is_array_index (fst p)) kvs)
     @ filter (\<lambda>p. \<not> is_array_index (fst p)) kvs"

text \<open>
  \<open>Object.keys(v).sort().reduce((o, k) => (o[k] = cgCanonV1(v[k]), o), {})\<close>: the members in
  sorted order are assigned to a fresh object; an assignment to \<open>__proto__\<close> makes no own member.
\<close>

definition canon_members :: "(string \<times> 'a) list \<Rightarrow> (string \<times> 'a) list" where
  "canon_members kvs = enum_order (filter (\<lambda>p. fst p \<noteq> ''__proto__'') (sort_key fst kvs))"

fun cgCanonV1 :: "json \<Rightarrow> json" where
  "cgCanonV1 (JArr xs) = JArr (map cgCanonV1 xs)"
| "cgCanonV1 (JObj kvs) = JObj (canon_members (map (\<lambda>(k, v). (k, cgCanonV1 v)) kvs))"
| "cgCanonV1 v = v"

subsection \<open>Serialisation\<close>

definition hex_digit :: "nat \<Rightarrow> char" where
  "hex_digit d = (if d < 10 then char_of (48 + d) else char_of (87 + d))"

definition esc_char :: "char \<Rightarrow> string" where
  "esc_char c = (let n = of_char c :: nat in
     if n = 34 then [CHR 0x5C, CHR 0x22]
     else if n = 92 then [CHR 0x5C, CHR 0x5C]
     else if n = 8 then [CHR 0x5C, CHR ''b'']
     else if n = 9 then [CHR 0x5C, CHR ''t'']
     else if n = 10 then [CHR 0x5C, CHR ''n'']
     else if n = 12 then [CHR 0x5C, CHR ''f'']
     else if n = 13 then [CHR 0x5C, CHR ''r'']
     else if n < 32 then [CHR 0x5C, CHR ''u'', CHR ''0'', CHR ''0'', hex_digit (n div 16), hex_digit (n mod 16)]
     else [c])"

definition esc_str :: "string \<Rightarrow> string" where
  "esc_str s = concat (map esc_char s)"

definition quote_str :: "string \<Rightarrow> string" where
  "quote_str s = CHR 0x22 # esc_str s @ [CHR 0x22]"

fun join_with :: "string \<Rightarrow> string list \<Rightarrow> string" where
  "join_with sep [] = []"
| "join_with sep [x] = x"
| "join_with sep (x # y # ys) = x @ sep @ join_with sep (y # ys)"

fun json_stringify :: "json \<Rightarrow> string" where
  "json_stringify JNull = ''null''"
| "json_stringify (JBool b) = (if b then ''true'' else ''false'')"
| "json_stringify (JNum n) = show_int n"
| "json_stringify (JStr s) = quote_str s"
| "json_stringify (JArr xs) = CHR ''['' # join_with '','' (map json_stringify xs) @ '']''"
| "json_stringify (JObj kvs) =
     CHR ''{'' # join_with '','' (map (\<lambda>(k, v). quote_str k @ '':'' @ json_stringify v) kvs) @ ''}''"

definition recordCanonV1 :: "json \<Rightarrow> string" where
  "recordCanonV1 x = json_stringify (cgCanonV1 x)"

subsection \<open>Serialisation is injective\<close>

text \<open>
  Unique decoding: a serialised value followed by anything that starts with a delimiter
  (or by nothing) determines the value and the rest.
\<close>

definition is_delim :: "char \<Rightarrow> bool" where
  "is_delim c \<longleftrightarrow> c = CHR '','' \<or> c = CHR '']'' \<or> c = CHR ''}''"

definition delimited :: "string \<Rightarrow> bool" where
  "delimited r \<longleftrightarrow> (case r of [] \<Rightarrow> True | c # _ \<Rightarrow> is_delim c)"

lemma delimited_simps [simp]:
  "delimited []" "delimited (CHR '','' # r)" "delimited (CHR '']'' # r)" "delimited (CHR ''}'' # r)"
  by (simp_all add: delimited_def is_delim_def)

lemma hex_val_hex_digit: "d < 16 \<Longrightarrow> hex_val (hex_digit d) = Some d"
  by (auto simp: hex_digit_def hex_val_def Let_def of_char_of)

lemma esc_char_shape:
  "esc_char c = [c] \<and> of_char c \<noteq> (34::nat) \<and> of_char c \<noteq> (92::nat)
   \<or> (\<exists>e u. esc_char c = CHR 0x5C # e # u)"
  by (auto simp: esc_char_def Let_def)

lemma esc_char_hd: "\<exists>h t. esc_char c = h # t \<and> h \<noteq> CHR 0x22"
  using esc_char_shape [of c] by auto

text \<open>The escape of one character can be read back, which makes it injective.\<close>

fun unesc :: "string \<Rightarrow> char \<times> string" where
  "unesc (c # r) =
     (if c = CHR 0x5C then
        (case r of
           [] \<Rightarrow> (c, r)
         | e # r' \<Rightarrow>
             if e = CHR ''b'' then (CHR 0x08, r')
             else if e = CHR ''t'' then (CHR 0x09, r')
             else if e = CHR ''n'' then (CHR 0x0A, r')
             else if e = CHR ''f'' then (CHR 0x0C, r')
             else if e = CHR ''r'' then (CHR 0x0D, r')
             else if e = CHR ''u'' then
               (char_of (16 * the (hex_val (r' ! 2)) + the (hex_val (r' ! 3))), drop 4 r')
             else (e, r'))
      else (c, r))"
| "unesc [] = (CHR 0x00, [])"

lemma unesc_esc_char: "unesc (esc_char c @ u) = (c, u)"
proof -
  consider (special) "of_char c \<in> {34, 92, 8, 9, 10, 12, 13 :: nat}"
    | (ctl) "of_char c \<notin> {34, 92, 8, 9, 10, 12, 13 :: nat}" "of_char c < (32::nat)"
    | (plain) "of_char c \<notin> {34, 92, 8, 9, 10, 12, 13 :: nat}" "\<not> of_char c < (32::nat)"
    by blast
  then show ?thesis
  proof cases
    case special
    then have "(of_char c :: nat) \<in> of_char ` {CHR 0x22, CHR 0x5C, CHR 0x08, CHR 0x09, CHR 0x0A, CHR 0x0C, CHR 0x0D}"
      by simp
    then have "c \<in> {CHR 0x22, CHR 0x5C, CHR 0x08, CHR 0x09, CHR 0x0A, CHR 0x0C, CHR 0x0D}"
      by (simp only: inj_image_mem_iff [OF inj_of_char])
    then show ?thesis by (auto simp: esc_char_def Let_def)
  next
    case ctl
    let ?n = "of_char c :: nat"
    have "hex_val (hex_digit (?n div 16)) = Some (?n div 16)"
      using ctl(2) by (intro hex_val_hex_digit) linarith
    moreover have "hex_val (hex_digit (?n mod 16)) = Some (?n mod 16)"
      by (intro hex_val_hex_digit) simp
    moreover have "16 * (?n div 16) + ?n mod 16 = ?n" by simp
    ultimately show ?thesis using ctl by (simp add: esc_char_def Let_def)
  next
    case plain
    then have "esc_char c = [c]" by (simp add: esc_char_def Let_def)
    moreover have "c \<noteq> CHR 0x5C" using plain(1) by auto
    ultimately show ?thesis by simp
  qed
qed

lemma esc_char_decode: "esc_char c @ u = esc_char d @ v \<Longrightarrow> c = d \<and> u = v"
  by (metis unesc_esc_char prod.inject)

lemma esc_str_decode:
  "esc_str x @ CHR 0x22 # r = esc_str y @ CHR 0x22 # s \<Longrightarrow> x = y \<and> r = s"
proof (induction x arbitrary: y)
  case Nil
  then show ?case
  proof (cases y)
    case (Cons d y')
    with Nil esc_char_hd [of d] show ?thesis by (auto simp: esc_str_def)
  qed (simp add: esc_str_def)
next
  case (Cons c x)
  show ?case
  proof (cases y)
    case Nil
    with Cons.prems esc_char_hd [of c] show ?thesis by (auto simp: esc_str_def)
  next
    case (Cons d y')
    with Cons.prems have "esc_char c @ (esc_str x @ CHR 0x22 # r) = esc_char d @ (esc_str y' @ CHR 0x22 # s)"
      by (simp add: esc_str_def)
    from esc_char_decode [OF this] have "c = d" and "esc_str x @ CHR 0x22 # r = esc_str y' @ CHR 0x22 # s"
      by auto
    with Cons.IH Cons show ?thesis by blast
  qed
qed

lemma quote_str_decode: "quote_str x @ r = quote_str y @ s \<Longrightarrow> x = y \<and> r = s"
  using esc_str_decode [of x r y s] by (simp add: quote_str_def)

lemma not_is_delim_digit: "is_digit c \<Longrightarrow> \<not> is_delim c"
  by (auto simp: is_digit_def is_delim_def)

lemma show_int_no_delim: "c \<in> set (show_int i) \<Longrightarrow> \<not> is_delim c"
proof -
  assume "c \<in> set (show_int i)"
  then have "c = CHR ''-'' \<or> is_digit c"
    using show_nat_digits by (auto simp: show_int_def split: if_splits)
  then show ?thesis using not_is_delim_digit by (auto simp: is_delim_def)
qed

lemma show_int_decode:
  assumes "show_int i @ r = show_int j @ s" "delimited r" "delimited s"
  shows "i = j \<and> r = s"
proof -
  have tw: "takeWhile (\<lambda>c. \<not> is_delim c) (show_int k @ t) = show_int k" if "delimited t" for k t
    using that by (cases t) (auto simp: takeWhile_append2 show_int_no_delim delimited_def)
  have "show_int i = show_int j" using tw [OF assms(2), of i] tw [OF assms(3), of j] assms(1) by simp
  with assms(1) show ?thesis by simp
qed

lemma show_int_hd: "\<exists>h t. show_int i = h # t \<and> (is_digit h \<or> h = CHR ''-'')"
proof (cases "i < 0")
  case False
  have "show_nat (nat i) \<noteq> []" by simp
  then obtain h t where "show_nat (nat i) = h # t" by (cases "show_nat (nat i)") auto
  with False show_nat_hd_digit [of "nat i"] show ?thesis by (auto simp: show_int_def)
qed (simp add: show_int_def)

text \<open>The first character tells the constructor.\<close>

fun json_head :: "json \<Rightarrow> char \<Rightarrow> bool" where
  "json_head JNull c = (c = CHR ''n'')"
| "json_head (JBool b) c = (if b then c = CHR ''t'' else c = CHR ''f'')"
| "json_head (JNum n) c = (is_digit c \<or> c = CHR ''-'')"
| "json_head (JStr s) c = (c = CHR 0x22)"
| "json_head (JArr xs) c = (c = CHR ''['')"
| "json_head (JObj kvs) c = (c = CHR ''{'')"

lemma json_stringify_head: "\<exists>h t. json_stringify j = h # t \<and> json_head j h"
  using show_int_hd by (cases j) (auto simp: quote_str_def)

lemma json_head_not_close: "json_head j c \<Longrightarrow> c \<noteq> CHR '']''"
  by (cases j) (auto simp: is_digit_def split: if_splits)

text \<open>A comma-separated list of parts, each uniquely decodable, is uniquely decodable.\<close>

lemma join_with_decode:
  assumes "\<And>x y r s. x \<in> set xs \<Longrightarrow> f x @ r = f y @ s \<Longrightarrow> delimited r \<Longrightarrow> delimited s \<Longrightarrow> x = y \<and> r = s"
    and "\<And>x. \<exists>h t. f x = h # t \<and> h \<noteq> c"
    and "c \<noteq> CHR '',''" and "\<And>r. delimited (c # r)"
  shows "join_with '','' (map f xs) @ c # r = join_with '','' (map f ys) @ c # s \<Longrightarrow> xs = ys \<and> r = s"
  using assms(1)
proof (induction xs arbitrary: ys)
  case Nil
  show ?case
  proof (cases ys)
    case (Cons y ys')
    obtain h t where "f y = h # t" "h \<noteq> c" using assms(2) by blast
    with Nil.prems(1) Cons show ?thesis by (cases ys') auto
  qed (use Nil in auto)
next
  case (Cons x xs)
  show ?case
  proof (cases ys)
    case Nil
    obtain h t where "f x = h # t" "h \<noteq> c" using assms(2) by blast
    with Cons.prems(1) Nil show ?thesis by (cases xs) auto
  next
    case ys: (Cons y ys')
    let ?rest = "\<lambda>zs r. (case zs of [] \<Rightarrow> c # r | _ \<Rightarrow> CHR '','' # join_with '','' (map f zs) @ c # r)"
    have split: "join_with '','' (map f (z # zs)) @ c # r = f z @ ?rest zs r" for z zs r
      by (cases zs) auto
    have delim: "delimited (?rest zs r)" for zs r
      using assms(4) by (cases zs) auto
    from Cons.prems(1) ys split have "f x @ ?rest xs r = f y @ ?rest ys' s" by metis
    from Cons.prems(2) [OF _ this delim delim] have xy: "x = y" and eq: "?rest xs r = ?rest ys' s" by auto
    have "xs = ys' \<and> r = s"
    proof (cases "xs = [] \<or> ys' = []")
      case True
      with eq assms(3) show ?thesis by (auto split: list.splits)
    next
      case False
      with eq have "join_with '','' (map f xs) @ c # r = join_with '','' (map f ys') @ c # s"
        by (auto split: list.splits)
      with Cons.IH Cons.prems(2) show ?thesis by (meson list.set_intros(2))
    qed
    with xy ys show ?thesis by simp
  qed
qed

lemma json_stringify_decode:
  "json_stringify x @ r = json_stringify y @ s \<Longrightarrow> delimited r \<Longrightarrow> delimited s \<Longrightarrow> x = y \<and> r = s"
proof (induction x arbitrary: y r s)
  case (JArr xs)
  obtain h t where "json_stringify y = h # t" "json_head y h" using json_stringify_head by blast
  with JArr.prems(1) obtain ys where y: "y = JArr ys"
    by (cases y) (auto simp: is_digit_def split: if_splits)
  have "join_with '','' (map json_stringify xs) @ CHR '']'' # r
      = join_with '','' (map json_stringify ys) @ CHR '']'' # s"
    using JArr.prems(1) y by simp
  moreover have "\<exists>h t. json_stringify z = h # t \<and> h \<noteq> CHR '']''" for z
    using json_stringify_head [of z] json_head_not_close by blast
  ultimately show ?case
    using join_with_decode [of xs json_stringify "CHR '']''" r ys s] JArr.IH y by simp
next
  case (JObj kvs)
  obtain h t where "json_stringify y = h # t" "json_head y h" using json_stringify_head by blast
  with JObj.prems(1) obtain kvs' where y: "y = JObj kvs'"
    by (cases y) (auto simp: is_digit_def split: if_splits)
  let ?f = "\<lambda>(k, v). quote_str k @ '':'' @ json_stringify v"
  have "join_with '','' (map ?f kvs) @ CHR ''}'' # r = join_with '','' (map ?f kvs') @ CHR ''}'' # s"
    using JObj.prems(1) y by simp
  moreover have "\<exists>h t. ?f z = h # t \<and> h \<noteq> CHR ''}''" for z
    by (cases z) (auto simp: quote_str_def)
  moreover have "z = z' \<and> u = v"
    if "z \<in> set kvs" "?f z @ u = ?f z' @ v" "delimited u" "delimited v" for z z' u v
  proof -
    obtain k j where z: "z = (k, j)" by (cases z)
    obtain k' j' where z': "z' = (k', j')" by (cases z')
    from that(2) z z' have "quote_str k @ (CHR '':'' # json_stringify j @ u)
        = quote_str k' @ (CHR '':'' # json_stringify j' @ v)" by simp
    from quote_str_decode [OF this] have "k = k'" "json_stringify j @ u = json_stringify j' @ v" by auto
    moreover have "j \<in> Basic_BNFs.snds z" using z by simp
    ultimately show ?thesis using JObj.IH [OF that(1)] that(3,4) z z' by blast
  qed
  ultimately show ?case
    using join_with_decode [of kvs ?f "CHR ''}''" r kvs' s] y by simp
next
  case (JStr x)
  obtain h t where hy: "json_stringify y = h # t" "json_head y h" using json_stringify_head by blast
  from JStr.prems(1) hy(1) have "h = CHR 0x22" by (simp add: quote_str_def)
  with hy(2) obtain z where "y = JStr z"
    by (cases y) (auto simp: is_digit_def split: if_splits)
  with JStr.prems(1) quote_str_decode [of x r z s] show ?case by simp
next
  case (JNum n)
  obtain h t where hy: "json_stringify y = h # t" "json_head y h" using json_stringify_head by blast
  obtain h' t' where hn: "show_int n = h' # t'" "is_digit h' \<or> h' = CHR ''-''" using show_int_hd by blast
  from JNum.prems(1) hy hn have "h = h'" by simp
  with hy(2) hn(2) obtain m where "y = JNum m"
    by (cases y) (auto simp: is_digit_def split: if_splits)
  with JNum.prems show_int_decode [of n r m s] show ?case by simp
next
  case (JBool b)
  obtain h t where "json_stringify y = h # t" "json_head y h" using json_stringify_head by blast
  with JBool.prems(1) show ?case by (cases y) (auto simp: is_digit_def split: if_splits)
next
  case JNull
  obtain h t where "json_stringify y = h # t" "json_head y h" using json_stringify_head by blast
  with JNull.prems(1) show ?case by (cases y) (auto simp: is_digit_def split: if_splits)
qed

lemma json_stringify_inject [simp]: "json_stringify x = json_stringify y \<longleftrightarrow> x = y"
  using json_stringify_decode [of x "[]" y "[]"] by auto

lemma recordCanonV1_eq_iff: "recordCanonV1 x = recordCanonV1 y \<longleftrightarrow> cgCanonV1 x = cgCanonV1 y"
  by (simp add: recordCanonV1_def)

subsection \<open>What canonicalisation identifies\<close>

text \<open>
  \<open>same_json\<close> is equality up to the order of members, at every depth.
\<close>

inductive same_json :: "json \<Rightarrow> json \<Rightarrow> bool" where
  same_refl: "same_json x x"
| same_sym: "same_json x y \<Longrightarrow> same_json y x"
| same_trans: "same_json x y \<Longrightarrow> same_json y z \<Longrightarrow> same_json x z"
| same_elems: "list_all2 same_json xs ys \<Longrightarrow> same_json (JArr xs) (JArr ys)"
| same_members: "list_all2 (\<lambda>p q. fst p = fst q \<and> same_json (snd p) (snd q)) kvs kvs'
    \<Longrightarrow> same_json (JObj kvs) (JObj kvs')"
| same_reorder: "mset kvs = mset kvs' \<Longrightarrow> distinct (map fst kvs) \<Longrightarrow> same_json (JObj kvs) (JObj kvs')"

text \<open>No member of the value is called \<open>__proto__\<close>, and no object has a member twice.\<close>

fun plain_json :: "json \<Rightarrow> bool" where
  "plain_json (JArr xs) = list_all plain_json xs"
| "plain_json (JObj kvs) =
     (distinct (map fst kvs) \<and> list_all (\<lambda>(k, v). k \<noteq> ''__proto__'' \<and> plain_json v) kvs)"
| "plain_json _ = True"

lemma mset_enum_order: "mset (enum_order kvs) = mset kvs"
  unfolding enum_order_def by (simp flip: multiset_partition)

lemma mset_canon_members:
  "mset (canon_members kvs) = mset (filter (\<lambda>p. fst p \<noteq> ''__proto__'') kvs)"
  by (simp add: canon_members_def mset_enum_order)

lemma distinct_fst_mset:
  assumes "mset xs = mset ys"
  shows "distinct (map fst xs) = distinct (map fst ys)"
proof -
  from assms have "mset (map fst xs) = mset (map fst ys)" by simp
  then show ?thesis by (rule mset_eq_imp_distinct_iff)
qed

lemma sort_key_unique:
  fixes kvs :: "(string \<times> 'a) list"
  assumes "mset kvs = mset kvs'" and "distinct (map fst kvs)"
  shows "sort_key fst kvs = sort_key fst kvs'"
proof -
  have d': "distinct (map fst kvs')"
    using assms by (simp add: distinct_fst_mset [of kvs kvs'])
  have s: "set kvs = set kvs'" using assms(1) by (rule mset_eq_setD)
  have "inj_on fst (set kvs \<union> set kvs')"
    using assms(2) s by (simp add: distinct_map)
  moreover have "distinct (map fst (sort_key fst zs)) = distinct (map fst zs)" for zs :: "(string \<times> 'a) list"
    by (rule distinct_fst_mset) simp
  ultimately show ?thesis
    using map_sorted_distinct_set_unique [of fst "sort_key fst kvs" "sort_key fst kvs'"] assms(2) d' s
    by simp
qed

lemma canon_members_unique:
  "mset kvs = mset kvs' \<Longrightarrow> distinct (map fst kvs) \<Longrightarrow> canon_members kvs = canon_members kvs'"
  by (simp add: canon_members_def sort_key_unique [of kvs kvs'])

lemma fst_comp_map_member [simp]: "fst \<circ> (\<lambda>(k, v). (k, f v)) = fst"
  by auto

lemma cgCanonV1_same: "same_json x y \<Longrightarrow> cgCanonV1 x = cgCanonV1 y"
proof (induction rule: same_json.induct)
  case (same_elems xs ys)
  then have "map cgCanonV1 xs = map cgCanonV1 ys"
    by (induction rule: list_all2_induct) auto
  then show ?case by simp
next
  case (same_members kvs kvs')
  then have "map (\<lambda>(k, v). (k, cgCanonV1 v)) kvs = map (\<lambda>(k, v). (k, cgCanonV1 v)) kvs'"
    by (induction rule: list_all2_induct) auto
  then show ?case by simp
next
  case (same_reorder kvs kvs')
  let ?g = "\<lambda>(k, v). (k, cgCanonV1 v)"
  from same_reorder have "canon_members (map ?g kvs) = canon_members (map ?g kvs')"
    by (intro canon_members_unique) auto
  then show ?case by simp
qed auto

lemma same_json_canon: "plain_json x \<Longrightarrow> same_json x (cgCanonV1 x)"
proof (induction x)
  case (JArr xs)
  then have "list_all2 same_json xs (map cgCanonV1 xs)"
    by (simp add: list_all2_map2 list_all_iff list_all2_same)
  then show ?case by (simp add: same_json.same_elems)
next
  case (JObj kvs)
  let ?g = "\<lambda>(k, v). (k, cgCanonV1 v)"
  have "list_all2 (\<lambda>p q. fst p = fst q \<and> same_json (snd p) (snd q)) kvs (map ?g kvs)"
    using JObj by (fastforce simp: list_all2_map2 list_all_iff list_all2_same)
  then have 1: "same_json (JObj kvs) (JObj (map ?g kvs))" by (rule same_json.same_members)
  have "filter (\<lambda>p. fst p \<noteq> ''__proto__'') (map ?g kvs) = map ?g kvs"
    using JObj.prems by (auto simp: filter_id_conv list_all_iff)
  then have "mset (map ?g kvs) = mset (canon_members (map ?g kvs))"
    by (simp only: mset_canon_members)
  then have 2: "same_json (JObj (map ?g kvs)) (JObj (canon_members (map ?g kvs)))"
    using JObj.prems by (intro same_json.same_reorder) auto
  from 1 2 show ?case by (simp add: same_json.same_trans)
qed (auto intro: same_json.same_refl)

subsection \<open>The I-JSON guard in front of every digest\<close>

text \<open>
  \<open>walkIJson\<close> counts the values it has seen and refuses a value that is too deep, too large,
  or holds an integer outside the safe range.
\<close>

datatype ijson_error = TooDeep | TooManyElements | UnsafeInteger int

definition MAX_DEPTH :: nat where "MAX_DEPTH = 512"
definition MAX_ELEMENTS :: nat where "MAX_ELEMENTS = 1000000"

fun walkIJson :: "json \<Rightarrow> nat \<Rightarrow> nat \<Rightarrow> ijson_error + nat"
and walk_elements :: "json list \<Rightarrow> nat \<Rightarrow> nat \<Rightarrow> ijson_error + nat"
and walk_members :: "(string \<times> json) list \<Rightarrow> nat \<Rightarrow> nat \<Rightarrow> ijson_error + nat" where
  "walkIJson v depth n =
     (if depth > MAX_DEPTH then Inl TooDeep
      else if Suc n > MAX_ELEMENTS then Inl TooManyElements
      else case v of
             JNum i \<Rightarrow> if abs i > 9007199254740991 then Inl (UnsafeInteger i) else Inr (Suc n)
           | JArr xs \<Rightarrow> walk_elements xs (Suc depth) (Suc n)
           | JObj kvs \<Rightarrow> walk_members kvs (Suc depth) (Suc n)
           | _ \<Rightarrow> Inr (Suc n))"
| "walk_elements [] depth n = Inr n"
| "walk_elements (x # xs) depth n = and_then (walkIJson x depth n) (\<lambda>n'. walk_elements xs depth n')"
| "walk_members [] depth n = Inr n"
| "walk_members ((k, v) # kvs) depth n = and_then (walkIJson v depth n) (\<lambda>n'. walk_members kvs depth n')"

declare walkIJson.simps [simp del]

definition assertIJson :: "json \<Rightarrow> ijson_error + unit" where
  "assertIJson v = and_then (walkIJson v 1 0) (\<lambda>_. Inr ())"

definition ijson_ok :: "json \<Rightarrow> bool" where
  "ijson_ok v \<longleftrightarrow> assertIJson v = Inr ()"

text \<open>
  The digest of a record: \<open>sha\<close> is SHA-256 in lowercase hexadecimal, a parameter of the
  development. \<open>hex_digest_fun\<close> is what is relied on: 64 lowercase hexadecimal digits.
\<close>

definition hex_digest_fun :: "(string \<Rightarrow> string) \<Rightarrow> bool" where
  "hex_digest_fun sha \<longleftrightarrow> (\<forall>x. is_hex64 (sha x))"

definition collides :: "(string \<Rightarrow> string) \<Rightarrow> string \<Rightarrow> string \<Rightarrow> bool" where
  "collides sha x y \<longleftrightarrow> x \<noteq> y \<and> sha x = sha y"

definition jcsDigestHex :: "(string \<Rightarrow> string) \<Rightarrow> json \<Rightarrow> ijson_error + string" where
  "jcsDigestHex sha obj = and_then (assertIJson obj) (\<lambda>_. Inr (sha (recordCanonV1 obj)))"

definition sha256ref :: "string \<Rightarrow> string" where
  "sha256ref hex = ''sha256:'' @ hex"

lemma sha256ref_inject [simp]: "sha256ref a = sha256ref b \<longleftrightarrow> a = b"
  by (simp add: sha256ref_def)

lemma jcsDigestHex_Inr [simp]:
  "jcsDigestHex sha obj = Inr d \<longleftrightarrow> ijson_ok obj \<and> d = sha (recordCanonV1 obj)"
  by (auto simp: jcsDigestHex_def ijson_ok_def)

subsection \<open>The guard in closed form\<close>

fun jcount :: "json \<Rightarrow> nat" where
  "jcount (JArr xs) = Suc (sum_list (map jcount xs))"
| "jcount (JObj kvs) = Suc (sum_list (map (\<lambda>(k, v). jcount v) kvs))"
| "jcount _ = 1"

fun shape_ok :: "json \<Rightarrow> nat \<Rightarrow> bool" where
  "shape_ok (JArr xs) d = (d \<le> MAX_DEPTH \<and> list_all (\<lambda>x. shape_ok x (Suc d)) xs)"
| "shape_ok (JObj kvs) d = (d \<le> MAX_DEPTH \<and> list_all (\<lambda>(k, v). shape_ok v (Suc d)) kvs)"
| "shape_ok (JNum i) d = (d \<le> MAX_DEPTH \<and> abs i \<le> 9007199254740991)"
| "shape_ok _ d = (d \<le> MAX_DEPTH)"

lemma walkIJson_iff:
  "walkIJson v d n = Inr m \<longleftrightarrow> shape_ok v d \<and> n + jcount v \<le> MAX_ELEMENTS \<and> m = n + jcount v"
  "n \<le> MAX_ELEMENTS \<Longrightarrow> walk_elements xs d n = Inr m \<longleftrightarrow>
     list_all (\<lambda>x. shape_ok x d) xs \<and> n + sum_list (map jcount xs) \<le> MAX_ELEMENTS
     \<and> m = n + sum_list (map jcount xs)"
  "n \<le> MAX_ELEMENTS \<Longrightarrow> walk_members kvs d n = Inr m \<longleftrightarrow>
     list_all (\<lambda>(k, v). shape_ok v d) kvs \<and> n + sum_list (map (\<lambda>(k, v). jcount v) kvs) \<le> MAX_ELEMENTS
     \<and> m = n + sum_list (map (\<lambda>(k, v). jcount v) kvs)"
proof (induction v d n and xs d n and kvs d n arbitrary: m and m and m
    rule: walkIJson_walk_elements_walk_members.induct)
  case (1 v depth n)
  show ?case
    by (subst walkIJson.simps) (use 1 in \<open>cases v; auto simp: Suc_le_eq\<close>)
qed auto

lemma ijson_ok_iff: "ijson_ok v \<longleftrightarrow> shape_ok v 1 \<and> jcount v \<le> MAX_ELEMENTS"
  by (simp add: ijson_ok_def assertIJson_def walkIJson_iff)

lemma sum_list_mset_cong:
  fixes g :: "'a \<Rightarrow> nat"
  assumes "mset xs = mset ys"
  shows "sum_list (map g xs) = sum_list (map g ys)"
proof -
  from assms have "mset (map g xs) = mset (map g ys)" by simp
  then have "sum_mset (mset (map g xs)) = sum_mset (mset (map g ys))" by (rule arg_cong)
  then show ?thesis by (simp only: sum_mset_sum_list)
qed

lemma sum_list_canon:
  fixes g :: "string \<times> 'a \<Rightarrow> nat"
  shows "sum_list (map g (canon_members kvs)) \<le> sum_list (map g kvs)"
  using sum_list_mset_cong [OF mset_canon_members [of kvs], of g]
    sum_list_filter_le_nat [of g "\<lambda>p. fst p \<noteq> ''__proto__''" kvs] by simp

lemma set_canon_members: "set (canon_members kvs) = {p \<in> set kvs. fst p \<noteq> ''__proto__''}"
  using mset_eq_setD [OF mset_canon_members [of kvs]] by auto

lemma jcount_canon: "jcount (cgCanonV1 v) \<le> jcount v"
proof (induction v)
  case (JArr xs)
  then show ?case by (auto intro!: sum_list_mono simp: comp_def)
next
  case (JObj kvs)
  let ?g = "\<lambda>(k, v). (k, cgCanonV1 v)"
  have "sum_list (map (\<lambda>(k, v). jcount v) (canon_members (map ?g kvs)))
      \<le> sum_list (map (\<lambda>(k, v). jcount v) (map ?g kvs))"
    by (rule sum_list_canon)
  also have "\<dots> \<le> sum_list (map (\<lambda>(k, v). jcount v) kvs)"
    unfolding map_map
  proof (rule sum_list_mono)
    fix p assume "p \<in> set kvs"
    with JObj show "((\<lambda>(k, v). jcount v) \<circ> ?g) p \<le> (\<lambda>(k, v). jcount v) p" by (cases p) auto
  qed
  finally show ?case by simp
qed auto

lemma shape_ok_canon: "shape_ok v d \<Longrightarrow> shape_ok (cgCanonV1 v) d"
proof (induction v arbitrary: d)
  case (JArr xs)
  then show ?case by (auto simp: list_all_iff)
next
  case (JObj kvs)
  then show ?case by (fastforce simp: list_all_iff set_canon_members)
qed auto

lemma ijson_ok_canon: "ijson_ok v \<Longrightarrow> ijson_ok (cgCanonV1 v)"
  using jcount_canon [of v] by (auto simp: ijson_ok_iff shape_ok_canon)

lemma cgCanonV1_idem: "plain_json x \<Longrightarrow> cgCanonV1 (cgCanonV1 x) = cgCanonV1 x"
  using cgCanonV1_same [OF same_json_canon] by simp

lemma jget_canon:
  assumes "distinct (map fst kvs)" and "k \<noteq> ''__proto__''"
  shows "jget (cgCanonV1 (JObj kvs)) k = map_option cgCanonV1 (map_of kvs k)"
proof -
  let ?g = "\<lambda>(k, v). (k, cgCanonV1 v)"
  let ?c = "canon_members (map ?g kvs)"
  have "mset ?c = mset (filter (\<lambda>p. fst p \<noteq> ''__proto__'') (map ?g kvs))" by (rule mset_canon_members)
  moreover have "distinct (map fst (filter (\<lambda>p. fst p \<noteq> ''__proto__'') (map ?g kvs)))"
    using assms(1) by (intro distinct_map_filter) simp
  ultimately have d1: "distinct (map fst ?c)" using distinct_fst_mset by blast
  have d2: "distinct (map fst (map ?g kvs))" using assms(1) by simp
  have "map_of ?c k = Some v \<longleftrightarrow> map_of (map ?g kvs) k = Some v" for v
    unfolding map_of_eq_Some_iff [OF d1] map_of_eq_Some_iff [OF d2]
    using assms(2) by (simp only: set_canon_members mem_Collect_eq fst_conv simp_thms)
  then have "map_of ?c k = map_of (map ?g kvs) k"
    by (metis option.exhaust)
  also have "\<dots> = map_option cgCanonV1 (map_of kvs k)" by (simp add: map_of_map)
  finally show ?thesis by simp
qed

subsection \<open>Property\<close>

text \<open>C8. Two JSON values without repeated or \<open>__proto__\<close> members have the same canonical bytes
  exactly when they are equal up to the order of object members: the digest of a record is a
  function of its content, and different contents are never serialised alike.\<close>

theorem canonical_bytes_iff_same_content:
  assumes "plain_json x" and "plain_json y"
  shows "recordCanonV1 x = recordCanonV1 y \<longleftrightarrow> same_json x y"
proof
  assume "recordCanonV1 x = recordCanonV1 y"
  then have "cgCanonV1 x = cgCanonV1 y" by (simp add: recordCanonV1_eq_iff)
  then show "same_json x y"
    using same_json_canon [OF assms(1)] same_json_canon [OF assms(2)]
    by (metis same_json.same_sym same_json.same_trans)
qed (simp add: recordCanonV1_eq_iff cgCanonV1_same)

lemma canonical_bytes_iff_same_content_witness:
  "recordCanonV1 (JObj [(''b'', JNum 1), (''a'', JArr [JNull])])
     = recordCanonV1 (JObj [(''a'', JArr [JNull]), (''b'', JNum 1)])"
proof -
  have "same_json (JObj [(''b'', JNum 1), (''a'', JArr [JNull])]) (JObj [(''a'', JArr [JNull]), (''b'', JNum 1)])"
    by (intro same_json.same_reorder) simp_all
  then show ?thesis by (subst canonical_bytes_iff_same_content) simp_all
qed

end
