(* ===== verification/Js_Values.thy ===== *)
theory Js_Values
  imports Json_Canon
begin

text \<open>
  What the hub's code does with values whose type it does not check: template strings, iteration,
  property access on \<open>null\<close>, the identity that \<open>===\<close>, \<open>Set\<close> and \<open>Map\<close> use. An absent member is
  \<open>None\<close>; a \<open>TypeError\<close> is an error value that each component supplies.
\<close>

subsection \<open>Conversion to a string\<close>

fun js_string :: "json \<Rightarrow> string" where
  "js_string JNull = ''null''"
| "js_string (JBool b) = (if b then ''true'' else ''false'')"
| "js_string (JNum n) = show_int n"
| "js_string (JStr s) = s"
| "js_string (JArr xs) = join_with '','' (map (\<lambda>x. if x = JNull then [] else js_string x) xs)"
| "js_string (JObj _) = ''[object Object]''"

fun js_template :: "json option \<Rightarrow> string" where
  \<comment> \<open>what \<open>${x}\<close> becomes in a template string\<close>
  "js_template None = ''undefined''"
| "js_template (Some v) = js_string v"

subsection \<open>Properties and iteration\<close>

definition jprop :: "'e \<Rightarrow> json \<Rightarrow> string \<Rightarrow> 'e + json option" where
  \<comment> \<open>\<open>v.k\<close>, which throws on \<open>null\<close>\<close>
  "jprop e v k = (if v = JNull then Inl e else Inr (jget v k))"

definition js_iter :: "'e \<Rightarrow> json option \<Rightarrow> 'e + json list" where
  \<comment> \<open>\<open>for (const x of v ?? [])\<close>\<close>
  "js_iter e v =
     (case v of
        None \<Rightarrow> Inr [] | Some JNull \<Rightarrow> Inr []
      | Some (JArr xs) \<Rightarrow> Inr xs
      | Some (JStr s) \<Rightarrow> Inr (map (\<lambda>c. JStr [c]) s)
      | _ \<Rightarrow> Inl e)"

fun js_keys :: "json option \<Rightarrow> string list" where
  \<comment> \<open>\<open>Object.keys(v ?? {})\<close>\<close>
  "js_keys (Some (JObj kvs)) = map fst kvs"
| "js_keys (Some (JArr xs)) = map show_nat [0..<length xs]"
| "js_keys (Some (JStr s)) = map show_nat [0..<length s]"
| "js_keys _ = []"

definition js_index :: "json \<Rightarrow> string \<Rightarrow> json option" where
  \<comment> \<open>\<open>o[k]\<close> for a string key of an object, an array or a string\<close>
  "js_index v k =
     (case v of
        JArr xs \<Rightarrow> if k = ''length'' then Some (JNum (int (length xs)))
                   else if is_array_index k \<and> read_nat k < length xs then Some (xs ! read_nat k) else None
      | JStr s \<Rightarrow> if k = ''length'' then Some (JNum (int (length s)))
                  else if is_array_index k \<and> read_nat k < length s then Some (JStr [s ! read_nat k]) else None
      | _ \<Rightarrow> jget v k)"

fun js_split :: "char \<Rightarrow> string \<Rightarrow> string list" where
  \<comment> \<open>\<open>s.split(c)\<close> for a separator of one character\<close>
  "js_split c [] = [[]]"
| "js_split c (x # s) =
     (if x = c then [] # js_split c s
      else case js_split c s of [] \<Rightarrow> [[x]] | p # ps \<Rightarrow> (x # p) # ps)"

lemma js_split_not_Nil [simp]: "js_split c s \<noteq> []"
  by (induction s) (auto split: list.split)

lemma js_split_join: "join_with [c] (js_split c s) = s"
proof (induction s)
  case (Cons x s)
  then show ?case by (cases "js_split c s"; cases "tl (js_split c s)") auto
qed simp

definition starts_with :: "string \<Rightarrow> string \<Rightarrow> bool" where
  "starts_with s p \<longleftrightarrow> take (length p) s = p"

definition ends_with :: "string \<Rightarrow> string \<Rightarrow> bool" where
  "ends_with s p \<longleftrightarrow> length p \<le> length s \<and> drop (length s - length p) s = p"

definition is_js_space :: "char \<Rightarrow> bool" where
  "is_js_space c \<longleftrightarrow> of_char c \<in> {9, 10, 11, 12, 13, 32, 160 :: nat}"

definition js_trim :: "string \<Rightarrow> string" where
  "js_trim s = rev (dropWhile is_js_space (rev (dropWhile is_js_space s)))"

definition js_entries :: "json \<Rightarrow> (string \<times> json) list" where
  \<comment> \<open>the own enumerable members that \<open>{ ...v }\<close> copies\<close>
  "js_entries v =
     (case v of
        JObj kvs \<Rightarrow> kvs
      | JArr xs \<Rightarrow> map (\<lambda>(i, x). (show_nat i, x)) (List.enumerate 0 xs)
      | JStr s \<Rightarrow> map (\<lambda>(i, c). (show_nat i, JStr [c])) (List.enumerate 0 s)
      | _ \<Rightarrow> [])"

definition js_with :: "json \<Rightarrow> string \<Rightarrow> json \<Rightarrow> json" where
  \<comment> \<open>\<open>{ ...v, [k]: x }\<close>\<close>
  "js_with v k x = JObj (AList.update k x (js_entries v))"

lemma jget_js_with [simp]: "jget (js_with v k x) k' = (if k' = k then Some x else map_of (js_entries v) k')"
  by (simp add: js_with_def update_conv)

lemma js_entries_obj [simp]: "js_entries (JObj kvs) = kvs"
  by (simp add: js_entries_def)

fun is_prim :: "json option \<Rightarrow> bool" where
  "is_prim (Some (JArr _)) = False"
| "is_prim (Some (JObj _)) = False"
| "is_prim _ = True"

definition js_same :: "json option \<Rightarrow> json option \<Rightarrow> bool" where
  \<comment> \<open>\<open>===\<close> of values read from different places of a document: objects are never identical\<close>
  "js_same x y \<longleftrightarrow> is_prim x \<and> x = y"

definition set_has :: "json option list \<Rightarrow> json option \<Rightarrow> bool" where
  "set_has xs v \<longleftrightarrow> list_ex (\<lambda>x. js_same x v) xs"

fun each_err :: "('a \<Rightarrow> 'e + unit) \<Rightarrow> 'a list \<Rightarrow> 'e + unit" where
  "each_err f [] = Inr ()"
| "each_err f (x # xs) = and_then (f x) (\<lambda>_. each_err f xs)"

fun map_err :: "('a \<Rightarrow> 'e + 'b) \<Rightarrow> 'a list \<Rightarrow> 'e + 'b list" where
  "map_err f [] = Inr []"
| "map_err f (x # xs) = and_then (f x) (\<lambda>y. and_then (map_err f xs) (\<lambda>ys. Inr (y # ys)))"

fun find_err :: "('a \<Rightarrow> 'e + bool) \<Rightarrow> 'a list \<Rightarrow> 'e + 'a option" where
  "find_err f [] = Inr None"
| "find_err f (x # xs) = and_then (f x) (\<lambda>b. if b then Inr (Some x) else find_err f xs)"

lemma each_err_Inr [simp]: "each_err f xs = Inr () \<longleftrightarrow> (\<forall>x \<in> set xs. f x = Inr ())"
  by (induction xs) auto

lemma map_err_Inr: "map_err f xs = Inr ys \<longleftrightarrow> list_all2 (\<lambda>x y. f x = Inr y) xs ys"
  by (induction xs arbitrary: ys) (auto simp: list_all2_Cons1)

lemma map_err_length: "map_err f xs = Inr ys \<Longrightarrow> length ys = length xs"
  by (simp add: map_err_Inr list_all2_lengthD)

lemma find_err_SomeD: "find_err f xs = Inr (Some x) \<Longrightarrow> x \<in> set xs \<and> f x = Inr True"
  by (induction xs) (auto split: if_splits)

lemma set_has_prim: "set_has xs v \<Longrightarrow> v \<in> set xs"
  by (auto simp: set_has_def js_same_def list_ex_iff)

lemma set_has_str [simp]: "set_has xs (Some (JStr s)) \<longleftrightarrow> Some (JStr s) \<in> set xs"
  by (auto simp: set_has_def js_same_def list_ex_iff)

subsection \<open>Files of the state directory\<close>

text \<open>A JSON file of the state directory is represented by what \<open>JSON.parse\<close> makes of its text.\<close>

datatype state_file = Missing | Unparsable | Holds json

end
