(* ===== verification/Pairing_Tokens.thy ===== *)
theory Pairing_Tokens
  imports Js_Values
begin

text \<open>
  \<^verbatim>\<open>hub/token.mjs\<close>: the durable bearer token and the four stores of short-lived, single-use
  values (pairing nonces, stream tickets, export tickets, signer-configuration tickets).
  Each store is the module's \<open>Map\<close> from a value to its expiry in milliseconds; the random
  value a mint draws is an argument, as is the clock.
\<close>

subsection \<open>The bearer token\<close>

record token_file =
  tf_content :: string
  tf_mode :: nat

definition loadOrCreateToken :: "token_file option \<Rightarrow> string \<Rightarrow> string \<times> token_file option" where
  "loadOrCreateToken file rand =
     (case file of
        Some f \<Rightarrow> (js_trim (tf_content f), Some (f\<lparr>tf_mode := 384\<rparr>))
      | None \<Rightarrow> (rand, Some \<lparr>tf_content = rand, tf_mode = 384\<rparr>))"

definition pairingUrl :: "string \<Rightarrow> nat \<Rightarrow> string option \<Rightarrow> string option \<Rightarrow> string" where
  "pairingUrl token port pairNonce fingerprint =
     (let pair = (case pairNonce of Some p \<Rightarrow> if p = [] then [] else ''&pair='' @ p | None \<Rightarrow> []);
          fp = (case fingerprint of Some f \<Rightarrow> if f = [] then [] else ''&fp='' @ f | None \<Rightarrow> [])
      in ''http://127.0.0.1:'' @ show_nat port @ ''/#token='' @ token @ pair @ fp)"

text \<open>
  \<open>timingSafeEqual\<close> compares two buffers of one length byte by byte; on code units below 128
  the UTF-8 buffer of a string is the string.
\<close>

definition tokenMatches :: "string \<Rightarrow> json option \<Rightarrow> bool" where
  "tokenMatches token presented =
     (case presented of
        Some (JStr p) \<Rightarrow>
          if length p = 0 then False
          else if length token \<noteq> length p then False
          else list_all2 (=) token p
      | _ \<Rightarrow> False)"

subsection \<open>The four ticket stores\<close>

type_synonym millis = int
type_synonym ticket_map = "(string, millis) tbl"

record token_state =
  pairingNonces :: ticket_map
  streamTickets :: ticket_map
  exportTickets :: ticket_map
  signerConfigTickets :: ticket_map

definition PAIRING_TTL_MS :: millis where "PAIRING_TTL_MS = 5 * 60 * 1000"
definition STREAM_TICKET_TTL_MS :: millis where "STREAM_TICKET_TTL_MS = 15 * 1000"
definition EXPORT_TICKET_TTL_MS :: millis where "EXPORT_TICKET_TTL_MS = 5 * 60 * 1000"
definition SIGNER_CONFIG_TICKET_TTL_MS :: millis where "SIGNER_CONFIG_TICKET_TTL_MS = 5 * 60 * 1000"

definition createPairingNonce :: "string \<Rightarrow> millis \<Rightarrow> token_state \<Rightarrow> string \<times> token_state" where
  "createPairingNonce nonce now s =
     (nonce, s\<lparr>pairingNonces := tbl_upsert nonce (now + PAIRING_TTL_MS) (pairingNonces s)\<rparr>)"

definition redeemPairingNonce :: "string \<Rightarrow> millis \<Rightarrow> token_state \<Rightarrow> bool \<times> token_state" where
  "redeemPairingNonce nonce now s =
     (let expiresAt = tbl_get (pairingNonces s) nonce;
          s' = s\<lparr>pairingNonces := tbl_delete nonce (pairingNonces s)\<rparr>
      in case expiresAt of
           None \<Rightarrow> (False, s')
         | Some e \<Rightarrow> if e = 0 then (False, s') else (now \<le> e, s'))"

definition isPairingWindowOpen :: "millis \<Rightarrow> token_state \<Rightarrow> bool" where
  "isPairingWindowOpen now s = list_ex (\<lambda>(_, expiresAt). now \<le> expiresAt) (pairingNonces s)"

definition createStreamTicket :: "string \<Rightarrow> millis \<Rightarrow> token_state \<Rightarrow> string \<times> token_state" where
  "createStreamTicket ticket now s =
     (ticket, s\<lparr>streamTickets := tbl_upsert ticket (now + STREAM_TICKET_TTL_MS) (streamTickets s)\<rparr>)"

definition redeemStreamTicket :: "string \<Rightarrow> millis \<Rightarrow> token_state \<Rightarrow> bool \<times> token_state" where
  "redeemStreamTicket ticket now s =
     (let expiresAt = tbl_get (streamTickets s) ticket;
          s' = s\<lparr>streamTickets := tbl_delete ticket (streamTickets s)\<rparr>
      in case expiresAt of
           None \<Rightarrow> (False, s')
         | Some e \<Rightarrow> if e = 0 then (False, s') else (now \<le> e, s'))"

definition createExportTicket :: "string \<Rightarrow> millis \<Rightarrow> token_state \<Rightarrow> string \<times> token_state" where
  "createExportTicket ticket now s =
     (ticket, s\<lparr>exportTickets := tbl_upsert ticket (now + EXPORT_TICKET_TTL_MS) (exportTickets s)\<rparr>)"

definition redeemExportTicket :: "string \<Rightarrow> millis \<Rightarrow> token_state \<Rightarrow> bool \<times> token_state" where
  "redeemExportTicket ticket now s =
     (let expiresAt = tbl_get (exportTickets s) ticket;
          s' = s\<lparr>exportTickets := tbl_delete ticket (exportTickets s)\<rparr>
      in case expiresAt of
           None \<Rightarrow> (False, s')
         | Some e \<Rightarrow> if e = 0 then (False, s') else (now \<le> e, s'))"

definition createSignerConfigTicket :: "string \<Rightarrow> millis \<Rightarrow> token_state \<Rightarrow> string \<times> token_state" where
  "createSignerConfigTicket ticket now s =
     (ticket, s\<lparr>signerConfigTickets :=
                  tbl_upsert ticket (now + SIGNER_CONFIG_TICKET_TTL_MS) (signerConfigTickets s)\<rparr>)"

definition redeemSignerConfigTicket :: "string \<Rightarrow> millis \<Rightarrow> token_state \<Rightarrow> bool \<times> token_state" where
  "redeemSignerConfigTicket ticket now s =
     (let expiresAt = tbl_get (signerConfigTickets s) ticket;
          s' = s\<lparr>signerConfigTickets := tbl_delete ticket (signerConfigTickets s)\<rparr>
      in case expiresAt of
           None \<Rightarrow> (False, s')
         | Some e \<Rightarrow> if e = 0 then (False, s') else (now \<le> e, s'))"

subsection \<open>The contract of a ticket store\<close>

text \<open>A history of a store: mints and redemptions in the order they reach the daemon.\<close>

datatype ticket_op = Mint string millis | Redeem string millis

fun ticket_run ::
  "(string \<Rightarrow> millis \<Rightarrow> 's \<Rightarrow> string \<times> 's) \<Rightarrow> (string \<Rightarrow> millis \<Rightarrow> 's \<Rightarrow> bool \<times> 's) \<Rightarrow>
   's \<Rightarrow> ticket_op list \<Rightarrow> bool list \<times> 's" where
  "ticket_run create redeem s [] = ([], s)"
| "ticket_run create redeem s (Mint t now # ops) =
     (let (outs, s') = ticket_run create redeem (snd (create t now s)) ops in (False # outs, s'))"
| "ticket_run create redeem s (Redeem t now # ops) =
     (let (ok, s1) = redeem t now s; (outs, s') = ticket_run create redeem s1 ops in (ok # outs, s'))"

fun mints_of :: "string \<Rightarrow> ticket_op list \<Rightarrow> nat" where
  "mints_of t [] = 0"
| "mints_of t (Mint u _ # ops) = (if u = t then 1 else 0) + mints_of t ops"
| "mints_of t (Redeem _ _ # ops) = mints_of t ops"

fun redeemed_of :: "string \<Rightarrow> ticket_op list \<Rightarrow> bool list \<Rightarrow> nat" where
  "redeemed_of t (Redeem u _ # ops) (ok # outs) = (if u = t \<and> ok then 1 else 0) + redeemed_of t ops outs"
| "redeemed_of t (_ # ops) (_ # outs) = redeemed_of t ops outs"
| "redeemed_of t _ _ = 0"

locale ticket_store =
  fixes create :: "string \<Rightarrow> millis \<Rightarrow> 's \<Rightarrow> string \<times> 's"
    and redeem :: "string \<Rightarrow> millis \<Rightarrow> 's \<Rightarrow> bool \<times> 's"
    and expiry :: "'s \<Rightarrow> string \<Rightarrow> millis option"
    and ttl :: millis
  assumes ttl_pos: "0 < ttl"
    and create_returns: "fst (create t now s) = t"
    and expiry_create: "expiry (snd (create t now s)) u = (if u = t then Some (now + ttl) else expiry s u)"
    and redeem_result: "fst (redeem t now s) \<longleftrightarrow> (\<exists>e. expiry s t = Some e \<and> e \<noteq> 0 \<and> now \<le> e)"
    and expiry_redeem: "expiry (snd (redeem t now s)) u = (if u = t then None else expiry s u)"
begin

lemma redeem_within_ttl:
  "0 < now \<Longrightarrow> fst (redeem t later (snd (create t now s))) \<longleftrightarrow> later \<le> now + ttl"
  using ttl_pos by (simp add: redeem_result expiry_create)

lemma second_redeem_fails: "\<not> fst (redeem t later (snd (redeem t now s)))"
  by (simp add: redeem_result expiry_redeem)

lemma redeem_unknown_fails: "expiry s t = None \<Longrightarrow> \<not> fst (redeem t now s)"
  by (simp add: redeem_result)

lemma redemptions_bounded:
  "redeemed_of t ops (fst (ticket_run create redeem s ops))
     \<le> mints_of t ops + (if expiry s t = None then 0 else 1)"
proof (induction ops arbitrary: s)
  case Nil
  then show ?case by simp
next
  case (Cons op ops)
  show ?case
  proof (cases op)
    case (Mint u now)
    have "redeemed_of t ops (fst (ticket_run create redeem (snd (create u now s)) ops))
        \<le> mints_of t ops + (if expiry (snd (create u now s)) t = None then 0 else 1)"
      by (rule Cons.IH)
    then show ?thesis by (auto simp: Mint expiry_create split: prod.splits if_splits)
  next
    case (Redeem u now)
    have "redeemed_of t ops (fst (ticket_run create redeem (snd (redeem u now s)) ops))
        \<le> mints_of t ops + (if expiry (snd (redeem u now s)) t = None then 0 else 1)"
      by (rule Cons.IH)
    moreover have "u = t \<Longrightarrow> fst (redeem u now s) \<Longrightarrow> expiry s t \<noteq> None"
      by (auto simp: redeem_result)
    ultimately show ?thesis
      by (auto simp: Redeem expiry_redeem split: prod.splits if_splits)
  qed
qed

end

lemmas ticket_defs =
  createPairingNonce_def redeemPairingNonce_def createStreamTicket_def redeemStreamTicket_def
  createExportTicket_def redeemExportTicket_def createSignerConfigTicket_def redeemSignerConfigTicket_def
  PAIRING_TTL_MS_def STREAM_TICKET_TTL_MS_def EXPORT_TICKET_TTL_MS_def SIGNER_CONFIG_TICKET_TTL_MS_def

interpretation pairing: ticket_store createPairingNonce redeemPairingNonce
    "\<lambda>s. tbl_get (pairingNonces s)" PAIRING_TTL_MS
  by unfold_locales (auto simp: ticket_defs Let_def split: option.splits)

interpretation stream: ticket_store createStreamTicket redeemStreamTicket
    "\<lambda>s. tbl_get (streamTickets s)" STREAM_TICKET_TTL_MS
  by unfold_locales (auto simp: ticket_defs Let_def split: option.splits)

interpretation export: ticket_store createExportTicket redeemExportTicket
    "\<lambda>s. tbl_get (exportTickets s)" EXPORT_TICKET_TTL_MS
  by unfold_locales (auto simp: ticket_defs Let_def split: option.splits)

interpretation signer: ticket_store createSignerConfigTicket redeemSignerConfigTicket
    "\<lambda>s. tbl_get (signerConfigTickets s)" SIGNER_CONFIG_TICKET_TTL_MS
  by unfold_locales (auto simp: ticket_defs Let_def split: option.splits)

subsection \<open>The four stores together\<close>

datatype ticket_kind = Pairing | Stream_ticket | Export_ticket | Signer_config

fun create_in :: "ticket_kind \<Rightarrow> string \<Rightarrow> millis \<Rightarrow> token_state \<Rightarrow> string \<times> token_state" where
  "create_in Pairing = createPairingNonce"
| "create_in Stream_ticket = createStreamTicket"
| "create_in Export_ticket = createExportTicket"
| "create_in Signer_config = createSignerConfigTicket"

fun redeem_in :: "ticket_kind \<Rightarrow> string \<Rightarrow> millis \<Rightarrow> token_state \<Rightarrow> bool \<times> token_state" where
  "redeem_in Pairing = redeemPairingNonce"
| "redeem_in Stream_ticket = redeemStreamTicket"
| "redeem_in Export_ticket = redeemExportTicket"
| "redeem_in Signer_config = redeemSignerConfigTicket"

fun ttl_of :: "ticket_kind \<Rightarrow> millis" where
  "ttl_of Pairing = PAIRING_TTL_MS"
| "ttl_of Stream_ticket = STREAM_TICKET_TTL_MS"
| "ttl_of Export_ticket = EXPORT_TICKET_TTL_MS"
| "ttl_of Signer_config = SIGNER_CONFIG_TICKET_TTL_MS"

fun store_of :: "ticket_kind \<Rightarrow> token_state \<Rightarrow> ticket_map" where
  "store_of Pairing s = pairingNonces s"
| "store_of Stream_ticket s = streamTickets s"
| "store_of Export_ticket s = exportTickets s"
| "store_of Signer_config s = signerConfigTickets s"

definition no_tickets :: token_state where
  "no_tickets = \<lparr>pairingNonces = [], streamTickets = [], exportTickets = [], signerConfigTickets = []\<rparr>"

fun token_step :: "ticket_kind \<times> ticket_op \<Rightarrow> token_state \<Rightarrow> token_state" where
  "token_step (k, Mint t now) s = snd (create_in k t now s)"
| "token_step (k, Redeem t now) s = snd (redeem_in k t now s)"

text \<open>The specification: the latest event that concerns a ticket, looked up in the reversed history.\<close>

fun unspent_mint :: "ticket_kind \<Rightarrow> string \<Rightarrow> (ticket_kind \<times> ticket_op) list \<Rightarrow> millis option" where
  "unspent_mint k t [] = None"
| "unspent_mint k t ((k', Mint u m) # past) = (if k' = k \<and> u = t then Some m else unspent_mint k t past)"
| "unspent_mint k t ((k', Redeem u _) # past) = (if k' = k \<and> u = t then None else unspent_mint k t past)"

interpretation each_kind: ticket_store "create_in k" "redeem_in k" "\<lambda>s. tbl_get (store_of k s)" "ttl_of k" for k
  by (cases k; unfold_locales; auto simp: ticket_defs Let_def split: option.splits)

lemma other_store:
  "k' \<noteq> k \<Longrightarrow> store_of k (snd (create_in k' t now s)) = store_of k s"
  "k' \<noteq> k \<Longrightarrow> store_of k (snd (redeem_in k' t now s)) = store_of k s"
  by (cases k; cases k'; auto simp: ticket_defs Let_def split: option.splits)+

lemma no_tickets_store [simp]: "store_of k no_tickets = []"
  by (cases k) (simp_all add: no_tickets_def)

lemma store_after:
  "tbl_get (store_of k (fold token_step evs no_tickets)) t
     = map_option (\<lambda>m. m + ttl_of k) (unspent_mint k t (rev evs))"
proof (induction evs rule: rev_induct)
  case (snoc ev evs)
  obtain k' op where ev: "ev = (k', op)" by (cases ev)
  show ?case
  proof (cases op)
    case (Mint u m)
    with snoc ev show ?thesis
      by (cases "k' = k") (auto simp: each_kind.expiry_create other_store)
  next
    case (Redeem u m)
    with snoc ev show ?thesis
      by (cases "k' = k") (auto simp: each_kind.expiry_redeem other_store)
  qed
qed simp

lemma unspent_mint_mem: "unspent_mint k t evs = Some m \<Longrightarrow> (k, Mint t m) \<in> set evs"
  by (induction k t evs rule: unspent_mint.induct) (auto split: if_splits)

subsection \<open>Properties\<close>

text \<open>C7. In any history of mints and redemptions of the four kinds of ticket, a redemption
  succeeds exactly when the latest event on that very ticket is a mint of the same kind not longer
  ago than the kind's lifetime: tickets are single-use, expire, and a ticket of one kind is worth
  nothing to another.\<close>

theorem redeem_iff_unspent_fresh_mint:
  assumes "\<forall>k t m. (k, Mint t m) \<in> set evs \<longrightarrow> 0 \<le> m"
  shows "fst (redeem_in k t now (fold token_step evs no_tickets)) \<longleftrightarrow>
    (\<exists>m. unspent_mint k t (rev evs) = Some m \<and> now \<le> m + ttl_of k)"
proof -
  have "m + ttl_of k \<noteq> 0" if "unspent_mint k t (rev evs) = Some m" for m
    using assms unspent_mint_mem [OF that] each_kind.ttl_pos [of k] by fastforce
  then show ?thesis by (auto simp: each_kind.redeem_result store_after)
qed

lemma redeem_iff_unspent_fresh_mint_witness:
  "fst (redeem_in Export_ticket ''t'' 400000
     (fold token_step [(Stream_ticket, Mint ''t'' 1), (Export_ticket, Mint ''t'' 200000),
        (Stream_ticket, Redeem ''t'' 2)] no_tickets))"
  by (subst redeem_iff_unspent_fresh_mint) (auto simp: EXPORT_TICKET_TTL_MS_def)

text \<open>The pairing window is open exactly when some nonce, redeemed now, would be accepted.\<close>

theorem pairing_window_open_iff:
  assumes "tbl_keys_unique (pairingNonces s)" and "0 < now"
  shows "isPairingWindowOpen now s \<longleftrightarrow> (\<exists>nonce. fst (redeemPairingNonce nonce now s))"
proof -
  have "(\<exists>nonce e. (nonce, e) \<in> set (pairingNonces s) \<and> now \<le> e)
      \<longleftrightarrow> (\<exists>nonce e. tbl_get (pairingNonces s) nonce = Some e \<and> now \<le> e)"
    using assms(1) by (auto simp: tbl_keys_unique_def dest: map_of_SomeD)
  moreover have "now \<le> e \<longleftrightarrow> e \<noteq> 0 \<and> now \<le> e" for e using assms(2) by auto
  ultimately show ?thesis by (simp add: isPairingWindowOpen_def list_ex_iff pairing.redeem_result) blast
qed

lemma pairing_window_open_iff_witness:
  "isPairingWindowOpen 7 (snd (createPairingNonce ''n'' 5 no_tickets))
   = (\<exists>nonce. fst (redeemPairingNonce nonce 7 (snd (createPairingNonce ''n'' 5 no_tickets))))"
  by (rule pairing_window_open_iff) (simp_all add: createPairingNonce_def no_tickets_def)

end
