(* ===== verification/Json_Parse.thy ===== *)
theory Json_Parse
  imports Json_Canon
begin

text \<open>
  \<open>JSON.parse\<close> on the texts of the model: objects, arrays, strings, literals and integers, with
  white space. A text with a fraction, an exponent or a code unit above 255 is outside the model's
  values and parses to \<open>None\<close>. The recursion carries fuel, twice the length of the text plus one;
  \<open>parse_canonical\<close> shows that this is enough for every canonical text, and that parsing one gives
  back the canonical value.
\<close>

definition json_ws :: "char \<Rightarrow> bool" where
  "json_ws c \<longleftrightarrow> c = CHR 0x20 \<or> c = CHR 0x09 \<or> c = CHR 0x0A \<or> c = CHR 0x0D"

definition skip_ws :: "string \<Rightarrow> string" where
  "skip_ws s = dropWhile json_ws s"

definition simple_escape :: "char \<Rightarrow> char option" where
  "simple_escape e =
     (if e = CHR 0x22 \<or> e = CHR 0x5C \<or> e = CHR ''/'' then Some e
      else if e = CHR ''b'' then Some (CHR 0x08)
      else if e = CHR ''t'' then Some (CHR 0x09)
      else if e = CHR ''n'' then Some (CHR 0x0A)
      else if e = CHR ''f'' then Some (CHR 0x0C)
      else if e = CHR ''r'' then Some (CHR 0x0D)
      else None)"

definition hex4 :: "char \<Rightarrow> char \<Rightarrow> char \<Rightarrow> char \<Rightarrow> nat option" where
  "hex4 a b c d = (case (hex_val a, hex_val b, hex_val c, hex_val d) of
     (Some w, Some x, Some y, Some z) \<Rightarrow> Some (4096 * w + 256 * x + 16 * y + z) | _ \<Rightarrow> None)"

definition cons_fst :: "'a \<Rightarrow> ('a list \<times> 'b) option \<Rightarrow> ('a list \<times> 'b) option" where
  "cons_fst x p = map_option (\<lambda>(xs, r). (x # xs, r)) p"

fun parse_chars :: "string \<Rightarrow> (string \<times> string) option" where
  "parse_chars [] = None"
| "parse_chars (c # r) =
     (if c = CHR 0x22 then Some ([], r)
      else if c = CHR 0x5C then
        (case r of
           [] \<Rightarrow> None
         | e # r1 \<Rightarrow>
             (case simple_escape e of
                Some d \<Rightarrow> cons_fst d (parse_chars r1)
              | None \<Rightarrow>
                  (case r1 of
                     h1 # h2 # h3 # h4 # r2 \<Rightarrow>
                       (case (if e = CHR ''u'' then hex4 h1 h2 h3 h4 else None) of
                          Some n \<Rightarrow> if n < 256 then cons_fst (char_of n) (parse_chars r2) else None
                        | None \<Rightarrow> None)
                   | _ \<Rightarrow> None)))
      else if of_char c < (32::nat) then None
      else cons_fst c (parse_chars r))"

definition number_tail_ok :: "string \<Rightarrow> bool" where
  "number_tail_ok r \<longleftrightarrow> (case r of [] \<Rightarrow> True | c # _ \<Rightarrow> c \<noteq> CHR ''.'' \<and> c \<noteq> CHR ''e'' \<and> c \<noteq> CHR ''E'')"

definition parse_nat :: "string \<Rightarrow> (nat \<times> string) option" where
  "parse_nat s =
     (let ds = takeWhile is_digit s; r = dropWhile is_digit s
      in if ds = [] \<or> (hd ds = CHR ''0'' \<and> length ds > 1) \<or> \<not> number_tail_ok r then None
         else Some (read_nat ds, r))"

definition parse_number :: "string \<Rightarrow> (json \<times> string) option" where
  "parse_number s =
     (case s of
        c # r \<Rightarrow> if c = CHR ''-'' then map_option (\<lambda>(n, r'). (JNum (- int n), r')) (parse_nat r)
                 else map_option (\<lambda>(n, r'). (JNum (int n), r')) (parse_nat s)
      | [] \<Rightarrow> None)"

definition strip :: "string \<Rightarrow> 'a \<Rightarrow> string \<Rightarrow> ('a \<times> string) option" where
  "strip lit v s = (if take (length lit) s = lit then Some (v, drop (length lit) s) else None)"

fun parse_value :: "nat \<Rightarrow> string \<Rightarrow> (json \<times> string) option"
and parse_elements :: "nat \<Rightarrow> string \<Rightarrow> (json list \<times> string) option"
and parse_members :: "nat \<Rightarrow> string \<Rightarrow> ((string \<times> json) list \<times> string) option" where
  "parse_value 0 s = None"
| "parse_value (Suc n) s =
     (case skip_ws s of
        [] \<Rightarrow> None
      | c # r \<Rightarrow>
          if c = CHR ''n'' then strip ''ull'' JNull r
          else if c = CHR ''t'' then strip ''rue'' (JBool True) r
          else if c = CHR ''f'' then strip ''alse'' (JBool False) r
          else if c = CHR 0x22 then map_option (\<lambda>(s, r'). (JStr s, r')) (parse_chars r)
          else if c = CHR ''['' then
            (case skip_ws r of
               [] \<Rightarrow> None
             | d # r' \<Rightarrow> if d = CHR '']'' then Some (JArr [], r')
                         else map_option (\<lambda>(xs, r''). (JArr xs, r'')) (parse_elements n r))
          else if c = CHR ''{'' then
            (case skip_ws r of
               [] \<Rightarrow> None
             | d # r' \<Rightarrow> if d = CHR ''}'' then Some (JObj [], r')
                         else map_option (\<lambda>(kvs, r''). (JObj (enum_order (jspread [] kvs)), r''))
                                (parse_members n r))
          else parse_number (c # r))"
| "parse_elements 0 s = None"
| "parse_elements (Suc n) s =
     (case parse_value n s of
        None \<Rightarrow> None
      | Some (x, r) \<Rightarrow>
          (case skip_ws r of
             [] \<Rightarrow> None
           | c # r' \<Rightarrow> if c = CHR '','' then cons_fst x (parse_elements n r')
                       else if c = CHR '']'' then Some ([x], r') else None))"
| "parse_members 0 s = None"
| "parse_members (Suc n) s =
     (case skip_ws s of
        [] \<Rightarrow> None
      | q # s1 \<Rightarrow>
          if q \<noteq> CHR 0x22 then None
          else
            (case parse_chars s1 of
               None \<Rightarrow> None
             | Some (k, s2) \<Rightarrow>
                 (case skip_ws s2 of
                    [] \<Rightarrow> None
                  | col # s3 \<Rightarrow>
                      if col \<noteq> CHR '':'' then None
                      else
                        (case parse_value n s3 of
                           None \<Rightarrow> None
                         | Some (v, r) \<Rightarrow>
                             (case skip_ws r of
                                [] \<Rightarrow> None
                              | c # r' \<Rightarrow> if c = CHR '','' then cons_fst (k, v) (parse_members n r')
                                          else if c = CHR ''}'' then Some ([(k, v)], r') else None)))))"

definition JSON_parse :: "string \<Rightarrow> json option" where
  "JSON_parse s =
     (case parse_value (2 * length s + 1) s of
        Some (v, r) \<Rightarrow> if skip_ws r = [] then Some v else None
      | None \<Rightarrow> None)"

subsection \<open>Reading back what was written\<close>

lemma skip_ws_head: "\<not> json_ws c \<Longrightarrow> skip_ws (c # r) = c # r"
  by (simp add: skip_ws_def)

lemma hex_digit_not_special: "hex4 (CHR ''0'') (CHR ''0'') (hex_digit a) (hex_digit b) = Some (16 * a + b)"
  if "a < 16" "b < 16"
proof -
  have "hex_val (CHR ''0'') = Some 0" by (simp add: hex_val_def)
  with that show ?thesis by (simp add: hex4_def hex_val_hex_digit)
qed

lemma parse_chars_esc: "parse_chars (esc_char c @ u) = cons_fst c (parse_chars u)"
proof -
  consider (special) "of_char c \<in> {34, 92, 8, 9, 10, 12, 13 :: nat}"
    | (ctl) "of_char c \<notin> {34, 92, 8, 9, 10, 12, 13 :: nat}" "of_char c < (32::nat)"
    | (plain) "of_char c \<notin> {34, 92, 8, 9, 10, 12, 13 :: nat}" "\<not> of_char c < (32::nat)"
    by blast
  then show ?thesis
  proof cases
    case special
    then have "(of_char c :: nat) \<in> of_char ` {CHR 0x22, CHR 0x5C, CHR 0x08, CHR 0x09, CHR 0x0A, CHR 0x0C, CHR 0x0D}"
      by simp
    then have "c \<in> {CHR 0x22, CHR 0x5C, CHR 0x08, CHR 0x09, CHR 0x0A, CHR 0x0C, CHR 0x0D}"
      by (simp only: inj_image_mem_iff [OF inj_of_char])
    then show ?thesis by (auto simp: esc_char_def Let_def simple_escape_def)
  next
    case ctl
    let ?n = "of_char c :: nat"
    have "hex4 (CHR ''0'') (CHR ''0'') (hex_digit (?n div 16)) (hex_digit (?n mod 16)) = Some (16 * (?n div 16) + ?n mod 16)"
      using ctl(2) by (intro hex_digit_not_special) auto
    then have h: "hex4 (CHR ''0'') (CHR ''0'') (hex_digit (?n div 16)) (hex_digit (?n mod 16)) = Some ?n"
      by simp
    have "esc_char c = [CHR 0x5C, CHR ''u'', CHR ''0'', CHR ''0'', hex_digit (?n div 16), hex_digit (?n mod 16)]"
      using ctl by (simp add: esc_char_def Let_def)
    then show ?thesis using ctl(2) by (simp add: simple_escape_def h)
  next
    case plain
    then have "esc_char c = [c]" by (simp add: esc_char_def Let_def)
    moreover have "c \<noteq> CHR 0x5C" "c \<noteq> CHR 0x22" using plain(1) by auto
    ultimately show ?thesis using plain(2) by simp
  qed
qed

lemma parse_chars_esc_str: "parse_chars (esc_str s @ CHR 0x22 # r) = Some (s, r)"
proof (induction s)
  case (Cons c s)
  have "esc_str (c # s) @ CHR 0x22 # r = esc_char c @ (esc_str s @ CHR 0x22 # r)" by (simp add: esc_str_def)
  then show ?case using Cons by (simp only: parse_chars_esc) (simp add: cons_fst_def)
qed (simp add: esc_str_def)

lemma show_nat_hd_nonzero: "10 \<le> n \<Longrightarrow> hd (show_nat n) \<noteq> CHR ''0''"
proof (induction n rule: show_nat.induct)
  case (1 n)
  have d: "digit_char d \<noteq> CHR ''0''" if "0 < d" "d < 10" for d
  proof -
    have "char_digit (digit_char d) = d" using that by simp
    then show ?thesis using that by (auto simp: char_digit_def)
  qed
  have hd: "hd (show_nat (n div 10) @ [x]) = hd (show_nat (n div 10))" for x by simp
  show ?case
  proof (cases "n div 10 < 10")
    case True
    then have "show_nat (n div 10) = [digit_char (n div 10)]" by (subst show_nat.simps) simp
    with True 1 d [of "n div 10"] show ?thesis by (subst show_nat.simps) (simp add: hd)
  next
    case False
    then show ?thesis using 1 by (subst show_nat.simps) (simp add: hd)
  qed
qed

lemma delimited_number_tail: "delimited r \<Longrightarrow> number_tail_ok r \<and> (r = [] \<or> \<not> is_digit (hd r))"
  by (cases r) (auto simp: delimited_def number_tail_ok_def is_delim_def is_digit_def)

lemma parse_nat_show: "delimited r \<Longrightarrow> parse_nat (show_nat n @ r) = Some (n, r)"
proof -
  assume "delimited r"
  then have t: "number_tail_ok r" "r = [] \<or> \<not> is_digit (hd r)" using delimited_number_tail by auto
  have tw: "takeWhile is_digit (show_nat n @ r) = show_nat n"
    using show_nat_digits [of n] t(2) by (cases r) (auto simp: takeWhile_append2)
  have dw: "dropWhile is_digit (show_nat n @ r) = r"
    using show_nat_digits [of n] t(2) by (cases r) (auto simp: dropWhile_append2)
  have "\<not> (hd (show_nat n) = CHR ''0'' \<and> length (show_nat n) > 1)"
    using show_nat_hd_nonzero [of n] by (cases "n < 10") (auto simp: show_nat.simps [of n])
  then show ?thesis by (simp add: parse_nat_def tw dw t Let_def)
qed

lemma parse_number_show: "delimited r \<Longrightarrow> parse_number (show_int i @ r) = Some (JNum i, r)"
proof -
  assume d: "delimited r"
  obtain c t where s: "show_nat (nat i) = c # t" by (cases "show_nat (nat i)") auto
  then have "c \<noteq> CHR ''-''" using show_nat_hd_digit [of "nat i"] by auto
  with s parse_nat_show [OF d, of "nat i"] parse_nat_show [OF d, of "nat (- i)"] show ?thesis
    by (auto simp: parse_number_def show_int_def)
qed

fun json_wf :: "json \<Rightarrow> bool" where
  \<comment> \<open>a value the language can hold: no object has two members of one name\<close>
  "json_wf (JArr xs) = list_all json_wf xs"
| "json_wf (JObj kvs) = (distinct (map fst kvs) \<and> list_all (\<lambda>(k, v). json_wf v) kvs)"
| "json_wf _ = True"

fun enum_wf :: "json \<Rightarrow> bool" where
  \<comment> \<open>and whose members stand in enumeration order\<close>
  "enum_wf (JArr xs) = list_all enum_wf xs"
| "enum_wf (JObj kvs) = (distinct (map fst kvs) \<and> enum_order kvs = kvs \<and> list_all (\<lambda>(k, v). enum_wf v) kvs)"
| "enum_wf _ = True"

lemma jspread_Nil: "distinct (map fst kvs) \<Longrightarrow> jspread [] kvs = kvs"
proof -
  have "distinct (map fst (acc @ kvs)) \<Longrightarrow> jspread acc kvs = acc @ kvs" for acc
  proof (induction kvs arbitrary: acc)
    case (Cons p kvs)
    have "AList.update (fst p) (snd p) acc = acc @ [p]"
      using Cons.prems by (induction acc) auto
    then have "jspread acc (p # kvs) = jspread (acc @ [p]) kvs"
      by (cases p) (simp add: jspread_def)
    then show ?case using Cons by simp
  qed (simp add: jspread_def)
  from this [of "[]"] show "distinct (map fst kvs) \<Longrightarrow> jspread [] kvs = kvs" by simp
qed

lemma json_head_not_ws: "json_head j c \<Longrightarrow> \<not> json_ws c"
  by (cases j) (auto simp: json_ws_def is_digit_def split: if_splits)

lemma skip_ws_value: "skip_ws (json_stringify v @ r) = json_stringify v @ r"
  using json_stringify_head [of v] json_head_not_ws by (auto simp: skip_ws_head)

lemma json_stringify_nonempty: "1 \<le> length (json_stringify v)"
  using json_stringify_head [of v] by auto

lemma parse_elements_join:
  assumes "\<And>x n r. x \<in> set xs \<Longrightarrow> 2 * length (json_stringify x) \<le> n \<Longrightarrow> delimited r
      \<Longrightarrow> parse_value n (json_stringify x @ r) = Some (x, r)"
    and "xs \<noteq> []" and "2 * length (join_with '','' (map json_stringify xs)) + 1 \<le> n"
  shows "parse_elements n (join_with '','' (map json_stringify xs) @ CHR '']'' # r) = Some (xs, r)"
  using assms
proof (induction xs arbitrary: n)
  case (Cons x xs)
  obtain k where n: "n = Suc k" using Cons.prems(3) by (cases n) auto
  show ?case
  proof (cases xs)
    case Nil
    have "parse_value k (json_stringify x @ CHR '']'' # r) = Some (x, CHR '']'' # r)"
      using Cons.prems n Nil by (intro Cons.prems(1)) auto
    then show ?thesis using n Nil by (simp add: skip_ws_head json_ws_def)
  next
    case (Cons y ys)
    let ?rest = "join_with '','' (map json_stringify xs) @ CHR '']'' # r"
    have str: "join_with '','' (map json_stringify (x # xs)) @ CHR '']'' # r
        = json_stringify x @ CHR '','' # ?rest" using Cons by simp
    have len: "length (join_with '','' (map json_stringify (x # xs)))
        = length (json_stringify x) + 1 + length (join_with '','' (map json_stringify xs))"
      using Cons by simp
    have "parse_value k (json_stringify x @ CHR '','' # ?rest) = Some (x, CHR '','' # ?rest)"
      using Cons.prems n len by (intro Cons.prems(1)) auto
    moreover have "parse_elements k ?rest = Some (xs, r)"
      using Cons.prems n len json_stringify_nonempty [of x] Cons
      by (intro Cons.IH) auto
    ultimately show ?thesis
      unfolding str n by (simp add: skip_ws_head json_ws_def cons_fst_def)
  qed
qed simp

abbreviation member_text :: "string \<times> json \<Rightarrow> string" where
  "member_text \<equiv> (\<lambda>(k, v). quote_str k @ '':'' @ json_stringify v)"

lemma parse_member_step:
  assumes "parse_value n (json_stringify v @ r) = Some (v, r)"
  shows "parse_members (Suc n) (member_text (k, v) @ r) =
    (case skip_ws r of
       [] \<Rightarrow> None
     | c # r' \<Rightarrow> if c = CHR '','' then cons_fst (k, v) (parse_members n r')
                 else if c = CHR ''}'' then Some ([(k, v)], r') else None)"
proof -
  have "parse_chars (esc_str k @ CHR 0x22 # CHR '':'' # json_stringify v @ r)
      = Some (k, CHR '':'' # json_stringify v @ r)" by (rule parse_chars_esc_str)
  then show ?thesis using assms by (simp add: quote_str_def skip_ws_head json_ws_def)
qed

lemma parse_members_join:
  assumes "\<And>k v n r. (k, v) \<in> set kvs \<Longrightarrow> 2 * length (json_stringify v) \<le> n \<Longrightarrow> delimited r
      \<Longrightarrow> parse_value n (json_stringify v @ r) = Some (v, r)"
    and "kvs \<noteq> []" and "2 * length (join_with '','' (map member_text kvs)) + 1 \<le> n"
  shows "parse_members n (join_with '','' (map member_text kvs) @ CHR ''}'' # r) = Some (kvs, r)"
  using assms
proof (induction kvs arbitrary: n)
  case (Cons p kvs)
  obtain k where n: "n = Suc k" using Cons.prems(3) by (cases n) auto
  obtain key v where p: "p = (key, v)" by (cases p)
  show ?case
  proof (cases kvs)
    case Nil
    have "parse_value k (json_stringify v @ CHR ''}'' # r) = Some (v, CHR ''}'' # r)"
      using Cons.prems n Nil p by (intro Cons.prems(1) [of key]) auto
    from parse_member_step [OF this, of key] show ?thesis
      using n Nil p by (simp add: skip_ws_head json_ws_def)
  next
    case (Cons q qs)
    let ?rest = "join_with '','' (map member_text kvs) @ CHR ''}'' # r"
    have str: "join_with '','' (map member_text (p # kvs)) @ CHR ''}'' # r
        = member_text (key, v) @ CHR '','' # ?rest" using Cons p by simp
    have len: "length (join_with '','' (map member_text (p # kvs)))
        = length (member_text p) + 1 + length (join_with '','' (map member_text kvs))"
      using Cons by simp
    have lp: "length (json_stringify v) \<le> length (member_text p)" using p by simp
    have "parse_value k (json_stringify v @ CHR '','' # ?rest) = Some (v, CHR '','' # ?rest)"
      using Cons.prems n len lp p by (intro Cons.prems(1) [of key]) auto
    note step = parse_member_step [OF this, of key]
    have "parse_members k ?rest = Some (kvs, r)"
      using Cons.prems n len lp json_stringify_nonempty [of v] Cons
      by (intro Cons.IH) auto
    with step show ?thesis
      unfolding str n by (simp add: p skip_ws_head json_ws_def cons_fst_def del: parse_members.simps)
  qed
qed simp

lemma parse_value_stringify:
  "2 * length (json_stringify v) \<le> n \<Longrightarrow> enum_wf v \<Longrightarrow> delimited r
   \<Longrightarrow> parse_value n (json_stringify v @ r) = Some (v, r)"
proof (induction v arbitrary: n r)
  case (JArr xs)
  obtain k where n: "n = Suc k" using JArr.prems(1) by (cases n) auto
  show ?case
  proof (cases xs)
    case Nil
    then show ?thesis using n by (simp add: skip_ws_head json_ws_def)
  next
    case (Cons y ys)
    let ?body = "join_with '','' (map json_stringify xs) @ CHR '']'' # r"
    have "parse_elements k ?body = Some (xs, r)"
    proof (rule parse_elements_join)
      fix x m s assume "x \<in> set xs" "2 * length (json_stringify x) \<le> m" "delimited s"
      with JArr show "parse_value m (json_stringify x @ s) = Some (x, s)" by (auto simp: list_all_iff)
    qed (use JArr.prems n Cons in auto)
    moreover obtain h t where ht: "json_stringify y = h # t" "json_head y h" using json_stringify_head by blast
    moreover have "\<exists>u. ?body = h # u" using ht Cons by (cases ys) auto
    ultimately show ?thesis
      using n json_head_not_ws [OF ht(2)] json_head_not_close [OF ht(2)]
      by (auto simp: skip_ws_head json_ws_def)
  qed
next
  case (JObj kvs)
  obtain k where n: "n = Suc k" using JObj.prems(1) by (cases n) auto
  have wf: "distinct (map fst kvs)" "enum_order kvs = kvs" using JObj.prems(2) by auto
  show ?case
  proof (cases kvs)
    case Nil
    then show ?thesis using n by (simp add: skip_ws_head json_ws_def)
  next
    case (Cons q qs)
    let ?body = "join_with '','' (map member_text kvs) @ CHR ''}'' # r"
    have "parse_members k ?body = Some (kvs, r)"
    proof (rule parse_members_join)
      fix key v m s assume kv: "(key, v) \<in> set kvs" "2 * length (json_stringify v) \<le> m" "delimited s"
      then have "v \<in> Basic_BNFs.snds (key, v)" "enum_wf v" using JObj.prems(2) by (auto simp: list_all_iff)
      with JObj.IH [OF kv(1)] kv show "parse_value m (json_stringify v @ s) = Some (v, s)" by blast
    qed (use JObj.prems n Cons in auto)
    moreover have "\<exists>u. ?body = CHR 0x22 # u" using Cons by (cases q; cases qs) (auto simp: quote_str_def)
    ultimately show ?thesis
      using n wf by (auto simp: skip_ws_head json_ws_def jspread_Nil)
  qed
next
  case (JStr x)
  then obtain k where "n = Suc k" by (cases n) (auto simp: quote_str_def)
  then show ?case using parse_chars_esc_str [of x r] by (simp add: quote_str_def skip_ws_head json_ws_def)
next
  case (JNum i)
  obtain h t where ht: "show_int i = h # t" "is_digit h \<or> h = CHR ''-''" using show_int_hd by blast
  then have "\<not> json_ws h" "h \<notin> {CHR ''n'', CHR ''t'', CHR ''f'', CHR 0x22, CHR ''['', CHR ''{''}"
    by (auto simp: json_ws_def is_digit_def)
  moreover obtain k where "n = Suc k" using JNum.prems(1) ht by (cases n) auto
  ultimately show ?case using parse_number_show [OF JNum.prems(3), of i] ht
    by (simp add: skip_ws_head)
next
  case (JBool b)
  then obtain k where "n = Suc k" by (cases n) (auto split: if_splits)
  then show ?case by (simp add: skip_ws_head json_ws_def strip_def)
next
  case JNull
  then obtain k where "n = Suc k" by (cases n) auto
  then show ?case by (simp add: skip_ws_head json_ws_def strip_def)
qed

lemma JSON_parse_stringify: "enum_wf v \<Longrightarrow> JSON_parse (json_stringify v) = Some v"
  using parse_value_stringify [of v "2 * length (json_stringify v) + 1" "[]"]
  by (simp add: JSON_parse_def skip_ws_def)

lemma enum_order_idem [simp]: "enum_order (enum_order kvs) = enum_order kvs"
proof -
  let ?I = "\<lambda>p :: string \<times> 'a. is_array_index (fst p)" and ?f = "\<lambda>p :: string \<times> 'a. read_nat (fst p)"
  let ?A = "sort_key ?f (filter ?I kvs)" and ?B = "filter (\<lambda>p. \<not> ?I p) kvs"
  have "filter ?I ?A = ?A" "filter ?I ?B = []" "filter (\<lambda>p. \<not> ?I p) ?A = []"
    by (auto simp: filter_id_conv filter_empty_conv)
  then show ?thesis by (simp add: enum_order_def sort_key_id_if_sorted)
qed

lemma enum_wf_canon: "json_wf v \<Longrightarrow> enum_wf (cgCanonV1 v)"
proof (induction v)
  case (JArr xs)
  then show ?case by (auto simp: list_all_iff)
next
  case (JObj kvs)
  let ?g = "\<lambda>(k, v). (k, cgCanonV1 v)"
  have "distinct (map fst (filter (\<lambda>p. fst p \<noteq> ''__proto__'') (map ?g kvs)))"
    using JObj.prems by (intro distinct_map_filter) simp
  then have "distinct (map fst (canon_members (map ?g kvs)))"
    using distinct_fst_mset [OF mset_canon_members] by blast
  moreover have "enum_order (canon_members (map ?g kvs)) = canon_members (map ?g kvs)"
    by (simp add: canon_members_def)
  moreover have "\<forall>p \<in> set (canon_members (map ?g kvs)). enum_wf (snd p)"
    using JObj by (fastforce simp: set_canon_members list_all_iff)
  ultimately show ?case by (auto simp: list_all_iff)
qed auto

lemma parse_canonical: "json_wf v \<Longrightarrow> JSON_parse (recordCanonV1 v) = Some (cgCanonV1 v)"
  by (simp add: recordCanonV1_def JSON_parse_stringify enum_wf_canon)

lemma plain_json_wf: "plain_json v \<Longrightarrow> json_wf v"
  by (induction v) (fastforce simp: list_all_iff)+

subsection \<open>Property\<close>

text \<open>C9. Reading back the canonical bytes of a value gives a value with the same content, and
  serialising that gives the same bytes again: what is hashed, signed and stored is a fixed point
  of parsing and canonicalisation.\<close>

theorem canonical_bytes_roundtrip:
  assumes "plain_json v"
  shows "\<exists>u. JSON_parse (recordCanonV1 v) = Some u \<and> recordCanonV1 u = recordCanonV1 v \<and> same_json v u"
  using parse_canonical [OF plain_json_wf [OF assms]] same_json_canon [OF assms] cgCanonV1_idem [OF assms]
  by (auto simp: recordCanonV1_eq_iff)

lemma canonical_bytes_roundtrip_witness:
  "\<exists>u. JSON_parse (recordCanonV1 (JObj [(''b'', JStr ''x''), (''a'', JNum (-7))])) = Some u
     \<and> same_json (JObj [(''b'', JStr ''x''), (''a'', JNum (-7))]) u"
  using canonical_bytes_roundtrip [of "JObj [(''b'', JStr ''x''), (''a'', JNum (-7))]"] by auto

end
