(* ===== verification/Envelope.thy ===== *)
theory Envelope
  imports Json_Parse
begin

text \<open>
  \<^verbatim>\<open>hub/envelope.mjs\<close>: in-toto statements in dual-signed DSSE envelopes (Ed25519 and ML-DSA-44).
  The two signature primitives are the record \<open>crypto\<close> of functions, a parameter; a public key
  is its exported bytes. The payload and the signatures of an envelope are held as bytes, their
  base64 text being only a transport encoding; \<open>verifyEnvelope\<close> parses them with the model's own
  \<open>JSON_parse\<close>.
\<close>

subsection \<open>Statements\<close>

definition IN_TOTO_STATEMENT_TYPE :: string where
  "IN_TOTO_STATEMENT_TYPE = ''https://in-toto.io/Statement/v1''"

definition DSSE_PAYLOAD_TYPE :: string where
  "DSSE_PAYLOAD_TYPE = ''application/vnd.in-toto+json''"

definition helmPredicateType :: "string \<Rightarrow> string" where
  "helmPredicateType kind = ''https://ainumbers.co/helm/attestation/v1#'' @ kind"

definition buildStatement :: "json \<Rightarrow> string \<Rightarrow> json \<Rightarrow> ijson_error + json" where
  "buildStatement subject predicateType predicate =
     (let statement = JObj [(''_type'', JStr IN_TOTO_STATEMENT_TYPE), (''subject'', subject),
                            (''predicateType'', JStr predicateType), (''predicate'', predicate)]
      in and_then (assertIJson statement) (\<lambda>_. Inr statement))"

text \<open>The pre-authentication encoding that is signed.\<close>

definition pae :: "string \<Rightarrow> string \<Rightarrow> string" where
  "pae payloadType payloadBytes =
     ''DSSEv1'' @ '' '' @ show_nat (length payloadType) @ '' '' @ payloadType @ '' ''
     @ show_nat (length payloadBytes) @ '' '' @ payloadBytes"

subsection \<open>Keys and signatures\<close>

record crypto =
  ed_sign :: "string \<Rightarrow> string \<Rightarrow> string"
  ed_verify :: "string \<Rightarrow> string \<Rightarrow> string \<Rightarrow> bool"
  ml_sign :: "string \<Rightarrow> string \<Rightarrow> string"
  ml_verify :: "string \<Rightarrow> string \<Rightarrow> string \<Rightarrow> bool"

record signing_keys =
  ed_private :: string
  ed_public :: string
  ml_secret :: string
  ml_public :: string

record public_keys =
  pk_ed25519 :: string
  pk_mldsa44 :: "string option"

record sig_entry =
  se_keyid :: string
  se_alg :: string
  se_sig :: string

record envelope =
  env_payloadType :: string
  env_payload :: string
  env_signatures :: "sig_entry list"

definition ed25519KeyId :: "(string \<Rightarrow> string) \<Rightarrow> string \<Rightarrow> string" where
  "ed25519KeyId sha publicKey = take 16 (sha publicKey)"

definition mldsa44KeyId :: "(string \<Rightarrow> string) \<Rightarrow> string \<Rightarrow> string" where
  "mldsa44KeyId sha publicKeyBytes = take 16 (sha publicKeyBytes)"

definition emitEnvelope :: "(string \<Rightarrow> string) \<Rightarrow> crypto \<Rightarrow> json \<Rightarrow> signing_keys \<Rightarrow> envelope" where
  "emitEnvelope sha cr statement keys =
     (let payloadBytes = recordCanonV1 statement;
          toSign = pae DSSE_PAYLOAD_TYPE payloadBytes;
          edSig = ed_sign cr (ed_private keys) toSign;
          mldsaSig = ml_sign cr (ml_secret keys) toSign
      in \<lparr>env_payloadType = DSSE_PAYLOAD_TYPE, env_payload = payloadBytes,
          env_signatures =
            [\<lparr>se_keyid = ed25519KeyId sha (ed_public keys), se_alg = ''EdDSA'', se_sig = edSig\<rparr>,
             \<lparr>se_keyid = mldsa44KeyId sha (ml_public keys), se_alg = ''ML-DSA-44'', se_sig = mldsaSig\<rparr>]\<rparr>)"

record envelope_check =
  ec_valid :: bool
  ec_ed25519 :: bool
  ec_mldsa44 :: "bool option"
  ec_statement :: "json option"

definition verifyEnvelope ::
  "crypto \<Rightarrow> envelope \<Rightarrow> public_keys \<Rightarrow> bool \<Rightarrow> envelope_check" where
  "verifyEnvelope cr env publicKeys strict =
     (if env_payloadType env \<noteq> DSSE_PAYLOAD_TYPE
      then \<lparr>ec_valid = False, ec_ed25519 = False, ec_mldsa44 = None, ec_statement = None\<rparr>
      else
        let toVerify = pae (env_payloadType env) (env_payload env);
            ed25519 = (case find (\<lambda>s. se_alg s = ''EdDSA'') (env_signatures env) of
                         None \<Rightarrow> False
                       | Some e \<Rightarrow> ed_verify cr (pk_ed25519 publicKeys) toVerify (se_sig e));
            mldsa44 = (case (find (\<lambda>s. se_alg s = ''ML-DSA-44'') (env_signatures env), pk_mldsa44 publicKeys) of
                         (Some e, Some pk) \<Rightarrow> Some (ml_verify cr pk toVerify (se_sig e))
                       | _ \<Rightarrow> None);
            valid = (if strict then ed25519 \<and> mldsa44 = Some True else ed25519 \<and> mldsa44 \<noteq> Some False)
        in if valid then
             (case JSON_parse (env_payload env) of
                None \<Rightarrow> \<lparr>ec_valid = False, ec_ed25519 = ed25519, ec_mldsa44 = mldsa44, ec_statement = None\<rparr>
              | Some st \<Rightarrow> \<lparr>ec_valid = True, ec_ed25519 = ed25519, ec_mldsa44 = mldsa44, ec_statement = Some st\<rparr>)
           else \<lparr>ec_valid = False, ec_ed25519 = ed25519, ec_mldsa44 = mldsa44, ec_statement = None\<rparr>)"

definition publicKeysOf :: "signing_keys \<Rightarrow> public_keys" where
  "publicKeysOf keys = \<lparr>pk_ed25519 = ed_public keys, pk_mldsa44 = Some (ml_public keys)\<rparr>"

subsection \<open>What is relied on\<close>

text \<open>A signature made with a key pair verifies under its public half.\<close>

definition keys_correct :: "crypto \<Rightarrow> signing_keys \<Rightarrow> bool" where
  "keys_correct cr keys \<longleftrightarrow>
     (\<forall>m. ed_verify cr (ed_public keys) m (ed_sign cr (ed_private keys) m))
     \<and> (\<forall>m. ml_verify cr (ml_public keys) m (ml_sign cr (ml_secret keys) m))"

subsection \<open>The encoding that is signed is injective\<close>

lemma show_nat_space_decode:
  "show_nat m @ CHR '' '' # r = show_nat n @ CHR '' '' # s \<Longrightarrow> m = n \<and> r = s"
proof -
  assume eq: "show_nat m @ CHR '' '' # r = show_nat n @ CHR '' '' # s"
  have tw: "takeWhile is_digit (show_nat k @ CHR '' '' # t) = show_nat k" for k t
    using show_nat_digits [of k] by (simp add: takeWhile_append2 is_digit_def)
  have "show_nat m = show_nat n" using tw [of m r] tw [of n s] eq by simp
  with eq show ?thesis by simp
qed

lemma pae_inject: "pae t p = pae t' p' \<Longrightarrow> t = t' \<and> p = p'"
proof -
  assume "pae t p = pae t' p'"
  then have "show_nat (length t) @ CHR '' '' # (t @ CHR '' '' # show_nat (length p) @ CHR '' '' # p)
      = show_nat (length t') @ CHR '' '' # (t' @ CHR '' '' # show_nat (length p') @ CHR '' '' # p')"
    by (simp add: pae_def)
  from show_nat_space_decode [OF this] have "length t = length t'"
    "t @ CHR '' '' # show_nat (length p) @ CHR '' '' # p = t' @ CHR '' '' # show_nat (length p') @ CHR '' '' # p'"
    by auto
  then have "t = t'" "show_nat (length p) @ CHR '' '' # p = show_nat (length p') @ CHR '' '' # p'" by auto
  with show_nat_space_decode show ?thesis by blast
qed

subsection \<open>Round trip\<close>

lemma verify_emit:
  assumes "keys_correct cr keys" and "json_wf st"
  shows "verifyEnvelope cr (emitEnvelope sha cr st keys) (publicKeysOf keys) strict =
     \<lparr>ec_valid = True, ec_ed25519 = True, ec_mldsa44 = Some True, ec_statement = Some (cgCanonV1 st)\<rparr>"
  using assms
  by (simp add: verifyEnvelope_def emitEnvelope_def publicKeysOf_def keys_correct_def parse_canonical Let_def)

text \<open>A valid envelope carries a signature of exactly the bytes that were parsed.\<close>

lemma verify_valid_signed:
  assumes "ec_valid (verifyEnvelope cr env pks strict)"
  shows "\<exists>e \<in> set (env_signatures env). se_alg e = ''EdDSA''
           \<and> ed_verify cr (pk_ed25519 pks) (pae DSSE_PAYLOAD_TYPE (env_payload env)) (se_sig e)"
    and "JSON_parse (env_payload env) = ec_statement (verifyEnvelope cr env pks strict)"
    and "ec_statement (verifyEnvelope cr env pks strict) \<noteq> None"
  using assms
  by (auto simp: verifyEnvelope_def Let_def dest!: find_SomeD split: if_splits option.splits)

end
