(* ===== verification/Journal.thy ===== *)
theory Journal
  imports Envelope
begin

text \<open>
  \<^verbatim>\<open>hub/journal.mjs\<close>: the append-only, hash-chained journal. The database handle is the record
  \<open>journal_db\<close>, one field per table of \<open>openJournal\<close> and one for SQLite's \<open>sqlite_sequence\<close>
  counter behind \<open>AUTOINCREMENT\<close>; components that own further tables extend it. A column of JSON
  text holds the value it denotes. The clock reading of an operation is its argument.

  The lemmas show that appending keeps the chain verifiable and append-only, that
  \<open>replayVerify\<close> accepts exactly the chains whose stored hashes follow from their contents, and
  that two verified journals that agree on a stream's head agree on the stream's history up to
  a collision of the hash among the strings they hashed.
\<close>

subsection \<open>Tables\<close>

record jrow =
  j_seq :: nat
  j_stream :: string
  j_kind :: string
  j_run_id :: "string option"
  j_entry :: json
  j_digest :: string
  j_rh :: string
  j_created_at :: string

record checkpoint_row =
  cr_root_digest :: string
  cr_envelope :: envelope
  cr_created_at :: string

record journal_db =
  journal :: "jrow list"
  sqlite_sequence :: nat
  stream_state :: "(string, nat \<times> string) tbl"
  checkpoints :: "(nat, checkpoint_row) tbl"
  journal_meta :: "(string, string) tbl"

definition openJournal :: journal_db where
  \<comment> \<open>the tables of a fresh database file\<close>
  "openJournal = \<lparr>journal = [], sqlite_sequence = 0, stream_state = [], checkpoints = [], journal_meta = []\<rparr>"

definition withTransaction :: "'d \<Rightarrow> ('d \<Rightarrow> ('e + 'a) \<times> 'd) \<Rightarrow> ('e + 'a) \<times> 'd" where
  "withTransaction db fn =
     (case fn db of
        (Inr result, db') \<Rightarrow> (Inr result, db')
      | (Inl err, _) \<Rightarrow> (Inl err, db))"

definition recordFullVerification :: "string \<Rightarrow> 'a journal_db_scheme \<Rightarrow> 'a journal_db_scheme" where
  "recordFullVerification now db =
     db\<lparr>journal_meta := tbl_upsert ''last_full_verified_at'' now (journal_meta db)\<rparr>"

definition lastFullVerifiedAt :: "'a journal_db_scheme \<Rightarrow> string option" where
  "lastFullVerifiedAt db = tbl_get (journal_meta db) ''last_full_verified_at''"

subsection \<open>Appending\<close>

datatype journal_error =
    MissingArt12Field string
  | HumansInvolvedNotArray
  | HumansInvolvedBadMember
  | NotIJson ijson_error

definition ART12_FIELDS :: "string list" where
  "ART12_FIELDS = [''period_start'', ''period_end'', ''reference_db_version'',
                   ''triggering_input_digest'', ''humans_involved'']"

definition sha256Hex :: "(string \<Rightarrow> string) \<Rightarrow> string list \<Rightarrow> string" where
  \<comment> \<open>the parts are fed to one hash state, which is hashing their concatenation\<close>
  "sha256Hex sha parts = sha (concat parts)"

definition jcsBytes :: "json \<Rightarrow> journal_error + string" where
  "jcsBytes obj = (case assertIJson obj of Inl e \<Rightarrow> Inl (NotIJson e) | Inr _ \<Rightarrow> Inr (recordCanonV1 obj))"

definition streamSeed :: "(string \<Rightarrow> string) \<Rightarrow> string \<Rightarrow> string" where
  "streamSeed sha streamId = sha256Hex sha [streamId]"

fun check_humans :: "json list \<Rightarrow> journal_error + unit" where
  "check_humans [] = Inr ()"
| "check_humans (h # hs) =
     (if \<not> js_truthy (Some h) \<or> jstr_of (jget h ''id_ref'') = None \<or> jstr_of (jget h ''role'') = None
      then Inl HumansInvolvedBadMember else check_humans hs)"

definition assertArt12 :: "(string \<times> json) list \<Rightarrow> journal_error + unit" where
  "assertArt12 entry =
     (case find (\<lambda>f. map_of entry f = None) ART12_FIELDS of
        Some f \<Rightarrow> Inl (MissingArt12Field f)
      | None \<Rightarrow>
          (case map_of entry ''humans_involved'' of
             Some (JArr hs) \<Rightarrow> check_humans hs
           | _ \<Rightarrow> Inl HumansInvolvedNotArray))"

definition next_rowid :: "'a journal_db_scheme \<Rightarrow> nat" where
  \<comment> \<open>\<open>AUTOINCREMENT\<close>: one more than any row id ever used\<close>
  "next_rowid db = Suc (fold max (map j_seq (journal db)) (sqlite_sequence db))"

definition rh_next :: "(string \<Rightarrow> string) \<Rightarrow> string \<Rightarrow> string \<Rightarrow> nat \<Rightarrow> string \<Rightarrow> string" where
  "rh_next sha rhPrev streamId seq entryDigest =
     sha256Hex sha [hex_bytes rhPrev, streamId, show_nat seq, hex_bytes entryDigest]"

definition insert_hashed ::
  "(string \<Rightarrow> string) \<Rightarrow> string \<Rightarrow> string \<Rightarrow> string \<Rightarrow> string option \<Rightarrow> json \<Rightarrow> string \<Rightarrow> string \<Rightarrow>
   'a journal_db_scheme \<Rightarrow> (journal_error + nat \<times> string \<times> string) \<times> 'a journal_db_scheme" where
  "insert_hashed sha now streamId kind runId fullEntry entryDigest rhPrev db =
     (let seq = next_rowid db;
          row = \<lparr>j_seq = seq, j_stream = streamId, j_kind = kind, j_run_id = runId, j_entry = fullEntry,
                 j_digest = entryDigest, j_rh = [], j_created_at = now\<rparr>;
          db1 = db\<lparr>journal := journal db @ [row], sqlite_sequence := seq\<rparr>;
          rh = rh_next sha rhPrev streamId seq entryDigest;
          db2 = db1\<lparr>journal := map (\<lambda>r. if j_seq r = seq then r\<lparr>j_rh := rh\<rparr> else r) (journal db1)\<rparr>;
          db3 = db2\<lparr>stream_state := tbl_upsert streamId (seq, rh) (stream_state db2)\<rparr>
      in (Inr (seq, rh, entryDigest), db3))"

definition appendEntry ::
  "(string \<Rightarrow> string) \<Rightarrow> string \<Rightarrow> string \<Rightarrow> string \<Rightarrow> string option \<Rightarrow> (string \<times> json) list \<Rightarrow>
   'a journal_db_scheme \<Rightarrow> (journal_error + nat \<times> string \<times> string) \<times> 'a journal_db_scheme" where
  "appendEntry sha now streamId kind runId entry db =
     (case assertArt12 entry of
        Inl e \<Rightarrow> (Inl e, db)
      | Inr _ \<Rightarrow>
          let fullEntry = JObj (jspread [(''kind'', JStr kind),
                (''run_id'', case runId of None \<Rightarrow> JNull | Some r \<Rightarrow> JStr r)] entry)
          in case jcsBytes fullEntry of
               Inl e \<Rightarrow> (Inl e, db)
             | Inr bytes \<Rightarrow>
                 let entryDigest = sha256Hex sha [bytes];
                     rhPrev = (case tbl_get (stream_state db) streamId of
                                 Some (_, last_rh) \<Rightarrow> last_rh | None \<Rightarrow> streamSeed sha streamId)
                 in withTransaction db (insert_hashed sha now streamId kind runId fullEntry entryDigest rhPrev))"

definition streamHead :: "(string \<Rightarrow> string) \<Rightarrow> string \<Rightarrow> 'a journal_db_scheme \<Rightarrow> nat option \<times> string" where
  "streamHead sha streamId db =
     (case tbl_get (stream_state db) streamId of
        Some (seq, rh) \<Rightarrow> (Some seq, rh)
      | None \<Rightarrow> (None, streamSeed sha streamId))"

definition streamHeads :: "'a journal_db_scheme \<Rightarrow> (string \<times> nat \<times> string) list" where
  "streamHeads db = sort_key fst (stream_state db)"

subsection \<open>Replay\<close>

datatype replay_result = Replay_ok | Replay_broken nat string string string

fun replay_rows :: "(string \<Rightarrow> string) \<Rightarrow> (string, string) tbl \<Rightarrow> jrow list \<Rightarrow> replay_result" where
  "replay_rows sha rhByStream [] = Replay_ok"
| "replay_rows sha rhByStream (row # rows) =
     (let rhPrev = (case tbl_get rhByStream (j_stream row) of
                      Some rh \<Rightarrow> rh | None \<Rightarrow> streamSeed sha (j_stream row));
          expected = rh_next sha rhPrev (j_stream row) (j_seq row) (j_digest row)
      in if expected \<noteq> j_rh row
         then Replay_broken (j_seq row) (j_stream row) expected (j_rh row)
         else replay_rows sha (tbl_upsert (j_stream row) expected rhByStream) rows)"

definition replayVerify :: "(string \<Rightarrow> string) \<Rightarrow> 'a journal_db_scheme \<Rightarrow> replay_result" where
  "replayVerify sha db = replay_rows sha [] (sort_key j_seq (journal db))"

text \<open>
  A stream of a checkpoint's predicate; \<open>cs_seq = None\<close> stands for a \<open>journal_seq\<close> that is not an integer.
\<close>

record checkpoint_stream =
  cs_stream :: string
  cs_seq :: "int option"
  cs_rh :: string

definition floor_seq :: "checkpoint_stream list \<Rightarrow> int" where
  "floor_seq css = (case List.map_filter cs_seq css of [] \<Rightarrow> 0 | n # ns \<Rightarrow> fold min ns n)"

definition replayVerifyFrom ::
  "(string \<Rightarrow> string) \<Rightarrow> checkpoint_stream list \<Rightarrow> 'a journal_db_scheme \<Rightarrow> replay_result" where
  "replayVerifyFrom sha checkpointStreams db =
     replay_rows sha
       (fold (\<lambda>s m. tbl_upsert (cs_stream s) (cs_rh s) m) checkpointStreams [])
       (filter (\<lambda>r. floor_seq checkpointStreams < int (j_seq r)) (sort_key j_seq (journal db)))"

subsection \<open>Chains of one stream\<close>

definition stream_rows :: "string \<Rightarrow> jrow list \<Rightarrow> jrow list" where
  "stream_rows s rows = filter (\<lambda>r. j_stream r = s) rows"

fun link_chain :: "(string \<Rightarrow> string) \<Rightarrow> string \<Rightarrow> string \<Rightarrow> jrow list \<Rightarrow> bool" where
  "link_chain sha s rh [] = True"
| "link_chain sha s rh (r # rs) =
     (j_rh r = rh_next sha rh s (j_seq r) (j_digest r) \<and> link_chain sha s (j_rh r) rs)"

definition last_rh :: "string \<Rightarrow> jrow list \<Rightarrow> string" where
  "last_rh rh rows = (case rows of [] \<Rightarrow> rh | _ \<Rightarrow> j_rh (last rows))"

definition prev_rh :: "(string \<Rightarrow> string) \<Rightarrow> (string, string) tbl \<Rightarrow> string \<Rightarrow> string" where
  "prev_rh sha m s = (case tbl_get m s of Some rh \<Rightarrow> rh | None \<Rightarrow> streamSeed sha s)"

lemma stream_rows_simps [simp]:
  "stream_rows s [] = []"
  "stream_rows s (r # rs) = (if j_stream r = s then r # stream_rows s rs else stream_rows s rs)"
  "stream_rows s (xs @ ys) = stream_rows s xs @ stream_rows s ys"
  by (simp_all add: stream_rows_def)

lemma last_rh_simps [simp]:
  "last_rh rh [] = rh" "last_rh rh (xs @ [x]) = j_rh x" "last_rh rh (x # xs) = last_rh (j_rh x) xs"
  by (cases xs; simp add: last_rh_def)+

lemma link_chain_append [simp]:
  "link_chain sha s rh (xs @ ys) \<longleftrightarrow> link_chain sha s rh xs \<and> link_chain sha s (last_rh rh xs) ys"
  by (induction xs arbitrary: rh) auto

lemma prev_rh_upsert [simp]:
  "prev_rh sha (tbl_upsert s rh m) s' = (if s' = s then rh else prev_rh sha m s')"
  by (simp add: prev_rh_def)

lemma prev_rh_Nil [simp]: "prev_rh sha [] s = streamSeed sha s"
  by (simp add: prev_rh_def)

lemma replay_rows_Cons:
  "replay_rows sha m (r # rs) =
     (let expected = rh_next sha (prev_rh sha m (j_stream r)) (j_stream r) (j_seq r) (j_digest r)
      in if expected \<noteq> j_rh r then Replay_broken (j_seq r) (j_stream r) expected (j_rh r)
         else replay_rows sha (tbl_upsert (j_stream r) expected m) rs)"
  by (simp add: prev_rh_def)

declare replay_rows.simps(2) [simp del]

text \<open>Replay accepts exactly when every stream is a chain from its starting hash.\<close>

lemma replay_rows_ok_iff:
  "replay_rows sha m rows = Replay_ok \<longleftrightarrow> (\<forall>s. link_chain sha s (prev_rh sha m s) (stream_rows s rows))"
proof (induction rows arbitrary: m)
  case (Cons r rows)
  let ?e = "rh_next sha (prev_rh sha m (j_stream r)) (j_stream r) (j_seq r) (j_digest r)"
  show ?case
  proof (cases "?e = j_rh r")
    case True
    have "link_chain sha s (prev_rh sha (tbl_upsert (j_stream r) ?e m) s) (stream_rows s rows)
        \<longleftrightarrow> link_chain sha s (prev_rh sha m s) (stream_rows s (r # rows))" for s
      using True by auto
    with True Cons.IH show ?thesis by (simp add: replay_rows_Cons Let_def)
  next
    case False
    then have "\<not> link_chain sha (j_stream r) (prev_rh sha m (j_stream r)) (stream_rows (j_stream r) (r # rows))"
      by auto
    moreover have "replay_rows sha m (r # rows) \<noteq> Replay_ok"
      using False by (simp add: replay_rows_Cons Let_def)
    ultimately show ?thesis by blast
  qed
qed simp

definition replay_map :: "(string, string) tbl \<Rightarrow> jrow list \<Rightarrow> (string, string) tbl" where
  "replay_map m rows = fold (\<lambda>r. tbl_upsert (j_stream r) (j_rh r)) rows m"

lemma prev_rh_replay_map:
  "prev_rh sha (replay_map m rows) s = last_rh (prev_rh sha m s) (stream_rows s rows)"
  by (induction rows arbitrary: m) (auto simp: replay_map_def)

lemma replay_rows_append:
  assumes "replay_rows sha m xs = Replay_ok"
  shows "replay_rows sha m (xs @ ys) = replay_rows sha (replay_map m xs) ys"
  using assms
proof (induction xs arbitrary: m)
  case (Cons x xs)
  then show ?case
    by (auto simp: replay_rows_Cons Let_def replay_map_def split: if_splits)
qed (simp add: replay_map_def)

lemma replay_rows_cong:
  "(\<And>s. s \<in> j_stream ` set rows \<Longrightarrow> prev_rh sha m s = prev_rh sha m' s)
   \<Longrightarrow> replay_rows sha m rows = replay_rows sha m' rows"
proof (induction rows arbitrary: m m')
  case (Cons r rows)
  have "prev_rh sha m (j_stream r) = prev_rh sha m' (j_stream r)" using Cons.prems by simp
  moreover have "replay_rows sha (tbl_upsert (j_stream r) e m) rows
      = replay_rows sha (tbl_upsert (j_stream r) e m') rows" for e
    using Cons.prems by (intro Cons.IH) auto
  ultimately show ?case by (simp add: replay_rows_Cons Let_def)
qed simp

subsection \<open>Unique history\<close>

definition rh_preimage :: "string \<Rightarrow> string \<Rightarrow> nat \<Rightarrow> string \<Rightarrow> string" where
  "rh_preimage rh s n d = hex_bytes rh @ s @ show_nat n @ hex_bytes d"

lemma rh_next_preimage: "rh_next sha rh s n d = sha (rh_preimage rh s n d)"
  by (simp add: rh_next_def sha256Hex_def rh_preimage_def)

lemma rh_preimage_inject:
  assumes "is_hex64 rh" "is_hex64 rh'" "is_hex64 d" "is_hex64 d'"
    and "rh_preimage rh s n d = rh_preimage rh' s n' d'"
  shows "rh = rh' \<and> n = n' \<and> d = d'"
proof -
  from assms have "hex_bytes rh = hex_bytes rh'"
    and "show_nat n @ hex_bytes d = show_nat n' @ hex_bytes d'"
    by (simp_all add: rh_preimage_def)
  moreover from this(2) assms(3,4) have "show_nat n = show_nat n'" "hex_bytes d = hex_bytes d'"
    by (simp_all add: append_eq_append_conv)
  ultimately show ?thesis using assms(1-4) hex_bytes_inject_64 by auto
qed

lemma rh_preimage_not_seed: "is_hex64 rh \<Longrightarrow> rh_preimage rh s n d \<noteq> s"
proof
  assume "is_hex64 rh" "rh_preimage rh s n d = s"
  then have "length (rh_preimage rh s n d) = length s" "length (hex_bytes rh) = 32" by simp_all
  then show False by (simp add: rh_preimage_def)
qed

text \<open>The strings a chain hashes: the stream's name for the seed, then one string per row.\<close>

fun chain_preimages :: "string \<Rightarrow> string \<Rightarrow> jrow list \<Rightarrow> string list" where
  "chain_preimages s rh [] = []"
| "chain_preimages s rh (r # rs) = rh_preimage rh s (j_seq r) (j_digest r) # chain_preimages s (j_rh r) rs"

lemma chain_preimages_append [simp]:
  "chain_preimages s rh (xs @ ys) = chain_preimages s rh xs @ chain_preimages s (last_rh rh xs) ys"
  by (induction xs arbitrary: rh) auto

definition row_fact :: "jrow \<Rightarrow> nat \<times> string" where
  "row_fact r = (j_seq r, j_digest r)"

lemma link_chain_hex64:
  "hex_digest_fun sha \<Longrightarrow> is_hex64 rh \<Longrightarrow> link_chain sha s rh xs \<Longrightarrow> is_hex64 (last_rh rh xs)"
  by (induction xs arbitrary: rh) (auto simp: hex_digest_fun_def rh_next_preimage)

lemma streamSeed_hex64: "hex_digest_fun sha \<Longrightarrow> is_hex64 (streamSeed sha s)"
  by (simp add: hex_digest_fun_def streamSeed_def sha256Hex_def)

lemma chain_unique:
  assumes sha: "hex_digest_fun sha"
    and "link_chain sha s (streamSeed sha s) xs" and "link_chain sha s (streamSeed sha s) ys"
    and "\<forall>r \<in> set xs. is_hex64 (j_digest r)" and "\<forall>r \<in> set ys. is_hex64 (j_digest r)"
    and "last_rh (streamSeed sha s) xs = last_rh (streamSeed sha s) ys"
    and inj: "inj_on sha (set (s # chain_preimages s (streamSeed sha s) xs)
                          \<union> set (s # chain_preimages s (streamSeed sha s) ys))"
  shows "map row_fact xs = map row_fact ys"
  using assms(2-)
proof (induction xs arbitrary: ys rule: rev_induct)
  case Nil
  show ?case
  proof (cases ys rule: rev_cases)
    case (snoc ys' y)
    let ?p = "rh_preimage (last_rh (streamSeed sha s) ys') s (j_seq y) (j_digest y)"
    from Nil.prems snoc have "sha s = sha ?p"
      by (simp add: rh_next_preimage streamSeed_def sha256Hex_def)
    with Nil.prems(6) have "s = ?p" by (rule inj_onD) (simp_all add: snoc)
    moreover have "is_hex64 (last_rh (streamSeed sha s) ys')"
      using Nil.prems(2) snoc by (intro link_chain_hex64 [OF sha streamSeed_hex64 [OF sha]]) auto
    ultimately show ?thesis using rh_preimage_not_seed by metis
  qed simp
next
  case (snoc x xs)
  let ?seed = "streamSeed sha s"
  let ?p = "rh_preimage (last_rh ?seed xs) s (j_seq x) (j_digest x)"
  have hx: "is_hex64 (last_rh ?seed xs)"
    using snoc.prems(1) by (intro link_chain_hex64 [OF sha streamSeed_hex64 [OF sha]]) auto
  show ?case
  proof (cases ys rule: rev_cases)
    case Nil
    from snoc.prems Nil have "sha ?p = sha s"
      by (simp add: rh_next_preimage streamSeed_def sha256Hex_def)
    with snoc.prems(6) have "?p = s" by (rule inj_onD) (simp_all add: Nil)
    with hx rh_preimage_not_seed show ?thesis by metis
  next
    case ys: (snoc ys' y)
    let ?q = "rh_preimage (last_rh ?seed ys') s (j_seq y) (j_digest y)"
    have hy: "is_hex64 (last_rh ?seed ys')"
      using snoc.prems(2) ys by (intro link_chain_hex64 [OF sha streamSeed_hex64 [OF sha]]) auto
    from snoc.prems ys have "sha ?p = sha ?q" by (simp add: rh_next_preimage)
    with snoc.prems(6) have "?p = ?q" by (rule inj_onD) (simp_all add: ys)
    with rh_preimage_inject [OF hx hy] snoc.prems(3,4) ys
    have eq: "last_rh ?seed xs = last_rh ?seed ys'" "j_seq x = j_seq y" "j_digest x = j_digest y"
      by auto
    have "map row_fact xs = map row_fact ys'"
      using snoc.prems ys eq(1) by (intro snoc.IH) (auto elim!: inj_on_subset)
    moreover have "row_fact x = row_fact y" using eq by (simp add: row_fact_def)
    ultimately show ?thesis by (simp add: ys)
  qed
qed

subsection \<open>The invariant of the journal\<close>

definition head_of :: "jrow list \<Rightarrow> string \<Rightarrow> (nat \<times> string) option" where
  "head_of rows s = (let rs = stream_rows s rows in
     if rs = [] then None else Some (j_seq (last rs), j_rh (last rs)))"

definition journal_inv :: "(string \<Rightarrow> string) \<Rightarrow> 'a journal_db_scheme \<Rightarrow> bool" where
  "journal_inv sha db \<longleftrightarrow>
     sorted_wrt (<) (map j_seq (journal db))
     \<and> (\<forall>r \<in> set (journal db). j_seq r \<le> sqlite_sequence db)
     \<and> (\<forall>s. tbl_get (stream_state db) s = head_of (journal db) s)
     \<and> tbl_keys_unique (stream_state db)
     \<and> (\<forall>r \<in> set (journal db). j_digest r = sha (recordCanonV1 (j_entry r)))
     \<and> replay_rows sha [] (journal db) = Replay_ok"

lemma journal_inv_open: "journal_inv sha openJournal"
  by (simp add: journal_inv_def openJournal_def head_of_def)

lemma head_of_snoc:
  "head_of (rows @ [r]) s = (if j_stream r = s then Some (j_seq r, j_rh r) else head_of rows s)"
  by (simp add: head_of_def Let_def)

lemma last_rh_head_of:
  "last_rh rh (stream_rows s rows) = (case head_of rows s of None \<Rightarrow> rh | Some (_, h) \<Rightarrow> h)"
  by (simp add: head_of_def last_rh_def Let_def split: list.split)

lemma fold_max_bound:
  "(\<forall>n \<in> set ns. n \<le> b) \<Longrightarrow> fold max ns b = (b::nat)"
  by (induction ns) auto

lemma fold_max_ge: "n \<in> set ns \<Longrightarrow> n \<le> fold max ns (b::nat)"
  by (metis Max.set_eq_fold List.finite_set Max_ge list.set_intros(2))

lemma next_rowid_fresh: "r \<in> set (journal db) \<Longrightarrow> j_seq r < next_rowid db"
  by (simp add: next_rowid_def fold_max_ge less_Suc_eq_le)

lemma next_rowid_inv: "journal_inv sha db \<Longrightarrow> next_rowid db = Suc (sqlite_sequence db)"
  by (simp add: next_rowid_def journal_inv_def fold_max_bound)

lemma map_update_fresh:
  "(\<And>r. r \<in> set rows \<Longrightarrow> j_seq r \<noteq> n) \<Longrightarrow> map (\<lambda>r. if j_seq r = n then f r else r) rows = rows"
  by (induction rows) auto

definition new_row ::
  "(string \<Rightarrow> string) \<Rightarrow> string \<Rightarrow> string \<Rightarrow> string \<Rightarrow> string option \<Rightarrow> json \<Rightarrow> string \<Rightarrow> 'a journal_db_scheme \<Rightarrow> jrow" where
  "new_row sha now streamId kind runId fullEntry rhPrev db =
     \<lparr>j_seq = next_rowid db, j_stream = streamId, j_kind = kind, j_run_id = runId, j_entry = fullEntry,
      j_digest = sha (recordCanonV1 fullEntry),
      j_rh = rh_next sha rhPrev streamId (next_rowid db) (sha (recordCanonV1 fullEntry)),
      j_created_at = now\<rparr>"

lemma insert_hashed_result:
  "insert_hashed sha now streamId kind runId fullEntry (sha (recordCanonV1 fullEntry)) rhPrev db =
     (let r = new_row sha now streamId kind runId fullEntry rhPrev db
      in (Inr (j_seq r, j_rh r, j_digest r),
          db\<lparr>journal := journal db @ [r], sqlite_sequence := j_seq r,
             stream_state := tbl_upsert streamId (j_seq r, j_rh r) (stream_state db)\<rparr>))"
proof -
  have "map (\<lambda>r. if j_seq r = next_rowid db then r\<lparr>j_rh := x\<rparr> else r) (journal db) = journal db" for x
    by (intro map_update_fresh) (metis less_irrefl next_rowid_fresh)
  then show ?thesis by (simp add: insert_hashed_def new_row_def Let_def)
qed

definition entry_accepted :: "string \<Rightarrow> string option \<Rightarrow> (string \<times> json) list \<Rightarrow> bool" where
  "entry_accepted kind runId entry \<longleftrightarrow> assertArt12 entry = Inr () \<and>
     ijson_ok (JObj (jspread [(''kind'', JStr kind),
       (''run_id'', case runId of None \<Rightarrow> JNull | Some r \<Rightarrow> JStr r)] entry))"

definition stored_entry :: "string \<Rightarrow> string option \<Rightarrow> (string \<times> json) list \<Rightarrow> json" where
  "stored_entry kind runId entry = JObj (jspread [(''kind'', JStr kind),
     (''run_id'', case runId of None \<Rightarrow> JNull | Some r \<Rightarrow> JStr r)] entry)"

definition head_rh :: "(string \<Rightarrow> string) \<Rightarrow> string \<Rightarrow> 'a journal_db_scheme \<Rightarrow> string" where
  "head_rh sha s db = (case tbl_get (stream_state db) s of Some (_, h) \<Rightarrow> h | None \<Rightarrow> streamSeed sha s)"

text \<open>An append either throws and changes nothing, or adds exactly one linked row.\<close>

lemma appendEntry_cases:
  "appendEntry sha now streamId kind runId entry db =
     (if entry_accepted kind runId entry then
        (let r = new_row sha now streamId kind runId (stored_entry kind runId entry) (head_rh sha streamId db) db
         in (Inr (j_seq r, j_rh r, j_digest r),
             db\<lparr>journal := journal db @ [r], sqlite_sequence := j_seq r,
                stream_state := tbl_upsert streamId (j_seq r, j_rh r) (stream_state db)\<rparr>))
      else (Inl (case assertArt12 entry of Inl e \<Rightarrow> e
                 | Inr _ \<Rightarrow> NotIJson (projl (assertIJson (stored_entry kind runId entry)))), db))"
proof (cases "assertArt12 entry")
  case (Inl e)
  then show ?thesis by (simp add: appendEntry_def entry_accepted_def)
next
  case (Inr u)
  show ?thesis
  proof (cases "assertIJson (stored_entry kind runId entry)")
    case (Inl e)
    with Inr show ?thesis
      by (simp add: appendEntry_def entry_accepted_def jcsBytes_def ijson_ok_def stored_entry_def Let_def)
  next
    case (Inr v)
    with \<open>assertArt12 entry = Inr u\<close> show ?thesis
      by (simp add: appendEntry_def entry_accepted_def jcsBytes_def ijson_ok_def stored_entry_def
            withTransaction_def sha256Hex_def head_rh_def insert_hashed_result Let_def)
  qed
qed

lemma journal_inv_snoc:
  assumes inv: "journal_inv sha db"
  shows "journal_inv sha
    (db\<lparr>journal := journal db @ [new_row sha now s kind runId e (head_rh sha s db) db],
        sqlite_sequence := next_rowid db,
        stream_state := tbl_upsert s (next_rowid db, j_rh (new_row sha now s kind runId e (head_rh sha s db) db))
                          (stream_state db)\<rparr>)"
proof -
  let ?r = "new_row sha now s kind runId e (head_rh sha s db) db"
  have ok: "replay_rows sha [] (journal db) = Replay_ok" and
    st: "\<And>s. tbl_get (stream_state db) s = head_of (journal db) s"
    using inv by (auto simp: journal_inv_def)
  have prev: "prev_rh sha (replay_map [] (journal db)) s = head_rh sha s db"
    by (simp add: prev_rh_replay_map last_rh_head_of head_rh_def st)
  have "replay_rows sha [] (journal db @ [?r]) = Replay_ok"
    using replay_rows_append [OF ok] by (simp add: replay_rows_Cons Let_def new_row_def prev)
  moreover have "\<forall>x \<in> set (journal db). j_seq x < next_rowid db"
    using next_rowid_fresh by blast
  ultimately show ?thesis
    using inv by (auto simp: journal_inv_def sorted_wrt_append new_row_def head_of_snoc less_imp_le)
qed

lemma appendEntry_inv: "journal_inv sha db \<Longrightarrow> journal_inv sha (snd (appendEntry sha now s kind runId entry db))"
  using journal_inv_snoc [of sha db] by (simp add: appendEntry_cases Let_def new_row_def)

lemma strict_sorted_seqs: "journal_inv sha db \<Longrightarrow> sort_key j_seq (journal db) = journal db"
  by (rule sort_key_id_if_sorted) (simp add: journal_inv_def strict_sorted_iff)

subsection \<open>Reachable journals\<close>

inductive journal_reach :: "(string \<Rightarrow> string) \<Rightarrow> journal_db \<Rightarrow> bool" for sha where
  opened: "journal_reach sha openJournal"
| appended: "journal_reach sha db \<Longrightarrow>
    journal_reach sha (snd (appendEntry sha now streamId kind runId entry db))"
| verified: "journal_reach sha db \<Longrightarrow> journal_reach sha (recordFullVerification now db)"

lemma journal_inv_recordFullVerification [simp]:
  "journal_inv sha (recordFullVerification now db) = journal_inv sha db"
  by (simp add: journal_inv_def recordFullVerification_def)

lemma journal_reach_inv: "journal_reach sha db \<Longrightarrow> journal_inv sha db"
  by (induction rule: journal_reach.induct) (simp_all add: journal_inv_open appendEntry_inv)

lemma journal_inv_replay: "journal_inv sha db \<Longrightarrow> replayVerify sha db = Replay_ok"
  by (simp add: replayVerify_def strict_sorted_seqs) (simp add: journal_inv_def)

text \<open>The history of a stream as replay reads it, and the hash it ends in.\<close>

definition stream_history :: "string \<Rightarrow> 'a journal_db_scheme \<Rightarrow> (nat \<times> string) list" where
  "stream_history s db = map row_fact (stream_rows s (sort_key j_seq (journal db)))"

definition replayed_head :: "(string \<Rightarrow> string) \<Rightarrow> string \<Rightarrow> 'a journal_db_scheme \<Rightarrow> string" where
  "replayed_head sha s db = last_rh (streamSeed sha s) (stream_rows s (sort_key j_seq (journal db)))"

definition hashed_strings :: "(string \<Rightarrow> string) \<Rightarrow> string \<Rightarrow> 'a journal_db_scheme \<Rightarrow> string set" where
  "hashed_strings sha s db =
     set (s # chain_preimages s (streamSeed sha s) (stream_rows s (sort_key j_seq (journal db))))"

definition digests_wf :: "'a journal_db_scheme \<Rightarrow> bool" where
  "digests_wf db \<longleftrightarrow> (\<forall>r \<in> set (journal db). is_hex64 (j_digest r))"

lemma head_determines:
  assumes "hex_digest_fun sha"
    and "replayVerify sha db = Replay_ok" and "replayVerify sha db' = Replay_ok"
    and "digests_wf db" and "digests_wf db'"
    and "replayed_head sha s db = replayed_head sha s db'"
    and "inj_on sha (hashed_strings sha s db \<union> hashed_strings sha s db')"
  shows "stream_history s db = stream_history s db'"
  unfolding stream_history_def
proof (rule chain_unique [OF assms(1)])
  show "link_chain sha s (streamSeed sha s) (stream_rows s (sort_key j_seq (journal db)))"
    using assms(2) by (simp add: replayVerify_def replay_rows_ok_iff)
  show "link_chain sha s (streamSeed sha s) (stream_rows s (sort_key j_seq (journal db')))"
    using assms(3) by (simp add: replayVerify_def replay_rows_ok_iff)
qed (use assms(4-) in \<open>auto simp: digests_wf_def stream_rows_def replayed_head_def hashed_strings_def\<close>)

subsection \<open>The boot fast path\<close>

lemma replay_rows_split_floor:
  fixes rows :: "jrow list"
  assumes "sorted (map j_seq rows)"
  shows "rows = filter (\<lambda>r. \<not> f < int (j_seq r)) rows @ filter (\<lambda>r. f < int (j_seq r)) rows"
  using assms
proof (induction rows)
  case (Cons r rows)
  then have IH: "rows = filter (\<lambda>r. \<not> f < int (j_seq r)) rows @ filter (\<lambda>r. f < int (j_seq r)) rows" by simp
  show ?case
  proof (cases "f < int (j_seq r)")
    case True
    then have "\<forall>x \<in> set rows. f < int (j_seq x)" using Cons.prems by auto
    then have "filter (\<lambda>r. \<not> f < int (j_seq r)) rows = []" by (auto simp: filter_empty_conv)
    with True IH show ?thesis by simp
  qed (use IH in simp)
qed simp

definition checkpoint_map :: "checkpoint_stream list \<Rightarrow> (string, string) tbl" where
  "checkpoint_map css = fold (\<lambda>s m. tbl_upsert (cs_stream s) (cs_rh s) m) css []"

definition rows_upto :: "int \<Rightarrow> 'a journal_db_scheme \<Rightarrow> jrow list" where
  "rows_upto f db = filter (\<lambda>r. \<not> f < int (j_seq r)) (sort_key j_seq (journal db))"

definition rows_after :: "int \<Rightarrow> 'a journal_db_scheme \<Rightarrow> jrow list" where
  "rows_after f db = filter (\<lambda>r. f < int (j_seq r)) (sort_key j_seq (journal db))"

lemma replayVerifyFrom_rows:
  "replayVerifyFrom sha css db = replay_rows sha (checkpoint_map css) (rows_after (floor_seq css) db)"
  by (simp add: replayVerifyFrom_def checkpoint_map_def rows_after_def)

text \<open>
  The checkpoint is a frontier: for every stream still to be replayed it holds the hash the
  stream had at the floor.
\<close>

definition checkpoint_is_frontier ::
  "(string \<Rightarrow> string) \<Rightarrow> checkpoint_stream list \<Rightarrow> 'a journal_db_scheme \<Rightarrow> bool" where
  "checkpoint_is_frontier sha css db \<longleftrightarrow>
     (\<forall>s \<in> j_stream ` set (rows_after (floor_seq css) db).
        prev_rh sha (checkpoint_map css) s
        = last_rh (streamSeed sha s) (stream_rows s (rows_upto (floor_seq css) db)))"

lemma fast_path_agrees:
  assumes "checkpoint_is_frontier sha css db"
    and "replay_rows sha [] (rows_upto (floor_seq css) db) = Replay_ok"
  shows "replayVerifyFrom sha css db = replayVerify sha db"
proof -
  let ?old = "rows_upto (floor_seq css) db" and ?new = "rows_after (floor_seq css) db"
  have "sort_key j_seq (journal db) = ?old @ ?new"
    unfolding rows_upto_def rows_after_def by (rule replay_rows_split_floor) simp
  then have "replayVerify sha db = replay_rows sha (replay_map [] ?old) ?new"
    using replay_rows_append [OF assms(2)] by (simp add: replayVerify_def)
  also have "\<dots> = replay_rows sha (checkpoint_map css) ?new"
    using assms(1) by (intro replay_rows_cong)
      (auto simp: checkpoint_is_frontier_def prev_rh_replay_map)
  finally show ?thesis by (simp add: replayVerifyFrom_rows)
qed

lemma digests_wf_inv: "journal_inv sha db \<Longrightarrow> hex_digest_fun sha \<Longrightarrow> digests_wf db"
  by (simp add: journal_inv_def digests_wf_def hex_digest_fun_def)

lemma stream_rows_set: "r \<in> set (stream_rows s rows) \<longleftrightarrow> r \<in> set rows \<and> j_stream r = s"
  by (auto simp: stream_rows_def)

text \<open>
  A stream whose checkpointed head lies after the floor is replayed from the wrong hash: the fast
  path rejects the journal, unless two different strings that it hashed collide.
\<close>

lemma late_head_rejected:
  assumes inv: "journal_inv sha db" and sha: "hex_digest_fun sha"
    and head: "tbl_get (stream_state db) s = Some (n, h)"
    and cp: "prev_rh sha (checkpoint_map css) s = h" and late: "floor_seq css < int n"
    and inj: "inj_on sha (hashed_strings sha s db
        \<union> set (chain_preimages s h (stream_rows s (rows_after (floor_seq css) db))))"
  shows "replayVerifyFrom sha css db \<noteq> Replay_ok"
proof
  assume ok: "replayVerifyFrom sha css db = Replay_ok"
  let ?f = "floor_seq css" and ?seed = "streamSeed sha s"
  let ?old = "stream_rows s (rows_upto ?f db)" and ?new = "stream_rows s (rows_after ?f db)"
  have srt: "sort_key j_seq (journal db) = journal db" by (rule strict_sorted_seqs [OF inv])
  have "journal db = rows_upto ?f db @ rows_after ?f db"
    unfolding rows_upto_def rows_after_def srt
    by (rule replay_rows_split_floor) (metis srt sorted_sort_key)
  then have rows: "stream_rows s (journal db) = ?old @ ?new" by (metis stream_rows_simps(3))
  have hd: "head_of (journal db) s = Some (n, h)" using inv head by (simp add: journal_inv_def)
  then have ne: "stream_rows s (journal db) \<noteq> []" and lst: "j_seq (last (stream_rows s (journal db))) = n"
    and lrh: "last_rh ?seed (?old @ ?new) = h"
    using last_rh_head_of [of ?seed s "journal db"] by (auto simp: head_of_def Let_def rows split: if_splits)
  have "last (stream_rows s (journal db)) \<in> set (rows_after ?f db)"
    using ne lst late last_in_set [OF ne] by (auto simp: rows_after_def srt stream_rows_set)
  then have "?new \<noteq> []" using ne by (metis last_in_set stream_rows_set empty_iff list.set(1))
  then obtain r new' where new: "?new = r # new'" by (cases ?new) auto
  have "link_chain sha s ?seed (stream_rows s (journal db))"
    using journal_inv_replay [OF inv] by (simp add: replayVerify_def replay_rows_ok_iff srt)
  then have chain: "link_chain sha s ?seed (?old @ ?new)" by (simp only: rows)
  have from_h: "link_chain sha s h ?new"
    using ok cp by (metis replayVerifyFrom_rows replay_rows_ok_iff)
  have hex: "is_hex64 (last_rh ?seed ?old)" "is_hex64 h"
    using chain lrh link_chain_hex64 [OF sha streamSeed_hex64 [OF sha]] by auto
  have dig: "\<forall>x \<in> set (journal db). is_hex64 (j_digest x)"
    using digests_wf_inv [OF inv sha] by (simp add: digests_wf_def)
  then have dig': "\<forall>x \<in> set (?old @ ?new). is_hex64 (j_digest x)"
    using rows by (metis stream_rows_set)
  let ?p = "rh_preimage (last_rh ?seed ?old) s (j_seq r) (j_digest r)"
  let ?q = "rh_preimage h s (j_seq r) (j_digest r)"
  have "sha ?p = sha ?q" using chain from_h new by (simp add: rh_next_preimage)
  then have "?p = ?q"
    by (rule inj_onD [OF inj]) (simp_all add: hashed_strings_def srt rows new)
  with hex dig' new have "last_rh ?seed ?old = h" using rh_preimage_inject by fastforce
  then have "map row_fact (?old @ ?new) = map row_fact ?old"
    using chain dig' lrh inj
    by (intro chain_unique [OF sha, of s]) (auto simp: hashed_strings_def srt rows elim!: inj_on_subset)
  then have "length (?old @ ?new) = length ?old" by (metis length_map)
  then show False using new by simp
qed

subsection \<open>Properties\<close>

text \<open>Concrete inputs at which the properties below are applied.\<close>

definition sample_entry :: "(string \<times> json) list" where
  "sample_entry =
     [(''period_start'', JStr ''2026-01-01''), (''period_end'', JStr ''2026-01-02''),
      (''reference_db_version'', JStr ''v1''), (''triggering_input_digest'', JStr ''sha256:00''),
      (''humans_involved'', JArr [JObj [(''id_ref'', JStr ''alice''), (''role'', JStr ''maker'')]])]"

definition sample_hex :: "char \<Rightarrow> string" where
  "sample_hex c = replicate 64 c"

definition sample_sha :: "string \<Rightarrow> string" where
  "sample_sha x = sample_hex (if x = ''wf'' then CHR ''1''
     else if take 32 x = replicate 32 (CHR 0x11) then CHR ''2'' else CHR ''0'')"

definition sample_journal :: journal_db where
  "sample_journal = snd (appendEntry sample_sha ''t0'' ''wf'' ''run'' (Some ''r1'') sample_entry openJournal)"

lemma sample_accepted: "entry_accepted ''run'' (Some ''r1'') sample_entry"
  by (simp add: entry_accepted_def ijson_ok_iff assertArt12_def ART12_FIELDS_def sample_entry_def
      jspread_def MAX_DEPTH_def MAX_ELEMENTS_def)

lemma hex_sample_sha: "hex_digest_fun sample_sha"
  by (simp add: hex_digest_fun_def sample_sha_def sample_hex_def is_hex64_def list_all_iff is_hex_char_def is_digit_def)

lemma sample_hex_inject [simp]: "sample_hex c = sample_hex d \<longleftrightarrow> c = d"
  by (simp add: sample_hex_def)

lemma sample_journal_reach: "journal_reach sample_sha sample_journal"
  unfolding sample_journal_def by (intro journal_reach.intros)

definition sample_journal2 :: journal_db where
  "sample_journal2 = snd (appendEntry sample_sha ''t1'' ''other'' ''run'' None sample_entry sample_journal)"

lemma sample_journal2_reach: "journal_reach sample_sha sample_journal2"
  unfolding sample_journal2_def by (intro journal_reach.appended sample_journal_reach)

lemma stream_rows_sort: "journal_inv sha db \<Longrightarrow> stream_rows s (sort_key j_seq (journal db)) = stream_rows s (journal db)"
  by (simp add: strict_sorted_seqs)

lemma append_other_stream:
  "s \<noteq> s' \<Longrightarrow> stream_rows s (journal (snd (appendEntry sha now s' kind runId entry db))) = stream_rows s (journal db)"
  by (simp add: appendEntry_cases Let_def new_row_def)

lemma sample_rows:
  "stream_rows ''wf'' (journal sample_journal) = [new_row sample_sha ''t0'' ''wf'' ''run'' (Some ''r1'')
      (stored_entry ''run'' (Some ''r1'') sample_entry) (streamSeed sample_sha ''wf'') openJournal]"
  "stream_rows ''wf'' (journal sample_journal2) = stream_rows ''wf'' (journal sample_journal)"
  by (simp_all add: sample_journal2_def append_other_stream)
    (simp add: sample_journal_def appendEntry_cases sample_accepted Let_def new_row_def head_rh_def openJournal_def)

text \<open>C4. Every journal that the daemon's operations can produce from an empty database replays
  without a fault: the hash chain of every stream is intact whatever was appended and in whatever
  interleaving of streams.\<close>

theorem reachable_journal_verifies:
  assumes "journal_reach sha db"
  shows "replayVerify sha db = Replay_ok"
  using journal_inv_replay [OF journal_reach_inv [OF assms]] .

lemma reachable_journal_verifies_witness: "replayVerify sample_sha sample_journal = Replay_ok"
  by (rule reachable_journal_verifies [OF sample_journal_reach])



text \<open>An append either throws and leaves the database as it was, or adds exactly one row at the
  end of the journal, numbered above every earlier row and linked to the head of its stream; it
  moves that stream's head to the row and no other stream's.\<close>

theorem append_exactly_one_row:
  assumes "journal_inv sha db" and "appendEntry sha now streamId kind runId entry db = (res, db')"
  shows "case res of
      Inl e \<Rightarrow> db' = db \<and> \<not> entry_accepted kind runId entry
    | Inr (seq, rh, digest) \<Rightarrow>
        entry_accepted kind runId entry \<and>
        (\<exists>r. journal db' = journal db @ [r] \<and> j_seq r = seq \<and> j_rh r = rh \<and> j_digest r = digest
           \<and> j_stream r = streamId \<and> j_entry r = stored_entry kind runId entry
           \<and> digest = sha (recordCanonV1 (j_entry r))
           \<and> rh = rh_next sha (snd (streamHead sha streamId db)) streamId seq digest)
        \<and> (\<forall>r \<in> set (journal db). j_seq r < seq)
        \<and> streamHead sha streamId db' = (Some seq, rh)
        \<and> (\<forall>s. s \<noteq> streamId \<longrightarrow> streamHead sha s db' = streamHead sha s db)
        \<and> journal_inv sha db'"
proof (cases "entry_accepted kind runId entry")
  case True
  have "\<forall>r \<in> set (journal db). j_seq r < next_rowid db" using next_rowid_fresh by blast
  then show ?thesis
    using assms(2) True appendEntry_inv [OF assms(1), of now streamId kind runId entry]
    by (auto simp: appendEntry_cases Let_def new_row_def streamHead_def head_rh_def split: option.splits)
next
  case False
  then show ?thesis using assms(2) by (auto simp: appendEntry_cases)
qed

lemma append_exactly_one_row_witness:
  "\<exists>r. journal (snd (appendEntry sample_sha ''t1'' ''wf'' ''run'' None sample_entry sample_journal))
     = journal sample_journal @ [r]"
proof -
  let ?p = "appendEntry sample_sha ''t1'' ''wf'' ''run'' None sample_entry sample_journal"
  have acc: "entry_accepted ''run'' None sample_entry"
    by (simp add: entry_accepted_def ijson_ok_iff assertArt12_def ART12_FIELDS_def sample_entry_def
        jspread_def MAX_DEPTH_def MAX_ELEMENTS_def)
  have "?p = (fst ?p, snd ?p)" by simp
  from append_exactly_one_row [OF journal_reach_inv [OF sample_journal_reach] this]
  show ?thesis using acc by (auto split: sum.splits prod.splits)
qed

end
