(* ===== verification/Checkpoint.thy ===== *)
theory Checkpoint
  imports Journal
begin

text \<open>
  \<^verbatim>\<open>hub/checkpoint.mjs\<close> (signed summaries of the journal's stream heads) and the boot-time use of
  them in \<^verbatim>\<open>hub/index.mjs\<close> (verify from the last checkpoint forward, or replay everything).
  Anchoring a digest with a relay is a parameter (a function from the digest to the anchor entry).
\<close>

datatype checkpoint_error =
    CpIJson ijson_error
  | CpDuplicateSeq
  | CpTypeError

record checkpoint =
  cp_seq :: nat
  cp_root_digest :: string
  cp_envelope :: envelope

definition cp_lift :: "ijson_error + 'a \<Rightarrow> checkpoint_error + 'a" where
  "cp_lift r = (case r of Inl e \<Rightarrow> Inl (CpIJson e) | Inr x \<Rightarrow> Inr x)"

definition stream_json :: "string \<times> nat \<times> string \<Rightarrow> json" where
  "stream_json h = (case h of (stream_id, seq, rh) \<Rightarrow>
     JObj [(''stream_id'', JStr stream_id), (''journal_seq'', JNum (int seq)), (''rh'', JStr rh)])"

definition buildCheckpoint ::
  "(string \<Rightarrow> string) \<Rightarrow> crypto \<Rightarrow> nat \<Rightarrow> signing_keys \<Rightarrow> json list \<Rightarrow> 'a journal_db_scheme \<Rightarrow>
   checkpoint_error + checkpoint" where
  "buildCheckpoint sha cr checkpointSeq keys anchors db =
     (let streams = JArr (map stream_json (streamHeads db))
      in and_then (cp_lift (jcsDigestHex sha streams)) (\<lambda>journalRootDigest.
           let predicate = JObj [(''checkpoint_seq'', JNum (int checkpointSeq)), (''streams'', streams),
                                 (''journal_root_digest'', JStr journalRootDigest), (''anchors'', JArr anchors)];
               subject = JArr [JObj [(''name'', JStr ''journal_root''),
                                     (''digest'', JObj [(''sha256'', JStr journalRootDigest)])]]
           in and_then (cp_lift (buildStatement subject (helmPredicateType ''checkpoint'') predicate))
                (\<lambda>statement. Inr \<lparr>cp_seq = checkpointSeq, cp_root_digest = journalRootDigest,
                                  cp_envelope = emitEnvelope sha cr statement keys\<rparr>)))"

definition buildAnchoredCheckpoint ::
  "(string \<Rightarrow> string) \<Rightarrow> crypto \<Rightarrow> (string \<Rightarrow> json) \<Rightarrow> nat \<Rightarrow> signing_keys \<Rightarrow> 'a journal_db_scheme \<Rightarrow>
   checkpoint_error + checkpoint" where
  "buildAnchoredCheckpoint sha cr anchorEntryFor checkpointSeq keys db =
     and_then (buildCheckpoint sha cr checkpointSeq keys [] db) (\<lambda>c.
       buildCheckpoint sha cr checkpointSeq keys [anchorEntryFor (cp_root_digest c)] db)"

definition saveCheckpoint ::
  "string \<Rightarrow> checkpoint \<Rightarrow> 'a journal_db_scheme \<Rightarrow> (checkpoint_error + unit) \<times> 'a journal_db_scheme" where
  "saveCheckpoint now c db =
     (case tbl_get (checkpoints db) (cp_seq c) of
        Some _ \<Rightarrow> (Inl CpDuplicateSeq, db)
      | None \<Rightarrow> (Inr (), db\<lparr>checkpoints := checkpoints db
                    @ [(cp_seq c, \<lparr>cr_root_digest = cp_root_digest c, cr_envelope = cp_envelope c,
                                   cr_created_at = now\<rparr>)]\<rparr>))"

definition checkpoint_of_row :: "nat \<times> checkpoint_row \<Rightarrow> checkpoint" where
  "checkpoint_of_row r = \<lparr>cp_seq = fst r, cp_root_digest = cr_root_digest (snd r), cp_envelope = cr_envelope (snd r)\<rparr>"

definition loadCheckpoints :: "'a journal_db_scheme \<Rightarrow> checkpoint list" where
  "loadCheckpoints db = map checkpoint_of_row (sort_key fst (checkpoints db))"

definition latestCheckpoint :: "'a journal_db_scheme \<Rightarrow> checkpoint option" where
  "latestCheckpoint db =
     (case rev (sort_key fst (checkpoints db)) of [] \<Rightarrow> None | r # _ \<Rightarrow> Some (checkpoint_of_row r))"

subsection \<open>Verification\<close>

datatype cp_reason = Reason_envelope | Reason_root_digest_mismatch | Reason_stream_head_mismatch string

record checkpoint_check =
  cc_valid :: bool
  cc_reason :: "cp_reason option"
  cc_predicate :: "json option"

definition verifyCheckpointSelfConsistency ::
  "(string \<Rightarrow> string) \<Rightarrow> crypto \<Rightarrow> checkpoint \<Rightarrow> public_keys \<Rightarrow>
   checkpoint_error + checkpoint_check" where
  "verifyCheckpointSelfConsistency sha cr c publicKeys =
     (let result = verifyEnvelope cr (cp_envelope c) publicKeys False
      in if \<not> ec_valid result
         then Inr \<lparr>cc_valid = False, cc_reason = Some Reason_envelope, cc_predicate = None\<rparr>
         else case jget_opt (jget_opt (ec_statement result) ''predicate'') ''streams'' of
                None \<Rightarrow> Inl CpTypeError
              | Some streams \<Rightarrow>
                  and_then (cp_lift (jcsDigestHex sha streams)) (\<lambda>expectedDigest.
                    let predicate = jget_opt (ec_statement result) ''predicate''
                    in if jget_opt predicate ''journal_root_digest'' \<noteq> Some (JStr expectedDigest)
                       then Inr \<lparr>cc_valid = False, cc_reason = Some Reason_root_digest_mismatch, cc_predicate = None\<rparr>
                       else Inr \<lparr>cc_valid = True, cc_reason = None, cc_predicate = predicate\<rparr>))"

fun heads_match :: "(string, nat \<times> string) tbl \<Rightarrow> json list \<Rightarrow> string option" where
  \<comment> \<open>the first claimed stream whose head is not the live one\<close>
  "heads_match live [] = None"
| "heads_match live (claimed # rest) =
     (case jstr_of (jget claimed ''stream_id'') of
        None \<Rightarrow> Some []
      | Some sid \<Rightarrow>
          (case tbl_get live sid of
             None \<Rightarrow> Some sid
           | Some (seq, rh) \<Rightarrow>
               if jget claimed ''journal_seq'' \<noteq> Some (JNum (int seq)) \<or> jget claimed ''rh'' \<noteq> Some (JStr rh)
               then Some sid else heads_match live rest))"

definition verifyCheckpoint ::
  "(string \<Rightarrow> string) \<Rightarrow> crypto \<Rightarrow> 'a journal_db_scheme \<Rightarrow> checkpoint \<Rightarrow> public_keys \<Rightarrow>
   checkpoint_error + checkpoint_check" where
  "verifyCheckpoint sha cr db c publicKeys =
     and_then (verifyCheckpointSelfConsistency sha cr c publicKeys) (\<lambda>self.
       if \<not> cc_valid self then Inr self
       else case jget_opt (cc_predicate self) ''streams'' of
              Some (JArr claimed) \<Rightarrow>
                (case heads_match (streamHeads db) claimed of
                   Some sid \<Rightarrow> Inr (self\<lparr>cc_valid := False, cc_reason := Some (Reason_stream_head_mismatch sid)\<rparr>)
                 | None \<Rightarrow> Inr (self\<lparr>cc_valid := True, cc_reason := None\<rparr>))
            | _ \<Rightarrow> Inl CpTypeError)"

subsection \<open>Boot\<close>

text \<open>The predicate's streams as \<open>replayVerifyFrom\<close> reads them.\<close>

definition checkpoint_stream_of :: "json \<Rightarrow> checkpoint_stream" where
  "checkpoint_stream_of j =
     \<lparr>cs_stream = (case jstr_of (jget j ''stream_id'') of Some s \<Rightarrow> s | None \<Rightarrow> []),
      cs_seq = (case jget j ''journal_seq'' of Some (JNum n) \<Rightarrow> Some n | _ \<Rightarrow> None),
      cs_rh = (case jstr_of (jget j ''rh'') of Some s \<Rightarrow> s | None \<Rightarrow> [])\<rparr>"

definition boot_verify ::
  "(string \<Rightarrow> string) \<Rightarrow> crypto \<Rightarrow> bool \<Rightarrow> public_keys \<Rightarrow> string \<Rightarrow>
   'a journal_db_scheme \<Rightarrow> (checkpoint_error + replay_result) \<times> 'a journal_db_scheme" where
  "boot_verify sha cr anchorRequired publicKeys now db =
     (let full = (let verified = replayVerify sha db
                  in (Inr verified, if verified = Replay_ok then recordFullVerification now db else db))
      in case latestCheckpoint db of
           None \<Rightarrow> full
         | Some c \<Rightarrow>
             (case verifyCheckpointSelfConsistency sha cr c publicKeys of
                Inl e \<Rightarrow> (Inl e, db)
              | Inr sig \<Rightarrow>
                  let anchored = jarr_or_empty (jget_opt (cc_predicate sig) ''anchors'') \<noteq> [];
                      canFastPath = cc_valid sig \<and> (anchored \<or> \<not> anchorRequired)
                  in if canFastPath
                     then (case jget_opt (cc_predicate sig) ''streams'' of
                             Some (JArr ss) \<Rightarrow> (Inr (replayVerifyFrom sha (map checkpoint_stream_of ss) db), db)
                           | _ \<Rightarrow> (Inl CpTypeError, db))
                     else full))"

subsection \<open>A checkpoint verifies what it was built from\<close>

definition checkpoint_predicate :: "(string \<Rightarrow> string) \<Rightarrow> nat \<Rightarrow> json list \<Rightarrow> 'a journal_db_scheme \<Rightarrow> json" where
  "checkpoint_predicate sha n anchors db =
     (let streams = JArr (map stream_json (streamHeads db))
      in JObj [(''checkpoint_seq'', JNum (int n)), (''streams'', streams),
               (''journal_root_digest'', JStr (sha (recordCanonV1 streams))), (''anchors'', JArr anchors)])"

lemma plain_stream_json [simp]: "plain_json (stream_json h)"
  by (simp add: stream_json_def split: prod.splits)

lemma json_wf_stream_json [simp]: "json_wf (stream_json h)"
  by (simp add: stream_json_def split: prod.splits)

lemma cp_lift_Inr [simp]: "cp_lift r = Inr x \<longleftrightarrow> r = Inr x"
  by (cases r) (auto simp: cp_lift_def)

lemma buildStatement_Inr [simp]:
  "buildStatement subject ty predicate = Inr st \<longleftrightarrow>
     st = JObj [(''_type'', JStr IN_TOTO_STATEMENT_TYPE), (''subject'', subject),
                (''predicateType'', JStr ty), (''predicate'', predicate)] \<and> ijson_ok st"
  by (auto simp: buildStatement_def ijson_ok_def Let_def)

lemma buildCheckpoint_shape:
  assumes "buildCheckpoint sha cr n keys anchors db = Inr c"
  obtains st where "list_all json_wf anchors \<Longrightarrow> json_wf st" "cp_seq c = n" "cp_envelope c = emitEnvelope sha cr st keys"
    "jget (cgCanonV1 st) ''predicate'' = Some (cgCanonV1 (checkpoint_predicate sha n anchors db))"
    "ijson_ok (JArr (map stream_json (streamHeads db)))"
proof -
  let ?P = "checkpoint_predicate sha n anchors db"
  from assms obtain st where st: "cp_seq c = n" "cp_envelope c = emitEnvelope sha cr st keys"
    "ijson_ok (JArr (map stream_json (streamHeads db)))"
    "st = JObj [(''_type'', JStr IN_TOTO_STATEMENT_TYPE),
      (''subject'', JArr [JObj [(''name'', JStr ''journal_root''),
         (''digest'', JObj [(''sha256'', JStr (sha (recordCanonV1 (JArr (map stream_json (streamHeads db))))))])]]),
      (''predicateType'', JStr (helmPredicateType ''checkpoint'')), (''predicate'', ?P)]"
    by (auto simp: buildCheckpoint_def checkpoint_predicate_def Let_def)
  have "jget (cgCanonV1 st) ''predicate'' = Some (cgCanonV1 ?P)"
    unfolding st(4) by (subst jget_canon) simp_all
  moreover have "list_all json_wf anchors \<Longrightarrow> json_wf st"
    unfolding st(4) by (simp add: checkpoint_predicate_def Let_def list_all_iff)
  ultimately show ?thesis by (intro that [OF _ st(1,2) _ st(3)])
qed

lemma predicate_members:
  "jget (cgCanonV1 (checkpoint_predicate sha n anchors db)) ''streams''
     = Some (JArr (map (\<lambda>h. cgCanonV1 (stream_json h)) (streamHeads db)))"
  "jget (cgCanonV1 (checkpoint_predicate sha n anchors db)) ''journal_root_digest''
     = Some (JStr (sha (recordCanonV1 (JArr (map stream_json (streamHeads db))))))"
  "jget (cgCanonV1 (checkpoint_predicate sha n anchors db)) ''anchors'' = Some (JArr (map cgCanonV1 anchors))"
  unfolding checkpoint_predicate_def Let_def by (subst jget_canon; simp add: comp_def)+

lemma stream_json_members:
  "jget (cgCanonV1 (stream_json (s, q, h))) ''stream_id'' = Some (JStr s)"
  "jget (cgCanonV1 (stream_json (s, q, h))) ''journal_seq'' = Some (JNum (int q))"
  "jget (cgCanonV1 (stream_json (s, q, h))) ''rh'' = Some (JStr h)"
  unfolding stream_json_def prod.case by (subst jget_canon; simp)+

lemma self_consistent:
  assumes build: "buildCheckpoint sha cr n keys anchors db = Inr c"
    and "keys_correct cr keys" and anc: "list_all json_wf anchors"
  shows "verifyCheckpointSelfConsistency sha cr c (publicKeysOf keys) =
    Inr \<lparr>cc_valid = True, cc_reason = None, cc_predicate = Some (cgCanonV1 (checkpoint_predicate sha n anchors db))\<rparr>"
proof -
  obtain st where st: "cp_envelope c = emitEnvelope sha cr st keys"
    "jget (cgCanonV1 st) ''predicate'' = Some (cgCanonV1 (checkpoint_predicate sha n anchors db))"
    and wf: "json_wf st" and ok: "ijson_ok (JArr (map stream_json (streamHeads db)))"
    using buildCheckpoint_shape [OF build] anc by metis
  let ?S = "JArr (map stream_json (streamHeads db))"
  have canon: "JArr (map (\<lambda>h. cgCanonV1 (stream_json h)) (streamHeads db)) = cgCanonV1 ?S" by simp
  have "plain_json ?S" by (simp add: list_all_iff)
  then have "recordCanonV1 (cgCanonV1 ?S) = recordCanonV1 ?S"
    by (simp only: recordCanonV1_eq_iff cgCanonV1_idem)
  then have D: "jcsDigestHex sha (JArr (map (\<lambda>h. cgCanonV1 (stream_json h)) (streamHeads db)))
      = Inr (sha (recordCanonV1 ?S))"
    unfolding canon using ijson_ok_canon [OF ok] by simp
  show ?thesis
    by (simp add: verifyCheckpointSelfConsistency_def verify_emit [OF assms(2) wf] st jget_opt_def
        predicate_members cp_lift_def D Let_def del: jcsDigestHex_Inr cp_lift_Inr)
qed

lemma heads_match_self:
  assumes "\<forall>h \<in> set hs. case h of (s, q, r) \<Rightarrow> tbl_get live s = Some (q, r)"
  shows "heads_match live (map (\<lambda>h. cgCanonV1 (stream_json h)) hs) = None"
  using assms by (induction hs) (auto simp: stream_json_members split: prod.splits)

lemma map_of_sort_key:
  "tbl_keys_unique t \<Longrightarrow> map_of (sort_key fst t) = map_of (t :: (string \<times> 'a) list)"
  by (rule map_of_inject_set [THEN iffD2])
    (simp_all add: tbl_keys_unique_def distinct_fst_mset [of "sort_key fst t" t])

lemma streamHeads_get:
  "tbl_keys_unique (stream_state db) \<Longrightarrow> tbl_get (streamHeads db) s = tbl_get (stream_state db) s"
  by (simp add: streamHeads_def map_of_sort_key)

lemma streamHeads_mem:
  assumes "tbl_keys_unique (stream_state db)"
  shows "(s, q, h) \<in> set (streamHeads db) \<longleftrightarrow> tbl_get (stream_state db) s = Some (q, h)"
  using assms by (auto simp: streamHeads_def tbl_keys_unique_def dest: map_of_SomeD)

lemma heads_match_first:
  assumes "\<forall>h \<in> set hs. case h of (t, q, r) \<Rightarrow> t \<noteq> s \<longrightarrow> tbl_get live t = Some (q, r)"
    and "(s, q0, r0) \<in> set hs" and "\<forall>h \<in> set hs. fst h = s \<longrightarrow> tbl_get live s \<noteq> Some (snd h)"
  shows "heads_match live (map (\<lambda>h. cgCanonV1 (stream_json h)) hs) = Some s"
  using assms
proof (induction hs)
  case (Cons h hs)
  obtain t q r where h: "h = (t, q, r)" by (cases h)
  show ?case
  proof (cases "t = s")
    case True
    then show ?thesis using Cons.prems(3) h by (auto simp: stream_json_members split: option.splits)
  next
    case False
    then have "heads_match live (map (\<lambda>h. cgCanonV1 (stream_json h)) hs) = Some s"
      using Cons.prems h by (intro Cons.IH) auto
    then show ?thesis using Cons.prems(1) False h by (simp add: stream_json_members)
  qed
qed simp

text \<open>How a journal develops after a checkpoint was built: appends, verifications, saved checkpoints.\<close>

inductive journal_grows :: "(string \<Rightarrow> string) \<Rightarrow> journal_db \<Rightarrow> journal_db \<Rightarrow> bool" for sha db0 where
  same: "journal_grows sha db0 db0"
| appended: "journal_grows sha db0 db \<Longrightarrow>
    journal_grows sha db0 (snd (appendEntry sha now streamId kind runId entry db))"
| verified: "journal_grows sha db0 db \<Longrightarrow> journal_grows sha db0 (recordFullVerification now db)"
| saved: "journal_grows sha db0 db \<Longrightarrow> journal_grows sha db0 (snd (saveCheckpoint now c db))"

lemma saveCheckpoint_frame [helm_frame, simp]:
  "journal (snd (saveCheckpoint now c db)) = journal db"
  "sqlite_sequence (snd (saveCheckpoint now c db)) = sqlite_sequence db"
  "stream_state (snd (saveCheckpoint now c db)) = stream_state db"
  by (simp_all add: saveCheckpoint_def split: option.splits)

lemma recordFullVerification_frame [helm_frame, simp]:
  "journal (recordFullVerification now db) = journal db"
  "sqlite_sequence (recordFullVerification now db) = sqlite_sequence db"
  "stream_state (recordFullVerification now db) = stream_state db"
  "checkpoints (recordFullVerification now db) = checkpoints db"
  by (simp_all add: recordFullVerification_def)

lemma journal_inv_save [simp]: "journal_inv sha (snd (saveCheckpoint now c db)) = journal_inv sha db"
  by (simp add: journal_inv_def)

lemma journal_grows_prefix:
  assumes "journal_grows sha db0 db" and "journal_inv sha db0"
  shows "journal_inv sha db \<and> sqlite_sequence db0 \<le> sqlite_sequence db
    \<and> (\<exists>new. journal db = journal db0 @ new \<and> (\<forall>r \<in> set new. sqlite_sequence db0 < j_seq r))"
  using assms(1)
proof induction
  case (appended db now streamId kind runId entry)
  then have inv: "journal_inv sha db" by blast
  note n = next_rowid_inv [OF inv]
  show ?case
    using appended.IH appendEntry_inv [OF inv, of now streamId kind runId entry]
    by (auto simp: appendEntry_cases Let_def new_row_def n)
qed (use assms(2) in auto)

lemma checkpoint_stream_of_json:
  "checkpoint_stream_of (cgCanonV1 (stream_json (s, q, h))) = \<lparr>cs_stream = s, cs_seq = Some (int q), cs_rh = h\<rparr>"
  by (simp add: checkpoint_stream_of_def stream_json_members)

definition built_streams :: "'a journal_db_scheme \<Rightarrow> checkpoint_stream list" where
  "built_streams db = map (\<lambda>(s, q, h). \<lparr>cs_stream = s, cs_seq = Some (int q), cs_rh = h\<rparr>) (streamHeads db)"

lemma built_streams_canon:
  "map checkpoint_stream_of (map (\<lambda>h. cgCanonV1 (stream_json h)) (streamHeads db)) = built_streams db"
  by (auto simp: built_streams_def checkpoint_stream_of_json split: prod.splits)

lemma boot_fast_path:
  assumes "buildCheckpoint sha cr n keys anchors db0 = Inr c" and "keys_correct cr keys"
    and "list_all json_wf anchors" and "latestCheckpoint db = Some c" and "anchorRequired \<longrightarrow> anchors \<noteq> []"
  shows "boot_verify sha cr anchorRequired (publicKeysOf keys) now db
    = (Inr (replayVerifyFrom sha (built_streams db0) db), db)"
  using assms(4,5) self_consistent [OF assms(1-3)] built_streams_canon [of db0]
  by (auto simp: boot_verify_def jget_opt_def predicate_members Let_def comp_def)

text \<open>With at most one stream, the checkpoint is a frontier of every later journal.\<close>

lemma head_row:
  assumes "journal_inv sha db" and "r \<in> set (journal db)"
  shows "\<exists>q h. (j_stream r, q, h) \<in> set (streamHeads db) \<and> j_seq r \<le> q"
proof -
  let ?s = "j_stream r"
  have mem: "r \<in> set (stream_rows ?s (journal db))" using assms(2) by (simp add: stream_rows_set)
  then have ne: "stream_rows ?s (journal db) \<noteq> []" by auto
  then obtain xs x where sn: "stream_rows ?s (journal db) = xs @ [x]" by (meson rev_exhaust)
  have "sorted_wrt (<) (map j_seq (journal db))" using assms(1) by (simp add: journal_inv_def)
  then have "sorted_wrt (<) (map j_seq (stream_rows ?s (journal db)))"
    by (simp add: stream_rows_def sorted_wrt_map sorted_wrt_filter)
  then have "j_seq r \<le> j_seq x" using mem by (auto simp: sn sorted_wrt_append less_imp_le)
  moreover have "tbl_get (stream_state db) ?s = Some (j_seq x, j_rh x)"
    using assms(1) ne by (simp add: journal_inv_def head_of_def Let_def sn)
  moreover have "tbl_keys_unique (stream_state db)" using assms(1) by (simp add: journal_inv_def)
  ultimately show ?thesis by (auto simp: streamHeads_mem)
qed

lemma single_stream_frontier:
  assumes inv: "journal_inv sha db0" and grows: "journal_grows sha db0 db"
    and single: "length (streamHeads db0) \<le> 1"
  shows "checkpoint_is_frontier sha (built_streams db0) db"
proof -
  obtain new where inv': "journal_inv sha db" and new: "journal db = journal db0 @ new"
    "\<forall>r \<in> set new. sqlite_sequence db0 < j_seq r"
    using journal_grows_prefix [OF grows inv] by blast
  have srt: "sort_key j_seq (journal db) = journal db0 @ new" using strict_sorted_seqs [OF inv'] new by simp
  let ?f = "floor_seq (built_streams db0)"
  have uniq: "tbl_keys_unique (stream_state db0)" using inv by (simp add: journal_inv_def)
  show ?thesis
  proof (cases "streamHeads db0")
    case Nil
    then have "journal db0 = []" using head_row [OF inv] by (cases "journal db0") auto
    moreover have "?f = 0" by (simp add: built_streams_def Nil floor_seq_def map_filter_simps)
    ultimately have "rows_upto ?f db = []" using new srt by (auto simp: rows_upto_def filter_empty_conv)
    then show ?thesis by (simp add: checkpoint_is_frontier_def built_streams_def Nil checkpoint_map_def)
  next
    case (Cons hd tl)
    then obtain s q h where hd: "streamHeads db0 = [(s, q, h)]" using single by (cases hd) auto
    have f: "?f = int q" by (simp add: built_streams_def hd floor_seq_def map_filter_simps)
    have st: "tbl_get (stream_state db0) s = Some (q, h)"
      using hd streamHeads_mem [OF uniq, of s q h] by simp
    then have "head_of (journal db0) s = Some (q, h)" using inv by (simp add: journal_inv_def)
    then have hh: "last_rh rh (stream_rows s (journal db0)) = h" for rh by (simp add: last_rh_head_of)
    from \<open>head_of (journal db0) s = Some (q, h)\<close>
    have "stream_rows s (journal db0) \<noteq> []" "j_seq (last (stream_rows s (journal db0))) = q"
      by (auto simp: head_of_def Let_def split: if_splits)
    then have q: "\<exists>r \<in> set (journal db0). j_seq r = q" by (metis last_in_set stream_rows_set)
    have old: "\<forall>r \<in> set (journal db0). j_stream r = s \<and> j_seq r \<le> q" using head_row [OF inv] hd by force
    have "q \<le> sqlite_sequence db0" using q inv by (auto simp: journal_inv_def)
    then have gt: "\<forall>r \<in> set new. q < j_seq r" using new by force
    have upto: "rows_upto ?f db = journal db0"
      using old gt by (auto simp: rows_upto_def f srt filter_id_conv filter_empty_conv)
    have others: "t \<noteq> s \<Longrightarrow> stream_rows t (journal db0) = []" for t
      using old by (auto simp: stream_rows_def filter_empty_conv)
    show ?thesis unfolding checkpoint_is_frontier_def upto
    proof
      fix t
      show "prev_rh sha (checkpoint_map (built_streams db0)) t = last_rh (streamSeed sha t) (stream_rows t (journal db0))"
      proof (cases "t = s")
        case True
        then show ?thesis by (simp add: hh built_streams_def hd checkpoint_map_def)
      next
        case False
        then show ?thesis by (simp add: others built_streams_def hd checkpoint_map_def)
      qed
    qed
  qed
qed

lemma replay_upto_ok:
  "journal_inv sha db \<Longrightarrow> replay_rows sha [] (rows_upto f db) = Replay_ok"
proof -
  assume inv: "journal_inv sha db"
  have "sort_key j_seq (journal db) = rows_upto f db @ rows_after f db"
    unfolding rows_upto_def rows_after_def by (rule replay_rows_split_floor) simp
  then have "replay_rows sha [] (rows_upto f db @ rows_after f db) = Replay_ok"
    using journal_inv_replay [OF inv] by (simp add: replayVerify_def)
  then show ?thesis by (simp add: replay_rows_ok_iff)
qed

subsection \<open>Properties\<close>

definition sample_crypto :: crypto where
  \<comment> \<open>signatures that name their key, so that the key halves are equal\<close>
  "sample_crypto = \<lparr>ed_sign = (\<lambda>k m. k), ed_verify = (\<lambda>k m s. s = k),
                    ml_sign = (\<lambda>k m. k), ml_verify = (\<lambda>k m s. s = k)\<rparr>"

definition sample_keys :: signing_keys where
  "sample_keys = \<lparr>ed_private = ''e'', ed_public = ''e'', ml_secret = ''m'', ml_public = ''m''\<rparr>"

lemma keys_correct_sample: "keys_correct sample_crypto sample_keys"
  by (simp add: keys_correct_def sample_crypto_def sample_keys_def)

definition sample_checkpoint :: checkpoint where
  "sample_checkpoint = projr (buildCheckpoint sample_sha sample_crypto 1 sample_keys [] sample_journal)"

text \<open>A checkpoint verifies against the journal it was built from: the envelope's signatures
  hold, the root digest is the digest of the streams it lists and every listed head is the live one.\<close>

theorem checkpoint_verifies_where_built:
  assumes "journal_inv sha db" and "buildCheckpoint sha cr n keys anchors db = Inr c"
    and "keys_correct cr keys" and "list_all json_wf anchors"
  shows "verifyCheckpoint sha cr db c (publicKeysOf keys) = Inr \<lparr>cc_valid = True, cc_reason = None,
           cc_predicate = Some (cgCanonV1 (checkpoint_predicate sha n anchors db))\<rparr>"
proof -
  have uniq: "tbl_keys_unique (stream_state db)" using assms(1) by (simp add: journal_inv_def)
  have "heads_match (streamHeads db) (map (\<lambda>h. cgCanonV1 (stream_json h)) (streamHeads db)) = None"
    by (rule heads_match_self) (auto simp: streamHeads_mem [OF uniq] streamHeads_get [OF uniq])
  then show ?thesis
    by (simp add: verifyCheckpoint_def self_consistent [OF assms(2-4)] jget_opt_def predicate_members)
qed

text \<open>Once anything is appended to a stream a checkpoint lists, the checkpoint no longer
  verifies against the journal, and the stream it names is the one appended to.\<close>

theorem checkpoint_stale_after_append:
  assumes "journal_inv sha db" and "buildCheckpoint sha cr n keys anchors db = Inr c"
    and "keys_correct cr keys" and "list_all json_wf anchors"
    and "appendEntry sha now s kind runId entry db = (Inr res, db')"
    and "s \<in> fst ` set (streamHeads db)"
  shows "\<exists>p. verifyCheckpoint sha cr db' c (publicKeysOf keys) =
           Inr \<lparr>cc_valid = False, cc_reason = Some (Reason_stream_head_mismatch s), cc_predicate = p\<rparr>"
proof -
  have uniq: "tbl_keys_unique (stream_state db)" and inv': "journal_inv sha db'"
    using assms(1,5) appendEntry_inv [OF assms(1), of now s kind runId entry] by (auto simp: journal_inv_def)
  have uniq': "tbl_keys_unique (stream_state db')" using inv' by (simp add: journal_inv_def)
  obtain h where st: "stream_state db' = tbl_upsert s (next_rowid db, h) (stream_state db)"
    using assms(5) by (auto simp: appendEntry_cases Let_def new_row_def split: if_splits)
  obtain q0 r0 where mem: "(s, q0, r0) \<in> set (streamHeads db)" using assms(6) by auto
  have "q \<noteq> next_rowid db" if "(s, q, r) \<in> set (streamHeads db)" for q r
  proof -
    have "head_of (journal db) s = Some (q, r)"
      using that streamHeads_mem [OF uniq] assms(1) by (simp add: journal_inv_def)
    then have "stream_rows s (journal db) \<noteq> []" "j_seq (last (stream_rows s (journal db))) = q"
      by (auto simp: head_of_def Let_def split: if_splits)
    then obtain x where "x \<in> set (journal db)" "j_seq x = q" by (metis last_in_set stream_rows_set)
    then show ?thesis using next_rowid_fresh [of x db] by simp
  qed
  then have "\<forall>h \<in> set (streamHeads db). fst h = s \<longrightarrow> tbl_get (streamHeads db') s \<noteq> Some (snd h)"
    unfolding streamHeads_get [OF uniq'] st by force
  moreover have "\<forall>h \<in> set (streamHeads db). case h of (t, q, r) \<Rightarrow>
      t \<noteq> s \<longrightarrow> tbl_get (streamHeads db') t = Some (q, r)"
    unfolding streamHeads_get [OF uniq'] st by (auto simp: streamHeads_mem [OF uniq])
  ultimately have "heads_match (streamHeads db') (map (\<lambda>h. cgCanonV1 (stream_json h)) (streamHeads db)) = Some s"
    using mem by (intro heads_match_first)
  then show ?thesis
    by (simp add: verifyCheckpoint_def self_consistent [OF assms(2-4)] jget_opt_def predicate_members)
qed

lemma sample_heads: "\<exists>h. streamHeads sample_journal = [(''wf'', 1, h)]"
  by (simp add: sample_journal_def appendEntry_cases sample_accepted Let_def new_row_def openJournal_def
      streamHeads_def next_rowid_def tbl_upsert_def)

lemma sample_built:
  "buildCheckpoint sample_sha sample_crypto 1 sample_keys [] sample_journal = Inr sample_checkpoint"
proof -
  obtain h where h: "streamHeads sample_journal = [(''wf'', 1, h)]" using sample_heads by blast
  have "\<exists>c. buildCheckpoint sample_sha sample_crypto 1 sample_keys [] sample_journal = Inr c"
    by (simp add: buildCheckpoint_def Let_def h stream_json_def ijson_ok_iff MAX_DEPTH_def MAX_ELEMENTS_def)
  then show ?thesis by (auto simp: sample_checkpoint_def)
qed

lemma sample_inv: "journal_inv sample_sha sample_journal"
  by (rule journal_reach_inv [OF sample_journal_reach])

lemma sample_accepted_again: "entry_accepted ''run'' None sample_entry"
  by (simp add: entry_accepted_def ijson_ok_iff assertArt12_def ART12_FIELDS_def sample_entry_def
      jspread_def MAX_DEPTH_def MAX_ELEMENTS_def)

lemma checkpoint_verifies_where_built_witness:
  "map_option cc_valid (case verifyCheckpoint sample_sha sample_crypto sample_journal sample_checkpoint
     (publicKeysOf sample_keys) of Inr v \<Rightarrow> Some v | Inl _ \<Rightarrow> None) = Some True"
  by (simp add: checkpoint_verifies_where_built [OF sample_inv sample_built keys_correct_sample])

lemma checkpoint_stale_after_append_witness:
  "\<exists>p. verifyCheckpoint sample_sha sample_crypto
         (snd (appendEntry sample_sha ''t1'' ''wf'' ''run'' None sample_entry sample_journal))
         sample_checkpoint (publicKeysOf sample_keys)
       = Inr \<lparr>cc_valid = False, cc_reason = Some (Reason_stream_head_mismatch ''wf''), cc_predicate = p\<rparr>"
proof -
  let ?p = "appendEntry sample_sha ''t1'' ''wf'' ''run'' None sample_entry sample_journal"
  have "?p = (Inr (projr (fst ?p)), snd ?p)"
    by (simp add: appendEntry_cases sample_accepted_again Let_def)
  moreover have "''wf'' \<in> fst ` set (streamHeads sample_journal)" using sample_heads by auto
  ultimately show ?thesis
    using checkpoint_stale_after_append [OF sample_inv sample_built keys_correct_sample] by simp
qed

text \<open>With a checkpoint of a journal that had at most one stream, boot takes the fast path and
  accepts whatever the daemon appended since.\<close>

theorem boot_accepts_single_stream:
  assumes "journal_inv sha db0" and "buildCheckpoint sha cr n keys anchors db0 = Inr c"
    and "keys_correct cr keys" and "list_all json_wf anchors" and "anchorRequired \<longrightarrow> anchors \<noteq> []"
    and "length (streamHeads db0) \<le> 1" and "journal_grows sha db0 db" and "latestCheckpoint db = Some c"
  shows "boot_verify sha cr anchorRequired (publicKeysOf keys) now db = (Inr Replay_ok, db)"
proof -
  have inv: "journal_inv sha db" using journal_grows_prefix [OF assms(7,1)] by blast
  have "replayVerifyFrom sha (built_streams db0) db = replayVerify sha db"
    by (intro fast_path_agrees single_stream_frontier [OF assms(1,7,6)] replay_upto_ok [OF inv])
  then show ?thesis
    by (simp add: boot_fast_path [OF assms(2-4,8,5)] journal_inv_replay [OF inv])
qed

lemma boot_accepts_single_stream_witness:
  "fst (boot_verify sample_sha sample_crypto False (publicKeysOf sample_keys) ''t3''
     (snd (appendEntry sample_sha ''t1'' ''other'' ''run'' None sample_entry
        (snd (saveCheckpoint ''t2'' sample_checkpoint sample_journal))))) = Inr Replay_ok"
proof -
  let ?db = "snd (appendEntry sample_sha ''t1'' ''other'' ''run'' None sample_entry
        (snd (saveCheckpoint ''t2'' sample_checkpoint sample_journal)))"
  have "journal_grows sample_sha sample_journal ?db" by (intro journal_grows.intros)
  moreover have "cp_seq sample_checkpoint = 1"
    using buildCheckpoint_shape [OF sample_built] by metis
  then have "latestCheckpoint ?db = Some sample_checkpoint"
    by (simp add: latestCheckpoint_def saveCheckpoint_def appendEntry_cases sample_accepted_again Let_def
        sample_journal_def sample_accepted openJournal_def checkpoint_of_row_def)
  ultimately show ?thesis
    using boot_accepts_single_stream [OF sample_inv sample_built keys_correct_sample, of False] sample_heads
    by auto
qed

lemma fold_min_le: "fold min ns (n :: int) \<le> n \<and> (\<forall>k \<in> set ns. fold min ns n \<le> k)"
proof (induction ns arbitrary: n)
  case (Cons a ns)
  show ?case using Cons.IH [of "min a n"] by auto
qed simp

lemma floor_seq_le: "cs \<in> set css \<Longrightarrow> cs_seq cs = Some k \<Longrightarrow> floor_seq css \<le> k"
proof -
  assume "cs \<in> set css" "cs_seq cs = Some k"
  then have "k \<in> set (List.map_filter cs_seq css)" by (force simp: List.map_filter_def)
  then show ?thesis
    using fold_min_le by (cases "List.map_filter cs_seq css") (auto simp: floor_seq_def)
qed

lemma checkpoint_map_get:
  assumes "distinct (map cs_stream css)" and "cs \<in> set css"
  shows "tbl_get (checkpoint_map css) (cs_stream cs) = Some (cs_rh cs)"
proof -
  have other: "k \<notin> cs_stream ` set css' \<Longrightarrow>
      tbl_get (fold (\<lambda>s m. tbl_upsert (cs_stream s) (cs_rh s) m) css' t) k = tbl_get t k" for t k css'
    by (induction css' arbitrary: t) auto
  obtain xs ys where split: "css = xs @ cs # ys" using assms(2) by (meson split_list)
  then have "cs_stream cs \<notin> cs_stream ` set ys" using assms(1) by auto
  then show ?thesis by (simp add: checkpoint_map_def split other)
qed

lemma built_streams_get:
  assumes "journal_inv sha db" and "(s, q, h) \<in> set (streamHeads db)"
  shows "prev_rh sha (checkpoint_map (built_streams db)) s = h" and "floor_seq (built_streams db) \<le> int q"
proof -
  let ?c = "\<lparr>cs_stream = s, cs_seq = Some (int q), cs_rh = h\<rparr>"
  have c: "?c \<in> set (built_streams db)" using assms(2) by (force simp: built_streams_def)
  have "map cs_stream (built_streams db) = map fst (streamHeads db)" by (auto simp: built_streams_def)
  moreover have "distinct (map fst (stream_state db))" using assms(1) by (simp add: journal_inv_def tbl_keys_unique_def)
  then have "distinct (map fst (streamHeads db))"
    using distinct_fst_mset [of "streamHeads db" "stream_state db"] by (simp add: streamHeads_def)
  ultimately have "distinct (map cs_stream (built_streams db))" by simp
  from checkpoint_map_get [OF this c] show "prev_rh sha (checkpoint_map (built_streams db)) s = h"
    by (simp add: prev_rh_def)
  show "floor_seq (built_streams db) \<le> int q" using floor_seq_le [OF c] by simp
qed

text \<open>C6. The boot fast path misreads a checkpoint of two or more streams: when a listed stream's
  head lies above the lowest one and the stream has not moved since, replay starts that stream's
  later rows from its final hash, and an intact journal is reported as broken (unless two of the
  strings it hashed collide).\<close>

theorem boot_rejects_two_streams:
  assumes "journal_inv sha db0" and "hex_digest_fun sha"
    and "buildCheckpoint sha cr n keys anchors db0 = Inr c"
    and "keys_correct cr keys" and "list_all json_wf anchors" and "anchorRequired \<longrightarrow> anchors \<noteq> []"
    and "journal_grows sha db0 db" and "latestCheckpoint db = Some c"
    and "(s, q, h) \<in> set (streamHeads db0)" and "(t, q', h') \<in> set (streamHeads db0)" and "q' < q"
    and "tbl_get (stream_state db) s = Some (q, h)"
    and "inj_on sha (hashed_strings sha s db \<union> set (chain_preimages s h
           (stream_rows s (rows_after (floor_seq (built_streams db0)) db))))"
  shows "replayVerify sha db = Replay_ok
    \<and> (\<exists>r. boot_verify sha cr anchorRequired (publicKeysOf keys) now db = (Inr r, db) \<and> r \<noteq> Replay_ok)"
proof -
  have inv: "journal_inv sha db" using journal_grows_prefix [OF assms(7,1)] by blast
  have "floor_seq (built_streams db0) < int q"
    using built_streams_get(2) [OF assms(1,10)] assms(11) by simp
  with late_head_rejected [OF inv assms(2,12) built_streams_get(1) [OF assms(1,9)] _ assms(13)]
  show ?thesis by (simp add: boot_fast_path [OF assms(3-5,8,6)] journal_inv_replay [OF inv])
qed

definition sample_two :: journal_db where
  "sample_two = snd (appendEntry sample_sha ''t1'' ''wf'' ''run'' (Some ''r1'') sample_entry
     (snd (appendEntry sample_sha ''t0'' ''other'' ''run'' None sample_entry openJournal)))"

definition sample_cp_two :: checkpoint where
  "sample_cp_two = projr (buildCheckpoint sample_sha sample_crypto 1 sample_keys [] sample_two)"

definition sample_row :: jrow where
  "sample_row = \<lparr>j_seq = 2, j_stream = ''wf'', j_kind = ''run'', j_run_id = Some ''r1'',
     j_entry = stored_entry ''run'' (Some ''r1'') sample_entry,
     j_digest = sample_sha (recordCanonV1 (stored_entry ''run'' (Some ''r1'') sample_entry)),
     j_rh = sample_hex (CHR ''2''), j_created_at = ''t1''\<rparr>"

lemma hex_bytes_sample: "hex_bytes (sample_hex (CHR ''1'')) = replicate 32 (CHR 0x11)"
  "hex_bytes (sample_hex (CHR ''2'')) = replicate 32 (CHR 0x22)"
  unfolding sample_hex_def by code_simp+

lemma sample_sha_preimages:
  "sample_sha (rh_preimage (sample_hex (CHR ''1'')) ''wf'' n d) = sample_hex (CHR ''2'')"
  "sample_sha (rh_preimage (sample_hex (CHR ''2'')) ''wf'' n d) = sample_hex (CHR ''0'')"
proof -
  have "take k (replicate k c @ r) = replicate k c" for k and c :: char and r by simp
  note take = this [of 32]
  have len: "x = ''wf'' \<Longrightarrow> length x = 2" for x by simp
  have "length (replicate 32 c @ r) \<noteq> 2" for c :: char and r by simp
  with len have ne: "replicate 32 c @ r \<noteq> ''wf''" for c r by blast
  have d: "CHR 0x22 \<noteq> (CHR 0x11 :: char)" by simp
  show "sample_sha (rh_preimage (sample_hex (CHR ''1'')) ''wf'' n d) = sample_hex (CHR ''2'')"
    by (simp only: sample_sha_def rh_preimage_def hex_bytes_sample take ne if_False if_True simp_thms)
  have "replicate 32 (CHR 0x22) \<noteq> (replicate 32 (CHR 0x11) :: string)" by (simp only: replicate_eq_replicate d) simp
  then show "sample_sha (rh_preimage (sample_hex (CHR ''2'')) ''wf'' n d) = sample_hex (CHR ''0'')"
    by (simp only: sample_sha_def rh_preimage_def hex_bytes_sample take ne if_False if_True simp_thms)
qed

lemma sample_sha_wf: "sample_sha ''wf'' = sample_hex (CHR ''1'')"
  by (simp add: sample_sha_def)

lemma sample_two_state:
  "\<exists>r0 h. j_stream r0 = ''other'' \<and> j_seq r0 = 1 \<and> journal sample_two = [r0, sample_row]
     \<and> streamHeads sample_two = [(''other'', 1, h), (''wf'', 2, sample_hex (CHR ''2''))]
     \<and> tbl_get (stream_state sample_two) ''wf'' = Some (2, sample_hex (CHR ''2''))"
  using sample_sha_preimages(1) [of "Suc (Suc 0)"]
  by (simp add: sample_sha_wf sample_two_def appendEntry_cases sample_accepted sample_accepted_again Let_def new_row_def
      openJournal_def head_rh_def streamHeads_def next_rowid_def tbl_upsert_def sample_row_def
      rh_next_preimage streamSeed_def sha256Hex_def)

lemma sample_built_two: "buildCheckpoint sample_sha sample_crypto 1 sample_keys [] sample_two = Inr sample_cp_two"
proof -
  obtain h where h: "streamHeads sample_two = [(''other'', 1, h), (''wf'', 2, sample_hex (CHR ''2''))]"
    using sample_two_state by blast
  have "\<exists>c. buildCheckpoint sample_sha sample_crypto 1 sample_keys [] sample_two = Inr c"
    by (simp add: buildCheckpoint_def Let_def h stream_json_def ijson_ok_iff MAX_DEPTH_def MAX_ELEMENTS_def)
  then show ?thesis by (auto simp: sample_cp_two_def)
qed

lemma boot_rejects_two_streams_witness:
  "\<exists>r. boot_verify sample_sha sample_crypto False (publicKeysOf sample_keys) ''t3''
      (snd (saveCheckpoint ''t2'' sample_cp_two sample_two))
     = (Inr r, snd (saveCheckpoint ''t2'' sample_cp_two sample_two)) \<and> r \<noteq> Replay_ok"
proof -
  let ?db = "snd (saveCheckpoint ''t2'' sample_cp_two sample_two)"
  obtain r0 h where st: "j_stream r0 = ''other''" "j_seq r0 = 1" "journal sample_two = [r0, sample_row]"
    "streamHeads sample_two = [(''other'', 1, h), (''wf'', 2, sample_hex (CHR ''2''))]"
    "tbl_get (stream_state sample_two) ''wf'' = Some (2, sample_hex (CHR ''2''))"
    using sample_two_state by blast
  have inv: "journal_inv sample_sha sample_two"
    unfolding sample_two_def by (intro appendEntry_inv journal_inv_open)
  have cp: "checkpoints sample_two = []"
    by (simp add: sample_two_def appendEntry_cases Let_def openJournal_def)
  have "cp_seq sample_cp_two = 1" using buildCheckpoint_shape [OF sample_built_two] by metis
  then have latest: "latestCheckpoint ?db = Some sample_cp_two"
    by (simp add: latestCheckpoint_def saveCheckpoint_def cp checkpoint_of_row_def)
  let ?css = "built_streams sample_two"
  have floor: "floor_seq ?css = 1" by (simp add: built_streams_def st floor_seq_def map_filter_simps)
  have rows: "stream_rows ''wf'' (rows_after (floor_seq ?css) ?db) = [sample_row]"
    "stream_rows ''wf'' (sort_key j_seq (journal ?db)) = [sample_row]"
    by (simp_all add: rows_after_def floor st sample_row_def)
  have hs: "hashed_strings sample_sha ''wf'' ?db
      = {''wf'', rh_preimage (sample_hex (CHR ''1'')) ''wf'' 2 (j_digest sample_row)}"
    unfolding hashed_strings_def rows by (simp add: streamSeed_def sha256Hex_def sample_sha_wf sample_row_def)
  have "inj_on sample_sha (hashed_strings sample_sha ''wf'' ?db \<union> set (chain_preimages ''wf'' (sample_hex (CHR ''2''))
      (stream_rows ''wf'' (rows_after (floor_seq ?css) ?db))))"
    unfolding hs rows by (auto simp: inj_on_def sample_sha_preimages sample_sha_wf)
  with st latest show ?thesis
    using boot_rejects_two_streams [OF inv hex_sample_sha sample_built_two keys_correct_sample _ _
        journal_grows.saved [OF journal_grows.same] latest, of False "''wf''" 2 "sample_hex (CHR ''2'')" "''other''" 1 h]
    by auto
qed

end
