(* ===== verification/Ip_Guard.thy ===== *)
theory Ip_Guard
  imports Js_Values "HOL-Library.Word"
begin

text \<open>
  The address guard of \<^verbatim>\<open>hub/connector.mjs\<close>: which literals are IP addresses (\<open>isIP\<close> of the
  language's \<open>net\<close> module), their reading as 32-bit and 128-bit words, the deny lists of private,
  loopback, link-local and metadata ranges, and the choice of the one vetted address of a host name.
  The groups of an IPv6 literal are kept as numbers instead of zero-padded strings.
\<close>

unbundle bit_operations_syntax

subsection \<open>Literals\<close>

definition is_octet :: "string \<Rightarrow> bool" where
  "is_octet s \<longleftrightarrow> s \<noteq> [] \<and> length s \<le> 3 \<and> list_all is_digit s \<and> (length s > 1 \<longrightarrow> hd s \<noteq> CHR ''0'') \<and> read_nat s \<le> 255"

definition is_v4 :: "string \<Rightarrow> bool" where
  "is_v4 s \<longleftrightarrow> length (js_split (CHR ''.'') s) = 4 \<and> list_all is_octet (js_split (CHR ''.'') s)"

definition is_v6_group :: "string \<Rightarrow> bool" where
  "is_v6_group s \<longleftrightarrow> s \<noteq> [] \<and> length s \<le> 4 \<and> list_all (\<lambda>c. hex_val c \<noteq> None) s"

fun split_double :: "string \<Rightarrow> string \<times> string option" where
  \<comment> \<open>the parts before and after the first \<open>::\<close>\<close>
  "split_double (a # b # s) =
     (if a = CHR '':'' \<and> b = CHR '':'' then ([], Some s)
      else case split_double (b # s) of (h, t) \<Rightarrow> (a # h, t))"
| "split_double s = (s, None)"

definition colon_parts :: "string \<Rightarrow> string list" where
  "colon_parts s = (if s = [] then [] else js_split (CHR '':'') s)"

fun v6_width :: "bool \<Rightarrow> string list \<Rightarrow> nat option" where
  \<comment> \<open>the number of groups the parts stand for; a dotted quad is allowed at the end only\<close>
  "v6_width v4_last [] = Some 0"
| "v6_width v4_last (p # ps) =
     (if is_v6_group p then map_option Suc (v6_width v4_last ps)
      else if v4_last \<and> ps = [] \<and> is_v4 p then Some 2
      else None)"

definition zone_char :: "char \<Rightarrow> bool" where
  "zone_char c = (let n = of_char c :: nat in
     is_digit c \<or> 65 \<le> n \<and> n \<le> 90 \<or> 97 \<le> n \<and> n \<le> 122 \<or> c \<in> {CHR ''-'', CHR ''.'', CHR '':''})"

definition without_zone :: "string \<Rightarrow> string" where
  "without_zone s = hd (js_split (CHR ''%'') s)"

definition is_v6 :: "string \<Rightarrow> bool" where
  "is_v6 s =
     (let zone = tl (js_split (CHR ''%'') s)
      in (case zone of [] \<Rightarrow> True | [z] \<Rightarrow> z \<noteq> [] \<and> list_all zone_char z | _ \<Rightarrow> False)
         \<and> (case split_double (without_zone s) of
              (h, None) \<Rightarrow> v6_width True (colon_parts h) = Some 8
            | (h, Some t) \<Rightarrow>
                (case (v6_width False (colon_parts h), v6_width True (colon_parts t)) of
                   (Some m, Some n) \<Rightarrow> m + n \<le> 7
                 | _ \<Rightarrow> False)))"

definition isIP :: "string \<Rightarrow> nat" where
  "isIP s = (if is_v4 s then 4 else if is_v6 s then 6 else 0)"

subsection \<open>Ranges\<close>

definition DENIED_V4_RANGES :: "(string \<times> nat) list" where
  "DENIED_V4_RANGES =
     [(''0.0.0.0'', 8), (''10.0.0.0'', 8), (''100.64.0.0'', 10), (''127.0.0.0'', 8), (''169.254.0.0'', 16),
      (''172.16.0.0'', 12), (''192.168.0.0'', 16)]"

definition ipv4ToInt :: "string \<Rightarrow> 32 word" where
  "ipv4ToInt ip = foldl (\<lambda>acc oct. push_bit 8 acc + of_nat (read_nat oct)) 0 (js_split (CHR ''.'') ip)"

definition v4_mask :: "nat \<Rightarrow> 32 word" where
  \<comment> \<open>\<open>(~0 << (32 - bits)) >>> 0\<close>; the shift distance is taken modulo 32\<close>
  "v4_mask bits = (if bits = 0 then 0 else push_bit ((32 - bits) mod 32) (- 1))"

definition isDeniedV4 :: "string \<Rightarrow> bool" where
  "isDeniedV4 ip = list_ex (\<lambda>(base, bits). ipv4ToInt ip AND v4_mask bits = ipv4ToInt base AND v4_mask bits) DENIED_V4_RANGES"

fun read_hex :: "string \<Rightarrow> nat" where
  "read_hex s = foldl (\<lambda>n c. 16 * n + (case hex_val c of Some d \<Rightarrow> d | None \<Rightarrow> 0)) 0 s"

definition part_groups :: "string \<Rightarrow> nat list" where
  \<comment> \<open>one group, or the two groups of an embedded dotted quad\<close>
  "part_groups p =
     (if CHR ''.'' \<in> set p
      then (let v4 = map read_nat (js_split (CHR ''.'') p)
            in [v4 ! 0 * 256 + v4 ! 1, v4 ! 2 * 256 + v4 ! 3])
      else [read_hex p])"

definition expandIPv6 :: "string \<Rightarrow> nat list" where
  "expandIPv6 ip =
     (let (h, t) = split_double (without_zone ip);
          headParts = concat (map part_groups (filter (\<lambda>p. p \<noteq> []) (js_split (CHR '':'') h)));
          tailParts = (case t of None \<Rightarrow> [] | Some t \<Rightarrow> concat (map part_groups (filter (\<lambda>p. p \<noteq> []) (js_split (CHR '':'') t))));
          groups = headParts @ replicate (8 - length headParts - length tailParts) 0 @ tailParts
      in take 8 (groups @ replicate (8 - length groups) 0))"

definition ipv6ToBigInt :: "string \<Rightarrow> 128 word" where
  "ipv6ToBigInt ip = foldl (\<lambda>acc g. push_bit 16 acc + of_nat g) 0 (expandIPv6 ip)"

definition DENIED_V6_RANGES :: "(string \<times> nat) list" where
  "DENIED_V6_RANGES = [(''::1'', 128), (''::'', 128), (''fe80::'', 10), (''fc00::'', 7)]"

definition v6_mask :: "nat \<Rightarrow> 128 word" where
  "v6_mask bits = (if bits = 0 then 0 else push_bit (128 - bits) (- 1))"

definition isDeniedV6 :: "string \<Rightarrow> bool" where
  "isDeniedV6 ip = list_ex (\<lambda>(base, bits). ipv6ToBigInt ip AND v6_mask bits = ipv6ToBigInt base AND v6_mask bits) DENIED_V6_RANGES"

definition js_lower :: "string \<Rightarrow> string" where
  \<comment> \<open>\<open>toLowerCase\<close> on ASCII\<close>
  "js_lower s = map (\<lambda>c. let n = of_char c :: nat in if 65 \<le> n \<and> n \<le> 90 then char_of (n + 32) else c) s"

definition mapped_v4 :: "string \<Rightarrow> string option" where
  \<comment> \<open>\<open>/^::ffff:(\d+\.\d+\.\d+\.\d+)$/\<close>\<close>
  "mapped_v4 ip =
     (let s = js_lower ip; r = drop 7 s; ps = js_split (CHR ''.'') r
      in if take 7 s = ''::ffff:'' \<and> length ps = 4 \<and> list_all (\<lambda>p. p \<noteq> [] \<and> list_all is_digit p) ps then Some r else None)"

definition isDeniedIp :: "string \<Rightarrow> bool" where
  "isDeniedIp ip =
     (let kind = isIP ip
      in if kind = 4 then isDeniedV4 ip
         else if kind = 6 then (case mapped_v4 ip of Some v4 \<Rightarrow> isDeniedV4 v4 | None \<Rightarrow> isDeniedV6 ip)
         else True)"

subsection \<open>The vetted address\<close>

datatype vet_error = Denied_literal | No_address | Denied_address string | Resolver_failed

definition resolveVettedIp :: "(string \<Rightarrow> string list option) \<Rightarrow> string \<Rightarrow> vet_error + string" where
  \<comment> \<open>\<open>None\<close>: the resolver throws\<close>
  "resolveVettedIp resolveHostIps hostname =
     (if isIP hostname \<noteq> 0
      then (if isDeniedIp hostname then Inl Denied_literal else Inr hostname)
      else case resolveHostIps hostname of
             None \<Rightarrow> Inl Resolver_failed
           | Some [] \<Rightarrow> Inl No_address
           | Some (a # rest) \<Rightarrow>
               (case find isDeniedIp (a # rest) of
                  Some ip \<Rightarrow> Inl (Denied_address ip) | None \<Rightarrow> Inr a))"

definition assertResolvedIpAllowed :: "(string \<Rightarrow> string list option) \<Rightarrow> string \<Rightarrow> vet_error + unit" where
  "assertResolvedIpAllowed resolveHostIps hostname = and_then (resolveVettedIp resolveHostIps hostname) (\<lambda>_. Inr ())"

subsection \<open>Reading dotted quads\<close>

lemma js_split_plain: "c \<notin> set s \<Longrightarrow> js_split c s = [s]"
  by (induction s) auto

lemma js_split_append: "c \<notin> set s \<Longrightarrow> js_split c (s @ c # t) = s # js_split c t"
  by (induction s) auto

definition dotted :: "nat \<Rightarrow> nat \<Rightarrow> nat \<Rightarrow> nat \<Rightarrow> string" where
  "dotted a b c d = show_nat a @ CHR ''.'' # show_nat b @ CHR ''.'' # show_nat c @ CHR ''.'' # show_nat d"

lemma dot_not_in_nat [simp]: "CHR ''.'' \<notin> set (show_nat n)"
  using show_nat_digits [of n] by (auto simp: is_digit_def)

lemma js_split_dotted [simp]: "js_split (CHR ''.'') (dotted a b c d) = map show_nat [a, b, c, d]"
  by (simp add: dotted_def js_split_append js_split_plain)

lemma digit_chars:
  "char_of (48::nat) = CHR ''0''" "char_of (49::nat) = CHR ''1''" "char_of (50::nat) = CHR ''2''" "char_of (51::nat) = CHR ''3''"
  "char_of (52::nat) = CHR ''4''" "char_of (53::nat) = CHR ''5''" "char_of (54::nat) = CHR ''6''" "char_of (55::nat) = CHR ''7''"
  "char_of (56::nat) = CHR ''8''" "char_of (57::nat) = CHR ''9''"
  by code_simp+

lemma digit_char_zero: "d < 10 \<Longrightarrow> digit_char d = CHR ''0'' \<longleftrightarrow> d = 0"
proof -
  assume "d < 10"
  then have "char_digit (digit_char d) = d" by simp
  moreover have "char_digit (CHR ''0'') = 0" by (simp add: char_digit_def)
  moreover have "digit_char 0 = CHR ''0''" by (simp add: digit_char_def digit_chars)
  ultimately show ?thesis by metis
qed

lemma is_octet_show:
  assumes "n \<le> 255"
  shows "is_octet (show_nat n)"
proof -
  consider "n < 10" | "10 \<le> n" "n < 100" | "100 \<le> n" by linarith
  then have "length (show_nat n) \<le> 3 \<and> (length (show_nat n) > 1 \<longrightarrow> hd (show_nat n) \<noteq> CHR ''0'')"
  proof cases
    case 1
    then show ?thesis by (simp add: show_nat.simps [of n])
  next
    case 2
    then have "n div 10 < 10" "n div 10 \<noteq> 0" by auto
    with 2 show ?thesis by (simp add: show_nat.simps [of n] show_nat.simps [of "n div 10"] digit_char_zero)
  next
    case 3
    have "n div 10 div 10 < 10" "n div 10 div 10 \<noteq> 0" "\<not> n div 10 < 10" using 3 assms by auto
    with 3 show ?thesis
      by (simp add: show_nat.simps [of n] show_nat.simps [of "n div 10"] show_nat.simps [of "n div 10 div 10"] digit_char_zero)
  qed
  then show ?thesis using assms show_nat_digits [of n] by (simp add: is_octet_def list_all_iff)
qed

lemma isIP_dotted: "a \<le> 255 \<Longrightarrow> b \<le> 255 \<Longrightarrow> c \<le> 255 \<Longrightarrow> d \<le> 255 \<Longrightarrow> isIP (dotted a b c d) = 4"
  by (simp add: isIP_def is_v4_def is_octet_show)

lemma masked_eq:
  fixes w v :: "'a::len word"
  assumes "n < LENGTH('a)"
  shows "w AND push_bit n (- 1) = v AND push_bit n (- 1) \<longleftrightarrow> drop_bit n w = drop_bit n v"
proof -
  have m: "x AND push_bit n (- 1) = push_bit n (drop_bit n x)" for x :: "'a word"
    by (rule bit_word_eqI) (auto simp: bit_simps)
  have d: "drop_bit n (push_bit n (drop_bit n x)) = drop_bit n x" for x :: "'a word"
    by (rule bit_word_eqI) (auto simp: bit_simps dest: bit_imp_le_length)
  show ?thesis unfolding m using d by metis
qed

lemma masked_eq_nat:
  fixes w v :: "'a::len word"
  assumes "n < LENGTH('a)"
  shows "w AND push_bit n (- 1) = v AND push_bit n (- 1) \<longleftrightarrow> unat w div 2 ^ n = unat v div 2 ^ n"
proof -
  have u: "unat (drop_bit n x) = unat x div 2 ^ n" for x :: "'a word"
    unfolding unat_drop_bit_eq by (rule drop_bit_eq_div)
  have "drop_bit n w = drop_bit n v \<longleftrightarrow> unat (drop_bit n w) = unat (drop_bit n v)" by (rule word_unat_eq_iff)
  then show ?thesis using masked_eq [OF assms, of w v] unfolding u by blast
qed

definition quad :: "nat \<Rightarrow> nat \<Rightarrow> nat \<Rightarrow> nat \<Rightarrow> nat" where
  "quad a b c d = ((a * 256 + b) * 256 + c) * 256 + d"

lemma ipv4_word: "ipv4ToInt (dotted a b c d) = of_nat (quad a b c d)"
  by (simp add: ipv4ToInt_def quad_def push_bit_eq_mult algebra_simps)

lemma ipv4_unat:
  assumes "a \<le> 255" "b \<le> 255" "c \<le> 255" "d \<le> 255"
  shows "unat (ipv4ToInt (dotted a b c d)) = quad a b c d"
proof -
  have "quad a b c d < 2 ^ 32" using assms by (simp add: quad_def)
  then show ?thesis unfolding ipv4_word unat_of_nat take_bit_eq_mod by simp
qed

lemma denied_v4_dotted:
  "DENIED_V4_RANGES = [(dotted 0 0 0 0, 8), (dotted 10 0 0 0, 8), (dotted 100 64 0 0, 10), (dotted 127 0 0 0, 8),
     (dotted 169 254 0 0, 16), (dotted 172 16 0 0, 12), (dotted 192 168 0 0, 16)]"
  by (simp add: DENIED_V4_RANGES_def dotted_def show_nat.simps digit_char_def digit_chars)

lemma v4_mask_push: "0 < bits \<Longrightarrow> bits \<le> 32 \<Longrightarrow> v4_mask bits = push_bit (32 - bits) (- 1)"
  by (cases "bits = 32") (simp_all add: v4_mask_def)

lemma v4_in_range:
  assumes "a \<le> 255" "b \<le> 255" "c \<le> 255" "d \<le> 255" and "a' \<le> 255" "b' \<le> 255" and "0 < bits" "bits \<le> 32"
  shows "ipv4ToInt (dotted a b c d) AND v4_mask bits = ipv4ToInt (dotted a' b' 0 0) AND v4_mask bits \<longleftrightarrow>
    quad a b c d div 2 ^ (32 - bits) = quad a' b' 0 0 div 2 ^ (32 - bits)"
proof -
  have "32 - bits < LENGTH(32)" using assms(7) by simp
  from masked_eq_nat [OF this, of "ipv4ToInt (dotted a b c d)" "ipv4ToInt (dotted a' b' 0 0)"] show ?thesis
    unfolding v4_mask_push [OF assms(7,8)] ipv4_unat [OF assms(1-4)] ipv4_unat [OF assms(5,6) zero_le zero_le] .
qed

lemma div_eq_range: "0 < k \<Longrightarrow> x div k = m \<longleftrightarrow> m * k \<le> x \<and> x < (m + 1) * (k :: nat)"
  using less_eq_div_iff_mult_less_eq [of k m x] less_eq_div_iff_mult_less_eq [of k "m + 1" x] by linarith

lemma quad_div:
  assumes "b \<le> 255" "c \<le> 255" "d \<le> 255"
  shows "quad a b c d div 2 ^ 24 = a" and "quad a b c d div 2 ^ 16 = a * 256 + b"
    and "quad a b c d div 2 ^ 22 = (a * 256 + b) div 64" and "quad a b c d div 2 ^ 20 = (a * 256 + b) div 16"
proof -
  have "quad a b c d = d + 256 * c + 65536 * (a * 256 + b)" by (simp add: quad_def algebra_simps)
  moreover have "d + 256 * c < 65536" using assms by linarith
  ultimately have q: "quad a b c d div 65536 = a * 256 + b" by (simp add: div_mult_self2)
  have two: "quad a b c d div (65536 * k) = (a * 256 + b) div k" for k by (simp only: div_mult2_eq q)
  show "quad a b c d div 2 ^ 16 = a * 256 + b" using q by simp
  show "quad a b c d div 2 ^ 22 = (a * 256 + b) div 64" using two [of 64] by simp
  show "quad a b c d div 2 ^ 20 = (a * 256 + b) div 16" using two [of 16] by simp
  have "(b + 256 * a) div 256 = a" using assms(1) by simp
  then show "quad a b c d div 2 ^ 24 = a" using two [of 256] by (simp add: algebra_simps)
qed

lemma byte_window:
  assumes "b \<le> 255" and "h \<le> 256"
  shows "x * 256 + l \<le> a * 256 + b \<and> a * 256 + b < x * 256 + h \<longleftrightarrow> a = x \<and> l \<le> b \<and> b < (h :: nat)"
  using assms by (cases a x rule: linorder_cases) auto

lemma byte_pair: "b \<le> 255 \<Longrightarrow> y \<le> 255 \<Longrightarrow> a * 256 + b = x * 256 + y \<longleftrightarrow> a = x \<and> b = (y :: nat)"
  by (cases a x rule: linorder_cases) auto

lemma isDeniedV4_dotted:
  assumes "a \<le> 255" "b \<le> 255" "c \<le> 255" "d \<le> 255"
  shows "isDeniedV4 (dotted a b c d) \<longleftrightarrow>
    a = 0 \<or> a = 10 \<or> a = 127 \<or> a = 100 \<and> 64 \<le> b \<and> b < 128 \<or> a = 169 \<and> b = 254
    \<or> a = 172 \<and> 16 \<le> b \<and> b < 32 \<or> a = 192 \<and> b = 168"
proof -
  note r = v4_in_range [OF assms] and ar = quad_div [OF assms(2-4), of a]
  have base: "quad x 0 0 0 div 2 ^ 24 = x" "quad 100 64 0 0 div 2 ^ 22 = 401" "quad 172 16 0 0 div 2 ^ 20 = 2753"
    "quad x y 0 0 div 2 ^ 16 = x * 256 + y" for x y
    by (simp_all add: quad_def)
  have e8: "ipv4ToInt (dotted a b c d) AND v4_mask 8 = ipv4ToInt (dotted x 0 0 0) AND v4_mask 8 \<longleftrightarrow> a = x" if "x \<le> 255" for x
    using r [of x 0 8] ar(1) base(1) [of x] that by simp
  have e16: "ipv4ToInt (dotted a b c d) AND v4_mask 16 = ipv4ToInt (dotted x y 0 0) AND v4_mask 16 \<longleftrightarrow> a * 256 + b = x * 256 + y"
    if "x \<le> 255" "y \<le> 255" for x y
    using r [of x y 16] ar(2) base(4) [of x y] that by simp
  have e10: "ipv4ToInt (dotted a b c d) AND v4_mask 10 = ipv4ToInt (dotted 100 64 0 0) AND v4_mask 10 \<longleftrightarrow> (a * 256 + b) div 64 = 401"
    using r [of 100 64 10] ar(3) base(2) by simp
  have e12: "ipv4ToInt (dotted a b c d) AND v4_mask 12 = ipv4ToInt (dotted 172 16 0 0) AND v4_mask 12 \<longleftrightarrow> (a * 256 + b) div 16 = 2753"
    using r [of 172 16 12] ar(4) base(3) by simp
  have "isDeniedV4 (dotted a b c d) \<longleftrightarrow> a = 0 \<or> a = 10 \<or> (a * 256 + b) div 64 = 401 \<or> a = 127 \<or> a * 256 + b = 43518
      \<or> (a * 256 + b) div 16 = 2753 \<or> a * 256 + b = 49320"
    unfolding isDeniedV4_def denied_v4_dotted list_ex_Cons_iff list_ex_Nil_iff prod.case
    by (simp add: e8 e16 e10 e12)
  also have "\<dots> \<longleftrightarrow> a = 0 \<or> a = 10 \<or> a = 127 \<or> a = 100 \<and> 64 \<le> b \<and> b < 128 \<or> a = 169 \<and> b = 254
    \<or> a = 172 \<and> 16 \<le> b \<and> b < 32 \<or> a = 192 \<and> b = 168"
  proof -
    have "x div 64 = 401 \<longleftrightarrow> 25664 \<le> x \<and> x < 25728" "x div 16 = 2753 \<longleftrightarrow> 44048 \<le> x \<and> x < 44064" for x :: nat
      using div_eq_range [of 64 x 401] div_eq_range [of 16 x 2753] by simp_all
    moreover have "25664 \<le> a * 256 + b \<and> a * 256 + b < 25728 \<longleftrightarrow> a = 100 \<and> 64 \<le> b \<and> b < 128"
      using byte_window [OF assms(2), of 128 100 64] by simp
    moreover have "44048 \<le> a * 256 + b \<and> a * 256 + b < 44064 \<longleftrightarrow> a = 172 \<and> 16 \<le> b \<and> b < 32"
      using byte_window [OF assms(2), of 32 172 16] by simp
    ultimately have "(a * 256 + b) div 64 = 401 \<longleftrightarrow> a = 100 \<and> 64 \<le> b \<and> b < 128"
      "(a * 256 + b) div 16 = 2753 \<longleftrightarrow> a = 172 \<and> 16 \<le> b \<and> b < 32" by simp_all
    moreover have "a * 256 + b = 43518 \<longleftrightarrow> a = 169 \<and> b = 254" "a * 256 + b = 49320 \<longleftrightarrow> a = 192 \<and> b = 168"
      using byte_pair [OF assms(2), where y = 254 and x = 169 and a = a] byte_pair [OF assms(2), where y = 168 and x = 192 and a = a] by simp_all
    ultimately show ?thesis by blast
  qed
  finally show ?thesis .
qed

text \<open>The IPv4 deny list, read off the octets: a dotted quad is refused exactly when it lies in
  0/8, 10/8, 100.64/10, 127/8, 169.254/16, 172.16/12 or 192.168/16. The shifts, the 32-bit wrap-around
  and the masks compute these ranges and nothing else.\<close>

theorem denied_v4_iff_octets:
  assumes "a \<le> 255" "b \<le> 255" "c \<le> 255" "d \<le> 255"
  shows "isDeniedIp (dotted a b c d) \<longleftrightarrow>
    a = 0 \<or> a = 10 \<or> a = 127 \<or> a = 100 \<and> 64 \<le> b \<and> b < 128 \<or> a = 169 \<and> b = 254
    \<or> a = 172 \<and> 16 \<le> b \<and> b < 32 \<or> a = 192 \<and> b = 168"
  unfolding isDeniedV4_dotted [OF assms, symmetric] by (simp add: isDeniedIp_def isIP_dotted [OF assms])

lemma denied_v4_iff_octets_witness: "isDeniedIp (dotted 169 254 169 254) \<and> \<not> isDeniedIp (dotted 172 32 0 1)"
  using denied_v4_iff_octets [of 169 254 169 254] denied_v4_iff_octets [of 172 32 0 1] by simp

subsection \<open>IPv6\<close>

fun groups_value :: "nat list \<Rightarrow> nat" where
  "groups_value gs = foldl (\<lambda>n g. n * 65536 + g) 0 gs"

lemma fold_groups_word: "foldl (\<lambda>acc g. push_bit 16 acc + of_nat g) (of_nat n) gs = (of_nat (foldl (\<lambda>n g. n * 65536 + g) n gs) :: 128 word)"
proof (induction gs arbitrary: n)
  case (Cons g gs)
  have "push_bit 16 (of_nat n) + of_nat g = (of_nat (n * 65536 + g) :: 128 word)" by (simp add: push_bit_eq_mult algebra_simps)
  then show ?case using Cons [of "n * 65536 + g"] by simp
qed simp

lemma ipv6_word: "ipv6ToBigInt ip = of_nat (groups_value (expandIPv6 ip))"
  using fold_groups_word [of 0 "expandIPv6 ip"] by (simp add: ipv6ToBigInt_def)

lemma replicate_small: "replicate 5 (x::nat) = [x, x, x, x, x]" "replicate 6 (x::nat) = [x, x, x, x, x, x]"
  "replicate 7 (x::nat) = [x, x, x, x, x, x, x]" "replicate 8 x = [x, x, x, x, x, x, x, x]"
  by (simp_all add: eval_nat_numeral)

lemma v6_in_range:
  assumes "n < 2 ^ 128" "m < 2 ^ 128" "k < 128"
  shows "(of_nat n :: 128 word) AND push_bit k (- 1) = of_nat m AND push_bit k (- 1) \<longleftrightarrow> n div 2 ^ k = m div 2 ^ k"
proof -
  have u: "unat (of_nat x :: 128 word) = x" if "x < 2 ^ 128" for x
    using that unfolding unat_of_nat take_bit_eq_mod by simp
  have "k < LENGTH(128)" using assms(3) by simp
  from masked_eq_nat [OF this, of "of_nat n" "of_nat m"] show ?thesis unfolding u [OF assms(1)] u [OF assms(2)] .
qed

lemma denied_v6_iff_groups_aux:
  assumes "expandIPv6 ip = [g0, g1, g2, g3, g4, g5, g6, g7]" and "list_all (\<lambda>g. g < 65536) (expandIPv6 ip)"
  shows "isDeniedV6 ip \<longleftrightarrow> g0 = 0 \<and> g1 = 0 \<and> g2 = 0 \<and> g3 = 0 \<and> g4 = 0 \<and> g5 = 0 \<and> g6 = 0 \<and> g7 \<le> 1
    \<or> 0xfe80 \<le> g0 \<and> g0 \<le> 0xfebf \<or> 0xfc00 \<le> g0 \<and> g0 \<le> 0xfdff"
proof -
  let ?n = "groups_value (expandIPv6 ip)"
  let ?r = "groups_value [g1, g2, g3, g4, g5, g6, g7]"
  have g: "g0 < 65536" "g1 < 65536" "g2 < 65536" "g3 < 65536" "g4 < 65536" "g5 < 65536" "g6 < 65536" "g7 < 65536"
    using assms by simp_all
  have n: "?n = g0 * 2 ^ 112 + ?r" by (simp add: assms(1))
  have r: "?r < 2 ^ 112" using g by simp
  have bound: "?n < 2 ^ 128" unfolding n using g(1) r by simp
  have w: "ipv6ToBigInt ip = of_nat ?n" by (rule ipv6_word)
  have b: "map (\<lambda>(base, bits). (expandIPv6 base, bits)) DENIED_V6_RANGES =
      [([0,0,0,0,0,0,0,1], 128), ([0,0,0,0,0,0,0,0], 128), ([0xfe80,0,0,0,0,0,0,0], 10), ([0xfc00,0,0,0,0,0,0,0], 7)]"
    by (simp add: DENIED_V6_RANGES_def expandIPv6_def without_zone_def part_groups_def hex_val_def replicate_small)
  then have "isDeniedV6 ip \<longleftrightarrow> list_ex (\<lambda>(gs, bits). ipv6ToBigInt ip AND v6_mask bits = of_nat (groups_value gs) AND v6_mask bits)
      [([0,0,0,0,0,0,0,1], 128), ([0,0,0,0,0,0,0,0], 128), ([0xfe80,0,0,0,0,0,0,0], 10), ([0xfc00,0,0,0,0,0,0,0], 7)]"
    unfolding isDeniedV6_def b [symmetric] by (simp add: list_ex_iff ipv6_word split_def)
  also have "\<dots> \<longleftrightarrow> ?n = 1 \<or> ?n = 0 \<or> ?n div 2 ^ 118 = 0xfe80 * 2 ^ 112 div 2 ^ 118 \<or> ?n div 2 ^ 121 = 0xfc00 * 2 ^ 112 div 2 ^ 121"
  proof -
    have m: "v6_mask 128 = push_bit 0 (- 1)" "v6_mask 10 = push_bit 118 (- 1)" "v6_mask 7 = push_bit 121 (- 1)"
      by (simp_all add: v6_mask_def)
    have v: "groups_value [0,0,0,0,0,0,0,1] = 1" "groups_value [0,0,0,0,0,0,0,0] = 0"
      "groups_value [0xfe80,0,0,0,0,0,0,0] = 0xfe80 * 2 ^ 112" "groups_value [0xfc00,0,0,0,0,0,0,0] = 0xfc00 * 2 ^ 112"
      by simp_all
    have x: "(of_nat ?n :: 128 word) AND push_bit k (- 1) = of_nat m AND push_bit k (- 1) \<longleftrightarrow> ?n div 2 ^ k = m div 2 ^ k"
      if "m < 2 ^ 128" "k < 128" for m k
      by (rule v6_in_range [OF bound that])
    show ?thesis unfolding w list_ex_Cons_iff list_ex_Nil_iff prod.case m v by (subst x, simp, simp)+ simp
  qed
  finally have s: "isDeniedV6 ip \<longleftrightarrow> ?n = 1 \<or> ?n = 0 \<or> ?n div 2 ^ 118 = 0xfe80 * 2 ^ 112 div 2 ^ 118
      \<or> ?n div 2 ^ 121 = 0xfc00 * 2 ^ 112 div 2 ^ 121" .
  have d1: "?n div 2 ^ 118 = g0 div 64"
  proof -
    have "?n div (2 ^ 112 * 64) = g0 div 64" unfolding div_mult2_eq n using r by simp
    then show ?thesis by simp
  qed
  have d2: "?n div 2 ^ 121 = g0 div 512"
  proof -
    have "?n div (2 ^ 112 * 512) = g0 div 512" unfolding div_mult2_eq n using r by simp
    then show ?thesis by simp
  qed
  have z: "?n = 1 \<or> ?n = 0 \<longleftrightarrow> g0 = 0 \<and> g1 = 0 \<and> g2 = 0 \<and> g3 = 0 \<and> g4 = 0 \<and> g5 = 0 \<and> g6 = 0 \<and> g7 \<le> 1"
    unfolding assms(1) by auto
  have "x div 64 = 1018 \<longleftrightarrow> 0xfe80 \<le> x \<and> x \<le> 0xfebf" "x div 512 = 126 \<longleftrightarrow> 0xfc00 \<le> x \<and> x \<le> 0xfdff" for x :: nat
    using div_eq_range [of 64 x 1018] div_eq_range [of 512 x 126] by (auto simp: less_Suc_eq_le)
  moreover have "(0xfe80 * 2 ^ 112 div 2 ^ 118 :: nat) = 1018" "(0xfc00 * 2 ^ 112 div 2 ^ 121 :: nat) = 126" by simp_all
  ultimately show ?thesis unfolding s d1 d2 using z by metis
qed

text \<open>The IPv6 deny list, read off the eight 16-bit groups of an address: it is refused exactly when
  it is \<open>::\<close> or \<open>::1\<close>, or its first group lies in \<open>fe80\<close> to \<open>febf\<close> or in \<open>fc00\<close> to \<open>fdff\<close>.\<close>

theorem denied_v6_iff_groups:
  assumes "expandIPv6 ip = [g0, g1, g2, g3, g4, g5, g6, g7]" and "list_all (\<lambda>g. g < 65536) (expandIPv6 ip)"
  shows "isDeniedV6 ip \<longleftrightarrow> g0 = 0 \<and> g1 = 0 \<and> g2 = 0 \<and> g3 = 0 \<and> g4 = 0 \<and> g5 = 0 \<and> g6 = 0 \<and> g7 \<le> 1
    \<or> 0xfe80 \<le> g0 \<and> g0 \<le> 0xfebf \<or> 0xfc00 \<le> g0 \<and> g0 \<le> 0xfdff"
  using assms by (rule denied_v6_iff_groups_aux)

lemma expand_sample: "expandIPv6 ''fe80::1'' = [0xfe80, 0, 0, 0, 0, 0, 0, 1]"
  by (simp add: expandIPv6_def without_zone_def part_groups_def hex_val_def replicate_small)

lemma denied_v6_iff_groups_witness: "isDeniedV6 ''fe80::1''"
  by (subst denied_v6_iff_groups [OF expand_sample]) (simp_all add: expand_sample)

text \<open>
  The mapped form of an IPv4 address is recognised in its dotted spelling only: written with two
  hexadecimal groups, the loopback address passes the guard.
\<close>

lemma expand_mapped_loopback: "expandIPv6 ''::ffff:7f00:1'' = [0, 0, 0, 0, 0, 0xffff, 0x7f00, 1]"
  by (simp add: expandIPv6_def without_zone_def part_groups_def hex_val_def replicate_small)

lemma mapped_loopback_in_hexadecimal_passes:
  "isIP ''::ffff:7f00:1'' = 6" "\<not> isDeniedIp ''::ffff:7f00:1''" "isDeniedIp ''::ffff:127.0.0.1''"
proof -
  show i: "isIP ''::ffff:7f00:1'' = 6" by code_simp
  have "mapped_v4 ''::ffff:7f00:1'' = None" by code_simp
  moreover have "\<not> isDeniedV6 ''::ffff:7f00:1''"
    using denied_v6_iff_groups_aux [OF expand_mapped_loopback] by (simp add: expand_mapped_loopback)
  ultimately show "\<not> isDeniedIp ''::ffff:7f00:1''" by (simp add: isDeniedIp_def i)
  have "isIP ''::ffff:127.0.0.1'' = 6" "mapped_v4 ''::ffff:127.0.0.1'' = Some ''127.0.0.1''" by code_simp+
  moreover have "isDeniedV4 ''127.0.0.1''"
  proof -
    have "''127.0.0.1'' = dotted 127 0 0 1" by (simp add: dotted_def show_nat.simps digit_char_def digit_chars)
    then show ?thesis using isDeniedV4_dotted [of 127 0 0 1] by simp
  qed
  ultimately show "isDeniedIp ''::ffff:127.0.0.1''" by (simp add: isDeniedIp_def)
qed

subsection \<open>The vetted address is one the guard accepts\<close>

lemma resolveVettedIp_Inr:
  assumes "resolveVettedIp resolve hostname = Inr ip"
  shows "\<not> isDeniedIp ip \<and> (ip = hostname \<or> (\<exists>rest. resolve hostname = Some (ip # rest) \<and> (\<forall>a \<in> set rest. \<not> isDeniedIp a)))"
  using assms by (auto simp: resolveVettedIp_def find_None_iff split: if_splits option.splits list.splits)

end
