(* ===== verification/Vault.thy ===== *)
theory Vault
  imports Js_Values
begin

text \<open>
  \<^verbatim>\<open>hub/vault.mjs\<close>: the secret vault. A secret is written to the operating system's store where
  one works and otherwise to an encrypted file; the index file records the tier a reference went to.
  The native stores (reached by spawning a program of the platform) and the cipher of the file tier are
  parameters: \<open>backend\<close> and \<open>cipher\<close>. A file of the vault directory is a table entry under its
  reference; the base64url file name is an injective image of it.
\<close>

subsection \<open>State\<close>

datatype vault_error = Cannot_decrypt string | Secret_gone string string | Store_unreadable string

record 'k backend =
  be_available :: bool
  be_set :: "string \<Rightarrow> json \<Rightarrow> 'k \<Rightarrow> bool \<times> 'k"
  be_get :: "'k \<Rightarrow> string \<Rightarrow> vault_error + json"
  be_delete :: "string \<Rightarrow> 'k \<Rightarrow> 'k"

record 'b cipher =
  \<comment> \<open>passphrase, salt and initialisation vector, secret; \<open>open_blob\<close> is \<open>None\<close> when the tag does not match\<close>
  seal_blob :: "string \<Rightarrow> string \<times> string \<Rightarrow> json \<Rightarrow> 'b"
  open_blob :: "string \<Rightarrow> 'b \<Rightarrow> json option"

record ('b, 'k) vault =
  vault_index :: "(string, string) tbl"
  vault_files :: "(string, 'b) tbl"
  fallback_key :: "string option"
  native :: 'k

record ('b, 'k) vault_env =
  ve_backends :: "(string \<times> 'k backend) list"
  ve_cipher :: "'b cipher"
  ve_passphrase :: "string option"

definition FILE_TIER :: string where "FILE_TIER = ''file-fallback''"

lemma FILE_TIER_nonempty [simp]: "FILE_TIER \<noteq> []"
  by (simp add: FILE_TIER_def)

definition loadIndex :: "('b, 'k) vault \<Rightarrow> (string, string) tbl" where
  "loadIndex v = vault_index v"

definition saveIndex :: "(string, string) tbl \<Rightarrow> ('b, 'k) vault \<Rightarrow> ('b, 'k) vault" where
  "saveIndex idx v = v\<lparr>vault_index := idx\<rparr>"

subsection \<open>The file tier\<close>

definition fallbackPassphrase :: "('b, 'k) vault_env \<Rightarrow> string \<Rightarrow> ('b, 'k) vault \<Rightarrow> string \<times> ('b, 'k) vault" where
  \<comment> \<open>\<open>fresh\<close> is what \<open>randomBytes(32)\<close> would draw; an empty environment variable counts as unset\<close>
  "fallbackPassphrase env fresh v =
     (case ve_passphrase env of
        Some (c # cs) \<Rightarrow> (c # cs, v)
      | _ \<Rightarrow> (case fallback_key v of
               Some k \<Rightarrow> (k, v)
             | None \<Rightarrow> (fresh, v\<lparr>fallback_key := Some fresh\<rparr>)))"

definition fileSet :: "('b, 'k) vault_env \<Rightarrow> string \<Rightarrow> string \<times> string \<Rightarrow> string \<Rightarrow> json \<Rightarrow> ('b, 'k) vault \<Rightarrow> ('b, 'k) vault" where
  "fileSet env fresh salt_iv ref secret v =
     (let (pass, v1) = fallbackPassphrase env fresh v
      in v1\<lparr>vault_files := tbl_upsert ref (seal_blob (ve_cipher env) pass salt_iv secret) (vault_files v1)\<rparr>)"

definition fileGet :: "('b, 'k) vault_env \<Rightarrow> string \<Rightarrow> string \<Rightarrow> ('b, 'k) vault \<Rightarrow> (vault_error + json) \<times> ('b, 'k) vault" where
  "fileGet env fresh ref v =
     (case tbl_get (vault_files v) ref of
        None \<Rightarrow> (Inr JNull, v)
      | Some blob \<Rightarrow>
          (let (pass, v1) = fallbackPassphrase env fresh v
           in (case open_blob (ve_cipher env) pass blob of
                 None \<Rightarrow> Inl (Cannot_decrypt ref) | Some secret \<Rightarrow> Inr secret, v1)))"

definition fileDelete :: "string \<Rightarrow> ('b, 'k) vault \<Rightarrow> ('b, 'k) vault" where
  "fileDelete ref v = v\<lparr>vault_files := tbl_delete ref (vault_files v)\<rparr>"

subsection \<open>The vault\<close>

fun try_native :: "(string \<times> 'k backend) list \<Rightarrow> string \<Rightarrow> json \<Rightarrow> 'k \<Rightarrow> string option \<times> 'k" where
  \<comment> \<open>only the first available store is tried: its failure leaves the loop\<close>
  "try_native [] ref secret k = (None, k)"
| "try_native ((name, b) # bs) ref secret k =
     (if \<not> be_available b then try_native bs ref secret k
      else case be_set b ref secret k of (True, k') \<Rightarrow> (Some name, k') | (False, k') \<Rightarrow> (None, k'))"

definition vaultSet :: "('b, 'k) vault_env \<Rightarrow> string \<Rightarrow> string \<times> string \<Rightarrow> string \<Rightarrow> json \<Rightarrow> ('b, 'k) vault \<Rightarrow> string \<times> ('b, 'k) vault" where
  "vaultSet env fresh salt_iv ref secret v =
     (let idx = loadIndex v;
          (stored, k') = try_native (ve_backends env) ref secret (native v);
          v1 = v\<lparr>native := k'\<rparr>
      in case stored of
           Some name \<Rightarrow> (name, saveIndex (tbl_upsert ref name idx) v1)
         | None \<Rightarrow> (FILE_TIER,
                    saveIndex (tbl_upsert ref FILE_TIER idx) (fileSet env fresh salt_iv ref secret v1)))"

definition native_tier :: "('b, 'k) vault_env \<Rightarrow> ('b, 'k) vault \<Rightarrow> string \<Rightarrow> 'k backend option" where
  \<comment> \<open>the condition \<open>backendName && backendName !== "file-fallback" && BACKENDS[backendName]\<close>\<close>
  "native_tier env v ref =
     (case tbl_get (loadIndex v) ref of
        None \<Rightarrow> None
      | Some name \<Rightarrow> if name = [] \<or> name = FILE_TIER then None else map_of (ve_backends env) name)"

definition vaultGet :: "('b, 'k) vault_env \<Rightarrow> string \<Rightarrow> string \<Rightarrow> ('b, 'k) vault \<Rightarrow> (vault_error + json) \<times> ('b, 'k) vault" where
  "vaultGet env fresh ref v =
     (case native_tier env v ref of
        None \<Rightarrow> fileGet env fresh ref v
      | Some b \<Rightarrow> (case be_get b (native v) ref of
                     Inl e \<Rightarrow> (Inl e, v)
                   | Inr s \<Rightarrow> if s \<noteq> JNull then (Inr s, v) else fileGet env fresh ref v))"

definition vaultGetStrict :: "('b, 'k) vault_env \<Rightarrow> string \<Rightarrow> string \<Rightarrow> ('b, 'k) vault \<Rightarrow> (vault_error + json) \<times> ('b, 'k) vault" where
  "vaultGetStrict env fresh ref v =
     (case tbl_get (loadIndex v) ref of
        None \<Rightarrow> (Inr JNull, v)
      | Some name \<Rightarrow>
          if name = [] then (Inr JNull, v) else
          (let (r, v1) = (if name = FILE_TIER then fileGet env fresh ref v
                          else (case map_of (ve_backends env) name of
                                  None \<Rightarrow> Inr JNull | Some b \<Rightarrow> be_get b (native v) ref, v))
           in (and_then r (\<lambda>s. if s = JNull then Inl (Secret_gone ref name) else Inr s), v1)))"

definition vaultDelete :: "('b, 'k) vault_env \<Rightarrow> string \<Rightarrow> ('b, 'k) vault \<Rightarrow> ('b, 'k) vault" where
  "vaultDelete env ref v =
     (let idx = loadIndex v;
          v1 = (case native_tier env v ref of None \<Rightarrow> v | Some b \<Rightarrow> v\<lparr>native := be_delete b ref (native v)\<rparr>)
      in saveIndex (tbl_delete ref idx) (fileDelete ref v1))"

definition vaultBackendFor :: "string \<Rightarrow> ('b, 'k) vault \<Rightarrow> string option" where
  "vaultBackendFor ref v = tbl_get (loadIndex v) ref"

subsection \<open>What is stored is read back\<close>

text \<open>
  What the vault relies on: a native store that reports success holds the secret, and whatever it does
  under one reference leaves what any store holds under the others; the cipher opens what it sealed. The
  names of the stores are distinct and not the name of the file tier.
\<close>

definition store_holds :: "'k backend \<Rightarrow> bool" where
  "store_holds b \<longleftrightarrow> (\<forall>ref s k k'. be_set b ref s k = (True, k') \<longrightarrow> be_get b k' ref = Inr s)"

definition store_quiet :: "'k backend \<Rightarrow> 'k backend \<Rightarrow> bool" where
  "store_quiet b c \<longleftrightarrow> (\<forall>ref ref' s k. ref' \<noteq> ref \<longrightarrow> be_get c (snd (be_set b ref s k)) ref' = be_get c k ref')"

definition cipher_opens :: "'b cipher \<Rightarrow> bool" where
  "cipher_opens c \<longleftrightarrow> (\<forall>p n s. open_blob c p (seal_blob c p n s) = Some s)"

definition store_names :: "('b, 'k) vault_env \<Rightarrow> bool" where
  "store_names env \<longleftrightarrow> distinct (map fst (ve_backends env)) \<and> (\<forall>n \<in> fst ` set (ve_backends env). n \<noteq> [] \<and> n \<noteq> FILE_TIER)"

definition vault_laws :: "('b, 'k) vault_env \<Rightarrow> bool" where
  "vault_laws env \<longleftrightarrow> cipher_opens (ve_cipher env) \<and> store_names env
     \<and> (\<forall>b \<in> snd ` set (ve_backends env). store_holds b \<and> (\<forall>c \<in> snd ` set (ve_backends env). store_quiet b c))"

lemma try_native_Some:
  "try_native bs ref s k = (Some name, k') \<Longrightarrow> \<exists>b. (name, b) \<in> set bs \<and> be_set b ref s k = (True, k')"
  by (induction bs ref s k rule: try_native.induct) (auto split: if_splits prod.splits bool.splits)

lemma passphrase_stays:
  assumes "fallbackPassphrase env fresh v = (pass, v1)"
  shows "fallbackPassphrase env fresh' v1 = (pass, v1)"
  using assms by (auto simp: fallbackPassphrase_def split: option.splits list.splits)

lemma passphrase_index [simp]:
  "vault_index (snd (fallbackPassphrase env fresh v)) = vault_index v"
  "vault_files (snd (fallbackPassphrase env fresh v)) = vault_files v"
  "native (snd (fallbackPassphrase env fresh v)) = native v"
  by (auto simp: fallbackPassphrase_def split: option.splits list.splits)

lemma fallbackPassphrase_update [simp]:
  "fallbackPassphrase env fresh (v\<lparr>vault_index := i\<rparr>) = map_prod id (\<lambda>v. v\<lparr>vault_index := i\<rparr>) (fallbackPassphrase env fresh v)"
  "fallbackPassphrase env fresh (v\<lparr>vault_files := f\<rparr>) = map_prod id (\<lambda>v. v\<lparr>vault_files := f\<rparr>) (fallbackPassphrase env fresh v)"
  by (auto simp: fallbackPassphrase_def split: option.splits list.splits)

lemma fileGet_fileSet:
  assumes "cipher_opens (ve_cipher env)"
  shows "fst (fileGet env fresh' ref (saveIndex i (fileSet env fresh n ref s v))) = Inr s"
proof -
  obtain pass v1 where p: "fallbackPassphrase env fresh v = (pass, v1)" by fastforce
  show ?thesis using passphrase_stays [OF p] assms
    by (cases n) (simp add: fileGet_def fileSet_def saveIndex_def p cipher_opens_def)
qed

text \<open>The key of the file tier exists whenever there is a file.\<close>

definition key_kept :: "('b, 'k) vault_env \<Rightarrow> ('b, 'k) vault \<Rightarrow> bool" where
  "key_kept env v \<longleftrightarrow> (vault_files v = [] \<or> fallback_key v \<noteq> None \<or> (\<exists>p. ve_passphrase env = Some p \<and> p \<noteq> []))"

lemma fallbackPassphrase_key:
  "fallbackPassphrase env fresh v = (pass, v1) \<Longrightarrow> key_kept env (v1\<lparr>vault_files := fs, vault_index := i, native := k\<rparr>)"
  by (auto simp: fallbackPassphrase_def key_kept_def split: option.splits list.splits)

lemma fallbackPassphrase_native [simp]:
  "fallbackPassphrase env fresh (v\<lparr>native := k\<rparr>) = map_prod id (\<lambda>v. v\<lparr>native := k\<rparr>) (fallbackPassphrase env fresh v)"
  by (auto simp: fallbackPassphrase_def split: option.splits list.splits)

lemma passphrase_fixed:
  assumes "key_kept env v" and "vault_files v \<noteq> []"
  shows "fst (fallbackPassphrase env fresh v) = fst (fallbackPassphrase env fresh' v)"
  using assms by (auto simp: fallbackPassphrase_def key_kept_def split: option.splits list.splits)

lemma fileGet_value:
  "fst (fileGet env fresh ref v) =
     (case tbl_get (vault_files v) ref of None \<Rightarrow> Inr JNull
      | Some blob \<Rightarrow> (case open_blob (ve_cipher env) (fst (fallbackPassphrase env fresh v)) blob of
                      None \<Rightarrow> Inl (Cannot_decrypt ref) | Some secret \<Rightarrow> Inr secret))"
  by (auto simp: fileGet_def split: option.splits prod.splits)

lemma fileSet_fields [simp]:
  "vault_index (fileSet env fresh n ref s v) = vault_index v" "native (fileSet env fresh n ref s v) = native v"
  using passphrase_index [of env fresh v] by (cases "fallbackPassphrase env fresh v"; simp add: fileSet_def)+

lemma fileGet_fileSet_other:
  assumes "key_kept env v" and "ref' \<noteq> ref"
  shows "fst (fileGet env fresh' ref' (saveIndex i (fileSet env fresh n ref s v))) = fst (fileGet env fresh' ref' v)"
proof -
  obtain pass v1 where p: "fallbackPassphrase env fresh v = (pass, v1)" by fastforce
  have v1: "vault_files v1 = vault_files v" using passphrase_index(2) [of env fresh v] p by simp
  have q: "fst (fallbackPassphrase env fresh' v1) = pass" using passphrase_stays [OF p, of fresh'] by simp
  show ?thesis
  proof (cases "vault_files v = []")
    case False
    from passphrase_fixed [OF assms(1) this, of fresh' fresh] p q
    have "fst (fallbackPassphrase env fresh' v) = fst (fallbackPassphrase env fresh' v1)" by simp
    then have "fst (fallbackPassphrase env fresh' (v1\<lparr>vault_files := fs, vault_index := i\<rparr>)) = fst (fallbackPassphrase env fresh' v)" for fs
      by (simp add: fst_map_prod)
    then show ?thesis using assms(2) by (simp only: fileGet_value fileSet_def saveIndex_def p Let_def prod.case) (simp add: v1)
  qed (use assms(2) in \<open>simp add: fileGet_value fileSet_def saveIndex_def p v1\<close>)
qed

lemma fileGet_native [simp]: "fst (fileGet env fresh ref (v\<lparr>native := k\<rparr>)) = fst (fileGet env fresh ref v)"
  by (auto simp: fileGet_def fallbackPassphrase_def split: option.splits list.splits)

lemma fileGet_saveIndex [simp]: "fst (fileGet env fresh ref (saveIndex i v)) = fst (fileGet env fresh ref v)"
  by (auto simp: fileGet_def saveIndex_def fallbackPassphrase_def split: option.splits list.splits)

lemma saveIndex_fields [simp]: "vault_index (saveIndex i v) = i" "native (saveIndex i v) = native v"
    "vault_files (saveIndex i v) = vault_files v" "fallback_key (saveIndex i v) = fallback_key v"
  by (simp_all add: saveIndex_def)

lemma vault_laws_cipher: "vault_laws env \<Longrightarrow> cipher_opens (ve_cipher env)"
  by (simp add: vault_laws_def)

lemma vault_laws_backend:
  assumes "vault_laws env" and "(name, b) \<in> set (ve_backends env)"
  shows "map_of (ve_backends env) name = Some b" and "name \<noteq> []" and "name \<noteq> FILE_TIER"
    and "be_set b ref s k = (True, k') \<Longrightarrow> be_get b k' ref = Inr s"
proof -
  have n: "store_names env" and "store_holds b" using assms by (auto simp: vault_laws_def)
  then show "be_set b ref s k = (True, k') \<Longrightarrow> be_get b k' ref = Inr s" by (simp add: store_holds_def)
  from n assms(2) show "map_of (ve_backends env) name = Some b" by (simp add: store_names_def)
  have "name \<in> fst ` set (ve_backends env)" using image_eqI [OF _ assms(2), of name fst] by simp
  with n show "name \<noteq> []" "name \<noteq> FILE_TIER" unfolding store_names_def by (blast, blast)
qed

lemma vault_laws_quiet:
  assumes "vault_laws env" and "(n, b) \<in> set (ve_backends env)" and "(m, c) \<in> set (ve_backends env)" and "ref' \<noteq> ref"
  shows "be_get c (snd (be_set b ref s k)) ref' = be_get c k ref'"
proof -
  have "store_quiet b c" using assms(1-3) by (fastforce simp: vault_laws_def)
  with assms(4) show ?thesis by (simp add: store_quiet_def)
qed

lemma try_native_other:
  assumes "vault_laws env" and "(m, c) \<in> set (ve_backends env)" and "ref' \<noteq> ref"
    and "set bs \<subseteq> set (ve_backends env)"
  shows "be_get c (snd (try_native bs ref s k)) ref' = be_get c k ref'"
  using assms(4)
proof (induction bs)
  case (Cons nb bs)
  obtain n b where nb: "nb = (n, b)" by fastforce
  with Cons.prems have "(n, b) \<in> set (ve_backends env)" by simp
  from vault_laws_quiet [OF assms(1) this assms(2,3), of s k] Cons nb
  show ?case by (auto split: prod.splits bool.splits)
qed simp

lemma vaultSet_cases:
  assumes "vaultSet env fresh n ref s v = (tier, v')"
  obtains (stored) k' where "try_native (ve_backends env) ref s (native v) = (Some tier, k')"
      "v' = saveIndex (tbl_upsert ref tier (vault_index v)) (v\<lparr>native := k'\<rparr>)"
    | (fell_back) k' where "tier = FILE_TIER" "try_native (ve_backends env) ref s (native v) = (None, k')"
      "v' = saveIndex (tbl_upsert ref tier (vault_index v)) (fileSet env fresh n ref s (v\<lparr>native := k'\<rparr>))"
proof (cases "try_native (ve_backends env) ref s (native v)")
  case (Pair r k')
  then show ?thesis
    using assms stored fell_back by (cases r) (auto simp add: vaultSet_def loadIndex_def)
qed

lemma vaultGet_after_set:
  assumes laws: "vault_laws env" and set: "vaultSet env fresh n ref s v = (tier, v')" and nn: "s \<noteq> JNull"
  shows "fst (vaultGet env fresh' ref v') = Inr s \<and> fst (vaultGetStrict env fresh' ref v') = Inr s
    \<and> vaultBackendFor ref v' = Some tier"
  using set
proof (cases rule: vaultSet_cases)
  case (stored k')
  from try_native_Some [OF stored(1)] obtain b where b: "(tier, b) \<in> set (ve_backends env)"
    "be_set b ref s (native v) = (True, k')" by blast
  note law = vault_laws_backend [OF laws b(1)]
  from law(4) [OF b(2)] have g: "be_get b k' ref = Inr s" .
  with law(1,2,3) g nn stored(2) show ?thesis
    by (simp add: vaultGet_def vaultGetStrict_def native_tier_def loadIndex_def vaultBackendFor_def)
next
  case (fell_back k')
  have g: "fst (fileGet env fresh' ref v') = Inr s"
    unfolding fell_back(3) by (rule fileGet_fileSet [OF vault_laws_cipher [OF laws]])
  have "vault_index v' = tbl_upsert ref FILE_TIER (vault_index v)" by (simp add: fell_back(1,3))
  with g nn show ?thesis
    by (cases "fileGet env fresh' ref v'")
      (simp add: fell_back(1) vaultGet_def vaultGetStrict_def native_tier_def loadIndex_def vaultBackendFor_def)
qed

lemma vaultGet_value:
  "fst (vaultGet env fresh ref v) =
     (case native_tier env v ref of
        None \<Rightarrow> fst (fileGet env fresh ref v)
      | Some b \<Rightarrow> and_then (be_get b (native v) ref) (\<lambda>s. if s \<noteq> JNull then Inr s else fst (fileGet env fresh ref v)))"
  by (auto simp: vaultGet_def split: option.splits sum.splits)

lemma vaultGet_other:
  assumes laws: "vault_laws env" and set: "vaultSet env fresh n ref s v = (tier, v')" and "key_kept env v" and o: "ref' \<noteq> ref"
  shows "fst (vaultGet env fresh' ref' v') = fst (vaultGet env fresh' ref' v)"
proof -
  have i: "tbl_get (vault_index v') ref' = tbl_get (vault_index v) ref'"
    using set o by (cases rule: vaultSet_cases) simp_all
  have nv: "native v' = snd (try_native (ve_backends env) ref s (native v))"
    using set by (cases rule: vaultSet_cases) simp_all
  have f: "fst (fileGet env fresh' ref' v') = fst (fileGet env fresh' ref' v)"
    using set
  proof (cases rule: vaultSet_cases)
    case (fell_back k')
    have "key_kept env (v\<lparr>native := k'\<rparr>)" using assms(3) by (simp add: key_kept_def)
    from fileGet_fileSet_other [OF this o] show ?thesis by (simp add: fell_back(3))
  qed simp
  have t: "native_tier env v' ref' = native_tier env v ref'" by (simp add: native_tier_def loadIndex_def i)
  show ?thesis
  proof (cases "native_tier env v ref'")
    case None
    then show ?thesis by (simp add: vaultGet_value t f)
  next
    case (Some b)
    then obtain m where "(m, b) \<in> set (ve_backends env)"
      by (auto simp: native_tier_def split: option.splits if_splits dest: map_of_SomeD)
    from try_native_other [OF laws this o subset_refl, of s "native v"]
    show ?thesis by (simp only: vaultGet_value t f Some nv option.case)
  qed
qed

subsection \<open>Properties\<close>

text \<open>C19. A secret put into the vault is read back by both readers and the index names its tier, whichever
  tier it went to (a native store that fails falls back to the file), and every other reference still reads
  as before.\<close>

theorem stored_secret_is_read_back:
  assumes "vault_laws env" and "vaultSet env fresh n ref s v = (tier, v')" and "s \<noteq> JNull" and "key_kept env v"
  shows "fst (vaultGet env fresh' ref v') = Inr s \<and> fst (vaultGetStrict env fresh' ref v') = Inr s
    \<and> vaultBackendFor ref v' = Some tier
    \<and> (\<forall>ref'. ref' \<noteq> ref \<longrightarrow> fst (vaultGet env fresh' ref' v') = fst (vaultGet env fresh' ref' v))"
  using vaultGet_after_set [OF assms(1-3)] vaultGet_other [OF assms(1,2,4)] by blast

definition sample_store :: "(string, json) tbl backend" where
  "sample_store = \<lparr>be_available = True, be_set = (\<lambda>ref s k. (True, tbl_upsert ref s k)),
     be_get = (\<lambda>k ref. Inr (case tbl_get k ref of None \<Rightarrow> JNull | Some s \<Rightarrow> s)), be_delete = tbl_delete\<rparr>"

definition sample_vault_env :: "(string \<times> json, (string, json) tbl) vault_env" where
  "sample_vault_env = \<lparr>ve_backends = [(''linux-secret-tool'', sample_store)],
     ve_cipher = \<lparr>seal_blob = (\<lambda>p _ s. (p, s)), open_blob = (\<lambda>p (q, s). if p = q then Some s else None)\<rparr>,
     ve_passphrase = None\<rparr>"

definition empty_vault :: "(string \<times> json, (string, json) tbl) vault" where
  "empty_vault = \<lparr>vault_index = [], vault_files = [], fallback_key = None, native = []\<rparr>"

lemma sample_vault_laws: "vault_laws sample_vault_env"
  by (simp add: vault_laws_def sample_vault_env_def sample_store_def cipher_opens_def store_names_def store_holds_def store_quiet_def FILE_TIER_def)

lemma stored_secret_is_read_back_witness:
  "fst (vaultGet sample_vault_env [] ''r'' (snd (vaultSet sample_vault_env [] ([], []) ''r'' (JStr ''s'') empty_vault))) = Inr (JStr ''s'')"
  using stored_secret_is_read_back [OF sample_vault_laws prod.collapse [symmetric],
      where fresh = "[]" and n = "([], [])" and ref = "''r''" and s = "JStr ''s''" and v = empty_vault and fresh' = "[]"]
  by (simp add: key_kept_def empty_vault_def)

text \<open>
  A secret that was once written to the file tier comes back when a later native entry is lost: storing
  natively does not remove the old file, and the forgiving reader falls through to it. The strict reader
  reports the loss.
\<close>

lemma stale_file_secret_comes_back:
  assumes "tbl_get (vault_index v) ref = Some name" and "map_of (ve_backends env) name = Some b"
    and "name \<noteq> []" and "name \<noteq> FILE_TIER" and "be_get b (native v) ref = Inr JNull"
  shows "fst (vaultGet env fresh ref v) = fst (fileGet env fresh ref v)"
    and "fst (vaultGetStrict env fresh ref v) = Inl (Secret_gone ref name)"
proof -
  have "native_tier env v ref = Some b" using assms by (simp add: native_tier_def loadIndex_def)
  then show "fst (vaultGet env fresh ref v) = fst (fileGet env fresh ref v)" using assms(5) by (simp add: vaultGet_value)
  show "fst (vaultGetStrict env fresh ref v) = Inl (Secret_gone ref name)"
    using assms by (simp add: vaultGetStrict_def loadIndex_def)
qed

end
