(* ===== verification/Credentials.thy ===== *)
theory Credentials
  imports Vault
begin

text \<open>
  \<^verbatim>\<open>hub/credential-provider.mjs\<close>: the only place where a connector call turns an opaque vault
  reference into a header that carries the secret. Headers are an object of name and value; reading the
  vault is the parameter \<open>get\<close>, which is \<open>vaultGet\<close> on the vault of the moment.
\<close>

subsection \<open>Base64 of the UTF-8 bytes of a string\<close>

definition utf8_bytes :: "string \<Rightarrow> nat list" where
  \<comment> \<open>the code units of the model are below 256\<close>
  "utf8_bytes s = concat (map (\<lambda>c. let n = of_char c :: nat in if n < 128 then [n] else [192 + n div 64, 128 + n mod 64]) s)"

definition base64_char :: "nat \<Rightarrow> char" where
  "base64_char n = ''ABCDEFGHIJKLMNOPQRSTUVWXYZabcdefghijklmnopqrstuvwxyz0123456789+/'' ! n"

fun base64 :: "nat list \<Rightarrow> string" where
  "base64 [] = []"
| "base64 [a] = [base64_char (a div 4), base64_char (a mod 4 * 16), CHR ''='', CHR ''='']"
| "base64 [a, b] = [base64_char (a div 4), base64_char (a mod 4 * 16 + b div 16), base64_char (b mod 16 * 4), CHR ''='']"
| "base64 (a # b # c # r) =
     base64_char (a div 4) # base64_char (a mod 4 * 16 + b div 16) # base64_char (b mod 16 * 4 + c div 64)
     # base64_char (c mod 64) # base64 r"

lemma base64_sample: "base64 (utf8_bytes ''user:pass'') = ''dXNlcjpwYXNz''"
  by code_simp

subsection \<open>Attaching a credential\<close>

record credential =
  cd_ref :: string
  cd_scheme :: "string option"
  cd_field :: "string option"
  cd_header :: "string option"

datatype credential_error =
    No_ref
  | Vault_failed vault_error
  | No_secret string
  | Unusable_value string string
  | Unknown_scheme string

type_synonym headers = "(string \<times> json) list"

definition secret_member :: "json \<Rightarrow> string list \<Rightarrow> json" where
  \<comment> \<open>\<open>secret.a ?? secret.b ?? secret\<close>\<close>
  "secret_member secret ks =
     (case find (\<lambda>k. \<not> js_nullish (js_index secret k)) ks of Some k \<Rightarrow> the (js_index secret k) | None \<Rightarrow> secret)"

definition credential_value :: "credential \<Rightarrow> json \<Rightarrow> string list \<Rightarrow> json option" where
  "credential_value cd secret ks =
     (case cd_field cd of
        Some (c # f) \<Rightarrow> js_index secret (c # f)
      | _ \<Rightarrow> Some (secret_member secret ks))"

definition attachCredential ::
  "(string \<Rightarrow> vault_error + json) \<Rightarrow> headers \<Rightarrow> credential \<Rightarrow> credential_error + headers" where
  "attachCredential get hdrs cd =
     (if cd_ref cd = [] then Inl No_ref
      else case get (cd_ref cd) of
        Inl e \<Rightarrow> Inl (Vault_failed e)
      | Inr secret \<Rightarrow>
          if secret = JNull then Inl (No_secret (cd_ref cd))
          else
            let scheme = (case cd_scheme cd of None \<Rightarrow> ''bearer'' | Some s \<Rightarrow> s)
            in if scheme = ''bearer'' then
                 (let value = credential_value cd secret [''access_token'', ''token'']
                  in if \<not> js_truthy value then Inl (Unusable_value (cd_ref cd) scheme)
                     else Inr (jspread hdrs [(''Authorization'', JStr (''Bearer '' @ js_template value))]))
               else if scheme = ''basic'' then
                 (let user = (case js_index secret ''username'' of None \<Rightarrow> JStr [] | Some u \<Rightarrow> if u = JNull then JStr [] else u);
                      pass = credential_value cd secret [''password'']
                  in if \<not> js_truthy pass then Inl (Unusable_value (cd_ref cd) scheme)
                     else Inr (jspread hdrs [(''Authorization'',
                            JStr (''Basic '' @ base64 (utf8_bytes (js_string user @ '':'' @ js_template pass))))]))
               else if scheme = ''api-key-header'' then
                 (let value = credential_value cd secret [''api_key'']
                  in if \<not> js_truthy value then Inl (Unusable_value (cd_ref cd) scheme)
                     else Inr (jspread hdrs [(case cd_header cd of None \<Rightarrow> ''X-Api-Key'' | Some h \<Rightarrow> h, the value)]))
               else Inl (Unknown_scheme scheme))"

definition credentialExists :: "(string \<Rightarrow> vault_error + json) \<Rightarrow> string \<Rightarrow> credential_error + bool" where
  "credentialExists get ref =
     (if ref = [] then Inr False
      else case get ref of Inl e \<Rightarrow> Inl (Vault_failed e) | Inr secret \<Rightarrow> Inr (secret \<noteq> JNull))"

lemma attached_names:
  assumes "attachCredential get hdrs cd = Inr hdrs'"
  shows "fst ` set hdrs \<subseteq> fst ` set hdrs'"
  using assms unfolding attachCredential_def
  by (auto simp: Let_def jspread_def dom_map_of_conv_image_fst [symmetric] update_conv split: if_splits sum.splits)

lemma attached_credential_exists: "attachCredential get hdrs cd = Inr hdrs' \<Longrightarrow> credentialExists get (cd_ref cd) = Inr True"
  by (auto simp: attachCredential_def credentialExists_def split: if_splits sum.splits)

end
