(* ===== verification/Run_Plan.thy ===== *)
theory Run_Plan
  imports Journal Js_Values
begin

text \<open>
  The planning half of \<^verbatim>\<open>hub/run.mjs\<close>: from a workflow manifest to the ordered list of steps that a
  run executes. A manifest is an unchecked JSON value, so every member access of the code is one here.
  The lemmas about \<open>orderStepsByEdges\<close> show that it is a stable topological sort.
\<close>

datatype run_error =
    RTypeError
  | RNotIJson ijson_error
  | BindingsNotArray
  | DuplicateBindingStep string
  | UnknownConnector string string
  | UnknownFeedsNode string string
  | ParamNotAccepted string string string
  | ConflictingParams string
  | BindingCycle "string list"
  | UnresolvedBinding string string string
  | StepTampered string string
  | IllegalTransition
  | SeqDrifted nat nat
  | UnknownRun string
  | MissingMemo string string
  | NoRunnerFor string string
  | RunnerFailed string
  | JournalFailed journal_error

subsection \<open>Steps\<close>

record binding =
  bi_step_id :: "json option"
  bi_connector_id :: "json option"
  bi_feeds_param :: "json option"
  bi_from_step_id :: string

record step =
  st_id :: string
  st_kind :: string
  st_item :: json
  st_digest :: json
  st_seq :: nat
  st_bindings :: "binding list option"
  st_params :: "json option"
  st_resolved :: "json option"

definition STEP_LAYERS :: "(string \<times> string) list" where
  "STEP_LAYERS = [(''connectors'', ''connector_id''), (''attested_artifacts'', ''artifact_id''),
                  (''nodes'', ''node_id''), (''gates'', ''gate_id''), (''actions'', ''action_id'')]"

definition CONNECTOR_STEP :: "json option \<Rightarrow> string" where
  "CONNECTOR_STEP connectorId = ''connectors:'' @ js_template connectorId"

definition NODE_STEP :: "json option \<Rightarrow> string" where
  "NODE_STEP nodeId = ''nodes:'' @ js_template nodeId"

definition or_empty_obj :: "json option \<Rightarrow> json" where
  "or_empty_obj v = (if js_nullish v then JObj [] else the v)"

definition run_digest :: "(string \<Rightarrow> string) \<Rightarrow> json \<Rightarrow> run_error + string" where
  \<comment> \<open>\<open>jcsDigestHex\<close> with its exception as a run error\<close>
  "run_digest sha v = (case jcsDigestHex sha v of Inl e \<Rightarrow> Inl (RNotIJson e) | Inr d \<Rightarrow> Inr d)"

definition manifestDigest :: "(string \<Rightarrow> string) \<Rightarrow> json \<Rightarrow> run_error + string" where
  "manifestDigest sha manifest = and_then (run_digest sha manifest) (\<lambda>d. Inr (sha256ref d))"

definition content_digest :: "(string \<Rightarrow> string) \<Rightarrow> string \<Rightarrow> json \<Rightarrow> run_error + json" where
  "content_digest sha key item =
     (let kd = jget item ''kernel_digest''
      in if key = ''nodes'' \<and> js_truthy kd
         then and_then (run_digest sha (JObj [(''kernel_digest'', the kd),
                (''policy_parameters'', or_empty_obj (jget item ''policy_parameters''))])) (\<lambda>d. Inr (JStr d))
         else if \<not> js_nullish kd then Inr (the kd)
         else and_then (run_digest sha item) (\<lambda>d. Inr (JStr d)))"

definition plan_item :: "(string \<Rightarrow> string) \<Rightarrow> string \<Rightarrow> string \<Rightarrow> json \<Rightarrow> run_error + step" where
  "plan_item sha key idField item =
     and_then (jprop RTypeError item idField) (\<lambda>ident.
       and_then (content_digest sha key item) (\<lambda>cd.
         Inr \<lparr>st_id = key @ '':'' @ js_template ident, st_kind = key, st_item = item, st_digest = cd,
              st_seq = 0, st_bindings = None, st_params = None, st_resolved = None\<rparr>))"

fun plan_layers :: "(string \<Rightarrow> string) \<Rightarrow> json \<Rightarrow> (string \<times> string) list \<Rightarrow> run_error + step list" where
  "plan_layers sha manifest [] = Inr []"
| "plan_layers sha manifest ((key, idField) # layers) =
     and_then (jprop RTypeError manifest key) (\<lambda>v.
       and_then (js_iter RTypeError v) (\<lambda>items.
         and_then (map_err (plan_item sha key idField) items) (\<lambda>ss.
           and_then (plan_layers sha manifest layers) (\<lambda>rest. Inr (ss @ rest)))))"

definition base_steps :: "(string \<Rightarrow> string) \<Rightarrow> json \<Rightarrow> run_error + step list" where
  \<comment> \<open>the layers in order, each step numbered by its place\<close>
  "base_steps sha manifest =
     and_then (plan_layers sha manifest STEP_LAYERS)
       (\<lambda>ss. Inr (map (\<lambda>(i, s). s\<lparr>st_seq := i\<rparr>) (List.enumerate 0 ss)))"

subsection \<open>Topological order\<close>

definition step_index :: "step list \<Rightarrow> string \<Rightarrow> nat option" where
  \<comment> \<open>\<open>new Map(steps.map((s, i) => [s.step_id, i]))\<close>: the last index wins\<close>
  "step_index steps sid = map_of (rev (zip (map st_id steps) [0..<length steps])) sid"

fun add_edges :: "step list \<Rightarrow> (string \<times> string) list \<Rightarrow> nat list list \<times> int list \<Rightarrow> nat list list \<times> int list" where
  "add_edges steps [] g = g"
| "add_edges steps ((src, dst) # es) (adj, indeg) =
     (case (step_index steps src, step_index steps dst) of
        (Some f, Some t) \<Rightarrow>
          if t \<in> set (adj ! f) then add_edges steps es (adj, indeg)
          else add_edges steps es (adj[f := adj ! f @ [t]], indeg[t := indeg ! t + 1])
      | _ \<Rightarrow> add_edges steps es (adj, indeg))"

fun relax :: "nat list \<Rightarrow> nat list \<Rightarrow> int list \<Rightarrow> nat list \<times> int list" where
  "relax [] ready indeg = (ready, indeg)"
| "relax (t # ts) ready indeg =
     (if t < length indeg
      then let d = indeg ! t - 1
           in relax ts (if d = 0 then ready @ [t] else ready) (indeg[t := d])
      else relax ts ready indeg)"

definition pending :: "int list \<Rightarrow> nat" where
  "pending indeg = length (filter (\<lambda>d. 0 < d) indeg)"

lemma pending_update:
  "t < length d \<Longrightarrow> pending (d[t := x]) + (if 0 < d ! t then 1 else 0) = pending d + (if 0 < x then 1 else 0)"
proof (induction d arbitrary: t)
  case (Cons y d)
  then show ?case by (cases t) (auto simp: pending_def)
qed simp

lemma relax_measure: "relax ts ready d = (ready', d') \<Longrightarrow> length ready' + pending d' = length ready + pending d"
proof (induction ts arbitrary: ready d)
  case (Cons t ts)
  show ?case
  proof (cases "t < length d")
    case True
    from Cons.IH Cons.prems True
    have "length ready' + pending d'
        = length (if d ! t - 1 = 0 then ready @ [t] else ready) + pending (d[t := d ! t - 1])"
      by (simp add: Let_def)
    with pending_update [OF True, of "d ! t - 1"] show ?thesis by (auto split: if_splits)
  qed (use Cons in simp)
qed simp

function kahn :: "nat list list \<Rightarrow> nat list \<Rightarrow> int list \<Rightarrow> nat list \<Rightarrow> nat list \<times> int list" where
  "kahn adj ready indeg ordered =
     (case sort ready of
        [] \<Rightarrow> (ordered, indeg)
      | i # rest \<Rightarrow>
          let (ready', indeg') = relax (if i < length adj then adj ! i else []) rest indeg
          in kahn adj ready' indeg' (ordered @ [i]))"
  by pat_completeness auto
termination
proof (relation "measure (\<lambda>(adj, ready, indeg, ordered). length ready + pending indeg)", goal_cases)
  case (2 adj ready indeg ordered i rest p ready' indeg')
  then have "length ready' + pending indeg' = length rest + pending indeg"
    using relax_measure by (metis prod.collapse)
  moreover have "length ready = Suc (length rest)" using 2(1) by (metis length_sort length_Cons)
  ultimately show ?case by simp
qed simp

declare kahn.simps [simp del]

definition orderStepsByEdges :: "step list \<Rightarrow> (string \<times> string) list \<Rightarrow> run_error + step list" where
  "orderStepsByEdges steps edges =
     (if edges = [] then Inr steps
      else
        let n = length steps;
            (adj, indeg) = add_edges steps edges (replicate n [], replicate n 0);
            ready = filter (\<lambda>i. indeg ! i = 0) [0..<n];
            (ordered, indeg') = kahn adj ready indeg []
        in if length ordered \<noteq> n
           then Inl (BindingCycle (map (\<lambda>i. st_id (steps ! i)) (filter (\<lambda>i. 0 < indeg' ! i) [0..<n])))
           else Inr (map (\<lambda>i. steps ! i) ordered))"

subsection \<open>Bindings\<close>

definition array_member :: "json \<Rightarrow> string \<Rightarrow> run_error + json list" where
  \<comment> \<open>\<open>(manifest.k ?? [])\<close> where an array method is called on it\<close>
  "array_member manifest k =
     and_then (jprop RTypeError manifest k) (\<lambda>v.
       case v of None \<Rightarrow> Inr [] | Some JNull \<Rightarrow> Inr [] | Some (JArr xs) \<Rightarrow> Inr xs | _ \<Rightarrow> Inl RTypeError)"

definition iterable_member :: "json \<Rightarrow> string \<Rightarrow> run_error + json list" where
  "iterable_member manifest k = and_then (jprop RTypeError manifest k) (js_iter RTypeError)"

fun required_params :: "json option \<Rightarrow> json list \<Rightarrow> run_error + json option list" where
  "required_params nodeId [] = Inr []"
| "required_params nodeId (req # reqs) =
     and_then (jprop RTypeError req ''target_node_id'') (\<lambda>t.
       and_then (required_params nodeId reqs) (\<lambda>rest.
         Inr (if js_same t nodeId then jget req ''target_param'' # rest else rest)))"

definition acceptedParams :: "json \<Rightarrow> json option \<Rightarrow> run_error + json option list option" where
  "acceptedParams manifest nodeId =
     and_then (array_member manifest ''nodes'') (\<lambda>nodes.
       and_then (find_err (\<lambda>n. and_then (jprop RTypeError n ''node_id'') (\<lambda>i. Inr (js_same i nodeId))) nodes)
         (\<lambda>node. case node of
            None \<Rightarrow> Inr None
          | Some n \<Rightarrow>
              and_then (iterable_member manifest ''required_inputs'') (\<lambda>reqs.
                and_then (required_params nodeId reqs) (\<lambda>more.
                  Inr (Some (map (\<lambda>k. Some (JStr k)) (js_keys (jget n ''policy_parameters'')) @ more))))))"

fun collect_params :: "json list \<Rightarrow> (json option \<times> json) list \<Rightarrow> run_error + (json option \<times> json) list" where
  "collect_params [] acc = Inr acc"
| "collect_params (b # bs) acc =
     (case jget b ''params'' of
        None \<Rightarrow> collect_params bs acc
      | Some p \<Rightarrow>
          let c = jget b ''connector_id'';
              existing = map_option snd (find (\<lambda>(k, _). js_same k c) acc)
          in case existing of
               Some q \<Rightarrow>
                 if json_stringify q \<noteq> json_stringify p then Inl (ConflictingParams (js_template c))
                 else collect_params bs (map (\<lambda>(k, v). (k, if js_same k c then p else v)) acc)
             | None \<Rightarrow> collect_params bs (acc @ [(c, p)]))"

definition step_binding :: "json \<Rightarrow> binding" where
  "step_binding b = \<lparr>bi_step_id = jget b ''step_id'', bi_connector_id = jget b ''connector_id'',
     bi_feeds_param = jget b ''feeds_param'', bi_from_step_id = CONNECTOR_STEP (jget b ''connector_id'')\<rparr>"

definition attach_bindings :: "json list \<Rightarrow> step \<Rightarrow> step" where
  "attach_bindings bs s =
     (let key = (if st_kind s = ''nodes'' then jget (st_item s) ''node_id'' else Some JNull);
          bound = filter (\<lambda>b. js_same (jget b ''feeds_node_id'') key) bs
      in if bound = [] then s else s\<lparr>st_bindings := Some (map step_binding bound)\<rparr>)"

definition attach_params :: "(json option \<times> json) list \<Rightarrow> step \<Rightarrow> step" where
  "attach_params ps s =
     (case (if st_kind s = ''connectors''
            then find (\<lambda>(k, _). js_same k (jget (st_item s) ''connector_id'')) ps else None) of
        Some (_, p) \<Rightarrow> s\<lparr>st_params := Some p\<rparr>
      | None \<Rightarrow> s)"

definition binding_edges :: "json list \<Rightarrow> (string \<times> string) list" where
  "binding_edges bs = map (\<lambda>b. (CONNECTOR_STEP (jget b ''connector_id''), NODE_STEP (jget b ''feeds_node_id''))) bs"

definition planSteps :: "(string \<Rightarrow> string) \<Rightarrow> json \<Rightarrow> run_error + step list" where
  "planSteps sha manifest =
     and_then (base_steps sha manifest) (\<lambda>steps.
       and_then (jprop RTypeError manifest ''connector_inputs'') (\<lambda>bindings.
         case bindings of
           None \<Rightarrow> Inr steps
         | Some JNull \<Rightarrow> Inl RTypeError
         | Some v \<Rightarrow>
             and_then (js_iter RTypeError (Some v)) (\<lambda>bs.
               if JNull \<in> set bs then Inl RTypeError
               else
                 and_then (collect_params bs []) (\<lambda>ps.
                   orderStepsByEdges (map (\<lambda>s. attach_params ps (attach_bindings bs s)) steps)
                     (binding_edges bs)))))"

definition binding_where :: "json \<Rightarrow> string" where
  "binding_where b =
     (let sid = jget b ''step_id'' in if js_nullish sid then ''(unnamed)'' else js_template sid)"

fun check_bindings :: "json \<Rightarrow> json option list \<Rightarrow> json option list \<Rightarrow> json list \<Rightarrow> run_error + unit" where
  "check_bindings manifest connectorIds seen [] = Inr ()"
| "check_bindings manifest connectorIds seen (b # bs) =
     and_then (jprop RTypeError b ''step_id'') (\<lambda>sid.
       if set_has seen sid then Inl (DuplicateBindingStep (binding_where b))
       else if \<not> set_has connectorIds (jget b ''connector_id'')
         then Inl (UnknownConnector (binding_where b) (js_template (jget b ''connector_id'')))
       else
         and_then (acceptedParams manifest (jget b ''feeds_node_id'')) (\<lambda>accepted.
           case accepted of
             None \<Rightarrow> Inl (UnknownFeedsNode (binding_where b) (js_template (jget b ''feeds_node_id'')))
           | Some ps \<Rightarrow>
               if ps \<noteq> [] \<and> \<not> set_has ps (jget b ''feeds_param'')
               then Inl (ParamNotAccepted (binding_where b) (js_template (jget b ''feeds_param''))
                           (js_template (jget b ''feeds_node_id'')))
               else check_bindings manifest connectorIds (sid # seen) bs))"

definition validateManifestBindings :: "(string \<Rightarrow> string) \<Rightarrow> json \<Rightarrow> run_error + unit" where
  "validateManifestBindings sha manifest =
     and_then (jprop RTypeError manifest ''connector_inputs'') (\<lambda>bindings.
       case bindings of
         None \<Rightarrow> Inr ()
       | Some (JArr bs) \<Rightarrow>
           and_then (array_member manifest ''connectors'') (\<lambda>cs.
             and_then (map_err (\<lambda>c. jprop RTypeError c ''connector_id'') cs) (\<lambda>connectorIds.
               and_then (check_bindings manifest connectorIds [] bs) (\<lambda>_.
                 and_then (planSteps sha manifest) (\<lambda>_. Inr ()))))
       | Some _ \<Rightarrow> Inl BindingsNotArray)"

subsection \<open>The order is a stable topological sort\<close>

definition graph_wf :: "nat \<Rightarrow> nat list list \<Rightarrow> bool" where
  "graph_wf n adj \<longleftrightarrow> length adj = n \<and> (\<forall>f < n. distinct (adj ! f) \<and> set (adj ! f) \<subseteq> {..<n})"

definition preds :: "nat list list \<Rightarrow> nat set \<Rightarrow> nat \<Rightarrow> nat set" where
  \<comment> \<open>the predecessors of \<open>t\<close> outside a set of finished steps\<close>
  "preds adj D t = {f. f < length adj \<and> t \<in> set (adj ! f) \<and> f \<notin> D}"

definition before :: "'a list \<Rightarrow> 'a \<Rightarrow> 'a \<Rightarrow> bool" where
  "before xs a b \<longleftrightarrow> (\<exists>us vs. xs = us @ b # vs \<and> a \<in> set us)"

definition kahn_inv :: "nat list list \<Rightarrow> nat list \<Rightarrow> int list \<Rightarrow> nat list \<Rightarrow> bool" where
  "kahn_inv adj ready indeg ordered \<longleftrightarrow>
     distinct (ordered @ ready) \<and> set (ordered @ ready) \<subseteq> {..<length adj} \<and> length indeg = length adj
     \<and> (\<forall>t < length adj. indeg ! t = int (card (preds adj (set ordered) t)))
     \<and> (\<forall>t < length adj. t \<in> set (ordered @ ready) \<longleftrightarrow> indeg ! t = 0)
     \<and> (\<forall>f < length adj. \<forall>t \<in> set (adj ! f). t \<in> set ordered \<longrightarrow> before ordered f t)"

lemma finite_preds [simp]: "finite (preds adj D t)"
  by (simp add: preds_def)

lemma before_snoc: "before xs a b \<Longrightarrow> before (xs @ [c]) a b" "a \<in> set xs \<Longrightarrow> before (xs @ [c]) a c"
  by (fastforce simp: before_def)+

lemma before_map: "before xs a b \<Longrightarrow> before (map f xs) (f a) (f b)"
  by (fastforce simp: before_def)

lemma relax_eq:
  assumes "distinct ts" and "set ts \<subseteq> {..<length d}"
  shows "\<exists>d'. relax ts r d = (r @ filter (\<lambda>t. d ! t = 1) ts, d') \<and> length d' = length d
    \<and> (\<forall>t < length d. d' ! t = d ! t - (if t \<in> set ts then 1 else 0))"
  using assms
proof (induction ts arbitrary: r d)
  case (Cons t ts)
  let ?d = "d[t := d ! t - 1]" and ?r = "if d ! t - 1 = 0 then r @ [t] else r"
  have t: "t < length d" and ts: "distinct ts" "set ts \<subseteq> {..<length ?d}" "t \<notin> set ts" using Cons.prems by auto
  obtain d' where d': "relax ts ?r ?d = (?r @ filter (\<lambda>u. ?d ! u = 1) ts, d')" "length d' = length ?d"
    "\<forall>u < length ?d. d' ! u = ?d ! u - (if u \<in> set ts then 1 else 0)"
    using Cons.IH [OF ts(1,2)] by blast
  have "filter (\<lambda>u. ?d ! u = 1) ts = filter (\<lambda>u. d ! u = 1) ts"
    using ts(3) by (intro filter_cong refl) (metis nth_list_update_neq)
  then have "relax (t # ts) r d = (r @ filter (\<lambda>u. d ! u = 1) (t # ts), d')"
    using d'(1) t by (simp add: Let_def)
  moreover have "\<forall>u < length d. d' ! u = d ! u - (if u \<in> set (t # ts) then 1 else 0)"
    using d'(3) t ts(3) by (auto simp: nth_list_update)
  ultimately show ?case using d'(2) by simp
qed simp

lemma kahn_inv_step:
  assumes inv: "kahn_inv adj ready d ordered" and wf: "graph_wf (length adj) adj"
    and i: "sort ready = i # rest" and rx: "relax (adj ! i) rest d = (ready', d')"
  shows "kahn_inv adj ready' d' (ordered @ [i])"
proof -
  have perm: "set ready = insert i (set rest)" "distinct ready \<Longrightarrow> distinct (i # rest)"
    using i by (metis set_sort list.set(2), metis distinct_sort)
  have dist: "distinct (ordered @ i # rest)" and sub: "set (ordered @ i # rest) \<subseteq> {..<length adj}"
    and len: "length d = length adj" using inv perm by (auto simp: kahn_inv_def)
  have i_lt: "i < length adj" using sub by simp
  have ind: "t < length adj \<Longrightarrow> d ! t = int (card (preds adj (set ordered) t))"
    and zero: "t < length adj \<Longrightarrow> t \<in> set ordered \<or> t = i \<or> t \<in> set rest \<longleftrightarrow> d ! t = 0" for t
    using inv perm(1) by (auto simp: kahn_inv_def)
  have ts: "distinct (adj ! i)" "set (adj ! i) \<subseteq> {..<length d}" using wf i_lt len by (auto simp: graph_wf_def)
  obtain e where e: "relax (adj ! i) rest d = (rest @ filter (\<lambda>t. d ! t = 1) (adj ! i), e)" "length e = length d"
    "\<forall>t < length d. e ! t = d ! t - (if t \<in> set (adj ! i) then 1 else 0)"
    using relax_eq [OF ts] by blast
  then have r': "ready' = rest @ filter (\<lambda>t. d ! t = 1) (adj ! i)" and ld': "length d' = length adj"
    and d': "t < length adj \<Longrightarrow> d' ! t = d ! t - (if t \<in> set (adj ! i) then 1 else 0)" for t
    using rx len by simp_all
  have mem_i: "t \<in> set (adj ! i) \<Longrightarrow> i \<in> preds adj (set ordered) t" for t
    using dist i_lt by (simp add: preds_def)
  have pr: "preds adj (insert i (set ordered)) t = preds adj (set ordered) t - {i}" for t by (auto simp: preds_def)
  have ind': "d' ! t = int (card (preds adj (set (ordered @ [i])) t))" if "t < length adj" for t
  proof (cases "t \<in> set (adj ! i)")
    case True
    with mem_i have "0 < card (preds adj (set ordered) t)" by (metis card_gt_0_iff empty_iff finite_preds)
    with True that show ?thesis using mem_i [OF True] by (simp add: d' ind pr card_Diff_singleton)
  next
    case False
    then have "i \<notin> preds adj (set ordered) t" by (simp add: preds_def)
    then show ?thesis using False that by (simp add: d' ind pr)
  qed
  have pos: "t \<in> set (adj ! i) \<Longrightarrow> t < length adj \<Longrightarrow> d ! t \<ge> 1" for t
    using mem_i [of t] by (simp add: ind) (metis One_nat_def Suc_leI card_gt_0_iff empty_iff finite_preds of_nat_1 of_nat_le_iff)
  have fresh: "t \<in> set (adj ! i) \<Longrightarrow> t \<notin> set ordered \<and> t \<noteq> i \<and> t \<notin> set rest" for t
    using pos [of t] zero [of t] ts(2) len by fastforce
  show ?thesis
    unfolding kahn_inv_def
  proof (intro conjI allI impI ballI)
    show "distinct ((ordered @ [i]) @ ready')" using dist fresh ts(1) by (auto simp: r')
    show "set ((ordered @ [i]) @ ready') \<subseteq> {..<length adj}" using sub ts(2) len by (auto simp: r')
    show "length d' = length adj" by (rule ld')
    show "d' ! t = int (card (preds adj (set (ordered @ [i])) t))" if "t < length adj" for t
      by (rule ind' [OF that])
    show "(t \<in> set ((ordered @ [i]) @ ready')) = (d' ! t = 0)" if "t < length adj" for t
      using zero [OF that] fresh [of t] by (auto simp: r' d' [OF that])
    fix f t assume ft: "f < length adj" "t \<in> set (adj ! f)" "t \<in> set (ordered @ [i])"
    show "before (ordered @ [i]) f t"
    proof (cases "t \<in> set ordered")
      case True
      with ft inv show ?thesis by (auto simp: kahn_inv_def intro: before_snoc)
    next
      case False
      with ft have t: "t = i" by simp
      have "card (preds adj (set ordered) i) = 0" using zero [OF i_lt] ind [OF i_lt] by simp
      then have "f \<in> set ordered" using ft t by (auto simp: preds_def)
      with t show ?thesis by (simp add: before_snoc)
    qed
  qed
qed

lemma kahn_result:
  assumes "kahn_inv adj ready d ordered" and "graph_wf (length adj) adj"
    and "kahn adj ready d ordered = (res, d')"
  shows "kahn_inv adj [] d' res"
  using assms
proof (induction adj ready d ordered rule: kahn.induct)
  case (1 adj ready d ordered)
  show ?case
  proof (cases "sort ready")
    case Nil
    then have "ready = []" by (metis length_sort length_0_conv)
    with Nil "1.prems" show ?thesis by (simp add: kahn.simps)
  next
    case (Cons i rest)
    obtain ready' e where rx: "relax (adj ! i) rest d = (ready', e)" by fastforce
    have i: "i < length adj" using Cons "1.prems"(1) by (metis (no_types, lifting) kahn_inv_def Un_iff lessThan_iff
        list.set_intros(1) set_append set_sort subset_iff)
    have inv: "kahn_inv adj ready' e (ordered @ [i])" by (rule kahn_inv_step [OF "1.prems"(1,2) Cons rx])
    have "kahn adj ready d ordered = kahn adj ready' e (ordered @ [i])"
      by (subst kahn.simps) (simp add: Cons i rx)
    then have "kahn adj ready' e (ordered @ [i]) = (res, d')" using "1.prems"(3) by simp
    moreover have "(ready', e) = relax (if i < length adj then adj ! i else []) rest d" using rx i by simp
    ultimately show ?thesis using "1.IH" [OF Cons HOL.refl _ inv "1.prems"(2)] by blast
  qed
qed

subsubsection \<open>Building the graph\<close>

definition edge_indices :: "step list \<Rightarrow> (string \<times> string) list \<Rightarrow> (nat \<times> nat) set" where
  "edge_indices steps es =
     {(f, t). \<exists>(a, b) \<in> set es. step_index steps a = Some f \<and> step_index steps b = Some t}"

definition built_from :: "nat \<Rightarrow> (nat \<times> nat) set \<Rightarrow> nat list list \<times> int list \<Rightarrow> bool" where
  "built_from n E g \<longleftrightarrow> graph_wf n (fst g) \<and> length (snd g) = n
     \<and> (\<forall>f < n. set (fst g ! f) = {t. (f, t) \<in> E})
     \<and> (\<forall>t < n. snd g ! t = int (card (preds (fst g) {} t)))"

lemma step_index_lt: "step_index steps s = Some i \<Longrightarrow> i < length steps \<and> st_id (steps ! i) = s"
  unfolding step_index_def by (drule map_of_SomeD) (auto simp: in_set_zip)

lemma step_index_distinct:
  "distinct (map st_id steps) \<Longrightarrow> i < length steps \<Longrightarrow> step_index steps (st_id (steps ! i)) = Some i"
proof -
  assume d: "distinct (map st_id steps)" and i: "i < length steps"
  let ?z = "zip (map st_id steps) [0..<length steps]"
  have "map fst ?z = map st_id steps" by simp
  then have "distinct (map fst (rev ?z))" using d by (simp flip: rev_map)
  moreover have "(st_id (steps ! i), i) \<in> set (rev ?z)" using i by (force simp: in_set_zip)
  ultimately show ?thesis unfolding step_index_def by (rule map_of_is_SomeI)
qed

lemma built_from_add:
  assumes b: "built_from n E (adj, d)" and ft: "f < n" "t < n" and new: "t \<notin> set (adj ! f)"
  shows "built_from n (insert (f, t) E) (adj[f := adj ! f @ [t]], d[t := d ! t + 1])"
proof -
  let ?adj = "adj[f := adj ! f @ [t]]"
  have len: "length adj = n" "length d = n" and wf: "\<And>g. g < n \<Longrightarrow> distinct (adj ! g) \<and> set (adj ! g) \<subseteq> {..<n}"
    and adj: "\<And>g. g < n \<Longrightarrow> set (adj ! g) = {u. (g, u) \<in> E}"
    and ind: "\<And>u. u < n \<Longrightarrow> d ! u = int (card (preds adj {} u))"
    using b by (auto simp: built_from_def graph_wf_def)
  have p: "preds ?adj {} u = (if u = t then insert f (preds adj {} t) else preds adj {} u)" for u
    using ft len new by (auto simp: preds_def nth_list_update split: if_splits)
  have "f \<notin> preds adj {} t" using new by (simp add: preds_def)
  then have "d[t := d ! t + 1] ! u = int (card (preds ?adj {} u))" if "u < n" for u
    using that ft len ind by (auto simp: p nth_list_update)
  moreover have "g < n \<Longrightarrow> set (?adj ! g) = {u. (g, u) \<in> insert (f, t) E}" for g
    using ft len adj by (auto simp: nth_list_update)
  moreover have "g < n \<Longrightarrow> distinct (?adj ! g) \<and> set (?adj ! g) \<subseteq> {..<n}" for g
    using ft len wf [of g] wf [of f] new by (auto simp: nth_list_update)
  ultimately show ?thesis by (simp add: built_from_def graph_wf_def len)
qed

lemma add_edges_built:
  assumes "built_from (length steps) E g"
  shows "built_from (length steps) (E \<union> edge_indices steps es) (add_edges steps es g)"
  using assms
proof (induction es arbitrary: E g)
  case Nil
  then show ?case by (simp add: edge_indices_def)
next
  case (Cons e es)
  obtain src dst where e: "e = (src, dst)" by (cases e)
  obtain adj d where g: "g = (adj, d)" by (cases g)
  have b: "built_from (length steps) E (adj, d)" using Cons.prems g by simp
  show ?case
  proof (cases "step_index steps src = None \<or> step_index steps dst = None")
    case True
    then have "edge_indices steps ((src, dst) # es) = edge_indices steps es" by (auto simp: edge_indices_def)
    moreover have "add_edges steps ((src, dst) # es) (adj, d) = add_edges steps es (adj, d)"
      using True by (auto split: option.split)
    ultimately show ?thesis using Cons.IH [OF b] by (simp only: e g)
  next
    case False
    then obtain f t where ft: "step_index steps src = Some f" "step_index steps dst = Some t" by auto
    then have lt: "f < length steps" "t < length steps" using step_index_lt by blast+
    have E: "edge_indices steps ((src, dst) # es) = insert (f, t) (edge_indices steps es)"
      using ft by (auto simp: edge_indices_def)
    show ?thesis
    proof (cases "t \<in> set (adj ! f)")
      case True
      then have "(f, t) \<in> E" using b lt by (auto simp: built_from_def)
      then have "E \<union> edge_indices steps ((src, dst) # es) = E \<union> edge_indices steps es" by (auto simp: E)
      then show ?thesis using Cons.IH [OF b] ft True by (simp add: e g)
    next
      case False
      from Cons.IH [OF built_from_add [OF b lt False]] show ?thesis
        using ft False by (simp add: E e g)
    qed
  qed
qed

lemma start_built: "built_from n {} (replicate n [], replicate n 0)"
  by (simp add: built_from_def graph_wf_def preds_def)

lemma kahn_inv_start:
  assumes "built_from n E (adj, d)"
  shows "kahn_inv adj (filter (\<lambda>i. d ! i = 0) [0..<n]) d []"
  using assms by (auto simp: kahn_inv_def built_from_def graph_wf_def)

subsubsection \<open>Correctness\<close>

lemma order_run:
  assumes "edges \<noteq> []"
  obtains adj d ordered d' where "built_from (length steps) (edge_indices steps edges) (adj, d)"
    "kahn adj (filter (\<lambda>i. d ! i = 0) [0..<length steps]) d [] = (ordered, d')"
    "kahn_inv adj [] d' ordered"
    "orderStepsByEdges steps edges =
      (if length ordered \<noteq> length steps
       then Inl (BindingCycle (map (\<lambda>i. st_id (steps ! i)) (filter (\<lambda>i. 0 < d' ! i) [0..<length steps])))
       else Inr (map (\<lambda>i. steps ! i) ordered))"
proof -
  obtain adj d where g: "add_edges steps edges (replicate (length steps) [], replicate (length steps) 0) = (adj, d)"
    by fastforce
  have b: "built_from (length steps) (edge_indices steps edges) (adj, d)"
    using add_edges_built [OF start_built, of steps edges] g by simp
  obtain ordered d' where k: "kahn adj (filter (\<lambda>i. d ! i = 0) [0..<length steps]) d [] = (ordered, d')" by fastforce
  have wf: "graph_wf (length adj) adj" using b by (auto simp: built_from_def graph_wf_def)
  show ?thesis
    by (rule that [OF b k kahn_result [OF kahn_inv_start [OF b] wf k]])
      (simp add: orderStepsByEdges_def assms g k Let_def)
qed

lemma order_perm:
  assumes "orderStepsByEdges steps edges = Inr out"
  shows "mset out = mset steps"
proof (cases "edges = []")
  case False
  obtain adj d ordered d' where b: "built_from (length steps) (edge_indices steps edges) (adj, d)"
    and inv: "kahn_inv adj [] d' ordered" and len: "length ordered = length steps"
    and out: "out = map (\<lambda>i. steps ! i) ordered"
    using order_run [OF False, of steps] assms by (metis Inl_Inr_False sum.inject(2))
  have "length adj = length steps" using b by (simp add: built_from_def graph_wf_def)
  then have "distinct ordered" "set ordered \<subseteq> {..<length steps}" using inv by (auto simp: kahn_inv_def)
  moreover from this len have "set ordered = {..<length steps}"
    by (metis card_lessThan card_subset_eq distinct_card finite_lessThan)
  ultimately have "mset ordered = mset [0..<length steps]"
    by (metis atLeast_upt distinct_upt set_eq_iff_mset_eq_distinct)
  then have "mset (map (\<lambda>i. steps ! i) ordered) = mset (map (\<lambda>i. steps ! i) [0..<length steps])" by simp
  then show ?thesis by (simp add: out map_nth)
qed (use assms in \<open>simp add: orderStepsByEdges_def\<close>)

lemma order_respects_edges:
  assumes "orderStepsByEdges steps edges = Inr out" and "(a, b) \<in> set edges"
    and "step_index steps a = Some f" and "step_index steps b = Some t"
  shows "before out (steps ! f) (steps ! t)"
proof -
  have ne: "edges \<noteq> []" using assms(2) by auto
  obtain adj d ordered d' where b: "built_from (length steps) (edge_indices steps edges) (adj, d)"
    and inv: "kahn_inv adj [] d' ordered" and len: "length ordered = length steps"
    and out: "out = map (\<lambda>i. steps ! i) ordered"
    using order_run [OF ne, of steps] assms(1) by (metis Inl_Inr_False sum.inject(2))
  have n: "length adj = length steps" using b by (simp add: built_from_def graph_wf_def)
  have lt: "f < length steps" "t < length steps" using assms(3,4) step_index_lt by blast+
  have "(f, t) \<in> edge_indices steps edges" using assms by (auto simp: edge_indices_def)
  then have e: "t \<in> set (adj ! f)" using b lt by (auto simp: built_from_def)
  have "distinct ordered" "set ordered \<subseteq> {..<length steps}" using inv n by (auto simp: kahn_inv_def)
  then have "set ordered = {..<length steps}" using len
    by (metis card_lessThan card_subset_eq distinct_card finite_lessThan)
  then have "before ordered f t" using inv n lt e by (auto simp: kahn_inv_def)
  then show ?thesis unfolding out by (rule before_map)
qed

lemma finite_edge_indices: "edge_indices steps es \<subseteq> {..<length steps} \<times> {..<length steps}"
  using step_index_lt by (fastforce simp: edge_indices_def)

definition position :: "'a list \<Rightarrow> 'a \<Rightarrow> nat" where
  "position xs x = length (takeWhile (\<lambda>y. y \<noteq> x) xs)"

lemma before_position:
  assumes "before xs a b" and "distinct xs"
  shows "position xs a < position xs b"
proof -
  obtain us vs where xs: "xs = us @ b # vs" "a \<in> set us" using assms(1) by (auto simp: before_def)
  then have "b \<notin> set us" using assms(2) by auto
  then have "takeWhile (\<lambda>y. y \<noteq> b) us = us" by (auto simp: takeWhile_eq_all_conv)
  then have "position xs b = length us" using xs by (simp add: position_def takeWhile_append)
  moreover have "takeWhile (\<lambda>y. y \<noteq> a) xs = takeWhile (\<lambda>y. y \<noteq> a) us"
    using xs by (auto simp: takeWhile_append)
  moreover have "length (takeWhile (\<lambda>y. y \<noteq> a) us) < length us"
    using xs(2) by (induction us) auto
  ultimately show ?thesis by (simp add: position_def)
qed

text \<open>Ordering succeeds exactly on the graphs without a cycle.\<close>

lemma order_ok_iff: "(\<exists>out. orderStepsByEdges steps edges = Inr out) \<longleftrightarrow> acyclic (edge_indices steps edges)"
proof (cases "edges = []")
  case True
  then show ?thesis by (simp add: orderStepsByEdges_def edge_indices_def acyclic_def)
next
  case False
  let ?E = "edge_indices steps edges" and ?n = "length steps"
  obtain adj d ordered d' where b: "built_from ?n ?E (adj, d)" and inv: "kahn_inv adj [] d' ordered"
    and res: "orderStepsByEdges steps edges =
      (if length ordered \<noteq> ?n
       then Inl (BindingCycle (map (\<lambda>i. st_id (steps ! i)) (filter (\<lambda>i. 0 < d' ! i) [0..<?n])))
       else Inr (map (\<lambda>i. steps ! i) ordered))"
    using order_run [OF False] by metis
  have n: "length adj = ?n" and adj: "\<And>f. f < ?n \<Longrightarrow> set (adj ! f) = {t. (f, t) \<in> ?E}"
    using b by (auto simp: built_from_def graph_wf_def)
  have ord: "distinct ordered" "set ordered \<subseteq> {..<?n}" using inv n by (auto simp: kahn_inv_def)
  have full: "length ordered = ?n \<longleftrightarrow> set ordered = {..<?n}"
    using ord by (metis card_lessThan card_subset_eq distinct_card finite_lessThan)
  have "set ordered = {..<?n} \<longleftrightarrow> acyclic ?E"
  proof
    assume all: "set ordered = {..<?n}"
    have "?E \<subseteq> measure (position ordered)"
    proof clarify
      fix f t assume e: "(f, t) \<in> ?E"
      then have "f < ?n" "t < ?n" using finite_edge_indices by blast+
      then have "before ordered f t" using inv e all n adj by (auto simp: kahn_inv_def)
      then show "(f, t) \<in> measure (position ordered)" using before_position ord(1) by simp
    qed
    then show "acyclic ?E" using wf_acyclic wf_subset wf_measure by blast
  next
    assume "acyclic ?E"
    moreover have "finite ?E" using finite_edge_indices by (rule finite_subset) simp
    ultimately have wf: "wf ?E" by (rule finite_acyclic_wf [rotated])
    show "set ordered = {..<?n}"
    proof (rule ccontr)
      assume "set ordered \<noteq> {..<?n}"
      then obtain x where "x \<in> {..<?n} - set ordered" using ord(2) by blast
      then obtain t where t: "t \<in> {..<?n} - set ordered" "\<And>f. (f, t) \<in> ?E \<Longrightarrow> f \<notin> {..<?n} - set ordered"
        using wfE_min [OF wf] by metis
      then have "card (preds adj (set ordered) t) \<noteq> 0" using inv n by (auto simp: kahn_inv_def)
      then obtain f where "f < ?n" "t \<in> set (adj ! f)" "f \<notin> set ordered"
      proof -
        assume c: "card (preds adj (set ordered) t) \<noteq> 0"
          and out: "\<And>f. f < ?n \<Longrightarrow> t \<in> set (adj ! f) \<Longrightarrow> f \<notin> set ordered \<Longrightarrow> thesis"
        from c have "preds adj (set ordered) t \<noteq> {}" by (metis card.empty)
        then show thesis using out n by (auto simp: preds_def)
      qed
      then show False using t(2) adj by auto
    qed
  qed
  then show ?thesis using res full by auto
qed

text \<open>When every edge already points forward, nothing moves.\<close>

lemma kahn_forward:
  assumes "kahn_inv adj ready d [0..<k]" and "graph_wf (length adj) adj"
    and "\<And>f t. f < length adj \<Longrightarrow> t \<in> set (adj ! f) \<Longrightarrow> f < t"
    and "kahn adj ready d [0..<k] = (res, d')" and "k \<le> length adj"
  shows "res = [0..<length adj]"
  using assms
proof (induction "length adj - k" arbitrary: k ready d)
  case 0
  have "set ready \<inter> set [0..<length adj] = {}" "set ready \<subseteq> set [0..<length adj]"
    using 0(1,2,6) by (auto simp: kahn_inv_def)
  then have "set ready = {}" by (simp only: inf.absorb1)
  then have s: "sort ready = []" by simp
  have "kahn adj ready d [0..<k] = ([0..<k], d)" by (subst kahn.simps) (simp add: s)
  then have "([0..<k], d) = (res, d')" using 0(5) by (rule trans [OF sym])
  moreover have "k = length adj" using 0(1,6) by linarith
  ultimately show ?case by simp
next
  case (Suc m)
  have k: "k < length adj" using Suc.hyps(2) by simp
  have "preds adj (set [0..<k]) k = {}" using Suc.prems(3) by (fastforce simp: preds_def)
  then have "k \<in> set ready" using Suc.prems(1) k by (auto simp: kahn_inv_def)
  moreover have "\<forall>x \<in> set ready. k \<le> x"
  proof
    fix x assume "x \<in> set ready"
    moreover have "set [0..<k] \<inter> set ready = {}" using Suc.prems(1) by (simp add: kahn_inv_def)
    ultimately have "x \<notin> set [0..<k]" by (meson disjoint_iff)
    then show "k \<le> x" by simp
  qed
  ultimately obtain rest where s: "sort ready = k # rest"
  proof -
    assume kr: "k \<in> set ready" "\<forall>x \<in> set ready. k \<le> x"
      and out: "\<And>rest. sort ready = k # rest \<Longrightarrow> thesis"
    obtain y ys where ys: "sort ready = y # ys" using kr(1) by (metis list.exhaust list.set(1) empty_iff set_sort)
    then have "y \<le> k" using kr(1) sorted_sort [of ready] by (metis set_sort sorted_simps(2) set_ConsD order_refl)
    moreover have "k \<le> y" using kr(2) ys by (metis list.set_intros(1) set_sort)
    ultimately show thesis using out ys by simp
  qed
  obtain ready' e where rx: "relax (adj ! k) rest d = (ready', e)" by fastforce
  have inv: "kahn_inv adj ready' e [0..<Suc k]"
    using kahn_inv_step [OF Suc.prems(1,2) s rx] by simp
  have "kahn adj ready d [0..<k] = kahn adj ready' e [0..<Suc k]"
    by (subst kahn.simps) (simp add: s rx k)
  then show ?case using Suc.hyps Suc.prems inv k by (intro Suc.hyps(1) [of "Suc k" ready' e]) auto
qed

lemma order_stable:
  assumes "\<And>f t. (f, t) \<in> edge_indices steps edges \<Longrightarrow> f < t"
  shows "orderStepsByEdges steps edges = Inr steps"
proof (cases "edges = []")
  case False
  obtain adj d ordered d' where b: "built_from (length steps) (edge_indices steps edges) (adj, d)"
    and k: "kahn adj (filter (\<lambda>i. d ! i = 0) [0..<length steps]) d [] = (ordered, d')"
    and res: "orderStepsByEdges steps edges =
      (if length ordered \<noteq> length steps
       then Inl (BindingCycle (map (\<lambda>i. st_id (steps ! i)) (filter (\<lambda>i. 0 < d' ! i) [0..<length steps])))
       else Inr (map (\<lambda>i. steps ! i) ordered))"
    using order_run [OF False] by metis
  have n: "length adj = length steps" using b by (simp add: built_from_def graph_wf_def)
  have "ordered = [0..<length adj]"
  proof (rule kahn_forward [of adj _ d 0])
    show "kahn_inv adj (filter (\<lambda>i. d ! i = 0) [0..<length steps]) d [0..<0]"
      using kahn_inv_start [OF b] by simp
    show "graph_wf (length adj) adj" using b n by (simp add: built_from_def)
    show "f < t" if "f < length adj" "t \<in> set (adj ! f)" for f t
      using that b n assms by (auto simp: built_from_def)
  qed (use k in simp_all)
  then show ?thesis by (simp add: res n map_nth)
qed (simp add: orderStepsByEdges_def)

subsection \<open>The plan\<close>

lemma attach_id [simp]: "st_id (attach_params ps s) = st_id s" "st_id (attach_bindings bs s) = st_id s"
  by (simp_all add: attach_params_def attach_bindings_def Let_def split: option.split)

lemma run_digest_Inr: "run_digest sha v = Inr d \<longleftrightarrow> ijson_ok v \<and> d = sha (recordCanonV1 v)"
  by (cases "assertIJson v") (auto simp: run_digest_def jcsDigestHex_def ijson_ok_def)

lemma collect_params_error: "collect_params bs acc = Inl e \<Longrightarrow> e \<noteq> BindingCycle ss"
proof (induction bs arbitrary: acc)
  case (Cons b bs)
  show ?case
  proof (cases "jget b ''params''")
    case None
    then show ?thesis using Cons by simp
  next
    case (Some p)
    show ?thesis
    proof (cases "find (\<lambda>(k, _). js_same k (jget b ''connector_id'')) acc")
      case None
      then show ?thesis using Cons Some by (simp add: Let_def)
    next
      case (Some q)
      then show ?thesis using Cons \<open>jget b ''params'' = Some p\<close>
        by (cases "json_stringify (snd q) = json_stringify p") (auto simp: Let_def)
    qed
  qed
qed simp

lemma planSteps_bound:
  assumes "planSteps sha manifest = r" and "base_steps sha manifest = Inr base"
    and "jget manifest ''connector_inputs'' = Some (JArr bs)"
  shows "(\<exists>e. r = Inl e \<and> (\<forall>ss. e \<noteq> BindingCycle ss)) \<or>
    (\<exists>steps. map st_id steps = map st_id base \<and> r = orderStepsByEdges steps (binding_edges bs))"
proof -
  have m: "manifest \<noteq> JNull" using assms(3) by auto
  have noc: "collect_params bs acc = Inl e \<Longrightarrow> e \<noteq> BindingCycle ss" for acc e ss
    by (rule collect_params_error)
  show ?thesis
  proof (cases "JNull \<in> set bs")
    case True
    then have "r = Inl RTypeError"
      using assms m by (auto simp: planSteps_def jprop_def js_iter_def)
    then show ?thesis by blast
  next
    case False
    show ?thesis
    proof (cases "collect_params bs []")
      case (Inl e)
      then have "r = Inl e" using assms m False by (auto simp: planSteps_def jprop_def js_iter_def)
      then show ?thesis using noc [OF Inl] by blast
    next
      case (Inr ps)
      then have "r = orderStepsByEdges (map (\<lambda>s. attach_params ps (attach_bindings bs s)) base) (binding_edges bs)"
        using assms m False by (auto simp: planSteps_def jprop_def js_iter_def)
      moreover have "map st_id (map (\<lambda>s. attach_params ps (attach_bindings bs s)) base) = map st_id base" by simp
      ultimately show ?thesis by blast
    qed
  qed
qed

lemma binding_edges_bipartite: "acyclic (edge_indices steps (binding_edges bs))"
proof -
  let ?r = "\<lambda>i. if take 1 (st_id (steps ! i)) = ''c'' then 0 else (1::nat)"
  have "edge_indices steps (binding_edges bs) \<subseteq> measure ?r"
  proof clarify
    fix f t assume "(f, t) \<in> edge_indices steps (binding_edges bs)"
    then obtain b where "step_index steps (CONNECTOR_STEP (jget b ''connector_id'')) = Some f"
      "step_index steps (NODE_STEP (jget b ''feeds_node_id'')) = Some t"
      by (auto simp: edge_indices_def binding_edges_def)
    then have "st_id (steps ! f) = CONNECTOR_STEP (jget b ''connector_id'')"
      "st_id (steps ! t) = NODE_STEP (jget b ''feeds_node_id'')" using step_index_lt by blast+
    then show "(f, t) \<in> measure ?r" by (simp add: CONNECTOR_STEP_def NODE_STEP_def)
  qed
  then show ?thesis using wf_acyclic wf_subset wf_measure by blast
qed

subsection \<open>Properties\<close>

text \<open>C10. Ordering steps by binding edges succeeds exactly when the edges between steps of the plan
  form no cycle; then the result is a rearrangement of the steps in which every edge's source
  precedes its target.\<close>

theorem orderStepsByEdges_topological:
  "((\<exists>out. orderStepsByEdges steps edges = Inr out) \<longleftrightarrow> acyclic (edge_indices steps edges))
   \<and> {out. orderStepsByEdges steps edges = Inr out}
     \<subseteq> {out. mset out = mset steps \<and>
             edge_indices steps edges \<subseteq> {(f, t). before out (steps ! f) (steps ! t)}}"
  using order_ok_iff order_perm order_respects_edges by (fastforce simp: edge_indices_def)

text \<open>Edges that already point forward in the manifest's own order impose nothing: the steps stay
  exactly as they were.\<close>

theorem orderStepsByEdges_stable:
  assumes "edge_indices steps edges \<subseteq> {(f, t). f < t}"
  shows "orderStepsByEdges steps edges = Inr steps"
  using assms by (intro order_stable) auto

definition sample_manifest :: json where
  "sample_manifest = JObj [(''connectors'', JArr [JObj [(''connector_id'', JStr ''c1'')]]),
     (''nodes'', JArr [JObj [(''node_id'', JStr ''n1'')]]),
     (''connector_inputs'', JArr [JObj [(''step_id'', JStr ''b1''), (''connector_id'', JStr ''c1''),
        (''feeds_node_id'', JStr ''n1''), (''feeds_param'', JStr ''p'')]])]"

lemma sample_items:
  "\<exists>s. map_err (plan_item sample_sha ''connectors'' ''connector_id'') [JObj [(''connector_id'', JStr ''c1'')]] = Inr [s]
     \<and> st_id s = ''connectors:c1''"
  "\<exists>s. map_err (plan_item sample_sha ''nodes'' ''node_id'') [JObj [(''node_id'', JStr ''n1'')]] = Inr [s]
     \<and> st_id s = ''nodes:n1''"
  by (simp_all add: plan_item_def jprop_def content_digest_def Let_def run_digest_Inr ijson_ok_iff
      MAX_DEPTH_def MAX_ELEMENTS_def)

lemma sample_base:
  "\<exists>base. base_steps sample_sha sample_manifest = Inr base \<and> map st_id base = [''connectors:c1'', ''nodes:n1'']"
proof -
  obtain s t where st: "map_err (plan_item sample_sha ''connectors'' ''connector_id'') [JObj [(''connector_id'', JStr ''c1'')]] = Inr [s]"
    "map_err (plan_item sample_sha ''nodes'' ''node_id'') [JObj [(''node_id'', JStr ''n1'')]] = Inr [t]"
    "st_id s = ''connectors:c1''" "st_id t = ''nodes:n1''"
    using sample_items by (elim exE conjE) (rule that)
  have "plan_layers sample_sha sample_manifest STEP_LAYERS = Inr [s, t]"
    by (simp add: STEP_LAYERS_def sample_manifest_def jprop_def js_iter_def st(1,2) del: map_err.simps(2))
  then show ?thesis using st(3,4) by (simp add: base_steps_def)
qed

lemma orderStepsByEdges_stable_witness:
  "orderStepsByEdges (projr (base_steps sample_sha sample_manifest)) [(''connectors:c1'', ''nodes:n1'')]
   = base_steps sample_sha sample_manifest"
proof -
  obtain base where b: "base_steps sample_sha sample_manifest = Inr base" "map st_id base = [''connectors:c1'', ''nodes:n1'']"
    using sample_base by (elim exE conjE) (rule that)
  have "length base = 2" using arg_cong [OF b(2), of length] by simp
  then have "edge_indices base [(''connectors:c1'', ''nodes:n1'')] \<subseteq> {(f, t). f < t}"
    using b(2) by (simp add: edge_indices_def step_index_def numeral_2_eq_2)
  from orderStepsByEdges_stable [OF this] show ?thesis by (simp add: b)
qed

text \<open>The plan of a manifest with bindings is a rearrangement of its layer-ordered steps in which
  each bound connector comes before the node that it feeds; no manifest of this vocabulary is ever
  rejected for a cycle.\<close>

theorem planSteps_connector_before_node:
  assumes "base_steps sha manifest = Inr base" and "jget manifest ''connector_inputs'' = Some (JArr bs)"
    and "distinct (map st_id base)" and "b \<in> set bs"
    and "CONNECTOR_STEP (jget b ''connector_id'') \<in> st_id ` set base"
    and "NODE_STEP (jget b ''feeds_node_id'') \<in> st_id ` set base"
  shows "case planSteps sha manifest of
      Inr out \<Rightarrow> mset (map st_id out) = mset (map st_id base) \<and>
        before (map st_id out) (CONNECTOR_STEP (jget b ''connector_id'')) (NODE_STEP (jget b ''feeds_node_id''))
    | Inl e \<Rightarrow> \<forall>ss. e \<noteq> BindingCycle ss"
proof -
  let ?c = "CONNECTOR_STEP (jget b ''connector_id'')" and ?n = "NODE_STEP (jget b ''feeds_node_id'')"
  consider (err) e where "planSteps sha manifest = Inl e" "\<forall>ss. e \<noteq> BindingCycle ss"
    | (ordered) steps where "map st_id steps = map st_id base"
        "planSteps sha manifest = orderStepsByEdges steps (binding_edges bs)"
    using planSteps_bound [OF HOL.refl assms(1,2)] by blast
  then show ?thesis
  proof cases
    case err
    then show ?thesis by simp
  next
    case ordered
    have "\<exists>out. orderStepsByEdges steps (binding_edges bs) = Inr out"
      using binding_edges_bipartite by (simp add: order_ok_iff)
    then obtain out where out: "orderStepsByEdges steps (binding_edges bs) = Inr out" by blast
    have idx: "\<exists>i < length steps. st_id (steps ! i) = s \<and> step_index steps s = Some i"
      if "s \<in> st_id ` set base" for s
    proof -
      have "s \<in> set (map st_id steps)" using that ordered(1) by simp
      then obtain i where "i < length steps" "st_id (steps ! i) = s" by (auto simp: in_set_conv_nth)
      moreover from this have "step_index steps s = Some i"
        using step_index_distinct [of steps i] assms(3) ordered(1) by simp
      ultimately show ?thesis by blast
    qed
    obtain f t where ft: "st_id (steps ! f) = ?c" "step_index steps ?c = Some f"
      "st_id (steps ! t) = ?n" "step_index steps ?n = Some t"
      using idx [OF assms(5)] idx [OF assms(6)] by blast
    have "(?c, ?n) \<in> set (binding_edges bs)" using assms(4) by (auto simp: binding_edges_def)
    from before_map [OF order_respects_edges [OF out this ft(2,4)], of st_id]
    have "before (map st_id out) ?c ?n" by (simp add: ft)
    moreover have "mset (map st_id out) = mset (map st_id base)"
      using order_perm [OF out] ordered(1) by (metis mset_map)
    ultimately show ?thesis by (simp add: ordered(2) out)
  qed
qed

lemma planSteps_connector_before_node_witness:
  "case planSteps sample_sha sample_manifest of
     Inr out \<Rightarrow> before (map st_id out) ''connectors:c1'' ''nodes:n1''
   | Inl e \<Rightarrow> e \<noteq> BindingCycle []"
proof -
  obtain base where b: "base_steps sample_sha sample_manifest = Inr base" "map st_id base = [''connectors:c1'', ''nodes:n1'']"
    using sample_base by (elim exE conjE) (rule that)
  have "st_id ` set base = set (map st_id base)" by simp
  also have "\<dots> = {''connectors:c1'', ''nodes:n1''}" by (simp only: b(2)) simp
  finally have ids: "st_id ` set base = {''connectors:c1'', ''nodes:n1''}" "distinct (map st_id base)"
    by (simp_all add: b(2))
  let ?b = "JObj [(''step_id'', JStr ''b1''), (''connector_id'', JStr ''c1''),
        (''feeds_node_id'', JStr ''n1''), (''feeds_param'', JStr ''p'')]"
  have ci: "jget sample_manifest ''connector_inputs'' = Some (JArr [?b])" by (simp add: sample_manifest_def)
  from planSteps_connector_before_node [OF b(1) ci ids(2), of ?b] show ?thesis
    by (simp add: ids CONNECTOR_STEP_def NODE_STEP_def split: sum.splits)
qed

end
