(* ===== verification/Run_Engine.thy ===== *)
theory Run_Engine
  imports Run_Plan
begin

text \<open>
  The executing half of \<^verbatim>\<open>hub/run.mjs\<close>: the run lifecycle, the memo table of step results, the
  resumable executor and the replay of a recorded run. The step runner, the gate check and the
  dispatch predicate are parameters, since \<open>executeRun\<close> takes them as arguments; the runner may
  change the database while it is awaited. An output or manifest column of JSON text holds its value.
\<close>

subsection \<open>Lifecycle\<close>

datatype run_state = Draft | Validated | Queued | Running | Awaiting_data | Completed | Failed | Cancelled

definition PHASE1_STATES :: "run_state list" where
  "PHASE1_STATES = [Draft, Validated, Queued, Running, Awaiting_data, Completed, Failed, Cancelled]"

fun state_name :: "run_state \<Rightarrow> string" where
  "state_name Draft = ''draft''"
| "state_name Validated = ''validated''"
| "state_name Queued = ''queued''"
| "state_name Running = ''running''"
| "state_name Awaiting_data = ''awaiting_data''"
| "state_name Completed = ''completed''"
| "state_name Failed = ''failed''"
| "state_name Cancelled = ''cancelled''"

text \<open>\<open>None\<close> is the code's \<open>__start__\<close>.\<close>

fun ALLOWED_TRANSITIONS :: "run_state option \<Rightarrow> run_state list" where
  "ALLOWED_TRANSITIONS None = [Draft]"
| "ALLOWED_TRANSITIONS (Some Draft) = [Validated, Cancelled]"
| "ALLOWED_TRANSITIONS (Some Validated) = [Queued, Cancelled]"
| "ALLOWED_TRANSITIONS (Some Queued) = [Running, Cancelled]"
| "ALLOWED_TRANSITIONS (Some Running) = [Awaiting_data, Completed, Failed, Cancelled]"
| "ALLOWED_TRANSITIONS (Some Awaiting_data) = [Running, Cancelled]"
| "ALLOWED_TRANSITIONS (Some Completed) = []"
| "ALLOWED_TRANSITIONS (Some Failed) = []"
| "ALLOWED_TRANSITIONS (Some Cancelled) = []"

subsection \<open>Tables\<close>

record run_row =
  rr_manifest_digest :: string
  rr_manifest :: json
  rr_dry_run :: bool
  rr_state :: run_state
  rr_execution_hash :: "string option"
  rr_created_at :: string

record step_row =
  sr_output :: json
  sr_output_digest :: string
  sr_completed_at :: string

type_synonym memo_key = "string \<times> string \<times> string"

record run_db = journal_db +
  runs :: "(string, run_row) tbl"
  step_results :: "(memo_key, step_row) tbl"

definition initRunTables :: run_db where
  \<comment> \<open>the tables of a fresh database; on an existing one \<open>CREATE TABLE IF NOT EXISTS\<close> changes nothing\<close>
  "initRunTables = journal_db.extend openJournal (run_db.fields [] [])"

text \<open>Which reading of the clock an operation makes.\<close>

datatype clock_reading = At_entry nat | At_append nat | At_step string string | At_created

subsection \<open>Inputs, digests and the memo table\<close>

type_synonym step_outputs = "(string, json) tbl"

definition set_prop :: "string \<Rightarrow> json \<Rightarrow> (string \<times> json) list \<Rightarrow> (string \<times> json) list" where
  \<comment> \<open>\<open>o[k] = v\<close> on a plain object; \<open>__proto__\<close> is a setter and makes no own member\<close>
  "set_prop k v kvs = (if k = ''__proto__'' then kvs else AList.update k v kvs)"

fun resolve_bindings :: "string \<Rightarrow> step_outputs \<Rightarrow> binding list \<Rightarrow> (string \<times> json) list \<Rightarrow> run_error + json" where
  "resolve_bindings sid outs [] acc = Inr (JObj acc)"
| "resolve_bindings sid outs (b # bs) acc =
     (case tbl_get outs (bi_from_step_id b) of
        None \<Rightarrow> Inl (UnresolvedBinding sid (js_template (bi_feeds_param b)) (bi_from_step_id b))
      | Some v \<Rightarrow> resolve_bindings sid outs bs (set_prop (js_template (bi_feeds_param b)) v acc))"

definition resolveBoundParams :: "step \<Rightarrow> step_outputs \<Rightarrow> run_error + json option" where
  "resolveBoundParams s outs =
     (case st_bindings s of
        None \<Rightarrow> Inr None
      | Some bs \<Rightarrow> and_then (resolve_bindings (st_id s) outs bs []) (\<lambda>r. Inr (Some r)))"

definition stepInputDigest ::
  "(string \<Rightarrow> string) \<Rightarrow> string \<Rightarrow> step \<Rightarrow> string option \<Rightarrow> bool \<Rightarrow> json option \<Rightarrow> run_error + string" where
  "stepInputDigest sha runId s priorOutputDigest dryRun resolvedParams =
     and_then (run_digest sha (JObj ([(''run_id'', JStr runId), (''step_id'', JStr (st_id s)),
         (''content_digest'', st_digest s),
         (''prior_output_digest'', case priorOutputDigest of None \<Rightarrow> JNull | Some d \<Rightarrow> JStr d),
         (''dry_run'', JBool dryRun)]
        @ (case resolvedParams of None \<Rightarrow> [] | Some r \<Rightarrow> [(''resolved_bindings'', r)]))))
       (\<lambda>d. Inr (sha256ref d))"

definition getMemoizedStep ::
  "(string \<Rightarrow> string) \<Rightarrow> 'a run_db_scheme \<Rightarrow> string \<Rightarrow> string \<Rightarrow> string \<Rightarrow> run_error + (json \<times> string) option" where
  "getMemoizedStep sha db runId stepId inputDigest =
     (case tbl_get (step_results db) (runId, stepId, inputDigest) of
        None \<Rightarrow> Inr None
      | Some row \<Rightarrow>
          and_then (run_digest sha (sr_output row)) (\<lambda>d.
            if sha256ref d \<noteq> sr_output_digest row then Inl (StepTampered runId stepId)
            else Inr (Some (sr_output row, sr_output_digest row))))"

definition saveStepResult ::
  "(string \<Rightarrow> string) \<Rightarrow> string \<Rightarrow> string \<Rightarrow> string \<Rightarrow> string \<Rightarrow> json \<Rightarrow> 'a run_db_scheme \<Rightarrow>
   (run_error + string) \<times> 'a run_db_scheme" where
  "saveStepResult sha now runId stepId inputDigest output db =
     (case run_digest sha output of
        Inl e \<Rightarrow> (Inl e, db)
      | Inr d \<Rightarrow>
          let outputDigest = sha256ref d
          in (Inr outputDigest,
              db\<lparr>step_results := tbl_replace (runId, stepId, inputDigest)
                   \<lparr>sr_output = output, sr_output_digest = outputDigest, sr_completed_at = now\<rparr>
                   (step_results db)\<rparr>))"

subsection \<open>Transitions\<close>

definition nextJournalSeq :: "'a journal_db_scheme \<Rightarrow> nat" where
  "nextJournalSeq db = fold max (map j_seq (journal db)) 0 + 1"

definition run_stream :: "string \<Rightarrow> string" where
  "run_stream runId = ''run:'' @ runId"

definition transition_entry ::
  "string \<Rightarrow> string \<Rightarrow> string \<Rightarrow> run_state option \<Rightarrow> run_state \<Rightarrow> json list \<Rightarrow> nat \<Rightarrow> (string \<times> json) list" where
  "transition_entry now runId workflowManifestDigest fromState toState humansInvolved journalSeq =
     [(''state'', JStr (state_name toState)),
      (''prev_state'', JStr (case fromState of None \<Rightarrow> ''draft'' | Some s \<Rightarrow> state_name s)),
      (''journal_seq'', JNum (int journalSeq)), (''run_id'', JStr runId),
      (''workflow_manifest_digest'', JStr workflowManifestDigest),
      (''period_start'', JStr now), (''period_end'', JStr now),
      (''reference_db_version'', JStr ''helm-run-engine@1''),
      (''triggering_input_digest'', JStr workflowManifestDigest),
      (''humans_involved'', JArr humansInvolved)]"

definition transitionState ::
  "(string \<Rightarrow> string) \<Rightarrow> (clock_reading \<Rightarrow> string) \<Rightarrow> string \<Rightarrow> string \<Rightarrow> json list \<Rightarrow>
   run_state option \<Rightarrow> run_state \<Rightarrow> 'a run_db_scheme \<Rightarrow> (run_error + nat \<times> run_state) \<times> 'a run_db_scheme" where
  "transitionState sha clk runId workflowManifestDigest humansInvolved fromState toState db =
     (if toState \<notin> set (ALLOWED_TRANSITIONS fromState) then (Inl IllegalTransition, db)
      else
        let journalSeq = nextJournalSeq db;
            entry = transition_entry (clk (At_entry journalSeq)) runId workflowManifestDigest fromState toState
                      humansInvolved journalSeq
        in case appendEntry sha (clk (At_append journalSeq)) (run_stream runId) ''execution_state'' (Some runId) entry db of
             (Inl e, db1) \<Rightarrow> (Inl (JournalFailed e), db1)
           | (Inr (seq, _, _), db1) \<Rightarrow>
               if seq \<noteq> journalSeq then (Inl (SeqDrifted journalSeq seq), db1)
               else (Inr (seq, toState),
                     db1\<lparr>runs := tbl_update_where runId (\<lambda>r. r\<lparr>rr_state := toState\<rparr>) (runs db1)\<rparr>))"

definition currentState :: "'a run_db_scheme \<Rightarrow> string \<Rightarrow> run_state option" where
  "currentState db runId = map_option rr_state (tbl_get (runs db) runId)"

subsection \<open>The executor\<close>

record step_digests =
  sd_step_id :: string
  sd_input_digest :: string
  sd_output_digest :: string

record 'a run_env =
  re_sha :: "string \<Rightarrow> string"
  re_clk :: "clock_reading \<Rightarrow> string"
  re_runner :: "step \<Rightarrow> string option \<Rightarrow> string \<Rightarrow> 'a run_db_scheme \<Rightarrow> (string + json) \<times> 'a run_db_scheme"
  re_can_dispatch :: "(step \<Rightarrow> bool) option"
  re_gate :: "(step \<Rightarrow> string option \<Rightarrow> json option \<Rightarrow> string \<Rightarrow> 'a run_db_scheme \<Rightarrow> string + string option) option"

record run_outcome =
  ro_state :: "run_state option"
  ro_execution_hash :: "string option"
  ro_steps :: "step_digests list"
  ro_held :: "(string \<times> string) option"

datatype step_result = Stepped json string | Held string

definition step_inputs ::
  "(string \<Rightarrow> string) \<Rightarrow> string \<Rightarrow> bool \<Rightarrow> 'a run_db_scheme \<Rightarrow> string option \<Rightarrow> step_outputs \<Rightarrow> step \<Rightarrow>
   run_error + json option \<times> string \<times> (json \<times> string) option" where
  \<comment> \<open>what both the executor and replay compute first: parameters, input digest, memo row\<close>
  "step_inputs sha runId dryRun db prior outs s =
     and_then (resolveBoundParams s outs) (\<lambda>resolved.
       and_then (stepInputDigest sha runId s prior dryRun resolved) (\<lambda>inputDigest.
         and_then (getMemoizedStep sha db runId (st_id s) inputDigest) (\<lambda>memo.
           Inr (resolved, inputDigest, memo))))"

definition invoke_runner ::
  "'a run_env \<Rightarrow> string \<Rightarrow> bool \<Rightarrow> step \<Rightarrow> string option \<Rightarrow> 'a run_db_scheme \<Rightarrow> (run_error + json) \<times> 'a run_db_scheme" where
  "invoke_runner env runId dryRun s prior db =
     (if dryRun
      then (Inr (JObj [(''dry_run'', JBool True), (''step_id'', JStr (st_id s)), (''kind'', JStr (st_kind s))]), db)
      else case re_runner env s prior runId db of
             (Inl e, db1) \<Rightarrow> (Inl (RunnerFailed e), db1)
           | (Inr output, db1) \<Rightarrow> (Inr output, db1))"

definition fresh_step ::
  "'a run_env \<Rightarrow> string \<Rightarrow> string \<Rightarrow> bool \<Rightarrow> json list \<Rightarrow> step \<Rightarrow> json option \<Rightarrow> string \<Rightarrow> string option \<Rightarrow> json option \<Rightarrow>
   'a run_db_scheme \<Rightarrow> (run_error + step_result) \<times> 'a run_db_scheme" where
  \<comment> \<open>a step without a memo row: gate, dispatch check, runner, memo\<close>
  "fresh_step env runId wmd dryRun humans s resolved inputDigest prior priorOutput db =
     (case (case re_gate env of None \<Rightarrow> Inr None | Some gate \<Rightarrow> gate s prior priorOutput runId db) of
        Inl e \<Rightarrow> (Inl (RunnerFailed e), db)
      | Inr (Some reason) \<Rightarrow>
          (case transitionState (re_sha env) (re_clk env) runId wmd humans (Some Running) Awaiting_data db of
             (Inl e, db1) \<Rightarrow> (Inl e, db1)
           | (Inr _, db1) \<Rightarrow> (Inr (Held reason), db1))
      | Inr None \<Rightarrow>
          if dryRun \<and> (case re_can_dispatch env of None \<Rightarrow> False | Some can \<Rightarrow> \<not> can s)
          then (Inl (NoRunnerFor (st_kind s) (st_id s)), db)
          else
            (case invoke_runner env runId dryRun
                    (case resolved of None \<Rightarrow> s | Some r \<Rightarrow> s\<lparr>st_resolved := Some r\<rparr>) prior db of
               (Inl e, db1) \<Rightarrow> (Inl e, db1)
             | (Inr output, db1) \<Rightarrow>
                 (case saveStepResult (re_sha env) (re_clk env (At_step (st_id s) inputDigest)) runId (st_id s)
                         inputDigest output db1 of
                    (Inl e, db2) \<Rightarrow> (Inl e, db2)
                  | (Inr outputDigest, db2) \<Rightarrow> (Inr (Stepped output outputDigest), db2))))"

fun run_steps ::
  "'a run_env \<Rightarrow> string \<Rightarrow> string \<Rightarrow> bool \<Rightarrow> json list \<Rightarrow> step list \<Rightarrow> string option \<Rightarrow> json option \<Rightarrow>
   step_digests list \<Rightarrow> step_outputs \<Rightarrow> 'a run_db_scheme \<Rightarrow>
   (run_error + step_digests list \<times> (string \<times> string) option) \<times> 'a run_db_scheme" where
  "run_steps env runId wmd dryRun humans [] prior priorOutput digests outs db = (Inr (digests, None), db)"
| "run_steps env runId wmd dryRun humans (s # ss) prior priorOutput digests outs db =
     (case step_inputs (re_sha env) runId dryRun db prior outs s of
        Inl e \<Rightarrow> (Inl e, db)
      | Inr (resolved, inputDigest, memo) \<Rightarrow>
          (case (case memo of
                   Some (output, outputDigest) \<Rightarrow> (Inr (Stepped output outputDigest), db)
                 | None \<Rightarrow> fresh_step env runId wmd dryRun humans s resolved inputDigest prior priorOutput db) of
             (Inl e, db1) \<Rightarrow> (Inl e, db1)
           | (Inr (Held reason), db1) \<Rightarrow> (Inr (digests, Some (st_id s, reason)), db1)
           | (Inr (Stepped output outputDigest), db1) \<Rightarrow>
               run_steps env runId wmd dryRun humans ss (Some outputDigest) (Some output)
                 (digests @ [\<lparr>sd_step_id = st_id s, sd_input_digest = inputDigest, sd_output_digest = outputDigest\<rparr>])
                 (tbl_upsert (st_id s) output outs) db1))"

definition execution_hash :: "(string \<Rightarrow> string) \<Rightarrow> string \<Rightarrow> string \<Rightarrow> step_digests list \<Rightarrow> run_error + string" where
  "execution_hash sha runId wmd digests =
     and_then (run_digest sha (JObj [(''run_id'', JStr runId), (''workflow_manifest_digest'', JStr wmd),
        (''steps'', JArr (map (\<lambda>d. JObj [(''step_id'', JStr (sd_step_id d)),
            (''input_digest'', JStr (sd_input_digest d)), (''output_digest'', JStr (sd_output_digest d))]) digests))]))
       (\<lambda>d. Inr (sha256ref d))"

fun transitions ::
  "'a run_env \<Rightarrow> string \<Rightarrow> string \<Rightarrow> json list \<Rightarrow> (run_state option \<times> run_state) list \<Rightarrow> 'a run_db_scheme \<Rightarrow>
   (run_error + unit) \<times> 'a run_db_scheme" where
  \<comment> \<open>a row of \<open>transitionState\<close> calls, stopping at the first that throws\<close>
  "transitions env runId wmd humans [] db = (Inr (), db)"
| "transitions env runId wmd humans ((a, b) # ts) db =
     (case transitionState (re_sha env) (re_clk env) runId wmd humans a b db of
        (Inl e, db1) \<Rightarrow> (Inl e, db1)
      | (Inr _, db1) \<Rightarrow> transitions env runId wmd humans ts db1)"

definition start_run ::
  "'a run_env \<Rightarrow> string \<Rightarrow> string \<Rightarrow> json \<Rightarrow> bool \<Rightarrow> json list \<Rightarrow> 'a run_db_scheme \<Rightarrow> (run_error + unit) \<times> 'a run_db_scheme" where
  \<comment> \<open>the row and the first three transitions of a run id not seen before; then, from a
      state that may run, the transition to running\<close>
  "start_run env runId wmd manifest dryRun humans db =
     (let (r, db1) =
        (if tbl_get (runs db) runId = None
         then transitions env runId wmd humans
                [(None, Draft), (Some Draft, Validated), (Some Validated, Queued)]
                (db\<lparr>runs := runs db @ [(runId,
                   \<lparr>rr_manifest_digest = wmd, rr_manifest = manifest, rr_dry_run = dryRun, rr_state = Draft,
                    rr_execution_hash = None, rr_created_at = re_clk env At_created\<rparr>)]\<rparr>)
         else (Inr (), db))
      in case r of
           Inl e \<Rightarrow> (Inl e, db1)
         | Inr _ \<Rightarrow>
             (case currentState db1 runId of
                Some st \<Rightarrow> if st = Queued \<or> st = Awaiting_data
                           then transitions env runId wmd humans [(Some st, Running)] db1 else (Inr (), db1)
              | None \<Rightarrow> (Inr (), db1)))"

definition finish_run ::
  "'a run_env \<Rightarrow> string \<Rightarrow> string \<Rightarrow> json list \<Rightarrow> step_digests list \<Rightarrow> 'a run_db_scheme \<Rightarrow>
   (run_error + run_outcome) \<times> 'a run_db_scheme" where
  "finish_run env runId wmd humans digests db =
     (case execution_hash (re_sha env) runId wmd digests of
        Inl e \<Rightarrow> (Inl e, db)
      | Inr h \<Rightarrow>
          let db1 = db\<lparr>runs := tbl_update_where runId (\<lambda>r. r\<lparr>rr_execution_hash := Some h\<rparr>) (runs db)\<rparr>
          in case transitionState (re_sha env) (re_clk env) runId wmd humans (Some Running) Completed db1 of
               (Inl e, db2) \<Rightarrow> (Inl e, db2)
             | (Inr _, db2) \<Rightarrow>
                 (Inr \<lparr>ro_state = Some Completed, ro_execution_hash = Some h, ro_steps = digests, ro_held = None\<rparr>, db2))"

definition execute_steps ::
  "'a run_env \<Rightarrow> string \<Rightarrow> string \<Rightarrow> step list \<Rightarrow> bool \<Rightarrow> json list \<Rightarrow> 'a run_db_scheme \<Rightarrow>
   (run_error + run_outcome) \<times> 'a run_db_scheme" where
  "execute_steps env runId wmd steps dryRun humans db =
     (case run_steps env runId wmd dryRun humans steps None None [] [] db of
        (Inl e, db1) \<Rightarrow>
          (case transitionState (re_sha env) (re_clk env) runId wmd humans (Some Running) Failed db1 of
             (Inl e', db2) \<Rightarrow> (Inl e', db2) | (Inr _, db2) \<Rightarrow> (Inl e, db2))
      | (Inr (digests, Some held), db1) \<Rightarrow>
          (Inr \<lparr>ro_state = Some Awaiting_data, ro_execution_hash = None, ro_steps = digests, ro_held = Some held\<rparr>, db1)
      | (Inr (digests, None), db1) \<Rightarrow> finish_run env runId wmd humans digests db1)"

definition executeRun ::
  "'a run_env \<Rightarrow> string \<Rightarrow> json \<Rightarrow> bool \<Rightarrow> json list \<Rightarrow> 'a run_db_scheme \<Rightarrow>
   (run_error + run_outcome) \<times> 'a run_db_scheme" where
  "executeRun env runId manifest dryRun humans db =
     (case and_then (validateManifestBindings (re_sha env) manifest) (\<lambda>_.
             and_then (manifestDigest (re_sha env) manifest) (\<lambda>wmd.
               and_then (planSteps (re_sha env) manifest) (\<lambda>steps. Inr (wmd, steps)))) of
        Inl e \<Rightarrow> (Inl e, db)
      | Inr (wmd, steps) \<Rightarrow>
          (case start_run env runId wmd manifest dryRun humans db of
             (Inl e, db1) \<Rightarrow> (Inl e, db1)
           | (Inr _, db1) \<Rightarrow>
               (case currentState db1 runId of
                  Some Running \<Rightarrow> execute_steps env runId wmd steps dryRun humans db1
                | st \<Rightarrow>
                    (Inr \<lparr>ro_state = st,
                          ro_execution_hash = Option.bind (tbl_get (runs db1) runId) rr_execution_hash,
                          ro_steps = [], ro_held = None\<rparr>, db1))))"

subsection \<open>Replay\<close>

fun replay_steps ::
  "(string \<Rightarrow> string) \<Rightarrow> string \<Rightarrow> bool \<Rightarrow> 'a run_db_scheme \<Rightarrow> step list \<Rightarrow> string option \<Rightarrow>
   step_digests list \<Rightarrow> step_outputs \<Rightarrow> run_error + step_digests list" where
  "replay_steps sha runId dryRun db [] prior digests outs = Inr digests"
| "replay_steps sha runId dryRun db (s # ss) prior digests outs =
     and_then (step_inputs sha runId dryRun db prior outs s) (\<lambda>(resolved, inputDigest, memo).
       case memo of
         None \<Rightarrow> Inl (MissingMemo runId (st_id s))
       | Some (output, outputDigest) \<Rightarrow>
           replay_steps sha runId dryRun db ss (Some outputDigest)
             (digests @ [\<lparr>sd_step_id = st_id s, sd_input_digest = inputDigest, sd_output_digest = outputDigest\<rparr>])
             (tbl_upsert (st_id s) output outs))"

definition replayExecutionHash :: "(string \<Rightarrow> string) \<Rightarrow> 'a run_db_scheme \<Rightarrow> string \<Rightarrow> run_error + string" where
  "replayExecutionHash sha db runId =
     (case tbl_get (runs db) runId of
        None \<Rightarrow> Inl (UnknownRun runId)
      | Some run \<Rightarrow>
          and_then (planSteps sha (rr_manifest run)) (\<lambda>steps.
            and_then (replay_steps sha runId (rr_dry_run run) db steps None [] []) (\<lambda>digests.
              execution_hash sha runId (rr_manifest_digest run) digests)))"

definition buildRunEvidenceExportPayload :: "'a run_db_scheme \<Rightarrow> string \<Rightarrow> json option" where
  "buildRunEvidenceExportPayload db runId =
     map_option (\<lambda>row. JObj
       [(''trust_label'', JStr ''hash_verified''), (''run_id'', JStr runId),
        (''state'', JStr (state_name (rr_state row))),
        (''execution_hash'', case rr_execution_hash row of None \<Rightarrow> JNull | Some h \<Rightarrow> JStr h),
        (''workflow_manifest_digest'', JStr (rr_manifest_digest row)),
        (''steps'', JArr (map (\<lambda>((_, sid, _), r). JObj [(''step_id'', JStr sid),
             (''output_digest'', JStr (sr_output_digest r)), (''completed_at'', JStr (sr_completed_at r))])
           (sort_key (\<lambda>p. sr_completed_at (snd p)) (filter (\<lambda>p. fst (fst p) = runId) (step_results db)))))])
       (tbl_get (runs db) runId)"

subsection \<open>What a run leaves alone\<close>

definition runner_keeps_run :: "'a run_env \<Rightarrow> string \<Rightarrow> bool" where
  \<comment> \<open>while a step is awaited, nothing else writes this run's row or its memo rows\<close>
  "runner_keeps_run env runId \<longleftrightarrow>
     (\<forall>s prior db. tbl_get (runs (snd (re_runner env s prior runId db))) runId = tbl_get (runs db) runId
       \<and> (\<forall>k. fst k = runId \<longrightarrow>
             tbl_get (step_results (snd (re_runner env s prior runId db))) k = tbl_get (step_results db) k))"

definition memo_le :: "string \<Rightarrow> 'a run_db_scheme \<Rightarrow> 'a run_db_scheme \<Rightarrow> bool" where
  "memo_le runId db db' \<longleftrightarrow>
     (\<forall>k v. fst k = runId \<and> tbl_get (step_results db) k = Some v \<longrightarrow> tbl_get (step_results db') k = Some v)"

definition run_facts :: "'a run_db_scheme \<Rightarrow> string \<Rightarrow> (json \<times> bool \<times> string) option" where
  \<comment> \<open>the columns of a run's row that are written once\<close>
  "run_facts db runId =
     map_option (\<lambda>r. (rr_manifest r, rr_dry_run r, rr_manifest_digest r)) (tbl_get (runs db) runId)"

lemma run_factsE:
  assumes "run_facts db runId = Some (m, d, w)"
  obtains row where "tbl_get (runs db) runId = Some row" "rr_manifest row = m" "rr_dry_run row = d" "rr_manifest_digest row = w"
  using assms by (auto simp: run_facts_def)

lemma memo_le_refl [simp]: "memo_le runId db db"
  by (simp add: memo_le_def)

lemma memo_le_trans: "memo_le runId a b \<Longrightarrow> memo_le runId b c \<Longrightarrow> memo_le runId a c"
  by (simp add: memo_le_def)

lemma appendEntry_run_frame [helm_frame]:
  "runs (snd (appendEntry sha now s kind r entry db)) = runs db"
  "step_results (snd (appendEntry sha now s kind r entry db)) = step_results db"
  by (simp_all add: appendEntry_cases Let_def)

lemma transitionState_frame:
  assumes "transitionState sha clk runId wmd humans fromState toState db = (r, db')"
  shows "step_results db' = step_results db"
    and "run_facts db' k = run_facts db k"
    and "map_option rr_execution_hash (tbl_get (runs db') k) = map_option rr_execution_hash (tbl_get (runs db) k)"
    and "r = Inr x \<Longrightarrow> tbl_get (runs db') runId = map_option (\<lambda>r. r\<lparr>rr_state := toState\<rparr>) (tbl_get (runs db) runId)"
proof -
  let ?n = "nextJournalSeq db"
  let ?p = "appendEntry sha (clk (At_append ?n)) (run_stream runId) ''execution_state'' (Some runId)
    (transition_entry (clk (At_entry ?n)) runId wmd fromState toState humans ?n) db"
  obtain o1 db1 where p: "?p = (o1, db1)" by fastforce
  have f: "runs db1 = runs db" "step_results db1 = step_results db"
    using appendEntry_run_frame [of sha "clk (At_append ?n)" "run_stream runId" "''execution_state''" "Some runId"
        "transition_entry (clk (At_entry ?n)) runId wmd fromState toState humans ?n" db] p by simp_all
  from assms have cases: "(db' = db \<and> (\<exists>e. r = Inl e)) \<or> (db' = db1 \<and> (\<exists>e. r = Inl e))
    \<or> db' = db1\<lparr>runs := tbl_update_where runId (\<lambda>r. r\<lparr>rr_state := toState\<rparr>) (runs db1)\<rparr>"
    by (auto simp: transitionState_def Let_def p split: if_splits sum.splits prod.splits)
  show "step_results db' = step_results db" using cases f by auto
  show "run_facts db' k = run_facts db k"
    using cases f by (auto simp: run_facts_def option.map_comp comp_def)
  show "map_option rr_execution_hash (tbl_get (runs db') k) = map_option rr_execution_hash (tbl_get (runs db) k)"
    using cases f by (auto simp: option.map_comp comp_def)
  show "tbl_get (runs db') runId = map_option (\<lambda>r. r\<lparr>rr_state := toState\<rparr>) (tbl_get (runs db) runId)" if "r = Inr x"
    using cases f that by auto
qed

lemma transitions_frame:
  assumes "transitions env runId wmd humans ts db = (r, db')"
  shows "step_results db' = step_results db \<and> run_facts db' k = run_facts db k"
  using assms
proof (induction ts arbitrary: db)
  case (Cons t ts)
  obtain a b where t: "t = (a, b)" by (cases t)
  obtain r1 d1 where tr: "transitionState (re_sha env) (re_clk env) runId wmd humans a b db = (r1, d1)" by fastforce
  have "step_results d1 = step_results db" "run_facts d1 k = run_facts db k"
    using transitionState_frame(1,2) [OF tr] by auto
  moreover have "step_results db' = step_results d1 \<and> run_facts db' k = run_facts d1 k"
    using Cons t tr by (cases r1) auto
  ultimately show ?case by simp
qed simp

lemma fresh_step_frame:
  assumes "fresh_step env runId wmd dryRun humans s resolved i prior priorOutput db = (r, db')"
    and "runner_keeps_run env runId"
  shows "run_facts db' runId = run_facts db runId"
    and "fst k = runId \<Longrightarrow> k \<noteq> (runId, st_id s, i) \<Longrightarrow> tbl_get (step_results db') k = tbl_get (step_results db) k"
    and "r = Inr (Stepped output od) \<Longrightarrow> \<exists>now d. run_digest (re_sha env) output = Inr d \<and> od = sha256ref d
      \<and> tbl_get (step_results db') (runId, st_id s, i) = Some \<lparr>sr_output = output, sr_output_digest = od, sr_completed_at = now\<rparr>"
proof -
  let ?s = "case resolved of None \<Rightarrow> s | Some r \<Rightarrow> s\<lparr>st_resolved := Some r\<rparr>"
  obtain r1 d1 where run: "invoke_runner env runId dryRun ?s prior db = (r1, d1)" by fastforce
  have keep: "tbl_get (runs d1) runId = tbl_get (runs db) runId"
    "\<And>k. fst k = runId \<Longrightarrow> tbl_get (step_results d1) k = tbl_get (step_results db) k"
  proof -
    have "dryRun \<or> d1 = snd (re_runner env ?s prior runId db)" "dryRun \<Longrightarrow> d1 = db"
      using run by (auto simp: invoke_runner_def split: if_splits prod.splits sum.splits)
    then show "tbl_get (runs d1) runId = tbl_get (runs db) runId"
      "\<And>k. fst k = runId \<Longrightarrow> tbl_get (step_results d1) k = tbl_get (step_results db) k"
      using assms(2) unfolding runner_keeps_run_def by blast+
  qed
  obtain r2 d2 where tr: "transitionState (re_sha env) (re_clk env) runId wmd humans (Some Running) Awaiting_data db = (r2, d2)"
    by fastforce
  consider (same) "db' = db" "\<exists>e. r = Inl e"
    | (held) "db' = d2" "\<forall>u d. r \<noteq> Inr (Stepped u d)"
    | (threw) "db' = d1" "\<exists>e. r = Inl e"
    | (stepped) out od d where "r = Inr (Stepped out od)" "run_digest (re_sha env) out = Inr d" "od = sha256ref d"
       "db' = d1\<lparr>step_results := tbl_replace (runId, st_id s, i)
          \<lparr>sr_output = out, sr_output_digest = od, sr_completed_at = re_clk env (At_step (st_id s) i)\<rparr> (step_results d1)\<rparr>"
  proof -
    let ?g = "case re_gate env of None \<Rightarrow> Inr None | Some gate \<Rightarrow> gate s prior priorOutput runId db"
    let ?no = "dryRun \<and> (case re_can_dispatch env of None \<Rightarrow> False | Some can \<Rightarrow> \<not> can s)"
    consider (1) e where "?g = Inl e" | (2) h where "?g = Inr (Some h)" | (3) "?g = Inr None" ?no
      | (4) "?g = Inr None" "\<not> ?no"
      by (metis option.exhaust sum.exhaust)
    then show thesis
    proof cases
      case 1
      then show ?thesis using same assms(1) by (auto simp: fresh_step_def)
    next
      case 2
      then show ?thesis using held assms(1) tr by (cases r2) (auto simp: fresh_step_def)
    next
      case 3
      then show ?thesis using same assms(1) by (auto simp: fresh_step_def)
    next
      case 4
      have e: "fresh_step env runId wmd dryRun humans s resolved i prior priorOutput db =
          (case invoke_runner env runId dryRun ?s prior db of
               (Inl e, db1) \<Rightarrow> (Inl e, db1)
             | (Inr output, db1) \<Rightarrow>
                 (case saveStepResult (re_sha env) (re_clk env (At_step (st_id s) i)) runId (st_id s)
                         i output db1 of
                    (Inl e, db2) \<Rightarrow> (Inl e, db2)
                  | (Inr outputDigest, db2) \<Rightarrow> (Inr (Stepped output outputDigest), db2)))"
        unfolding fresh_step_def using 4 by (simp only: sum.case option.case if_False)
      show ?thesis
      proof (cases r1)
        case (Inl x)
        then show ?thesis using threw assms(1) by (auto simp: e run)
      next
        case (Inr out)
        show ?thesis
        proof (cases "run_digest (re_sha env) out")
          case (Inl x)
          then show ?thesis using threw assms(1) Inr by (auto simp: e run saveStepResult_def)
        next
          case d: (Inr d)
          then show ?thesis using stepped [of out "sha256ref d" d] assms(1) Inr
            by (simp add: e run saveStepResult_def Let_def)
        qed
      qed
    qed
  qed
  note c = this
  from c show "run_facts db' runId = run_facts db runId"
    by cases (use keep transitionState_frame(2) [OF tr] in \<open>simp_all add: run_facts_def\<close>)
  from c show "tbl_get (step_results db') k = tbl_get (step_results db) k" if "fst k = runId" "k \<noteq> (runId, st_id s, i)"
    by cases (use that keep transitionState_frame(1) [OF tr] in simp_all)
  from c show "\<exists>now d. run_digest (re_sha env) output = Inr d \<and> od = sha256ref d
      \<and> tbl_get (step_results db') (runId, st_id s, i) = Some \<lparr>sr_output = output, sr_output_digest = od, sr_completed_at = now\<rparr>"
    if "r = Inr (Stepped output od)"
    by cases (use that in auto)
qed

text \<open>A step's inputs depend on the database only through its memo row.\<close>

lemma step_inputs_cases:
  assumes "step_inputs sha runId dryRun db prior outs s = Inr (resolved, i, memo)"
  shows "resolveBoundParams s outs = Inr resolved"
    and "stepInputDigest sha runId s prior dryRun resolved = Inr i"
    and "getMemoizedStep sha db runId (st_id s) i = Inr memo"
  using assms by (auto simp: step_inputs_def)

lemma getMemoizedStep_None: "getMemoizedStep sha db runId sid i = Inr None \<longleftrightarrow> tbl_get (step_results db) (runId, sid, i) = None"
  by (auto simp: getMemoizedStep_def split: option.split)

lemma getMemoizedStep_Some:
  "getMemoizedStep sha db runId sid i = Inr (Some (out, od)) \<longleftrightarrow>
     (\<exists>now d. tbl_get (step_results db) (runId, sid, i)
         = Some \<lparr>sr_output = out, sr_output_digest = od, sr_completed_at = now\<rparr>
       \<and> run_digest sha out = Inr d \<and> od = sha256ref d)"
proof (cases "tbl_get (step_results db) (runId, sid, i)")
  case (Some row)
  then show ?thesis by (cases row) (auto simp: getMemoizedStep_def)
qed (simp add: getMemoizedStep_def)

lemma step_inputs_mono:
  assumes "step_inputs sha runId dryRun db prior outs s = Inr (resolved, i, Some m)" and "memo_le runId db db'"
  shows "step_inputs sha runId dryRun db' prior outs s = Inr (resolved, i, Some m)"
proof -
  obtain out od where m: "m = (out, od)" by (cases m)
  from step_inputs_cases [OF assms(1)] assms(2) show ?thesis
    by (auto simp: step_inputs_def m getMemoizedStep_Some memo_le_def)
qed

lemma fresh_step_memo:
  assumes "fresh_step env runId wmd dryRun humans s resolved i prior priorOutput db = (r, db')"
    and "runner_keeps_run env runId" and "tbl_get (step_results db) (runId, st_id s, i) = None"
  shows "memo_le runId db db'"
  using fresh_step_frame(2) [OF assms(1,2)] assms(3) unfolding memo_le_def by (metis option.distinct(1))

lemma run_steps_memo:
  assumes "run_steps env runId wmd dryRun humans ss prior priorOutput digests outs db = (r, db')"
    and "runner_keeps_run env runId"
  shows "memo_le runId db db' \<and> run_facts db' runId = run_facts db runId"
  using assms(1)
proof (induction ss arbitrary: prior priorOutput digests outs db)
  case (Cons s ss)
  show ?case
  proof (cases "step_inputs (re_sha env) runId dryRun db prior outs s")
    case (Inl e)
    then show ?thesis using Cons.prems by simp
  next
    case (Inr t)
    obtain resolved i memo where t: "t = (resolved, i, memo)" by (cases t)
    show ?thesis
    proof (cases memo)
      case (Some m)
      then show ?thesis using Cons.prems Cons.IH Inr t by (cases m) simp
    next
      case None
      obtain r1 db1 where f: "fresh_step env runId wmd dryRun humans s resolved i prior priorOutput db = (r1, db1)" by fastforce
      have "tbl_get (step_results db) (runId, st_id s, i) = None"
        using step_inputs_cases(3) [OF Inr [unfolded t]] None by (simp add: getMemoizedStep_None)
      then have le: "memo_le runId db db1" "run_facts db1 runId = run_facts db runId"
        using fresh_step_memo [OF f assms(2)] fresh_step_frame(1) [OF f assms(2)] by auto
      show ?thesis
      proof (cases r1)
        case (Inl e)
        then show ?thesis using Cons.prems Inr t None f le by simp
      next
        case r: (Inr sr)
        show ?thesis
        proof (cases sr)
          case (Held h)
          then show ?thesis using Cons.prems Inr t None f le r by simp
        next
          case (Stepped out od)
          then have "memo_le runId db1 db' \<and> run_facts db' runId = run_facts db1 runId"
            using Cons.prems Inr t None f r by (intro Cons.IH) simp
          then show ?thesis using le memo_le_trans by metis
        qed
      qed
    qed
  qed
qed simp

text \<open>What the executor did can be replayed from the memo table alone.\<close>

lemma run_steps_replay:
  assumes "run_steps env runId wmd dryRun humans ss prior priorOutput digests outs db = (Inr (digests', None), db')"
    and "runner_keeps_run env runId" and "memo_le runId db' db''"
  shows "replay_steps (re_sha env) runId dryRun db'' ss prior digests outs = Inr digests'"
  using assms(1)
proof (induction ss arbitrary: prior priorOutput digests outs db)
  case (Cons s ss)
  show ?case
  proof (cases "step_inputs (re_sha env) runId dryRun db prior outs s")
    case (Inl e)
    then show ?thesis using Cons.prems by simp
  next
    case (Inr t)
    obtain resolved i memo where t: "t = (resolved, i, memo)" by (cases t)
    have le: "memo_le runId db db''"
      using run_steps_memo [OF Cons.prems assms(2)] memo_le_trans assms(3) by blast
    show ?thesis
    proof (cases memo)
      case (Some m)
      then have "step_inputs (re_sha env) runId dryRun db'' prior outs s = Inr (resolved, i, Some m)"
        using step_inputs_mono [OF _ le] Inr t by simp
      then show ?thesis using Cons.prems Cons.IH Inr t Some by (cases m) simp
    next
      case None
      obtain r1 db1 where f: "fresh_step env runId wmd dryRun humans s resolved i prior priorOutput db = (r1, db1)" by fastforce
      with Cons.prems Inr t None obtain out od where r1: "r1 = Inr (Stepped out od)"
        by (cases r1) (auto split: step_result.splits)
      let ?ds = "digests @ [\<lparr>sd_step_id = st_id s, sd_input_digest = i, sd_output_digest = od\<rparr>]"
      have rest: "run_steps env runId wmd dryRun humans ss (Some od) (Some out) ?ds (tbl_upsert (st_id s) out outs) db1
          = (Inr (digests', None), db')"
        using Cons.prems Inr t None f r1 by simp
      have le1: "memo_le runId db1 db''" using run_steps_memo [OF rest assms(2)] memo_le_trans assms(3) by blast
      have "step_inputs (re_sha env) runId dryRun db1 prior outs s = Inr (resolved, i, Some (out, od))"
        using step_inputs_cases(1,2) [OF Inr [unfolded t]] fresh_step_frame(3) [OF f assms(2) r1]
        by (auto simp: step_inputs_def getMemoizedStep_Some)
      then have "step_inputs (re_sha env) runId dryRun db'' prior outs s = Inr (resolved, i, Some (out, od))"
        using step_inputs_mono [OF _ le1] by simp
      then show ?thesis using Cons.IH [OF rest] by simp
    qed
  qed
qed simp

text \<open>Where every step has its memo row, the executor does nothing but read them.\<close>

lemma run_steps_memoized:
  assumes "replay_steps (re_sha env) runId dryRun db ss prior digests outs = Inr digests'"
  shows "run_steps env runId wmd dryRun humans ss prior priorOutput digests outs db = (Inr (digests', None), db)"
  using assms
proof (induction ss arbitrary: prior priorOutput digests outs)
  case (Cons s ss)
  then obtain resolved i out od where
    s: "step_inputs (re_sha env) runId dryRun db prior outs s = Inr (resolved, i, Some (out, od))"
    by (auto split: option.splits)
  with Cons show ?case by simp
qed simp

lemma start_run_facts:
  assumes "start_run env runId wmd manifest dryRun humans db = (r, db1)"
    and "run_facts db runId \<in> {None, Some (manifest, dryRun, wmd)}"
  shows "run_facts db1 runId = Some (manifest, dryRun, wmd) \<and> step_results db1 = step_results db"
proof -
  let ?row = "\<lparr>rr_manifest_digest = wmd, rr_manifest = manifest, rr_dry_run = dryRun, rr_state = Draft,
                rr_execution_hash = None, rr_created_at = re_clk env At_created\<rparr>"
  let ?db0 = "db\<lparr>runs := runs db @ [(runId, ?row)]\<rparr>"
  obtain r0 d0 where start: "(if tbl_get (runs db) runId = None
         then transitions env runId wmd humans [(None, Draft), (Some Draft, Validated), (Some Validated, Queued)] ?db0
         else (Inr (), db)) = (r0, d0)" by fastforce
  have d0: "run_facts d0 runId = Some (manifest, dryRun, wmd) \<and> step_results d0 = step_results db"
  proof (cases "tbl_get (runs db) runId")
    case None
    then have "transitions env runId wmd humans [(None, Draft), (Some Draft, Validated), (Some Validated, Queued)] ?db0 = (r0, d0)"
      using start by simp
    from transitions_frame [OF this, of runId] None show ?thesis
      by (simp add: run_facts_def map_add_def)
  next
    case (Some row)
    then show ?thesis using start assms(2) by (auto simp: run_facts_def)
  qed
  show ?thesis
  proof (cases r0)
    case (Inl e)
    then show ?thesis using assms(1) start d0 by (simp add: start_run_def)
  next
    case (Inr u)
    show ?thesis
    proof (cases "\<exists>st. currentState d0 runId = Some st \<and> (st = Queued \<or> st = Awaiting_data)")
      case True
      then obtain st where st: "currentState d0 runId = Some st" "st = Queued \<or> st = Awaiting_data" by blast
      then have "transitions env runId wmd humans [(Some st, Running)] d0 = (r, db1)"
        using assms(1) start Inr by (simp add: start_run_def)
      from transitions_frame [OF this, of runId] d0 show ?thesis by simp
    next
      case False
      then have "db1 = d0" using assms(1) start Inr by (auto simp: start_run_def split: option.splits)
      then show ?thesis using d0 by simp
    qed
  qed
qed

lemma transitions_state:
  assumes "transitions env runId wmd humans (ts @ [(a, b)]) db = (Inr u, db')" and "tbl_get (runs db) runId \<noteq> None"
  shows "currentState db' runId = Some b"
  using assms
proof (induction ts arbitrary: db)
  case Nil
  then obtain x where tr: "transitionState (re_sha env) (re_clk env) runId wmd humans a b db = (Inr x, db')"
    by (auto split: prod.splits sum.splits)
  from transitionState_frame(4) [OF tr HOL.refl] Nil(2) show ?case by (auto simp: currentState_def)
next
  case (Cons t ts)
  obtain c d where t: "t = (c, d)" by (cases t)
  obtain r1 d1 where tr: "transitionState (re_sha env) (re_clk env) runId wmd humans c d db = (r1, d1)" by fastforce
  have "tbl_get (runs d1) runId \<noteq> None"
    using transitionState_frame(2) [OF tr, of runId] Cons.prems(2) by (auto simp: run_facts_def)
  then show ?case using Cons t tr by (cases r1) auto
qed

lemma start_run_not_completed:
  assumes "start_run env runId wmd manifest dryRun humans db = (Inr u, db1)" and "currentState db runId \<noteq> Some Completed"
  shows "currentState db1 runId \<noteq> Some Completed"
proof -
  let ?row = "\<lparr>rr_manifest_digest = wmd, rr_manifest = manifest, rr_dry_run = dryRun, rr_state = Draft,
                rr_execution_hash = None, rr_created_at = re_clk env At_created\<rparr>"
  let ?db0 = "db\<lparr>runs := runs db @ [(runId, ?row)]\<rparr>"
  obtain r0 d0 where start: "(if tbl_get (runs db) runId = None
         then transitions env runId wmd humans [(None, Draft), (Some Draft, Validated), (Some Validated, Queued)] ?db0
         else (Inr (), db)) = (r0, d0)" by fastforce
  have r0: "r0 = Inr ()" using assms(1) start by (cases r0) (auto simp: start_run_def)
  have d0: "currentState d0 runId \<noteq> Some Completed"
  proof (cases "tbl_get (runs db) runId")
    case None
    then have "transitions env runId wmd humans ([(None, Draft), (Some Draft, Validated)] @ [(Some Validated, Queued)]) ?db0 = (Inr (), d0)"
      using start r0 by simp
    from transitions_state [OF this] None show ?thesis by (simp add: map_add_def)
  next
    case (Some row)
    then show ?thesis using start assms(2) by simp
  qed
  show ?thesis
  proof (cases "\<exists>st. currentState d0 runId = Some st \<and> (st = Queued \<or> st = Awaiting_data)")
    case True
    then obtain st where st: "currentState d0 runId = Some st" "st = Queued \<or> st = Awaiting_data" by blast
    then have "transitions env runId wmd humans ([] @ [(Some st, Running)]) d0 = (Inr u, db1)"
      using assms(1) start r0 by (simp add: start_run_def)
    from transitions_state [OF this] st(1) show ?thesis by (auto simp: currentState_def)
  next
    case False
    then have "db1 = d0" using assms(1) start r0 by (auto simp: start_run_def split: option.splits)
    then show ?thesis using d0 by simp
  qed
qed

lemma executeRun_Inr:
  assumes "executeRun env runId manifest dryRun humans db = (Inr outcome, db')"
  obtains wmd steps db1 where "manifestDigest (re_sha env) manifest = Inr wmd" "planSteps (re_sha env) manifest = Inr steps"
    "start_run env runId wmd manifest dryRun humans db = (Inr (), db1)"
    "(case currentState db1 runId of
        Some Running \<Rightarrow> execute_steps env runId wmd steps dryRun humans db1
      | st \<Rightarrow> (Inr \<lparr>ro_state = st, ro_execution_hash = Option.bind (tbl_get (runs db1) runId) rr_execution_hash,
                          ro_steps = [], ro_held = None\<rparr>, db1)) = (Inr outcome, db')"
proof -
  have "\<exists>ws. and_then (validateManifestBindings (re_sha env) manifest) (\<lambda>_.
             and_then (manifestDigest (re_sha env) manifest) (\<lambda>wmd.
               and_then (planSteps (re_sha env) manifest) (\<lambda>steps. Inr (wmd, steps)))) = Inr ws"
    using assms by (cases "and_then (validateManifestBindings (re_sha env) manifest) (\<lambda>_.
             and_then (manifestDigest (re_sha env) manifest) (\<lambda>wmd.
               and_then (planSteps (re_sha env) manifest) (\<lambda>steps. Inr (wmd, steps))))")
      (auto simp: executeRun_def)
  then obtain wmd steps where w: "manifestDigest (re_sha env) manifest = Inr wmd" "planSteps (re_sha env) manifest = Inr steps"
    "validateManifestBindings (re_sha env) manifest = Inr ()" by auto
  obtain r db1 where s: "start_run env runId wmd manifest dryRun humans db = (r, db1)" by fastforce
  have "r = Inr ()" using assms w s by (cases r) (auto simp: executeRun_def)
  then show ?thesis using that [OF w(1,2)] s assms w by (simp add: executeRun_def)
qed

lemma execute_steps_completed:
  assumes "execute_steps env runId wmd steps dryRun humans db = (Inr outcome, db')"
    and "ro_state outcome = Some Completed"
  obtains digests db1 h db2 x where "run_steps env runId wmd dryRun humans steps None None [] [] db = (Inr (digests, None), db1)"
    "execution_hash (re_sha env) runId wmd digests = Inr h"
    "db2 = db1\<lparr>runs := tbl_update_where runId (\<lambda>r. r\<lparr>rr_execution_hash := Some h\<rparr>) (runs db1)\<rparr>"
    "transitionState (re_sha env) (re_clk env) runId wmd humans (Some Running) Completed db2 = (Inr x, db')"
    "outcome = \<lparr>ro_state = Some Completed, ro_execution_hash = Some h, ro_steps = digests, ro_held = None\<rparr>"
  using assms
  by (auto simp: execute_steps_def finish_run_def Let_def split: sum.splits option.splits prod.splits)

subsection \<open>Properties\<close>


subsection \<open>Resuming and dry runs\<close>

lemma replay_steps_cong:
  "step_results db' = step_results db \<Longrightarrow>
   replay_steps sha runId dryRun db' ss prior digests outs = replay_steps sha runId dryRun db ss prior digests outs"
proof (induction ss arbitrary: prior digests outs)
  case (Cons s ss)
  then have "step_inputs sha runId dryRun db' prior outs s = step_inputs sha runId dryRun db prior outs s"
    by (simp add: step_inputs_def getMemoizedStep_def)
  with Cons show ?case by (cases "step_inputs sha runId dryRun db prior outs s") (auto split: option.splits)
qed simp

text \<open>C2. Crash-resume and replay are one code path: if a run that is marked running already has all
  its step results memoized (its replay succeeds with some hash), executing it again calls neither
  the runner nor the gate (the result is the same whatever they are), and completes with that hash.\<close>

theorem resume_of_memoized_run:
  assumes "replayExecutionHash (re_sha env) db runId = Inr h" and "currentState db runId = Some Running"
    and "manifestDigest (re_sha env) manifest = Inr wmd" and "run_facts db runId = Some (manifest, dryRun, wmd)"
    and "re_sha env' = re_sha env" and "re_clk env' = re_clk env"
  shows "executeRun env' runId manifest dryRun humans db = executeRun env runId manifest dryRun humans db
    \<and> (\<forall>outcome db'. executeRun env runId manifest dryRun humans db = (Inr outcome, db')
         \<longrightarrow> ro_state outcome = Some Completed \<and> ro_execution_hash outcome = Some h)"
proof -
  obtain row where row: "tbl_get (runs db) runId = Some row" "rr_manifest row = manifest" "rr_dry_run row = dryRun"
    "rr_manifest_digest row = wmd" using assms(4) by (auto simp: run_facts_def)
  obtain steps digests where p: "planSteps (re_sha env) manifest = Inr steps"
    and r: "replay_steps (re_sha env) runId dryRun db steps None [] [] = Inr digests"
    and h: "execution_hash (re_sha env) runId wmd digests = Inr h"
    using assms(1) row by (auto simp: replayExecutionHash_def)
  have run: "run_steps e runId wmd dryRun humans steps None None [] [] db = (Inr (digests, None), db)"
    if "re_sha e = re_sha env" for e
    by (rule run_steps_memoized) (simp add: that r)
  have start: "start_run e runId wmd manifest dryRun humans db = (Inr (), db)" for e
    using row assms(2) by (simp add: start_run_def)
  have ex: "executeRun e runId manifest dryRun humans db =
      (case validateManifestBindings (re_sha env) manifest of Inl x \<Rightarrow> (Inl x, db)
       | Inr _ \<Rightarrow> finish_run env runId wmd humans digests db)"
    if "re_sha e = re_sha env" "re_clk e = re_clk env" for e
  proof -
    have "finish_run e runId wmd humans digests db = finish_run env runId wmd humans digests db"
      unfolding finish_run_def that by (rule HOL.refl)
    then show ?thesis
      using run [OF that(1)] start [of e]
      by (cases "validateManifestBindings (re_sha env) manifest")
        (simp_all add: executeRun_def that assms(2,3) p execute_steps_def)
  qed
  show ?thesis
    unfolding ex [OF assms(5,6)] ex [OF HOL.refl HOL.refl]
    by (auto simp: finish_run_def h Let_def split: sum.splits prod.splits)
qed

lemma env_runner_fields:
  "re_sha (env\<lparr>re_runner := f\<rparr>) = re_sha env" "re_clk (env\<lparr>re_runner := f\<rparr>) = re_clk env"
  "re_gate (env\<lparr>re_runner := f\<rparr>) = re_gate env" "re_can_dispatch (env\<lparr>re_runner := f\<rparr>) = re_can_dispatch env"
  by simp_all

lemma run_steps_dry:
  "run_steps (env\<lparr>re_runner := f\<rparr>) runId wmd True humans ss prior priorOutput digests outs db
   = run_steps env runId wmd True humans ss prior priorOutput digests outs db"
proof (induction ss arbitrary: prior priorOutput digests outs db)
  case (Cons s ss)
  have fresh: "fresh_step (env\<lparr>re_runner := f\<rparr>) runId wmd True humans s resolved i prior priorOutput db
      = fresh_step env runId wmd True humans s resolved i prior priorOutput db" for resolved i prior priorOutput db
    unfolding fresh_step_def invoke_runner_def env_runner_fields by simp
  show ?case unfolding run_steps.simps env_runner_fields fresh Cons.IH by (rule HOL.refl)
qed simp

lemma transitions_runner: "transitions (env\<lparr>re_runner := f\<rparr>) runId wmd humans ts db = transitions env runId wmd humans ts db"
proof (induction ts arbitrary: db)
  case (Cons t ts)
  obtain a b where t: "t = (a, b)" by (cases t)
  show ?case unfolding t transitions.simps env_runner_fields Cons.IH by (rule HOL.refl)
qed simp

text \<open>A dry run never invokes the step runner: the database and the result are the same for any
  two runners.\<close>

theorem dry_run_never_invokes_runner:
  "executeRun (env\<lparr>re_runner := f\<rparr>) runId manifest True humans db = executeRun env runId manifest True humans db"
  unfolding executeRun_def start_run_def execute_steps_def finish_run_def env_runner_fields
    transitions_runner run_steps_dry by (rule HOL.refl)

subsection \<open>The lifecycle in the journal\<close>

definition run_log :: "string \<Rightarrow> 'a journal_db_scheme \<Rightarrow> (json option \<times> json option) list" where
  "run_log runId db = map (\<lambda>r. (jget (j_entry r) ''prev_state'', jget (j_entry r) ''state''))
     (stream_rows (run_stream runId) (journal db))"

fun legal_log :: "run_state option \<Rightarrow> (json option \<times> json option) list \<Rightarrow> run_state option \<Rightarrow> bool" where
  \<comment> \<open>the recorded transitions form a path of the lifecycle from the first state to the last\<close>
  "legal_log cur [] e = (cur = e)"
| "legal_log cur ((p, s) # l) e =
     (\<exists>st \<in> set (ALLOWED_TRANSITIONS cur).
        p = Some (JStr (case cur of None \<Rightarrow> ''draft'' | Some c \<Rightarrow> state_name c))
        \<and> s = Some (JStr (state_name st)) \<and> legal_log (Some st) l e)"

definition lifecycle_ok :: "string \<Rightarrow> 'a run_db_scheme \<Rightarrow> bool" where
  \<comment> \<open>the journal's path ends in the state of the row; a row just inserted has no entry yet\<close>
  "lifecycle_ok runId db \<longleftrightarrow>
     (\<exists>e. legal_log None (run_log runId db) e
        \<and> (e = currentState db runId \<or> e = None \<and> currentState db runId = Some Draft))"

definition seq_tight :: "'a journal_db_scheme \<Rightarrow> bool" where
  "seq_tight db \<longleftrightarrow> sqlite_sequence db = fold max (map j_seq (journal db)) 0"

lemma legal_log_snoc:
  "legal_log c l e \<Longrightarrow> st \<in> set (ALLOWED_TRANSITIONS e) \<Longrightarrow>
   legal_log c (l @ [(Some (JStr (case e of None \<Rightarrow> ''draft'' | Some c \<Rightarrow> state_name c)), Some (JStr (state_name st)))]) (Some st)"
  by (induction c l e rule: legal_log.induct) auto

lemma fold_max_idem: "fold max ns (fold max ns (0::nat)) = fold max ns 0"
  by (rule fold_max_bound) (auto intro: fold_max_ge)

lemma seq_tight_next: "seq_tight db \<Longrightarrow> next_rowid db = nextJournalSeq db"
  by (simp add: seq_tight_def next_rowid_def nextJournalSeq_def fold_max_idem)

lemma seq_tight_append:
  assumes "seq_tight db"
  shows "seq_tight (snd (appendEntry sha now s kind r entry db))"
proof -
  have "fold max (map j_seq (journal db)) 0 \<le> next_rowid db"
    using assms by (simp add: seq_tight_next nextJournalSeq_def)
  then show ?thesis using assms by (simp add: appendEntry_cases Let_def seq_tight_def new_row_def)
qed

lemma transition_entry_members:
  "jget (stored_entry ''execution_state'' (Some runId) (transition_entry now runId wmd f t humans n)) ''state''
     = Some (JStr (state_name t))"
  "jget (stored_entry ''execution_state'' (Some runId) (transition_entry now runId wmd f t humans n)) ''prev_state''
     = Some (JStr (case f of None \<Rightarrow> ''draft'' | Some s \<Rightarrow> state_name s))"
proof -
  have "distinct (map fst (transition_entry now runId wmd f t humans n))" by (simp add: transition_entry_def)
  note m = map_of_jspread [OF this]
  show "jget (stored_entry ''execution_state'' (Some runId) (transition_entry now runId wmd f t humans n)) ''state''
     = Some (JStr (state_name t))"
    by (simp add: stored_entry_def m) (simp add: transition_entry_def)
  show "jget (stored_entry ''execution_state'' (Some runId) (transition_entry now runId wmd f t humans n)) ''prev_state''
     = Some (JStr (case f of None \<Rightarrow> ''draft'' | Some s \<Rightarrow> state_name s))"
    by (simp add: stored_entry_def m) (simp add: transition_entry_def)
qed

text \<open>With a tight sequence the journal's number never drifts from the predicted one, and a
  transition out of the state the journal ended in extends the path.\<close>

lemma transitionState_log:
  assumes "transitionState sha clk runId wmd humans fromState toState db = (r, db')"
    and "seq_tight db" and "legal_log None (run_log runId db) fromState"
  shows "seq_tight db'"
    and "r = Inl e \<Longrightarrow> db' = db"
    and "r = Inr x \<Longrightarrow> legal_log None (run_log runId db') (Some toState)"
proof -
  let ?n = "nextJournalSeq db"
  let ?e = "transition_entry (clk (At_entry ?n)) runId wmd fromState toState humans ?n"
  let ?p = "appendEntry sha (clk (At_append ?n)) (run_stream runId) ''execution_state'' (Some runId) ?e db"
  have tight: "seq_tight (snd ?p)" by (rule seq_tight_append [OF assms(2)])
  consider (illegal) "toState \<notin> set (ALLOWED_TRANSITIONS fromState)"
    | (refused) "toState \<in> set (ALLOWED_TRANSITIONS fromState)" "\<not> entry_accepted ''execution_state'' (Some runId) ?e"
    | (ok) "toState \<in> set (ALLOWED_TRANSITIONS fromState)" "entry_accepted ''execution_state'' (Some runId) ?e" by blast
  then have "seq_tight db' \<and> (\<forall>e. r = Inl e \<longrightarrow> db' = db)
    \<and> (\<forall>x. r = Inr x \<longrightarrow> legal_log None (run_log runId db') (Some toState))"
  proof cases
    case illegal
    then show ?thesis using assms by (auto simp: transitionState_def)
  next
    case refused
    then show ?thesis using assms by (auto simp: transitionState_def Let_def appendEntry_cases)
  next
    case ok
    let ?row = "new_row sha (clk (At_append ?n)) (run_stream runId) ''execution_state'' (Some runId)
      (stored_entry ''execution_state'' (Some runId) ?e) (head_rh sha (run_stream runId) db) db"
    have j: "journal (snd ?p) = journal db @ [?row]" and seq: "fst ?p = Inr (?n, j_rh ?row, j_digest ?row)"
      using ok seq_tight_next [OF assms(2)] by (simp_all add: appendEntry_cases Let_def new_row_def)
    obtain q where q: "?p = (Inr (?n, j_rh ?row, j_digest ?row), q)" using seq by (metis prod.collapse)
    have res: "r = Inr (?n, toState)"
      "db' = q\<lparr>runs := tbl_update_where runId (\<lambda>r. r\<lparr>rr_state := toState\<rparr>) (runs q)\<rparr>"
      using assms(1) ok(1) by (auto simp: transitionState_def Let_def q)
    have jq: "journal db' = journal db @ [?row]" using j q res by simp
    have "run_log runId db' = run_log runId db @
        [(Some (JStr (case fromState of None \<Rightarrow> ''draft'' | Some c \<Rightarrow> state_name c)), Some (JStr (state_name toState)))]"
      by (simp add: run_log_def jq new_row_def transition_entry_members)
    then have "legal_log None (run_log runId db') (Some toState)" using legal_log_snoc [OF assms(3) ok(1)] by simp
    moreover have "seq_tight db'" using tight q res by (simp add: seq_tight_def)
    ultimately show ?thesis using res by simp
  qed
  then show "seq_tight db'" "r = Inl e \<Longrightarrow> db' = db"
    "r = Inr x \<Longrightarrow> legal_log None (run_log runId db') (Some toState)" by blast+
qed

definition runner_keeps_journal :: "'a run_env \<Rightarrow> string \<Rightarrow> bool" where
  \<comment> \<open>while a step is awaited, nothing else appends to this run's stream, and row ids stay gap-free\<close>
  "runner_keeps_journal env runId \<longleftrightarrow>
     (\<forall>s prior db. run_log runId (snd (re_runner env s prior runId db)) = run_log runId db
       \<and> (seq_tight db \<longrightarrow> seq_tight (snd (re_runner env s prior runId db))))"

definition at_state :: "string \<Rightarrow> run_state \<Rightarrow> 'a run_db_scheme \<Rightarrow> bool" where
  "at_state runId st db \<longleftrightarrow>
     seq_tight db \<and> legal_log None (run_log runId db) (Some st) \<and> currentState db runId = Some st"

lemma at_state_lifecycle: "at_state runId st db \<Longrightarrow> lifecycle_ok runId db \<and> seq_tight db"
  by (auto simp: at_state_def lifecycle_ok_def)

lemma lifecycle_at_state:
  "lifecycle_ok runId db \<Longrightarrow> seq_tight db \<Longrightarrow> currentState db runId = Some st \<Longrightarrow> st \<noteq> Draft \<Longrightarrow> at_state runId st db"
  by (auto simp: at_state_def lifecycle_ok_def)

lemma at_state_transition:
  assumes "transitionState sha clk runId wmd humans (Some a) b db = (r, db')" and "at_state runId a db"
  shows "r = Inl e \<Longrightarrow> at_state runId a db'" and "r = Inr x \<Longrightarrow> at_state runId b db'"
proof -
  have pre: "seq_tight db" "legal_log None (run_log runId db) (Some a)" "currentState db runId = Some a"
    using assms(2) by (auto simp: at_state_def)
  note log = transitionState_log [OF assms(1) pre(1,2)]
  show "at_state runId a db'" if "r = Inl e" using log(2) [OF that] assms(2) by simp
  show "at_state runId b db'" if "r = Inr x"
  proof -
    have "currentState db' runId = Some b"
      using transitionState_frame(4) [OF assms(1) that] pre(3) by (auto simp: currentState_def)
    then show ?thesis using log(1) log(3) [OF that] by (simp add: at_state_def)
  qed
qed

lemma at_state_frame:
  "at_state runId st db \<Longrightarrow> run_log runId db' = run_log runId db \<Longrightarrow> seq_tight db'
   \<Longrightarrow> tbl_get (runs db') runId = tbl_get (runs db) runId \<Longrightarrow> at_state runId st db'"
  by (simp add: at_state_def currentState_def)

lemma saveStepResult_state: "saveStepResult sha now runId sid i out db = (r, db') \<Longrightarrow> at_state k st db \<Longrightarrow> at_state k st db'"
  by (auto simp: saveStepResult_def at_state_def currentState_def run_log_def seq_tight_def Let_def split: sum.splits)

lemma invoke_runner_state:
  assumes "invoke_runner env runId dryRun s prior db = (r, db')" and "at_state runId st db"
    and "runner_keeps_run env runId" and "runner_keeps_journal env runId"
  shows "at_state runId st db'"
proof (cases dryRun)
  case True
  then show ?thesis using assms(1,2) by (simp add: invoke_runner_def)
next
  case False
  then have db': "db' = snd (re_runner env s prior runId db)"
    using assms(1) by (auto simp: invoke_runner_def split: prod.splits sum.splits)
  have "seq_tight db" using assms(2) by (simp add: at_state_def)
  then show ?thesis
    using assms(3,4) unfolding db' runner_keeps_run_def runner_keeps_journal_def
    by (intro at_state_frame [OF assms(2)]) auto
qed

definition after_step :: "string \<Rightarrow> run_error + step_result \<Rightarrow> 'a run_db_scheme \<Rightarrow> bool" where
  "after_step runId r db = (case r of Inr (Held _) \<Rightarrow> at_state runId Awaiting_data db | _ \<Rightarrow> at_state runId Running db)"

lemma fresh_step_state:
  assumes "fresh_step env runId wmd dryRun humans s resolved i prior priorOutput db = (r, db')"
    and "at_state runId Running db" and "runner_keeps_run env runId" and "runner_keeps_journal env runId"
  shows "after_step runId r db'"
proof -
  let ?s = "case resolved of None \<Rightarrow> s | Some r \<Rightarrow> s\<lparr>st_resolved := Some r\<rparr>"
  let ?g = "case re_gate env of None \<Rightarrow> Inr None | Some gate \<Rightarrow> gate s prior priorOutput runId db"
  let ?no = "dryRun \<and> (case re_can_dispatch env of None \<Rightarrow> False | Some can \<Rightarrow> \<not> can s)"
  obtain r1 d1 where run: "invoke_runner env runId dryRun ?s prior db = (r1, d1)" by fastforce
  obtain r2 d2 where tr: "transitionState (re_sha env) (re_clk env) runId wmd humans (Some Running) Awaiting_data db = (r2, d2)"
    by fastforce
  have d1: "at_state runId Running d1" by (rule invoke_runner_state [OF run assms(2-4)])
  consider (1) e where "?g = Inl e" | (2) h where "?g = Inr (Some h)" | (3) "?g = Inr None" ?no
    | (4) "?g = Inr None" "\<not> ?no"
    by (metis option.exhaust sum.exhaust)
  then show ?thesis
  proof cases
    case 1
    then show ?thesis using assms(1,2) by (auto simp: fresh_step_def after_step_def)
  next
    case 2
    then show ?thesis using assms(1) tr at_state_transition [OF tr assms(2)]
      by (cases r2) (auto simp: fresh_step_def after_step_def)
  next
    case 3
    then show ?thesis using assms(1,2) by (auto simp: fresh_step_def after_step_def)
  next
    case 4
    have e: "fresh_step env runId wmd dryRun humans s resolved i prior priorOutput db =
          (case (r1, d1) of
               (Inl e, db1) \<Rightarrow> (Inl e, db1)
             | (Inr output, db1) \<Rightarrow>
                 (case saveStepResult (re_sha env) (re_clk env (At_step (st_id s) i)) runId (st_id s)
                         i output db1 of
                    (Inl e, db2) \<Rightarrow> (Inl e, db2)
                  | (Inr outputDigest, db2) \<Rightarrow> (Inr (Stepped output outputDigest), db2)))"
      unfolding fresh_step_def run [symmetric] using 4 by (simp only: sum.case option.case if_False)
    show ?thesis
    proof (cases r1)
      case (Inl x)
      then show ?thesis using assms(1) d1 by (auto simp: e after_step_def)
    next
      case (Inr out)
      obtain r3 d3 where sv: "saveStepResult (re_sha env) (re_clk env (At_step (st_id s) i)) runId (st_id s) i out d1 = (r3, d3)"
        by fastforce
      show ?thesis
        using assms(1) Inr sv saveStepResult_state [OF sv d1] by (cases r3) (auto simp: e after_step_def)
    qed
  qed
qed

lemma run_steps_state:
  assumes "run_steps env runId wmd dryRun humans ss prior priorOutput digests outs db = (r, db')"
    and "at_state runId Running db" and "runner_keeps_run env runId" and "runner_keeps_journal env runId"
  shows "case r of Inr (_, Some _) \<Rightarrow> at_state runId Awaiting_data db' | _ \<Rightarrow> at_state runId Running db'"
  using assms(1,2)
proof (induction ss arbitrary: prior priorOutput digests outs db)
  case (Cons s ss)
  show ?case
  proof (cases "step_inputs (re_sha env) runId dryRun db prior outs s")
    case (Inl e)
    then show ?thesis using Cons.prems by auto
  next
    case (Inr t)
    obtain resolved i memo where t: "t = (resolved, i, memo)" by (cases t)
    show ?thesis
    proof (cases memo)
      case (Some m)
      obtain out od where m: "m = (out, od)" by (cases m)
      from Cons.prems(1) Inr t Some m have
        "run_steps env runId wmd dryRun humans ss (Some od) (Some out)
           (digests @ [\<lparr>sd_step_id = st_id s, sd_input_digest = i, sd_output_digest = od\<rparr>])
           (tbl_upsert (st_id s) out outs) db = (r, db')" by simp
      then show ?thesis by (rule Cons.IH [OF _ Cons.prems(2)])
    next
      case None
      obtain r1 db1 where f: "fresh_step env runId wmd dryRun humans s resolved i prior priorOutput db = (r1, db1)" by fastforce
      have a: "after_step runId r1 db1" by (rule fresh_step_state [OF f Cons.prems(2) assms(3,4)])
      show ?thesis
      proof (cases r1)
        case (Inl e)
        then show ?thesis using Cons.prems(1) Inr t None f a by (auto simp: after_step_def)
      next
        case r: (Inr sr)
        show ?thesis
        proof (cases sr)
          case (Held h)
          then show ?thesis using Cons.prems(1) Inr t None f a r by (auto simp: after_step_def)
        next
          case (Stepped out od)
          then have "at_state runId Running db1" using a r by (simp add: after_step_def)
          moreover have "run_steps env runId wmd dryRun humans ss (Some od) (Some out)
             (digests @ [\<lparr>sd_step_id = st_id s, sd_input_digest = i, sd_output_digest = od\<rparr>])
             (tbl_upsert (st_id s) out outs) db1 = (r, db')"
            using Cons.prems(1) Inr t None f r Stepped by simp
          ultimately show ?thesis by (intro Cons.IH)
        qed
      qed
    qed
  qed
qed auto

lemma execute_steps_state:
  assumes "execute_steps env runId wmd steps dryRun humans db = (r, db')"
    and "at_state runId Running db" and "runner_keeps_run env runId" and "runner_keeps_journal env runId"
  shows "\<exists>st. at_state runId st db' \<and> (case r of Inr outcome \<Rightarrow> ro_state outcome = Some st | Inl _ \<Rightarrow> st \<in> {Running, Failed})"
proof -
  obtain r1 d1 where run: "run_steps env runId wmd dryRun humans steps None None [] [] db = (r1, d1)" by fastforce
  note st = run_steps_state [OF run assms(2-4)]
  show ?thesis
  proof (cases r1)
    case (Inl e)
    obtain r2 d2 where tr: "transitionState (re_sha env) (re_clk env) runId wmd humans (Some Running) Failed d1 = (r2, d2)" by fastforce
    have "at_state runId Running d1" using st Inl by simp
    from at_state_transition [OF tr this] show ?thesis
      using assms(1) run Inl tr by (cases r2) (auto simp: execute_steps_def)
  next
    case (Inr p)
    obtain digests held where p: "p = (digests, held)" by (cases p)
    show ?thesis
    proof (cases held)
      case (Some h)
      then show ?thesis using assms(1) run Inr p st by (auto simp: execute_steps_def)
    next
      case None
      have d1: "at_state runId Running d1" using st Inr p None by simp
      have fin: "finish_run env runId wmd humans digests d1 = (r, db')"
        using assms(1) run Inr p None by (simp add: execute_steps_def)
      show ?thesis
      proof (cases "execution_hash (re_sha env) runId wmd digests")
        case (Inl e)
        then show ?thesis using fin d1 by (auto simp: finish_run_def)
      next
        case h: (Inr h)
        let ?d2 = "d1\<lparr>runs := tbl_update_where runId (\<lambda>r. r\<lparr>rr_execution_hash := Some h\<rparr>) (runs d1)\<rparr>"
        have "at_state runId Running ?d2"
          using d1 by (auto simp: at_state_def currentState_def run_log_def seq_tight_def option.map_comp comp_def)
        moreover obtain r2 d3 where tr: "transitionState (re_sha env) (re_clk env) runId wmd humans (Some Running) Completed ?d2 = (r2, d3)"
          by fastforce
        ultimately show ?thesis using at_state_transition [OF tr] fin h tr
          by (cases r2) (auto simp: finish_run_def)
      qed
    qed
  qed
qed

lemma at_state_transitions2:
  assumes "transitions env runId wmd humans [(Some a, b)] db = (r, db')" and "at_state runId a db"
  shows "lifecycle_ok runId db' \<and> seq_tight db'"
proof -
  obtain r1 d1 where tr: "transitionState (re_sha env) (re_clk env) runId wmd humans (Some a) b db = (r1, d1)" by fastforce
  show ?thesis using assms(1) tr at_state_transition [OF tr assms(2)] at_state_lifecycle
    by (cases r1) auto
qed

lemma at_state_transitions3:
  assumes "transitions env runId wmd humans [(Some a, b), (Some b, c)] db = (r, db')" and "at_state runId a db"
  shows "lifecycle_ok runId db' \<and> seq_tight db'"
proof -
  obtain r1 d1 where tr: "transitionState (re_sha env) (re_clk env) runId wmd humans (Some a) b db = (r1, d1)" by fastforce
  show ?thesis
  proof (cases r1)
    case (Inl e)
    then show ?thesis using assms(1) tr at_state_transition [OF tr assms(2)] at_state_lifecycle by auto
  next
    case (Inr x)
    then have "transitions env runId wmd humans [(Some b, c)] d1 = (r, db')" using assms(1) tr by simp
    then show ?thesis using at_state_transitions2 at_state_transition(2) [OF tr assms(2) Inr] by blast
  qed
qed

lemma legal_log_None: "legal_log c l None \<Longrightarrow> c = None \<and> l = []"
  by (induction c l "None :: run_state option" rule: legal_log.induct) auto

lemma new_run_state:
  assumes "transitions env runId wmd humans [(None, Draft), (Some Draft, Validated), (Some Validated, Queued)] db = (r, db')"
    and "seq_tight db" and "run_log runId db = []" and "currentState db runId = Some Draft"
  shows "lifecycle_ok runId db' \<and> seq_tight db'"
proof -
  obtain r1 d1 where tr: "transitionState (re_sha env) (re_clk env) runId wmd humans None Draft db = (r1, d1)" by fastforce
  have l: "legal_log None (run_log runId db) None" by (simp add: assms(3))
  note log = transitionState_log [OF tr assms(2) l]
  show ?thesis
  proof (cases r1)
    case (Inl e)
    then have "db' = db" using assms(1) tr log(2) by simp
    then show ?thesis using assms(2-4) l unfolding lifecycle_ok_def by blast
  next
    case (Inr x)
    have "currentState d1 runId = Some Draft"
      using transitionState_frame(4) [OF tr Inr] assms(4) by (auto simp: currentState_def)
    then have "at_state runId Draft d1" using log(1) log(3) [OF Inr] by (simp add: at_state_def)
    moreover have "transitions env runId wmd humans [(Some Draft, Validated), (Some Validated, Queued)] d1 = (r, db')"
      using assms(1) tr Inr by simp
    ultimately show ?thesis using at_state_transitions3 by blast
  qed
qed

lemma start_run_lifecycle:
  assumes "start_run env runId wmd manifest dryRun humans db = (r, db1)"
    and "lifecycle_ok runId db" and "seq_tight db"
  shows "lifecycle_ok runId db1 \<and> seq_tight db1"
proof -
  let ?row = "\<lparr>rr_manifest_digest = wmd, rr_manifest = manifest, rr_dry_run = dryRun, rr_state = Draft,
                rr_execution_hash = None, rr_created_at = re_clk env At_created\<rparr>"
  let ?db0 = "db\<lparr>runs := runs db @ [(runId, ?row)]\<rparr>"
  obtain r0 d0 where start: "(if tbl_get (runs db) runId = None
         then transitions env runId wmd humans [(None, Draft), (Some Draft, Validated), (Some Validated, Queued)] ?db0
         else (Inr (), db)) = (r0, d0)" by fastforce
  have d0: "lifecycle_ok runId d0 \<and> seq_tight d0"
  proof (cases "tbl_get (runs db) runId")
    case None
    then have tr: "transitions env runId wmd humans [(None, Draft), (Some Draft, Validated), (Some Validated, Queued)] ?db0 = (r0, d0)"
      using start by simp
    have "legal_log None (run_log runId db) None" using assms(2) None by (auto simp: lifecycle_ok_def currentState_def)
    then have "run_log runId db = []" using legal_log_None by blast
    then have "run_log runId ?db0 = []" by (simp add: run_log_def)
    moreover have "currentState ?db0 runId = Some Draft" using None by (simp add: currentState_def map_add_def)
    moreover have "seq_tight ?db0" using assms(3) by (simp add: seq_tight_def)
    ultimately show ?thesis using new_run_state [OF tr] by blast
  next
    case (Some row)
    then show ?thesis using start assms(2,3) by simp
  qed
  show ?thesis
  proof (cases "\<exists>u st. r0 = Inr u \<and> currentState d0 runId = Some st \<and> (st = Queued \<or> st = Awaiting_data)")
    case True
    then obtain u st where st: "r0 = Inr u" "currentState d0 runId = Some st" "st = Queued \<or> st = Awaiting_data" by blast
    then have tr: "transitions env runId wmd humans [(Some st, Running)] d0 = (r, db1)"
      using assms(1) start by (simp add: start_run_def)
    have "at_state runId st d0" using d0 st by (intro lifecycle_at_state) auto
    then show ?thesis using at_state_transitions2 [OF tr] by blast
  next
    case False
    then have "db1 = d0" using assms(1) start by (cases r0) (auto simp: start_run_def split: option.splits)
    then show ?thesis using d0 by simp
  qed
qed

text \<open>C3. The journal's record of a run is always a legal path of the lifecycle, from its start to the
  state in the run's row, through executions, failures, holds and resumptions alike; and the state
  an execution reports is the state of the row. (Provided that, while a step is awaited, nothing
  else writes the run's rows or its stream.)\<close>

theorem executeRun_keeps_lifecycle:
  assumes "executeRun env runId manifest dryRun humans db = (r, db')"
    and "lifecycle_ok runId db" and "seq_tight db"
    and "runner_keeps_run env runId" and "runner_keeps_journal env runId"
  shows "lifecycle_ok runId db' \<and> seq_tight db' \<and>
    (case r of Inr outcome \<Rightarrow> ro_state outcome = currentState db' runId | Inl _ \<Rightarrow> True)"
proof -
  let ?pre = "and_then (validateManifestBindings (re_sha env) manifest) (\<lambda>_.
             and_then (manifestDigest (re_sha env) manifest) (\<lambda>wmd.
               and_then (planSteps (re_sha env) manifest) (\<lambda>steps. Inr (wmd, steps))))"
  show ?thesis
  proof (cases ?pre)
    case (Inl e)
    then have "r = Inl e" "db' = db" using assms(1) by (simp_all only: executeRun_def sum.case prod.inject)
    then show ?thesis using assms(2,3) by simp
  next
    case (Inr ws)
    obtain wmd steps where ws: "ws = (wmd, steps)" by (cases ws)
    obtain r1 db1 where s: "start_run env runId wmd manifest dryRun humans db = (r1, db1)" by fastforce
    have ok: "lifecycle_ok runId db1" "seq_tight db1" using start_run_lifecycle [OF s assms(2,3)] by auto
    have ex: "executeRun env runId manifest dryRun humans db = (case (r1, db1) of
             (Inl e, db1) \<Rightarrow> (Inl e, db1)
           | (Inr _, db1) \<Rightarrow>
               (case currentState db1 runId of
                  Some Running \<Rightarrow> execute_steps env runId wmd steps dryRun humans db1
                | st \<Rightarrow> (Inr \<lparr>ro_state = st, ro_execution_hash = Option.bind (tbl_get (runs db1) runId) rr_execution_hash,
                          ro_steps = [], ro_held = None\<rparr>, db1)))"
      unfolding executeRun_def Inr ws by (simp only: sum.case prod.case s)
    show ?thesis
    proof (cases r1)
      case (Inl e)
      then show ?thesis using assms(1) ok by (auto simp: ex)
    next
      case r1: (Inr u)
      show ?thesis
      proof (cases "currentState db1 runId = Some Running")
        case True
        then have "execute_steps env runId wmd steps dryRun humans db1 = (r, db')" using assms(1) r1 by (simp add: ex)
        moreover have "at_state runId Running db1" using ok True by (intro lifecycle_at_state) auto
        ultimately obtain st where "at_state runId st db'"
          "case r of Inr outcome \<Rightarrow> ro_state outcome = Some st | Inl _ \<Rightarrow> st \<in> {Running, Failed}"
          using execute_steps_state assms(4,5) by blast
        then show ?thesis using at_state_lifecycle by (auto simp: at_state_def split: sum.splits)
      next
        case False
        then have "r = Inr \<lparr>ro_state = currentState db1 runId, ro_execution_hash = Option.bind (tbl_get (runs db1) runId) rr_execution_hash,
                          ro_steps = [], ro_held = None\<rparr> \<and> db' = db1"
          using assms(1) r1 by (auto simp: ex split: option.splits run_state.splits)
        then show ?thesis using ok by simp
      qed
    qed
  qed
qed

subsection \<open>The properties at a concrete run\<close>

definition sample_env :: "unit run_env" where
  "sample_env = \<lparr>re_sha = sample_sha, re_clk = (\<lambda>_. ''t''), re_runner = (\<lambda>s p r db. (Inr (JStr ''out''), db)),
                 re_can_dispatch = None, re_gate = None\<rparr>"

definition sample_wf :: json where
  "sample_wf = JObj [(''connectors'', JArr [JObj [(''connector_id'', JStr ''c1'')]])]"

lemma sample_env_keeps: "runner_keeps_run sample_env r" "runner_keeps_journal sample_env r"
  by (simp_all add: runner_keeps_run_def runner_keeps_journal_def sample_env_def)

lemma transition_succeeds:
  assumes "seq_tight db" and "nextJournalSeq db \<le> 1000" and "toState \<in> set (ALLOWED_TRANSITIONS fromState)"
  shows "\<exists>x db'. transitionState sha clk runId wmd [] fromState toState db = (Inr x, db') \<and> seq_tight db'
    \<and> nextJournalSeq db' = Suc (nextJournalSeq db)"
proof -
  let ?n = "nextJournalSeq db"
  let ?e = "transition_entry (clk (At_entry ?n)) runId wmd fromState toState [] ?n"
  let ?row = "new_row sha (clk (At_append ?n)) (run_stream runId) ''execution_state'' (Some runId)
      (stored_entry ''execution_state'' (Some runId) ?e) (head_rh sha (run_stream runId) db) db"
  have acc: "entry_accepted ''execution_state'' (Some runId) ?e"
    using assms(2) by (simp add: entry_accepted_def ijson_ok_iff assertArt12_def ART12_FIELDS_def
        transition_entry_def jspread_def MAX_DEPTH_def MAX_ELEMENTS_def)
  obtain db1 where p: "appendEntry sha (clk (At_append ?n)) (run_stream runId) ''execution_state'' (Some runId) ?e db
      = (Inr (?n, j_rh ?row, j_digest ?row), db1)" and j: "journal db1 = journal db @ [?row]"
    and s: "sqlite_sequence db1 = ?n"
    using acc seq_tight_next [OF assms(1)] by (simp add: appendEntry_cases Let_def new_row_def)
  have row: "j_seq ?row = ?n" using seq_tight_next [OF assms(1)] by (simp add: new_row_def)
  have mx: "fold max (map j_seq (journal db1)) 0 = ?n" using row by (simp add: j nextJournalSeq_def)
  show ?thesis
    using assms(3) by (simp add: transitionState_def Let_def p) (simp add: seq_tight_def nextJournalSeq_def s mx)
qed

lemma sample_plan:
  "\<exists>s. planSteps sample_sha sample_wf = Inr [s] \<and> st_id s = ''connectors:c1'' \<and> st_bindings s = None \<and> (\<exists>d. st_digest s = JStr d)"
proof -
  have "\<exists>s. map_err (plan_item sample_sha ''connectors'' ''connector_id'') [JObj [(''connector_id'', JStr ''c1'')]] = Inr [s]
     \<and> st_id s = ''connectors:c1'' \<and> st_bindings s = None \<and> (\<exists>d. st_digest s = JStr d)"
    by (simp add: plan_item_def jprop_def content_digest_def Let_def run_digest_Inr ijson_ok_iff
        MAX_DEPTH_def MAX_ELEMENTS_def)
  then obtain s where s: "map_err (plan_item sample_sha ''connectors'' ''connector_id'') [JObj [(''connector_id'', JStr ''c1'')]] = Inr [s]"
    "st_id s = ''connectors:c1''" "st_bindings s = None" "\<exists>d. st_digest s = JStr d"
    by (elim exE conjE) (rule that, auto)
  have "plan_layers sample_sha sample_wf STEP_LAYERS = Inr [s]"
    by (simp add: STEP_LAYERS_def sample_wf_def jprop_def js_iter_def s(1) del: map_err.simps(2))
  then have "base_steps sample_sha sample_wf = Inr [s\<lparr>st_seq := 0\<rparr>]" by (simp add: base_steps_def)
  then have "planSteps sample_sha sample_wf = Inr [s\<lparr>st_seq := 0\<rparr>]"
    by (simp add: planSteps_def jprop_def sample_wf_def)
  then show ?thesis using s(2-4) by auto
qed

lemma sample_digest: "manifestDigest sample_sha sample_wf = Inr (sha256ref (sample_sha (recordCanonV1 sample_wf)))"
  by (simp add: manifestDigest_def run_digest_Inr ijson_ok_iff MAX_DEPTH_def MAX_ELEMENTS_def sample_wf_def)

lemma sample_start:
  "\<exists>db1. start_run sample_env ''r'' wmd sample_wf False [] initRunTables = (Inr (), db1)
     \<and> seq_tight db1 \<and> nextJournalSeq db1 = 5 \<and> currentState db1 ''r'' = Some Running \<and> step_results db1 = []"
proof -
  let ?row = "\<lparr>rr_manifest_digest = wmd, rr_manifest = sample_wf, rr_dry_run = False, rr_state = Draft,
                rr_execution_hash = None, rr_created_at = ''t''\<rparr>"
  let ?d0 = "initRunTables\<lparr>runs := [(''r'', ?row)]\<rparr>"
  have init: "runs initRunTables = []" "step_results initRunTables = []" "journal initRunTables = []" "sqlite_sequence initRunTables = 0"
    by (simp_all add: initRunTables_def openJournal_def run_db.defs journal_db.defs)
  have d0: "seq_tight ?d0" "nextJournalSeq ?d0 = 1" by (simp_all add: seq_tight_def nextJournalSeq_def init)
  let ?tr = "\<lambda>a b d. transitionState sample_sha (\<lambda>_. ''t'') ''r'' wmd [] a b d"
  obtain x1 d1 where 1: "?tr None Draft ?d0 = (Inr x1, d1)" "seq_tight d1" "nextJournalSeq d1 = 2"
    using transition_succeeds [OF d0(1), of Draft None] d0(2) by force
  obtain x2 d2 where 2: "?tr (Some Draft) Validated d1 = (Inr x2, d2)" "seq_tight d2" "nextJournalSeq d2 = 3"
    using transition_succeeds [OF 1(2), of Validated "Some Draft"] 1(3) by force
  obtain x3 d3 where 3: "?tr (Some Validated) Queued d2 = (Inr x3, d3)" "seq_tight d3" "nextJournalSeq d3 = 4"
    using transition_succeeds [OF 2(2), of Queued "Some Validated"] 2(3) by force
  obtain x4 d4 where 4: "?tr (Some Queued) Running d3 = (Inr x4, d4)" "seq_tight d4" "nextJournalSeq d4 = 5"
    using transition_succeeds [OF 3(2), of Running "Some Queued"] 3(3) by force
  have row: "\<exists>r. tbl_get (runs d1) ''r'' = Some r" "\<exists>r. tbl_get (runs d2) ''r'' = Some r" "\<exists>r. tbl_get (runs d3) ''r'' = Some r"
    using transitionState_frame(4) [OF 1(1) HOL.refl] transitionState_frame(4) [OF 2(1) HOL.refl]
      transitionState_frame(4) [OF 3(1) HOL.refl] by auto
  have st: "currentState d3 ''r'' = Some Queued" "currentState d4 ''r'' = Some Running"
    using transitionState_frame(4) [OF 3(1) HOL.refl] transitionState_frame(4) [OF 4(1) HOL.refl] row
    by (auto simp: currentState_def)
  have "step_results d4 = []"
    using transitionState_frame(1) [OF 1(1)] transitionState_frame(1) [OF 2(1)] transitionState_frame(1) [OF 3(1)]
      transitionState_frame(1) [OF 4(1)] init by simp
  then show ?thesis
    using 4(2,3) st by (simp add: start_run_def init sample_env_def 1(1) 2(1) 3(1) 4(1))
qed

lemma sample_inputs:
  assumes "step_results db1 = []" and "st_id s = ''connectors:c1''" "st_bindings s = None" "st_digest s = JStr d"
  obtains i where "step_inputs sample_sha ''r'' False db1 None [] s = Inr (None, i, None)"
  using assms
  by (auto simp: step_inputs_def resolveBoundParams_def stepInputDigest_def run_digest_Inr ijson_ok_iff
        MAX_DEPTH_def MAX_ELEMENTS_def getMemoizedStep_None)

lemma sample_hash: "\<exists>h. execution_hash sample_sha ''r'' (sha256ref x) [y] = Inr h"
  by (auto simp: execution_hash_def run_digest_Inr ijson_ok_iff MAX_DEPTH_def MAX_ELEMENTS_def)

lemma sample_run_completes:
  "\<exists>outcome db'. executeRun sample_env ''r'' sample_wf False [] initRunTables = (Inr outcome, db')
     \<and> ro_state outcome = Some Completed"
proof -
  let ?wmd = "sha256ref (sample_sha (recordCanonV1 sample_wf))"
  obtain s d where s: "planSteps sample_sha sample_wf = Inr [s]" "st_id s = ''connectors:c1''" "st_bindings s = None"
    "st_digest s = JStr d" using sample_plan by (elim exE conjE) (rule that)
  obtain db1 where start: "start_run sample_env ''r'' ?wmd sample_wf False [] initRunTables = (Inr (), db1)"
    and db1: "seq_tight db1" "nextJournalSeq db1 = 5" "currentState db1 ''r'' = Some Running" "step_results db1 = []"
    using sample_start by blast
  obtain i where i: "step_inputs sample_sha ''r'' False db1 None [] s = Inr (None, i, None)"
    using sample_inputs [OF db1(4) s(2-4)] by blast
  have dg: "run_digest sample_sha (JStr ''out'') = Inr (sample_sha (recordCanonV1 (JStr ''out'')))"
    by (simp add: run_digest_Inr ijson_ok_iff MAX_DEPTH_def MAX_ELEMENTS_def)
  obtain ds db2 where run: "run_steps sample_env ''r'' ?wmd False [] [s] None None [] [] db1 = (Inr (ds, None), db2)"
    and ds: "length ds = 1" and db2: "journal db2 = journal db1" "sqlite_sequence db2 = sqlite_sequence db1"
    using i by (simp add: sample_env_def fresh_step_def invoke_runner_def saveStepResult_def dg Let_def)
  obtain y where ds': "ds = [y]" using ds by (cases ds) auto
  obtain h where h: "execution_hash sample_sha ''r'' ?wmd ds = Inr h"
    using sample_hash ds' by blast
  let ?db3 = "db2\<lparr>runs := tbl_update_where ''r'' (\<lambda>r. r\<lparr>rr_execution_hash := Some h\<rparr>) (runs db2)\<rparr>"
  have db3: "seq_tight ?db3" "nextJournalSeq ?db3 = 5"
    using db1(1,2) by (simp_all add: seq_tight_def nextJournalSeq_def db2)
  then obtain x db4 where fin: "transitionState sample_sha (\<lambda>_. ''t'') ''r'' ?wmd [] (Some Running) Completed ?db3 = (Inr x, db4)"
    using transition_succeeds [OF db3(1), of Completed "Some Running"] by force
  have e: "re_sha sample_env = sample_sha" "re_clk sample_env = (\<lambda>_. ''t'')" by (simp_all add: sample_env_def)
  have v: "validateManifestBindings sample_sha sample_wf = Inr ()"
    by (simp add: validateManifestBindings_def jprop_def sample_wf_def)
  have "execute_steps sample_env ''r'' ?wmd [s] False [] db1 =
      (Inr \<lparr>ro_state = Some Completed, ro_execution_hash = Some h, ro_steps = ds, ro_held = None\<rparr>, db4)"
    by (simp add: execute_steps_def run finish_run_def e h fin del: run_steps.simps)
  then show ?thesis using start db1(3) by (simp add: executeRun_def e v sample_digest s(1))
qed

lemma initRunTables_start: "run_facts initRunTables r = None" "currentState initRunTables r = None"
  "lifecycle_ok r initRunTables" "seq_tight initRunTables"
  by (simp_all add: initRunTables_def openJournal_def run_db.defs journal_db.defs run_facts_def currentState_def
      lifecycle_ok_def seq_tight_def run_log_def)


lemma executeRun_keeps_lifecycle_witness:
  "\<exists>outcome db'. executeRun sample_env ''r'' sample_wf False [] initRunTables = (Inr outcome, db') \<and> lifecycle_ok ''r'' db'"
proof -
  obtain outcome db' where e: "executeRun sample_env ''r'' sample_wf False [] initRunTables = (Inr outcome, db')"
    using sample_run_completes by blast
  then show ?thesis
    using executeRun_keeps_lifecycle [OF e initRunTables_start(3,4) sample_env_keeps] by blast
qed

lemma resume_of_memoized_run_witness:
  "\<exists>db. currentState db ''r'' = Some Running \<and>
     executeRun (sample_env\<lparr>re_runner := \<lambda>s p r d. (Inl ''never'', d)\<rparr>) ''r'' sample_wf False [] db
     = executeRun sample_env ''r'' sample_wf False [] db"
proof -
  let ?wmd = "sha256ref (sample_sha (recordCanonV1 sample_wf))"
  obtain s d where s: "planSteps sample_sha sample_wf = Inr [s]" "st_id s = ''connectors:c1''" "st_bindings s = None"
    "st_digest s = JStr d" using sample_plan by (elim exE conjE) (rule that)
  obtain db1 where start: "start_run sample_env ''r'' ?wmd sample_wf False [] initRunTables = (Inr (), db1)"
    and db1: "currentState db1 ''r'' = Some Running" "step_results db1 = []"
    using sample_start by blast
  obtain i where i: "step_inputs sample_sha ''r'' False db1 None [] s = Inr (None, i, None)"
    using sample_inputs [OF db1(2) s(2-4)] by blast
  have dg: "run_digest sample_sha (JStr ''out'') = Inr (sample_sha (recordCanonV1 (JStr ''out'')))"
    by (simp add: run_digest_Inr ijson_ok_iff MAX_DEPTH_def MAX_ELEMENTS_def)
  obtain y db2 where run: "run_steps sample_env ''r'' ?wmd False [] [s] None None [] [] db1 = (Inr ([y], None), db2)"
    and db2: "runs db2 = runs db1"
    using i by (simp add: sample_env_def fresh_step_def invoke_runner_def saveStepResult_def dg Let_def)
  obtain h where h: "execution_hash sample_sha ''r'' ?wmd [y] = Inr h" using sample_hash by blast
  have facts: "run_facts db2 ''r'' = Some (sample_wf, False, ?wmd)"
    using start_run_facts [OF start] initRunTables_start(1) db2 by (simp add: run_facts_def)
  obtain row where row: "tbl_get (runs db2) ''r'' = Some row" "rr_manifest row = sample_wf" "rr_dry_run row = False"
    "rr_manifest_digest row = ?wmd" by (rule run_factsE [OF facts])
  have e: "re_sha sample_env = sample_sha" by (simp add: sample_env_def)
  have "replay_steps sample_sha ''r'' False db2 [s] None [] [] = Inr [y]"
    using run_steps_replay [OF run sample_env_keeps(1) memo_le_refl] by (simp only: e)
  then have rep: "replayExecutionHash (re_sha sample_env) db2 ''r'' = Inr h"
    by (simp add: replayExecutionHash_def row s(1) h e del: replay_steps.simps)
  have st: "currentState db2 ''r'' = Some Running" using db1(1) db2 by (simp add: currentState_def)
  have "manifestDigest (re_sha sample_env) sample_wf = Inr ?wmd" by (simp add: e sample_digest)
  note ex = conjunct1 [OF resume_of_memoized_run [OF rep st this facts]]
  show ?thesis by (intro exI [of _ db2] conjI st ex) simp_all
qed

end
