(* ===== verification/Kernel_Runner.thy ===== *)
theory Kernel_Runner
  imports Run_Engine
begin

text \<open>
  How a step of a run is executed: \<^verbatim>\<open>hub/kernel-runner.mjs\<close>,
  \<^verbatim>\<open>hub/attested-artifact-runner.mjs\<close> and the RFC 8785 serialiser of
  \<^verbatim>\<open>hub/vendored/ocg/kernels/_hash.mjs\<close>. The registry of kernels (one module each, with a
  computation and an artifact builder) is a parameter, as are the manifest of vendored files that pins
  their digests and the two verifiers of a zero-knowledge proof.
\<close>

subsection \<open>The RFC 8785 serialiser\<close>

fun jcsStringify :: "json \<Rightarrow> string" where
  "jcsStringify (JArr xs) = CHR ''['' # join_with '','' (map jcsStringify xs) @ '']''"
| "jcsStringify (JObj kvs) =
     CHR ''{'' # join_with '','' (map (\<lambda>(k, s). quote_str k @ '':'' @ s)
        (sort_key fst (map (\<lambda>(k, v). (k, jcsStringify v)) kvs))) @ ''}''"
| "jcsStringify v = json_stringify v"

datatype kernel_error =
    Unknown_kernel "json option"
  | Digest_mismatch "json option" string
  | Build_failed string
  | Proof_binding_failed
  | Proof_seal_failed
  | Bad_sha256ref string
  | Not_ijson ijson_error
  | No_runner_for_kind string string
  | Other_runner_failed string
  | Kernel_type_error

definition executionHash :: "(string \<Rightarrow> string) \<Rightarrow> json \<Rightarrow> json \<Rightarrow> ijson_error + string" where
  "executionHash sha policy_parameters output_payload =
     (let obj = JObj [(''policy_parameters'', policy_parameters), (''output_payload'', output_payload)]
      in and_then (assertIJson obj) (\<lambda>_. Inr (sha (jcsStringify obj))))"

subsection \<open>Attested artifacts\<close>

definition is_sha256ref :: "json option \<Rightarrow> bool" where
  \<comment> \<open>\<open>SHA256REF.test(value ?? "")\<close>; a value that is not a string is tested in its string form\<close>
  "is_sha256ref v =
     (let s = (if js_nullish v then [] else js_template v)
      in take 7 s = ''sha256:'' \<and> is_hex64 (drop 7 s))"

definition verifyClassDigestHex :: "(string \<Rightarrow> string) \<Rightarrow> json \<Rightarrow> kernel_error + string \<times> string" where
  "verifyClassDigestHex sha obj =
     (case assertIJson obj of
        Inl e \<Rightarrow> Inl (Not_ijson e)
      | Inr _ \<Rightarrow>
          let jcsHex = sha (jcsStringify obj); v1Hex = sha (recordCanonV1 obj)
          in Inr (jcsHex, if jcsHex = v1Hex then ''rfc8785'' else ''legacy-v1-divergent''))"

definition opt_members :: "(string \<times> json option) list \<Rightarrow> (string \<times> json) list" where
  \<comment> \<open>an object literal; a member that is \<open>undefined\<close> is left out\<close>
  "opt_members ms = List.map_filter (\<lambda>(k, v). map_option (Pair k) v) ms"

definition runAttestedArtifact :: "(string \<Rightarrow> string) \<Rightarrow> step \<Rightarrow> kernel_error + json" where
  "runAttestedArtifact sha s =
     (let item = (if st_item s = JNull then JObj [] else st_item s);
          tool_ref = jget item ''tool_ref''; inputs_digest = jget item ''inputs_digest''; artifact = jget item ''artifact''
      in and_then (each_err (\<lambda>(label, v). guard_err (is_sha256ref v) (Bad_sha256ref label))
             [(''tool_ref.manifest_digest'', jget_opt tool_ref ''manifest_digest''),
              (''inputs_digest'', inputs_digest),
              (''artifact.content_digest'', jget_opt artifact ''content_digest'')]) (\<lambda>_.
         and_then (verifyClassDigestHex sha (JObj (opt_members
             [(''tool_ref'', tool_ref), (''inputs_digest'', inputs_digest), (''artifact'', artifact)]))) (\<lambda>(h, canonicalization).
         Inr (JObj (opt_members
           [(''trust_label'', Some (JStr ''hash_verified'')), (''artifact_id'', jget item ''artifact_id''),
            (''tool_ref'', tool_ref), (''inputs_digest'', inputs_digest),
            (''artifact'', Some (js_with (or_empty_obj artifact) ''execution_hash'' (JStr h))),
            (''canonicalization'', Some (JStr canonicalization))])))))"

subsection \<open>Kernels\<close>

record kernel =
  k_compute :: "json \<Rightarrow> string + json"
  k_build :: "json \<Rightarrow> json \<Rightarrow> string + json"

record kernel_env =
  ke_sha :: "string \<Rightarrow> string"
  ke_kernels :: "string \<Rightarrow> kernel option"
  ke_manifest :: json
  ke_bind :: "json \<Rightarrow> json \<Rightarrow> bool"
  ke_seal :: "json \<Rightarrow> bool"

definition kernel_suffix :: string where "kernel_suffix = ''.kernel.mjs''"

definition KERNEL_FILE_DIGESTS :: "json \<Rightarrow> (string, string) tbl" where
  \<comment> \<open>file name without directory and suffix, digest; of two entries with the same name the last one counts\<close>
  "KERNEL_FILE_DIGESTS manifest =
     rev (List.map_filter (\<lambda>(_, f).
       case jget f ''path'' of
         Some (JStr p) \<Rightarrow>
           if starts_with p ''kernels/'' \<and> ends_with p kernel_suffix
           then Some (take (length p - 8 - length kernel_suffix) (drop 8 p), ''sha256:'' @ js_template (jget f ''sha256''))
           else None
       | _ \<Rightarrow> None) (js_entries (or_empty_obj (jget manifest ''files''))))"

definition pinnedKernelDigest :: "kernel_env \<Rightarrow> string \<Rightarrow> kernel_error + string" where
  "pinnedKernelDigest env kernelId =
     (case tbl_get (KERNEL_FILE_DIGESTS (ke_manifest env)) kernelId of
        None \<Rightarrow> Inl (Unknown_kernel (Some (JStr kernelId))) | Some d \<Rightarrow> Inr d)"

definition find_kernel :: "kernel_env \<Rightarrow> json option \<Rightarrow> kernel_error + string \<times> kernel" where
  \<comment> \<open>\<open>KERNELS[kernelId]\<close>\<close>
  "find_kernel env kernelId =
     (case ke_kernels env (js_template kernelId) of
        None \<Rightarrow> Inl (Unknown_kernel kernelId) | Some k \<Rightarrow> Inr (js_template kernelId, k))"

definition validateKernelInputs :: "kernel_env \<Rightarrow> json option \<Rightarrow> json option \<Rightarrow> kernel_error + string option" where
  \<comment> \<open>\<open>None\<close> for inputs the kernel accepts, \<open>Some\<close> the message it throws\<close>
  "validateKernelInputs env kernelId policyParameters =
     and_then (find_kernel env kernelId) (\<lambda>(_, k).
       Inr (case k_compute k (or_empty_obj policyParameters) of Inl m \<Rightarrow> Some m | Inr _ \<Rightarrow> None))"

definition skipped_node :: "json \<Rightarrow> json" where
  \<comment> \<open>the reason is a text about the kernel id\<close>
  "skipped_node item = JObj (opt_members
     [(''execution_state'', Some (JStr ''skipped_by_design'')), (''node_id'', jget item ''node_id''),
      (''kernel_id'', jget item ''kernel_id''),
      (''reason'', Some (JStr (''verified:false: no vendored kernel for tool_id '' @ js_template (jget item ''kernel_id''))))])"

definition kernel_parameters :: "json \<Rightarrow> json option \<Rightarrow> json" where
  \<comment> \<open>\<open>{ ...(item.policy_parameters ?? {}), ...(step.resolvedParams ?? {}) }\<close>\<close>
  "kernel_parameters item resolved =
     JObj (jspread (js_entries (or_empty_obj (jget item ''policy_parameters''))) (js_entries (or_empty_obj resolved)))"

definition or_default :: "json \<Rightarrow> json option \<Rightarrow> json" where
  \<comment> \<open>\<open>v ?? d\<close>\<close>
  "or_default d v = (if js_nullish v then d else the v)"

definition check_compute_proof :: "kernel_env \<Rightarrow> json \<Rightarrow> json \<Rightarrow> kernel_error + json" where
  \<comment> \<open>the value of \<open>compute_proof_verified\<close>\<close>
  "check_compute_proof env item artifact =
     (let computeProof = jget_opt (jget artifact ''audit_signature'') ''compute_proof''
      in if \<not> js_truthy computeProof then Inr JNull
         else if \<not> ke_bind env artifact (or_default (JArr []) (jget item ''compute_images'')) then Inl Proof_binding_failed
         else if jget_opt computeProof ''receiptFormat'' = Some (JStr ''groth16-bn254'') \<and> \<not> ke_seal env (the computeProof)
         then Inl Proof_seal_failed
         else Inr (JBool True))"

definition build_artifact :: "string \<Rightarrow> step \<Rightarrow> kernel \<Rightarrow> kernel_error + json" where
  "build_artifact now s k =
     (let item = st_item s
      in case k_build k (kernel_parameters item (st_resolved s))
                (JObj [(''now'', JStr now),
                       (''parent_hashes'', or_default (JArr []) (jget item ''parent_hashes'')),
                       (''parent_tool_ids'', or_default (JArr []) (jget item ''parent_tool_ids'')),
                       (''chain_depth'', or_default (JNum 0) (jget item ''chain_depth''))]) of
           Inl m \<Rightarrow> Inl (Build_failed m)
         | Inr a \<Rightarrow> if a = JNull then Inl Kernel_type_error else Inr a)"

definition verified_output :: "json \<Rightarrow> string \<Rightarrow> json \<Rightarrow> json \<Rightarrow> json" where
  "verified_output item pinnedDigest artifact verdict =
     JObj (opt_members
       [(''trust_label'', Some (JStr ''kernel_verified'')), (''kernel_id'', jget item ''kernel_id''),
        (''kernel_digest'', Some (JStr pinnedDigest)), (''artifact'', Some artifact),
        (''compute_proof_verified'', Some verdict)])"

definition digest_agrees :: "json \<Rightarrow> string \<Rightarrow> bool" where
  "digest_agrees item pinnedDigest \<longleftrightarrow>
     (js_truthy (jget item ''kernel_digest'') \<longrightarrow> jget item ''kernel_digest'' = Some (JStr pinnedDigest))"

definition run_found_kernel :: "kernel_env \<Rightarrow> string \<Rightarrow> step \<Rightarrow> string \<Rightarrow> kernel \<Rightarrow> kernel_error + json" where
  "run_found_kernel env now s kernelId k =
     and_then (pinnedKernelDigest env kernelId) (\<lambda>pinnedDigest.
     and_then (guard_err (digest_agrees (st_item s) pinnedDigest) (Digest_mismatch (jget (st_item s) ''kernel_digest'') pinnedDigest)) (\<lambda>_.
     and_then (build_artifact now s k) (\<lambda>artifact.
     and_then (check_compute_proof env (st_item s) artifact) (\<lambda>verdict.
     Inr (verified_output (st_item s) pinnedDigest artifact verdict)))))"

definition runKernelNode :: "kernel_env \<Rightarrow> string \<Rightarrow> step \<Rightarrow> kernel_error + json" where
  "runKernelNode env now s =
     (let item = st_item s
      in if item = JNull then Inl Kernel_type_error
         else if jget item ''verified'' = Some (JBool False) then Inr (skipped_node item)
         else and_then (find_kernel env (jget item ''kernel_id'')) (\<lambda>(kernelId, k). run_found_kernel env now s kernelId k))"

subsection \<open>The step runner\<close>

record 'd other_runner =
  or_run :: "step \<Rightarrow> string option \<Rightarrow> string \<Rightarrow> 'd \<Rightarrow> (string + json) \<times> 'd"
  or_can_dispatch :: "(step \<Rightarrow> bool) option"

definition canDispatch :: "'d other_runner option \<Rightarrow> step \<Rightarrow> bool" where
  "canDispatch otherKindsRunner s =
     (if st_kind s = ''nodes'' then True
      else if st_kind s = ''attested_artifacts'' then True
      else case otherKindsRunner of
             None \<Rightarrow> False
           | Some r \<Rightarrow> (case or_can_dispatch r of Some f \<Rightarrow> f s | None \<Rightarrow> True))"

definition stepRunner ::
  "kernel_env \<Rightarrow> string \<Rightarrow> 'd other_runner option \<Rightarrow> step \<Rightarrow> string option \<Rightarrow> string \<Rightarrow> 'd \<Rightarrow> (kernel_error + json) \<times> 'd" where
  "stepRunner env now otherKindsRunner s prior runId db =
     (if st_kind s = ''nodes'' then (runKernelNode env now s, db)
      else if st_kind s = ''attested_artifacts'' then (runAttestedArtifact (ke_sha env) s, db)
      else case otherKindsRunner of
             Some r \<Rightarrow> (case or_run r s prior runId db of
                          (Inl m, db1) \<Rightarrow> (Inl (Other_runner_failed m), db1) | (Inr x, db1) \<Rightarrow> (Inr x, db1))
           | None \<Rightarrow> (Inl (No_runner_for_kind (st_kind s) (st_id s)), db))"

definition createKernelStepRunner ::
  "kernel_env \<Rightarrow> string \<Rightarrow> (kernel_error \<Rightarrow> string) \<Rightarrow> 'a run_db_scheme other_runner option \<Rightarrow> 'a run_env \<Rightarrow> 'a run_env" where
  \<comment> \<open>the runner and its predicate, placed into the environment that the engine is called with\<close>
  "createKernelStepRunner env now message otherKindsRunner re =
     re\<lparr>re_runner := (\<lambda>s prior runId db. map_prod (map_sum message id) id (stepRunner env now otherKindsRunner s prior runId db)),
        re_can_dispatch := Some (canDispatch otherKindsRunner)\<rparr>"

subsection \<open>The two serialisers\<close>

text \<open>No object of the value has a member named like an array index or \<open>__proto__\<close>.\<close>

fun ordinary_names :: "json \<Rightarrow> bool" where
  "ordinary_names (JArr xs) = list_all ordinary_names xs"
| "ordinary_names (JObj kvs) = list_all (\<lambda>(k, v). \<not> is_array_index k \<and> k \<noteq> ''__proto__'' \<and> ordinary_names v) kvs"
| "ordinary_names _ = True"

lemma insort_map_snd:
  "insort_key fst (k, g v) (map (\<lambda>(k, v). (k, g v)) kvs) = map (\<lambda>(k, v). (k, g v)) (insort_key fst (k, v) kvs)"
  by (induction kvs) auto

lemma sort_key_map_snd:
  "sort_key fst (map (\<lambda>(k, v). (k, g v)) kvs) = map (\<lambda>(k, v). (k, g v)) (sort_key (fst :: string \<times> 'a \<Rightarrow> string) kvs)"
  by (induction kvs) (auto simp: insort_map_snd)

lemma enum_order_ordinary: "list_all (\<lambda>p. \<not> is_array_index (fst p)) kvs \<Longrightarrow> enum_order kvs = kvs"
proof -
  assume a: "list_all (\<lambda>p. \<not> is_array_index (fst p)) kvs"
  then have "filter (\<lambda>p. is_array_index (fst p)) kvs = []" "filter (\<lambda>p. \<not> is_array_index (fst p)) kvs = kvs"
    by (auto simp: filter_empty_conv filter_id_conv list_all_iff)
  then show ?thesis unfolding enum_order_def by simp
qed

lemma canon_members_ordinary:
  assumes "list_all (\<lambda>p. \<not> is_array_index (fst p) \<and> fst p \<noteq> ''__proto__'') kvs"
  shows "canon_members kvs = sort_key fst kvs"
proof -
  have "filter (\<lambda>p. fst p \<noteq> ''__proto__'') (sort_key fst kvs) = sort_key fst kvs"
    using assms by (auto simp: filter_id_conv list_all_iff)
  then show ?thesis using assms by (simp add: canon_members_def enum_order_ordinary list_all_iff)
qed

lemma serialisers_agree:
  "ordinary_names v \<Longrightarrow> jcsStringify v = recordCanonV1 v"
proof (induction v)
  case (JArr xs)
  then have m: "map jcsStringify xs = map (json_stringify \<circ> cgCanonV1) xs"
    by (auto simp: list_all_iff recordCanonV1_def)
  show ?case by (simp add: recordCanonV1_def m)
next
  case (JObj kvs)
  have m: "map (\<lambda>(k, v). (k, jcsStringify v)) kvs = map (\<lambda>(k, v). (k, json_stringify (cgCanonV1 v))) kvs"
    using JObj by (fastforce simp: list_all_iff recordCanonV1_def)
  have o: "list_all (\<lambda>p. \<not> is_array_index (fst p) \<and> fst p \<noteq> ''__proto__'') (map (\<lambda>(k, v). (k, cgCanonV1 v)) kvs)"
    using JObj.prems by (auto simp: list_all_iff)
  have "map (\<lambda>(k, s). quote_str k @ '':'' @ s) (sort_key fst (map (\<lambda>(k, v). (k, jcsStringify v)) kvs))
      = map (\<lambda>(k, v). quote_str k @ '':'' @ json_stringify v) (canon_members (map (\<lambda>(k, v). (k, cgCanonV1 v)) kvs))"
    unfolding m canon_members_ordinary [OF o] sort_key_map_snd by (simp add: split_def)
  then show ?case by (simp only: jcsStringify.simps recordCanonV1_def cgCanonV1.simps json_stringify.simps)
qed (simp_all add: recordCanonV1_def)

text \<open>For every value without index-like member names and without \<open>__proto__\<close>, the RFC 8785
  serialiser and the frozen canonical form of the records give the same bytes, so the two digests of an
  attested artifact agree and its verdict is not "divergent".\<close>

theorem serialisers_agree_on_ordinary_names:
  "ordinary_names v \<Longrightarrow> jcsStringify v = recordCanonV1 v"
  by (rule serialisers_agree)

lemma serialisers_agree_on_ordinary_names_witness:
  "jcsStringify (JObj [(''b'', JNum 1), (''a'', JArr [JNull])]) = recordCanonV1 (JObj [(''b'', JNum 1), (''a'', JArr [JNull])])"
  by (rule serialisers_agree_on_ordinary_names) (simp add: is_array_index_def is_digit_def)



subsection \<open>What the label of a step output promises\<close>

lemma opt_members_Nil [simp]: "opt_members [] = []"
  by (simp add: opt_members_def List.map_filter_def)

lemma opt_members_Cons [simp]:
  "opt_members ((k, v) # ms) = (case v of None \<Rightarrow> opt_members ms | Some x \<Rightarrow> (k, x) # opt_members ms)"
  by (simp add: opt_members_def List.map_filter_def split: option.split)

text \<open>C15. An output labelled \<open>kernel_verified\<close> is exactly the artifact that the registered kernel builds
  from the node's parameters overridden by the bound values; the digest it names is the pinned one, a
  digest in the manifest equals it, and a zero-knowledge proof in the artifact was checked for its
  binding and, in the Groth16 format, for its seal.\<close>

theorem kernel_verified_output:
  assumes "runKernelNode env now s = Inr out" and "jget out ''trust_label'' = Some (JStr ''kernel_verified'')"
  shows "\<exists>k pinned artifact. ke_kernels env (js_template (jget (st_item s) ''kernel_id'')) = Some k
    \<and> pinnedKernelDigest env (js_template (jget (st_item s) ''kernel_id'')) = Inr pinned
    \<and> (js_truthy (jget (st_item s) ''kernel_digest'') \<longrightarrow> jget (st_item s) ''kernel_digest'' = Some (JStr pinned))
    \<and> jget out ''kernel_digest'' = Some (JStr pinned) \<and> jget out ''artifact'' = Some artifact
    \<and> (\<exists>opts. k_build k (kernel_parameters (st_item s) (st_resolved s)) opts = Inr artifact)
    \<and> (\<forall>p. jget_opt (jget artifact ''audit_signature'') ''compute_proof'' = Some p \<and> js_truthy (Some p) \<longrightarrow>
         ke_bind env artifact (or_default (JArr []) (jget (st_item s) ''compute_images''))
         \<and> (jget p ''receiptFormat'' = Some (JStr ''groth16-bn254'') \<longrightarrow> ke_seal env p))"
proof -
  have sk: "jget (skipped_node (st_item s)) ''trust_label'' = None"
    by (simp add: skipped_node_def split: option.split)
  have nn: "st_item s \<noteq> JNull" using assms(1) by (cases "st_item s = JNull") (simp_all add: runKernelNode_def)
  have nv: "jget (st_item s) ''verified'' \<noteq> Some (JBool False)"
  proof
    assume "jget (st_item s) ''verified'' = Some (JBool False)"
    then have "out = skipped_node (st_item s)" using assms(1) nn by (simp add: runKernelNode_def)
    with sk assms(2) show False by simp
  qed
  obtain i k where k: "find_kernel env (jget (st_item s) ''kernel_id'') = Inr (i, k)" and r: "run_found_kernel env now s i k = Inr out"
    using assms(1) nv nn by (cases "find_kernel env (jget (st_item s) ''kernel_id'')") (auto simp: runKernelNode_def)
  obtain pinned a verdict where p: "pinnedKernelDigest env i = Inr pinned" and d: "digest_agrees (st_item s) pinned"
    and a: "build_artifact now s k = Inr a" and c: "check_compute_proof env (st_item s) a = Inr verdict"
    and out: "out = verified_output (st_item s) pinned a verdict"
    using r unfolding run_found_kernel_def by auto
  have ki: "ke_kernels env (js_template (jget (st_item s) ''kernel_id'')) = Some k" "i = js_template (jget (st_item s) ''kernel_id'')"
    using k by (auto simp: find_kernel_def split: option.splits)
  moreover have "jget out ''kernel_digest'' = Some (JStr pinned)" "jget out ''artifact'' = Some a"
    by (auto simp: out verified_output_def split: option.split)
  moreover have "\<exists>opts. k_build k (kernel_parameters (st_item s) (st_resolved s)) opts = Inr a"
    using a by (auto simp: build_artifact_def Let_def split: sum.splits if_splits)
  moreover have "\<forall>p. jget_opt (jget a ''audit_signature'') ''compute_proof'' = Some p \<and> js_truthy (Some p) \<longrightarrow>
         ke_bind env a (or_default (JArr []) (jget (st_item s) ''compute_images''))
         \<and> (jget p ''receiptFormat'' = Some (JStr ''groth16-bn254'') \<longrightarrow> ke_seal env p)"
  proof (intro allI impI)
    fix p
    assume "jget_opt (jget a ''audit_signature'') ''compute_proof'' = Some p \<and> js_truthy (Some p)"
    then have "check_compute_proof env (st_item s) a =
       (if \<not> ke_bind env a (or_default (JArr []) (jget (st_item s) ''compute_images'')) then Inl Proof_binding_failed
        else if jget p ''receiptFormat'' = Some (JStr ''groth16-bn254'') \<and> \<not> ke_seal env p then Inl Proof_seal_failed
        else Inr (JBool True))"
      unfolding check_compute_proof_def Let_def by (simp add: jget_opt_def)
    with c show "ke_bind env a (or_default (JArr []) (jget (st_item s) ''compute_images''))
         \<and> (jget p ''receiptFormat'' = Some (JStr ''groth16-bn254'') \<longrightarrow> ke_seal env p)"
      by (simp split: if_split_asm)
  qed
  ultimately show ?thesis using p d unfolding digest_agrees_def by metis
qed

definition sample_kernel_env :: kernel_env where
  "sample_kernel_env = \<lparr>ke_sha = (\<lambda>s. s),
     ke_kernels = (\<lambda>i. if i = ''art-1'' then Some \<lparr>k_compute = (\<lambda>p. Inr p), k_build = (\<lambda>p opts. Inr p)\<rparr> else None),
     ke_manifest = JObj [(''files'', JObj [(''f'', JObj [(''path'', JStr ''kernels/art-1.kernel.mjs''), (''sha256'', JStr ''00'')])])],
     ke_bind = (\<lambda>_ _. False), ke_seal = (\<lambda>_. False)\<rparr>"

definition sample_node :: step where
  "sample_node = \<lparr>st_id = ''nodes:n1'', st_kind = ''nodes'', st_item = JObj [(''kernel_id'', JStr ''art-1''), (''node_id'', JStr ''n1'')],
     st_digest = JNull, st_seq = 0, st_bindings = None, st_params = None, st_resolved = None\<rparr>"

lemma sample_node_runs: "\<exists>out. runKernelNode sample_kernel_env ''t'' sample_node = Inr out
    \<and> jget out ''trust_label'' = Some (JStr ''kernel_verified'')"
proof -
  have "map_sum (\<lambda>_. ()) (\<lambda>out. jget out ''trust_label'') (runKernelNode sample_kernel_env ''t'' sample_node) = Inr (Some (JStr ''kernel_verified''))"
    by code_simp
  then show ?thesis by (cases "runKernelNode sample_kernel_env ''t'' sample_node") auto
qed

lemma kernel_verified_output_witness:
  "\<exists>out. runKernelNode sample_kernel_env ''t'' sample_node = Inr out \<and> jget out ''kernel_digest'' = Some (JStr ''sha256:00'')"
proof -
  obtain out where o: "runKernelNode sample_kernel_env ''t'' sample_node = Inr out" "jget out ''trust_label'' = Some (JStr ''kernel_verified'')"
    using sample_node_runs by blast
  have id: "js_template (jget (st_item sample_node) ''kernel_id'') = ''art-1''" by (simp add: sample_node_def)
  have "pinnedKernelDigest sample_kernel_env ''art-1'' = Inr ''sha256:00''" by code_simp
  then show ?thesis using kernel_verified_output [OF o] o(1) unfolding id by (elim exE conjE) (intro exI conjI, auto)
qed

end
