(* ===== verification/Schema_Validator.thy ===== *)
theory Schema_Validator
  imports Js_Values
begin

text \<open>
  \<^verbatim>\<open>scripts/lib/schema-validator.mjs\<close>: the JSON Schema subset that the hub checks its records with.
  A schema is a JSON value. Matching a pattern is the parameter \<open>matches\<close> (\<open>RegExp.test\<close>). Since
  a \<open>$ref\<close> may refer to itself, the recursion has fuel; \<open>None\<close> stands for running out of it and
  for the exceptions of a malformed schema. Member lookup with \<open>in\<close> is lookup of own members.
\<close>

datatype schema_fault =
    Unresolved_ref string
  | OneOf_matched nat nat
  | Branch schema_error
  | Not_const | Not_in_enum | Wrong_type | No_match | Too_short | Too_few_items
  | Missing_required string
  | Additional_property string
and schema_error = Fault string schema_fault

definition isObj :: "json \<Rightarrow> bool" where
  "isObj d = (case d of JObj _ \<Rightarrow> True | _ \<Rightarrow> False)"

fun typeOk :: "json \<Rightarrow> json \<Rightarrow> bool" where
  "typeOk (JArr ts) d = list_ex (\<lambda>t. typeOk t d) ts"
| "typeOk (JStr t) d =
     (if t = ''object'' then isObj d
      else if t = ''null'' then d = JNull
      else if t = ''array'' then (case d of JArr _ \<Rightarrow> True | _ \<Rightarrow> False)
      else if t = ''string'' then (case d of JStr _ \<Rightarrow> True | _ \<Rightarrow> False)
      else if t = ''number'' then (case d of JNum _ \<Rightarrow> True | _ \<Rightarrow> False)
      else if t = ''integer'' then (case d of JNum _ \<Rightarrow> True | _ \<Rightarrow> False)
      else if t = ''boolean'' then (case d of JBool _ \<Rightarrow> True | _ \<Rightarrow> False)
      else True)"
| "typeOk _ d = True"

definition resolveRef :: "string \<Rightarrow> json \<Rightarrow> json option" where
  "resolveRef ref root =
     (if \<not> starts_with ref ''#/'' then None
      else fold (\<lambda>seg o'. if js_truthy o' then js_index (the o') seg else None) (js_split (CHR ''/'') (drop 2 ref)) (Some root))"

fun gather :: "'a list option list \<Rightarrow> 'a list option" where
  "gather [] = Some []"
| "gather (x # xs) = (case (x, gather xs) of (Some a, Some b) \<Rightarrow> Some (a @ b) | _ \<Rightarrow> None)"

definition fault_if :: "bool \<Rightarrow> string \<Rightarrow> schema_fault \<Rightarrow> schema_error list" where
  "fault_if b path f = (if b then [Fault path f] else [])"

fun jmembers :: "json option \<Rightarrow> (string \<times> json) list" where
  "jmembers (Some (JObj kvs)) = kvs"
| "jmembers _ = []"

definition check_scalar :: "(string \<Rightarrow> string \<Rightarrow> bool) \<Rightarrow> json \<Rightarrow> json \<Rightarrow> string \<Rightarrow> schema_error list" where
  \<comment> \<open>the pattern, length and item-count checks\<close>
  "check_scalar matches schema data path =
     (case data of
        JStr s \<Rightarrow>
          fault_if (case jget schema ''pattern'' of Some (JStr p) \<Rightarrow> p \<noteq> [] \<and> \<not> matches p s | _ \<Rightarrow> False) path No_match
          @ fault_if (case jget schema ''minLength'' of Some (JNum m) \<Rightarrow> int (length s) < m | _ \<Rightarrow> False) path Too_short
      | JArr xs \<Rightarrow>
          fault_if (case jget schema ''minItems'' of Some (JNum m) \<Rightarrow> int (length xs) < m | _ \<Rightarrow> False) path Too_few_items
      | _ \<Rightarrow> [])"

definition check_names :: "json \<Rightarrow> json \<Rightarrow> string \<Rightarrow> schema_error list" where
  \<comment> \<open>additional properties\<close>
  "check_names schema data path =
     (if jget schema ''additionalProperties'' = Some (JBool False) \<and> js_truthy (jget schema ''properties'')
      then map (\<lambda>k. Fault path (Additional_property k))
             (filter (\<lambda>k. k \<notin> fst ` set (jmembers (jget schema ''properties''))) (map fst (jmembers (Some data))))
      else [])"

definition check_required :: "json \<Rightarrow> json \<Rightarrow> string \<Rightarrow> schema_error list" where
  "check_required schema data path =
     map (\<lambda>k. Fault path (Missing_required (js_string k)))
       (filter (\<lambda>k. jget data (js_string k) = None) (jarr_or_empty (jget schema ''required'')))"

definition closest_branch :: "schema_error list list \<Rightarrow> schema_error list" where
  "closest_branch bs = (case bs of [] \<Rightarrow> [] | b # rest \<Rightarrow> fold (\<lambda>b a. if length b < length a then b else a) rest b)"

type_synonym validator = "json \<Rightarrow> json \<Rightarrow> string \<Rightarrow> schema_error list option"

definition oneOf_verdict :: "string \<Rightarrow> schema_error list option list \<Rightarrow> schema_error list option" where
  \<comment> \<open>\<open>reduce\<close> of no branches throws\<close>
  "oneOf_verdict path results =
     (let errs = List.map_filter id results;
          passing = length (filter (\<lambda>e. e = []) errs)
      in if results = [] \<or> None \<in> set results then None
         else if passing = 1 then Some []
         else Some (Fault path (OneOf_matched passing (length results))
                    # map (\<lambda>e. Fault path (Branch e)) (take 4 (closest_branch errs))))"

definition check_value :: "json \<Rightarrow> json \<Rightarrow> string \<Rightarrow> schema_error list" where
  \<comment> \<open>\<open>const\<close> and \<open>enum\<close>\<close>
  "check_value schema data path =
     fault_if (case jget schema ''const'' of None \<Rightarrow> False
               | Some c \<Rightarrow> json_stringify data \<noteq> json_stringify c) path Not_const
     @ fault_if (js_truthy (jget schema ''enum'')
               \<and> \<not> list_ex (\<lambda>v. json_stringify v = json_stringify data) (jarr_or_empty (jget schema ''enum''))) path Not_in_enum"

definition check_items :: "validator \<Rightarrow> json \<Rightarrow> json list \<Rightarrow> string \<Rightarrow> schema_error list option" where
  "check_items rec schema xs path =
     (if js_truthy (jget schema ''items'')
      then gather (map (\<lambda>(i, d). rec (the (jget schema ''items'')) d (path @ ''['' @ show_nat i @ '']'')) (List.enumerate 0 xs))
      else Some [])"

definition check_properties :: "validator \<Rightarrow> json \<Rightarrow> json \<Rightarrow> string \<Rightarrow> schema_error list option" where
  "check_properties rec schema data path =
     gather (map (\<lambda>(k, s). case jget data k of None \<Rightarrow> Some [] | Some v \<Rightarrow> rec s v (path @ ''.'' @ k))
               (jmembers (jget schema ''properties'')))"

definition validate_plain :: "(string \<Rightarrow> string \<Rightarrow> bool) \<Rightarrow> validator \<Rightarrow> json \<Rightarrow> json \<Rightarrow> string \<Rightarrow> schema_error list option" where
  \<comment> \<open>a schema without \<open>$ref\<close> and \<open>oneOf\<close>\<close>
  "validate_plain matches rec schema data path =
     (if js_truthy (jget schema ''type'') \<and> \<not> typeOk (the (jget schema ''type'')) data
      then Some (check_value schema data path @ [Fault path Wrong_type])
      else map_option (\<lambda>es. check_value schema data path @ check_scalar matches schema data path @ es)
        (case data of
           JArr xs \<Rightarrow> check_items rec schema xs path
         | JObj kvs \<Rightarrow> map_option (\<lambda>es. check_required schema data path @ es @ check_names schema data path)
                        (check_properties rec schema data path)
         | _ \<Rightarrow> Some []))"

definition validate_step ::
  "(string \<Rightarrow> string \<Rightarrow> bool) \<Rightarrow> json \<Rightarrow> validator \<Rightarrow> json \<Rightarrow> json \<Rightarrow> string \<Rightarrow> schema_error list option" where
  "validate_step matches root rec schema data path =
     (if schema = JNull then None
      else if js_truthy (jget schema ''$ref'') then
        (case jget schema ''$ref'' of
           Some (JStr ref) \<Rightarrow>
             (if js_truthy (resolveRef ref root)
              then rec (the (resolveRef ref root)) data path
              else Some [Fault path (Unresolved_ref ref)])
         | _ \<Rightarrow> None)
      else if js_truthy (jget schema ''oneOf'') then
        (case jget schema ''oneOf'' of
           Some (JArr branches) \<Rightarrow> oneOf_verdict path (map (\<lambda>s. rec s data path) branches)
         | _ \<Rightarrow> None)
      else validate_plain matches rec schema data path)"

fun validate ::
  "(string \<Rightarrow> string \<Rightarrow> bool) \<Rightarrow> nat \<Rightarrow> json \<Rightarrow> json \<Rightarrow> json \<Rightarrow> string \<Rightarrow> schema_error list option" where
  "validate matches 0 root schema data path = None"
| "validate matches (Suc n) root schema data path =
     validate_step matches root (validate matches n root) schema data path"

subsection \<open>More fuel changes nothing\<close>

lemma gather_mono:
  "gather (map f xs) = Some es \<Longrightarrow> (\<And>x e. x \<in> set xs \<Longrightarrow> f x = Some e \<Longrightarrow> g x = Some e) \<Longrightarrow> gather (map g xs) = Some es"
  by (induction xs arbitrary: es) (auto split: option.splits)

lemma map_total_mono:
  "None \<notin> set (map f xs) \<Longrightarrow> (\<And>x e. x \<in> set xs \<Longrightarrow> f x = Some e \<Longrightarrow> g x = Some e) \<Longrightarrow> map g xs = map f xs"
  by (induction xs) (auto, metis option.exhaust)

lemma gather_Nil_iff: "gather xs = Some [] \<longleftrightarrow> (\<forall>x \<in> set xs. x = Some [])"
  by (induction xs) (auto split: option.splits)

lemma check_items_mono:
  assumes "check_items r schema xs path = Some es" and "\<And>s d p e. r s d p = Some e \<Longrightarrow> r' s d p = Some e"
  shows "check_items r' schema xs path = Some es"
  using assms(1) unfolding check_items_def
  by (auto split: if_splits elim!: gather_mono intro: assms(2))

lemma check_properties_mono:
  assumes "check_properties r schema data path = Some es" and "\<And>s d p e. r s d p = Some e \<Longrightarrow> r' s d p = Some e"
  shows "check_properties r' schema data path = Some es"
  using assms(1) unfolding check_properties_def
  by (rule gather_mono) (auto split: option.splits prod.splits intro: assms(2))

lemma validate_plain_mono:
  assumes "validate_plain matches r schema data path = Some es" and m: "\<And>s d p e. r s d p = Some e \<Longrightarrow> r' s d p = Some e"
  shows "validate_plain matches r' schema data path = Some es"
  using assms(1) check_items_mono [OF _ m] check_properties_mono [OF _ m]
  unfolding validate_plain_def by (cases data) (auto split: if_splits)

lemma oneOf_verdict_mono:
  assumes "oneOf_verdict path (map f xs) = Some es" and m: "\<And>x e. f x = Some e \<Longrightarrow> g x = Some e"
  shows "oneOf_verdict path (map g xs) = Some es"
proof -
  have "None \<notin> set (map f xs)" using assms(1) by (auto simp: oneOf_verdict_def Let_def)
  then have "map g xs = map f xs" by (rule map_total_mono) (rule m)
  with assms(1) show ?thesis by (simp only:)
qed

lemma validate_step_mono:
  assumes "validate_step matches root r schema data path = Some es" and m: "\<And>s d p e. r s d p = Some e \<Longrightarrow> r' s d p = Some e"
  shows "validate_step matches root r' schema data path = Some es"
  using assms(1) validate_plain_mono [OF _ m] oneOf_verdict_mono [OF _ m] m
  unfolding validate_step_def by (auto split: if_splits option.splits json.splits)

lemma validate_suc:
  "validate matches n root schema data path = Some es \<Longrightarrow> validate matches (Suc n) root schema data path = Some es"
proof (induction n arbitrary: schema data path es)
  case (Suc n)
  from Suc.prems have "validate_step matches root (validate matches n root) schema data path = Some es" by simp
  then have "validate_step matches root (validate matches (Suc n) root) schema data path = Some es"
    by (rule validate_step_mono) (rule Suc.IH)
  then show ?case by simp
qed simp

lemma validate_more_fuel:
  "validate matches n root schema data path = Some es \<Longrightarrow> n \<le> m \<Longrightarrow> validate matches m root schema data path = Some es"
  by (induction m) (auto simp: le_Suc_eq intro: validate_suc simp del: validate.simps)

subsection \<open>Termination\<close>

text \<open>
  A schema is grounded when following its references ends: every \<open>$ref\<close> resolves to nothing or to a
  grounded definition, and the sub-schemas are grounded.
\<close>

inductive grounded :: "json \<Rightarrow> json \<Rightarrow> bool" for root :: json where
  by_ref: "grounded root schema"
    if "js_truthy (jget schema ''$ref'')" "jget schema ''$ref'' = Some (JStr ref)"
       "js_truthy (resolveRef ref root) \<Longrightarrow> grounded root (the (resolveRef ref root))"
| by_branches: "grounded root schema"
    if "\<not> js_truthy (jget schema ''$ref'')" "jget schema ''oneOf'' = Some (JArr branches)" "branches \<noteq> []"
       "\<And>b. b \<in> set branches \<Longrightarrow> grounded root b"
| by_structure: "grounded root schema"
    if "schema \<noteq> JNull" "\<not> js_truthy (jget schema ''$ref'')" "\<not> js_truthy (jget schema ''oneOf'')"
       "js_truthy (jget schema ''items'') \<Longrightarrow> grounded root (the (jget schema ''items''))"
       "\<And>s. s \<in> snd ` set (jmembers (jget schema ''properties'')) \<Longrightarrow> grounded root s"

lemma common_fuel:
  assumes mono: "\<And>n m x e. x \<in> set xs \<Longrightarrow> f n x = Some e \<Longrightarrow> n \<le> m \<Longrightarrow> f m x = Some e"
    and ex: "\<And>x. x \<in> set xs \<Longrightarrow> \<exists>n e. f n x = Some e"
  shows "\<exists>n. \<forall>x \<in> set xs. \<exists>e. f (n::nat) x = Some (e :: 'b)"
  using assms
proof (induction xs)
  case (Cons x xs)
  then obtain n where n: "\<forall>x \<in> set xs. \<exists>e. f n x = Some e" by (metis list.set_intros(2))
  obtain k e where k: "f k x = Some e" using Cons.prems(2) by fastforce
  have "\<exists>e. f (max n k) y = Some e" if "y \<in> set (x # xs)" for y
    using that n k Cons.prems(1) [of y] by (metis max.cobounded1 max.cobounded2 set_ConsD)
  then show ?case by blast
qed simp

lemma gather_total: "(\<forall>x \<in> set xs. \<exists>e. x = Some e) \<Longrightarrow> \<exists>es. gather xs = Some es"
  by (induction xs) (auto split: option.splits)

lemma common_fuel_each:
  assumes "\<And>s. s \<in> snd ` set xs \<Longrightarrow> \<exists>n. \<forall>d p. \<exists>es. validate matches n root s d p = Some es"
  shows "\<exists>n. \<forall>s \<in> snd ` set xs. \<forall>d p. \<exists>es. validate matches n root s d p = Some es"
  using assms
proof (induction xs)
  case (Cons x xs)
  obtain n where n: "\<forall>s \<in> snd ` set xs. \<forall>d p. \<exists>es. validate matches n root s d p = Some es" using Cons by auto
  obtain k where k: "\<forall>d p. \<exists>es. validate matches k root (snd x) d p = Some es" using Cons.prems [of "snd x"] by auto
  have "\<exists>es. validate matches (max n k) root s d p = Some es" if s: "s \<in> snd ` set (x # xs)" for s d p
  proof -
    from s n k obtain m es where "validate matches m root s d p = Some es" "m \<le> max n k"
      by (auto) (metis max.cobounded2, metis max.cobounded1 snd_conv image_eqI)
    then show ?thesis by (blast intro: validate_more_fuel)
  qed
  then show ?case by blast
qed simp

lemma oneOf_verdict_total: "results \<noteq> [] \<Longrightarrow> None \<notin> set results \<Longrightarrow> \<exists>es. oneOf_verdict path results = Some es"
  by (simp add: oneOf_verdict_def Let_def)

lemma validate_plain_total:
  assumes "\<And>xs. data = JArr xs \<Longrightarrow> \<exists>es. check_items rec schema xs path = Some es"
    and "\<exists>es. check_properties rec schema data path = Some es"
  shows "\<exists>es. validate_plain matches rec schema data path = Some es"
  using assms unfolding validate_plain_def by (cases data) auto

lemma grounded_has_fuel: "grounded root schema \<Longrightarrow> \<exists>n. \<forall>d p. \<exists>es. validate matches n root schema d p = Some es"
proof (induction rule: grounded.induct)
  case (by_ref schema ref)
  then have n: "schema \<noteq> JNull" by auto
  show ?case
  proof (cases "js_truthy (resolveRef ref root)")
    case True
    with by_ref obtain k where "\<forall>d p. \<exists>es. validate matches k root (the (resolveRef ref root)) d p = Some es" by blast
    then show ?thesis using by_ref(1,2) True n by (intro exI [of _ "Suc k"]) (simp add: validate_step_def)
  next
    case False
    then show ?thesis using by_ref(1,2) n by (intro exI [of _ "Suc 0"]) (simp add: validate_step_def)
  qed
next
  case (by_branches schema branches)
  then have n: "schema \<noteq> JNull" by auto
  obtain k where k: "\<forall>s \<in> snd ` set (map (\<lambda>b. ((), b)) branches). \<forall>d p. \<exists>es. validate matches k root s d p = Some es"
    using common_fuel_each [of "map (\<lambda>b. ((), b)) branches" matches root] by_branches.IH by (auto simp: image_image)
  then have "None \<notin> set (map (\<lambda>s. validate matches k root s d p) branches)" for d p
    by (auto simp: image_image) (metis option.distinct(1))
  then have "\<exists>es. oneOf_verdict p (map (\<lambda>s. validate matches k root s d p) branches) = Some es" for d p
    using by_branches(3) by (intro oneOf_verdict_total) auto
  then show ?case using by_branches(1,2,3) n
    by (intro exI [of _ "Suc k"]) (simp add: validate_step_def)
next
  case (by_structure schema)
  obtain k where k: "\<forall>s \<in> snd ` set (jmembers (jget schema ''properties'')). \<forall>d p. \<exists>es. validate matches k root s d p = Some es"
    using common_fuel_each by_structure.IH(2) by blast
  obtain l where l: "js_truthy (jget schema ''items'') \<Longrightarrow>
      \<forall>d p. \<exists>es. validate matches l root (the (jget schema ''items'')) d p = Some es"
    using by_structure.IH(1) by blast
  let ?r = "validate matches (max k l) root"
  have k': "\<exists>es. ?r s d p = Some es" if "s \<in> snd ` set (jmembers (jget schema ''properties''))" for s d p
    using k that by (meson max.cobounded1 validate_more_fuel)
  have l': "\<exists>es. ?r (the (jget schema ''items'')) d p = Some es" if "js_truthy (jget schema ''items'')" for d p
    using l that by (meson max.cobounded2 validate_more_fuel)
  have li: "\<forall>x \<in> set (map (\<lambda>(i, d). ?r (the (jget schema ''items'')) d (q @ ''['' @ show_nat i @ '']'')) is). \<exists>e. x = Some e"
    if "js_truthy (jget schema ''items'')" for q and "is" :: "(nat \<times> json) list"
    using l' [OF that] by (simp add: split_def)
  have "\<exists>es. validate_plain matches ?r schema d p = Some es" for d p
  proof (rule validate_plain_total)
    show "\<exists>es. check_items ?r schema xs p = Some es" for xs
      unfolding check_items_def using gather_total [OF li] by simp
    show "\<exists>es. check_properties ?r schema d p = Some es"
      unfolding check_properties_def by (rule gather_total) (auto simp: rev_image_eqI k' split: option.split)
  qed
  then show ?case using by_structure(1,2,3)
    by (intro exI [of _ "Suc (max k l)"]) (simp add: validate_step_def)
qed

subsection \<open>Closed object schemas\<close>

lemma closed_schema_accepts:
  assumes "jget schema ''type'' = Some (JStr ''object'')" and "jget schema ''additionalProperties'' = Some (JBool False)"
    and "jget schema ''properties'' = Some (JObj props)"
    and "jget schema ''$ref'' = None" and "jget schema ''oneOf'' = None"
    and "jget schema ''const'' = None" and "jget schema ''enum'' = None"
  shows "validate matches (Suc n) root schema data path = Some [] \<longleftrightarrow>
    (\<exists>kvs. data = JObj kvs
      \<and> (\<forall>k \<in> set (jarr_or_empty (jget schema ''required'')). jget data (js_string k) \<noteq> None)
      \<and> fst ` set kvs \<subseteq> fst ` set props
      \<and> (\<forall>(k, s) \<in> set props. \<forall>v. jget data k = Some v \<longrightarrow> validate matches n root s v (path @ ''.'' @ k) = Some []))"
proof -
  have r: "js_truthy (jget schema ''properties'')" using assms(3) by simp
  have nn: "schema \<noteq> JNull" using assms(1) by auto
  have plain: "validate matches (Suc n) root schema data path = validate_plain matches (validate matches n root) schema data path"
    using assms(4,5) nn by (simp add: validate_step_def)
  have cv: "check_value schema data path = []" using assms(6,7) by (simp add: check_value_def fault_if_def)
  have cr: "check_required schema data path = [] \<longleftrightarrow> (\<forall>k \<in> set (jarr_or_empty (jget schema ''required'')). jget data (js_string k) \<noteq> None)"
    by (auto simp: check_required_def filter_empty_conv)
  have cn: "check_names schema (JObj kvs) path = [] \<longleftrightarrow> fst ` set kvs \<subseteq> fst ` set props" for kvs
    using assms(2,3) by (auto simp: check_names_def filter_empty_conv)
  have cp: "check_properties (validate matches n root) schema data path = Some [] \<longleftrightarrow>
      (\<forall>(k, s) \<in> set props. \<forall>v. jget data k = Some v \<longrightarrow> validate matches n root s v (path @ ''.'' @ k) = Some [])"
    using assms(3) unfolding check_properties_def gather_Nil_iff
    by (auto simp: split_def split: option.splits)
  show ?thesis
  proof (cases "\<exists>kvs. data = JObj kvs")
    case True
    then obtain kvs where d: "data = JObj kvs" by blast
    have "validate_plain matches (validate matches n root) schema data path = Some [] \<longleftrightarrow>
        check_required schema data path = [] \<and> check_properties (validate matches n root) schema data path = Some []
        \<and> check_names schema data path = []"
      using assms(1) cv by (auto simp: validate_plain_def d isObj_def check_scalar_def)
    then show ?thesis unfolding plain cp cr using d cn by auto
  next
    case False
    then have "typeOk (JStr ''object'') data = False" by (cases data) (auto simp: isObj_def)
    then show ?thesis unfolding plain using False assms(1) by (simp add: validate_plain_def)
  qed
qed

subsection \<open>Properties\<close>


definition sample_schema :: json where
  "sample_schema = JObj [(''type'', JStr ''object''), (''required'', JArr [JStr ''id'']), (''additionalProperties'', JBool False),
     (''properties'', JObj [(''id'', JObj [(''type'', JStr ''string'')]), (''note'', JObj [(''$ref'', JStr ''#/properties/id'')])])]"

lemma sample_ref: "resolveRef ''#/properties/id'' sample_schema = Some (JObj [(''type'', JStr ''string'')])"
  by code_simp


text \<open>What a closed record schema (\<open>type: object\<close>, \<open>additionalProperties: false\<close>, no reference,
  alternative, constant or enumeration) accepts: exactly the objects that have every required member,
  no member the schema does not name, and under each named member that is there a value its schema
  accepts.\<close>

theorem closed_schema_accepts_iff:
  assumes "jget schema ''type'' = Some (JStr ''object'')" and "jget schema ''additionalProperties'' = Some (JBool False)"
    and "jget schema ''properties'' = Some (JObj props)"
    and "jget schema ''$ref'' = None" and "jget schema ''oneOf'' = None"
    and "jget schema ''const'' = None" and "jget schema ''enum'' = None"
  shows "validate matches (Suc n) root schema data path = Some [] \<longleftrightarrow>
    (\<exists>kvs. data = JObj kvs
      \<and> (\<forall>k \<in> set (jarr_or_empty (jget schema ''required'')). jget data (js_string k) \<noteq> None)
      \<and> fst ` set kvs \<subseteq> fst ` set props
      \<and> (\<forall>(k, s) \<in> set props. \<forall>v. jget data k = Some v \<longrightarrow> validate matches n root s v (path @ ''.'' @ k) = Some []))"
  using assms by (rule closed_schema_accepts)

lemma closed_schema_accepts_iff_witness:
  "validate (\<lambda>_ _. True) 2 sample_schema sample_schema (JObj [(''id'', JStr ''x'')]) ''$'' = Some []"
proof -
  have "validate (\<lambda>_ _. True) (Suc 1) sample_schema sample_schema (JObj [(''id'', JStr ''x'')]) ''$'' = Some []"
    by (subst closed_schema_accepts_iff [where props = "[(''id'', JObj [(''type'', JStr ''string'')]), (''note'', JObj [(''$ref'', JStr ''#/properties/id'')])]"])
      (auto simp add: sample_schema_def validate_step_def validate_plain_def check_value_def fault_if_def check_scalar_def)
  then show ?thesis by (simp add: eval_nat_numeral)
qed

end
