(* ===== verification/Egress.thy ===== *)
theory Egress
  imports Ip_Guard Credentials Kernel_Runner Schema_Validator
begin

text \<open>
  The egress boundary of \<^verbatim>\<open>hub/connector.mjs\<close>: contracts with their allowlist, the table of pinned host
  names, the transcript of decisions and \<open>performEgress\<close>, the one function through which a
  connector reaches the network.

  Parsing and resolving URLs, name resolution and the request itself belong to the environment
  \<open>egress_env\<close>. Answers may differ from one redirect hop to the next and between the guard's lookup
  (\<open>ee_resolve\<close>) and the lookup of the connection (\<open>ee_lookup\<close>), so a resolver that
  changes its answer is included. The state keeps the pins, the connections made so far and the database.
\<close>

subsection \<open>Contracts\<close>

datatype egress_error =
    Bad_url string
  | Not_in_allowlist string
  | Vetting vet_error
  | Fetch_failed string
  | Too_many_redirects string
  | Egress_journal journal_error
  | Credential credential_error
  | Allowlist_type_error
  | Contract_unreadable string
  | Contract_invalid "schema_error list"
  | Contract_digest kernel_error

definition str_items :: json where
  "str_items = JObj [(''type'', JStr ''string''), (''minLength'', JNum 1)]"

definition CONTRACT_SCHEMA :: json where
  \<comment> \<open>\<^verbatim>\<open>schema/connector_contract.schema.json\<close>, without its descriptions\<close>
  "CONTRACT_SCHEMA = JObj
     [(''type'', JStr ''object''), (''additionalProperties'', JBool False),
      (''required'', JArr (map JStr [''connector_id'', ''connector_version'', ''publisher'', ''allowed_hosts'', ''allowed_methods'', ''scopes''])),
      (''properties'', JObj
        [(''connector_id'', str_items), (''connector_version'', str_items), (''publisher'', str_items),
         (''allowed_hosts'', JObj [(''type'', JStr ''array''), (''minItems'', JNum 1), (''items'', str_items)]),
         (''allowed_methods'', JObj [(''type'', JStr ''array''), (''minItems'', JNum 1), (''items'', str_items)]),
         (''scopes'', JObj [(''type'', JStr ''array''), (''items'', str_items)]),
         (''vault_scope'', JObj [(''type'', JStr ''array''), (''items'', str_items)])])]"

definition recordDigestHex :: "(string \<Rightarrow> string) \<Rightarrow> json \<Rightarrow> egress_error + string" where
  "recordDigestHex sha obj = (case jcsBytes obj of Inl e \<Rightarrow> Inl (Egress_journal e) | Inr bytes \<Rightarrow> Inr (sha bytes))"

record contract_file =
  cf_contract :: json
  cf_digest :: string
  cf_canonicalization :: string

definition loadContract :: "(string \<Rightarrow> string) \<Rightarrow> (string \<Rightarrow> json option) \<Rightarrow> string \<Rightarrow> egress_error + contract_file" where
  \<comment> \<open>\<open>files\<close> gives the parsed document of a path. The schema has no patterns and depth four.\<close>
  "loadContract sha files contractPath =
     (case files contractPath of
        None \<Rightarrow> Inl (Contract_unreadable contractPath)
      | Some raw \<Rightarrow>
          (case validate (\<lambda>_ _. True) 4 CONTRACT_SCHEMA CONTRACT_SCHEMA raw ''$'' of
             None \<Rightarrow> Inl (Contract_unreadable contractPath)
           | Some (e # es) \<Rightarrow> Inl (Contract_invalid (e # es))
           | Some [] \<Rightarrow>
               (case verifyClassDigestHex sha raw of
                  Inl e \<Rightarrow> Inl (Contract_digest e)
                | Inr (digest, canonicalization) \<Rightarrow>
                    Inr \<lparr>cf_contract = raw, cf_digest = sha256ref digest, cf_canonicalization = canonicalization\<rparr>)))"

definition js_includes :: "json option \<Rightarrow> json option \<Rightarrow> egress_error + bool" where
  \<comment> \<open>\<open>xs.includes(v)\<close> of an array or a string\<close>
  "js_includes xs v =
     (case xs of
        Some (JArr ys) \<Rightarrow> Inr (set_has (map Some ys) v)
      | Some (JStr s) \<Rightarrow> Inr (sublist (js_template v) s)
      | _ \<Rightarrow> Inl Allowlist_type_error)"

definition assertEgressAllowed :: "json \<Rightarrow> json option \<Rightarrow> json option \<Rightarrow> egress_error + bool" where
  "assertEgressAllowed contract host method =
     and_then (js_includes (jget contract ''allowed_hosts'') host) (\<lambda>h.
       if h then js_includes (jget contract ''allowed_methods'') method else Inr False)"

subsection \<open>Pinned host names\<close>

record pin =
  pin_ip :: string
  pin_refs :: int

type_synonym pins = "(string, pin) tbl"

definition pinHostResolution :: "string \<Rightarrow> string \<Rightarrow> pins \<Rightarrow> pins" where
  "pinHostResolution hostname ip ps =
     (let key = js_lower hostname
      in case tbl_get ps key of
           Some existing \<Rightarrow> tbl_upsert key (existing\<lparr>pin_refs := pin_refs existing + 1, pin_ip := ip\<rparr>) ps
         | None \<Rightarrow> tbl_upsert key \<lparr>pin_ip = ip, pin_refs = 1\<rparr> ps)"

definition unpin :: "string \<Rightarrow> bool \<Rightarrow> pins \<Rightarrow> bool \<times> pins" where
  \<comment> \<open>the returned closure: the flag is its \<open>released\<close> variable\<close>
  "unpin key released ps =
     (if released then (released, ps)
      else (True, case tbl_get ps key of
                    None \<Rightarrow> ps
                  | Some entry \<Rightarrow>
                      let refs = pin_refs entry - 1
                      in if refs \<le> 0 then tbl_delete key ps else tbl_upsert key (entry\<lparr>pin_refs := refs\<rparr>) ps))"

definition pinnedDnsLookup :: "(string \<Rightarrow> bool \<Rightarrow> (string \<times> nat) list) \<Rightarrow> pins \<Rightarrow> string \<Rightarrow> bool \<Rightarrow> (string \<times> nat) list" where
  \<comment> \<open>addresses with their family; without \<open>all\<close> the list has one entry\<close>
  "pinnedDnsLookup realDnsLookup ps hostname allAddresses =
     (case tbl_get ps (js_lower hostname) of
        Some p \<Rightarrow> [(pin_ip p, if isIP (pin_ip p) = 6 then 6 else 4)]
      | None \<Rightarrow> realDnsLookup hostname allAddresses)"

subsection \<open>The transcript\<close>

record journal_clock =
  jc_entry :: string
  jc_append :: string

definition egress_entry :: "string \<Rightarrow> string \<Rightarrow> json option \<Rightarrow> json option \<Rightarrow> string \<Rightarrow> string \<Rightarrow> string option \<Rightarrow> (string \<times> json) list" where
  "egress_entry now connectorId destinationHost operation decision requestDigest responseDigest =
     opt_members
       [(''period_start'', Some (JStr now)), (''period_end'', Some (JStr now)),
        (''reference_db_version'', Some (JStr ''helm-connector-runtime@1'')),
        (''triggering_input_digest'', Some (JStr requestDigest)), (''humans_involved'', Some (JArr [])),
        (''connector_id'', Some (JStr connectorId)), (''destination_host'', destinationHost), (''operation'', operation),
        (''decision'', Some (JStr decision)), (''request_digest'', Some (JStr requestDigest)),
        (''response_digest'', Some (case responseDigest of None \<Rightarrow> JNull | Some d \<Rightarrow> JStr d))]"

definition recordEgress ::
  "(string \<Rightarrow> string) \<Rightarrow> journal_clock \<Rightarrow> string \<Rightarrow> json option \<Rightarrow> json option \<Rightarrow> string \<Rightarrow> string \<Rightarrow> string option \<Rightarrow>
   'a journal_db_scheme \<Rightarrow> (egress_error + unit) \<times> 'a journal_db_scheme" where
  "recordEgress sha clk connectorId destinationHost operation decision requestDigest responseDigest db =
     map_prod (map_sum Egress_journal (\<lambda>_. ())) id
       (appendEntry sha (jc_append clk) (''egress:'' @ connectorId) ''egress'' None
          (egress_entry (jc_entry clk) connectorId destinationHost operation decision requestDigest responseDigest) db)"

subsection \<open>Reaching the network\<close>

record connection =
  cn_url :: string
  cn_address :: string
  cn_method :: string
  cn_headers :: headers
  cn_body :: "string option"

record response =
  rs_status :: int
  rs_headers :: "(string, string) tbl"
  rs_body :: string

record egress_env =
  ee_sha :: "string \<Rightarrow> string"
  ee_parse_url :: "string \<Rightarrow> (string \<times> string) option"
  ee_join_url :: "string \<Rightarrow> string \<Rightarrow> string option"
  ee_resolve :: "nat \<Rightarrow> string \<Rightarrow> string list option"
  ee_lookup :: "nat \<Rightarrow> string \<Rightarrow> bool \<Rightarrow> (string \<times> nat) list"
  ee_fetch :: "nat \<Rightarrow> connection \<Rightarrow> response option"
  ee_body_ok :: "nat \<Rightarrow> response \<Rightarrow> bool"
  ee_clock :: "nat \<Rightarrow> journal_clock"
  ee_vault :: "string \<Rightarrow> vault_error + json"

record 'd egress_state =
  es_pins :: pins
  es_conns :: "connection list"
  es_db :: 'd

record egress_request =
  rq_contract :: json
  rq_connector :: string
  rq_method :: string
  rq_headers :: headers
  rq_body :: "string option"

datatype hop_result = Redirected string | Answered response

definition MAX_REDIRECTS :: nat where "MAX_REDIRECTS = 5"

definition request_digest :: "(string \<Rightarrow> string) \<Rightarrow> egress_request \<Rightarrow> string \<Rightarrow> egress_error + string" where
  "request_digest sha rq url =
     and_then (recordDigestHex sha (JObj [(''url'', JStr url), (''method'', JStr (rq_method rq)),
                (''headerNames'', JArr (map JStr (sort (map fst (rq_headers rq)))))]))
       (\<lambda>hex. Inr (sha256ref hex))"

definition note_egress ::
  "egress_env \<Rightarrow> egress_request \<Rightarrow> nat \<Rightarrow> string \<Rightarrow> string \<Rightarrow> string \<Rightarrow> string option \<Rightarrow> egress_error + 'r \<Rightarrow>
   'a journal_db_scheme egress_state \<Rightarrow> (egress_error + 'r) \<times> 'a journal_db_scheme egress_state" where
  \<comment> \<open>journal the decision of a hop, then go on with \<open>res\<close>\<close>
  "note_egress env rq n host decision rd respd res st =
     (case recordEgress (ee_sha env) (ee_clock env n) (rq_connector rq) (Some (JStr host)) (Some (JStr (rq_method rq)))
             decision rd respd (es_db st) of
        (Inl e, db) \<Rightarrow> (Inl e, st\<lparr>es_db := db\<rparr>)
      | (Inr _, db) \<Rightarrow> (res, st\<lparr>es_db := db\<rparr>))"

definition connect_address :: "egress_env \<Rightarrow> nat \<Rightarrow> pins \<Rightarrow> string \<Rightarrow> string option" where
  \<comment> \<open>a literal address is connected to without a lookup\<close>
  "connect_address env n ps hostname =
     (if isIP hostname \<noteq> 0 then Some hostname
      else case pinnedDnsLookup (ee_lookup env n) ps hostname True of [] \<Rightarrow> None | (a, _) # _ \<Rightarrow> Some a)"

definition fetch_pinned ::
  "egress_env \<Rightarrow> egress_request \<Rightarrow> nat \<Rightarrow> string \<Rightarrow> string \<Rightarrow> string \<Rightarrow> 'd egress_state \<Rightarrow> response option \<times> 'd egress_state" where
  \<comment> \<open>pin, fetch, and unpin whether the fetch failed or not\<close>
  "fetch_pinned env rq n url hostname ip st =
     (let ps = pinHostResolution hostname ip (es_pins st);
          (res, conns) = (case connect_address env n ps hostname of
             None \<Rightarrow> (None, [])
           | Some a \<Rightarrow>
               let c = \<lparr>cn_url = url, cn_address = a, cn_method = rq_method rq, cn_headers = rq_headers rq, cn_body = rq_body rq\<rparr>
               in (ee_fetch env n c, [c]))
      in (res, st\<lparr>es_pins := snd (unpin (js_lower hostname) False ps), es_conns := es_conns st @ conns\<rparr>))"

definition redirect_target :: "response \<Rightarrow> string option" where
  "redirect_target res =
     (if 300 \<le> rs_status res \<and> rs_status res < 400
      then (case tbl_get (rs_headers res) ''location'' of Some (c # l) \<Rightarrow> Some (c # l) | _ \<Rightarrow> None)
      else None)"

definition egress_answer ::
  "egress_env \<Rightarrow> egress_request \<Rightarrow> nat \<Rightarrow> string \<Rightarrow> string \<Rightarrow> response \<Rightarrow>
   'a journal_db_scheme egress_state \<Rightarrow> (egress_error + hop_result) \<times> 'a journal_db_scheme egress_state" where
  "egress_answer env rq n host rd res st =
     (case redirect_target res of
        Some location \<Rightarrow> note_egress env rq n host ''allowed'' rd None (Inr (Redirected location)) st
      | None \<Rightarrow>
          if \<not> ee_body_ok env n res then (Inl (Fetch_failed host), st)
          else note_egress env rq n host ''allowed'' rd (Some (sha256ref (ee_sha env (rs_body res)))) (Inr (Answered res)) st)"

definition egress_hop ::
  "egress_env \<Rightarrow> egress_request \<Rightarrow> nat \<Rightarrow> string \<Rightarrow>
   'a journal_db_scheme egress_state \<Rightarrow> (egress_error + hop_result) \<times> 'a journal_db_scheme egress_state" where
  \<comment> \<open>one turn of the loop of \<open>performEgress\<close>\<close>
  "egress_hop env rq n url st =
     (case ee_parse_url env url of
        None \<Rightarrow> (Inl (Bad_url url), st)
      | Some (host, hostname) \<Rightarrow>
          (case request_digest (ee_sha env) rq url of
             Inl e \<Rightarrow> (Inl e, st)
           | Inr rd \<Rightarrow>
               (case assertEgressAllowed (rq_contract rq) (Some (JStr host)) (Some (JStr (rq_method rq))) of
                  Inl e \<Rightarrow> (Inl e, st)
                | Inr False \<Rightarrow> note_egress env rq n host ''blocked'' rd None (Inl (Not_in_allowlist host)) st
                | Inr True \<Rightarrow>
                    (case resolveVettedIp (ee_resolve env n) hostname of
                       Inl e \<Rightarrow> note_egress env rq n host ''blocked'' rd None (Inl (Vetting e)) st
                     | Inr ip \<Rightarrow>
                         (case fetch_pinned env rq n url hostname ip st of
                            (None, st1) \<Rightarrow> (Inl (Fetch_failed host), st1)
                          | (Some res, st1) \<Rightarrow> egress_answer env rq n host rd res st1)))))"

fun egress_hops ::
  "egress_env \<Rightarrow> egress_request \<Rightarrow> nat \<Rightarrow> string \<Rightarrow>
   'a journal_db_scheme egress_state \<Rightarrow> (egress_error + response) \<times> 'a journal_db_scheme egress_state" where
  \<comment> \<open>the loop; \<open>left\<close> redirects may still be followed\<close>
  "egress_hops env rq left url st =
     (case egress_hop env rq (MAX_REDIRECTS - left) url st of
        (Inl e, st1) \<Rightarrow> (Inl e, st1)
      | (Inr (Answered res), st1) \<Rightarrow> (Inr res, st1)
      | (Inr (Redirected location), st1) \<Rightarrow>
          (case left of
             0 \<Rightarrow> (Inl (Too_many_redirects url), st1)
           | Suc l \<Rightarrow> (case ee_join_url env location url of
                         None \<Rightarrow> (Inl (Bad_url location), st1)
                       | Some url' \<Rightarrow> egress_hops env rq l url' st1)))"

declare egress_hops.simps [simp del]

definition performEgress ::
  "egress_env \<Rightarrow> egress_request \<Rightarrow> string \<Rightarrow> credential option \<Rightarrow>
   'a journal_db_scheme egress_state \<Rightarrow> (egress_error + response) \<times> 'a journal_db_scheme egress_state" where
  "performEgress env rq url cred st =
     (case (case cred of None \<Rightarrow> Inr (rq_headers rq) | Some cd \<Rightarrow> attachCredential (ee_vault env) (rq_headers rq) cd) of
        Inl e \<Rightarrow> (Inl (Credential e), st)
      | Inr resolvedHeaders \<Rightarrow> egress_hops env (rq\<lparr>rq_headers := resolvedHeaders\<rparr>) MAX_REDIRECTS url st)"

record attestation_input =
  at_run_id :: "json option"
  at_manifest_digest :: "json option"
  at_connector_id :: string
  at_connector_version :: string
  at_contract_digest :: string
  at_operation :: "json option"
  at_scope :: "json option"
  at_endpoint_host :: "json option"
  at_payload :: string
  at_classification :: "json option"

definition buildConnectorAttestation :: "(string \<Rightarrow> string) \<Rightarrow> string \<Rightarrow> attestation_input \<Rightarrow> json" where
  "buildConnectorAttestation sha now a =
     JObj (opt_members
       [(''run_id'', at_run_id a), (''workflow_manifest_digest'', at_manifest_digest a), (''recorded_at'', Some (JStr now)),
        (''connector_id'', Some (JStr (at_connector_id a))), (''connector_version'', Some (JStr (at_connector_version a))),
        (''contract_digest'', Some (JStr (at_contract_digest a))), (''operation'', at_operation a), (''scope'', at_scope a),
        (''endpoint_host'', at_endpoint_host a), (''payload_digest'', Some (JStr (sha256ref (sha (at_payload a))))),
        (''classification'', Some (case at_classification a of None \<Rightarrow> JStr ''unclassified'' | Some c \<Rightarrow> c))])"

subsection \<open>One decision, one journal row\<close>

definition decision_of :: "jrow \<Rightarrow> json option" where
  "decision_of r = jget (j_entry r) ''decision''"

definition egress_row :: "string \<Rightarrow> jrow \<Rightarrow> bool" where
  "egress_row cid r \<longleftrightarrow> j_stream r = ''egress:'' @ cid \<and> j_kind r = ''egress''"

lemma opt_members_simps [simp]:
  "opt_members [] = []" "opt_members ((k, Some v) # ms) = (k, v) # opt_members ms" "opt_members ((k, None) # ms) = opt_members ms"
  by (simp_all add: opt_members_def)

lemma egress_entry_accepted:
  "entry_accepted ''egress'' None (egress_entry now cid (Some (JStr h)) (Some (JStr m)) decision rd respd)"
  by (cases respd) (simp_all add: entry_accepted_def assertArt12_def ART12_FIELDS_def egress_entry_def ijson_ok_iff jspread_def
      MAX_DEPTH_def MAX_ELEMENTS_def)

lemma egress_entry_decision:
  "jget (stored_entry ''egress'' None (egress_entry now cid (Some (JStr h)) (Some (JStr m)) decision rd respd)) ''decision''
   = Some (JStr decision)"
  by (simp add: stored_entry_def egress_entry_def jspread_def)

lemma recordEgress_appends:
  obtains r where "fst (recordEgress sha clk cid (Some (JStr h)) (Some (JStr m)) decision rd respd db) = Inr ()"
    "journal (snd (recordEgress sha clk cid (Some (JStr h)) (Some (JStr m)) decision rd respd db)) = journal db @ [r]"
    "egress_row cid r" "decision_of r = Some (JStr decision)"
proof -
  let ?e = "egress_entry (jc_entry clk) cid (Some (JStr h)) (Some (JStr m)) decision rd respd"
  let ?r = "new_row sha (jc_append clk) (''egress:'' @ cid) ''egress'' None (stored_entry ''egress'' None ?e)
      (head_rh sha (''egress:'' @ cid) db) db"
  show ?thesis
    by (rule that [of ?r])
      (simp_all add: recordEgress_def appendEntry_cases egress_entry_accepted Let_def egress_row_def decision_of_def
        new_row_def egress_entry_decision)
qed

lemma note_egress_appends:
  assumes "note_egress env rq n host decision rd respd res st = (r, st')"
  obtains row where "r = res" "es_conns st' = es_conns st" "es_pins st' = es_pins st"
    "journal (es_db st') = journal (es_db st) @ [row]" "egress_row (rq_connector rq) row" "decision_of row = Some (JStr decision)"
proof -
  obtain row where row: "fst (recordEgress (ee_sha env) (ee_clock env n) (rq_connector rq) (Some (JStr host)) (Some (JStr (rq_method rq)))
        decision rd respd (es_db st)) = Inr ()"
    "journal (snd (recordEgress (ee_sha env) (ee_clock env n) (rq_connector rq) (Some (JStr host)) (Some (JStr (rq_method rq)))
        decision rd respd (es_db st))) = journal (es_db st) @ [row]" "egress_row (rq_connector rq) row" "decision_of row = Some (JStr decision)"
    by (rule recordEgress_appends)
  from assms row(1,2) show ?thesis
    by (intro that [of row]) (auto simp: note_egress_def row(3,4) split: prod.splits sum.splits)
qed

subsection \<open>One hop\<close>

definition vetted_connection :: "egress_env \<Rightarrow> egress_request \<Rightarrow> connection \<Rightarrow> bool" where
  "vetted_connection env rq c \<longleftrightarrow>
     (\<exists>host hostname n. ee_parse_url env (cn_url c) = Some (host, hostname)
        \<and> assertEgressAllowed (rq_contract rq) (Some (JStr host)) (Some (JStr (cn_method c))) = Inr True
        \<and> resolveVettedIp (ee_resolve env n) hostname = Inr (cn_address c))
     \<and> \<not> isDeniedIp (cn_address c) \<and> cn_method c = rq_method rq"

lemma connect_address_pinned:
  "resolveVettedIp resolve hostname = Inr ip \<Longrightarrow> connect_address env n (pinHostResolution hostname ip ps) hostname = Some ip"
  by (auto simp: connect_address_def pinnedDnsLookup_def pinHostResolution_def Let_def resolveVettedIp_def
      split: if_splits option.splits)

lemma fetch_pinned_connects:
  assumes "resolveVettedIp resolve hostname = Inr ip" and "fetch_pinned env rq n url hostname ip st = (res, st')"
  shows "es_conns st' = es_conns st @
       [\<lparr>cn_url = url, cn_address = ip, cn_method = rq_method rq, cn_headers = rq_headers rq, cn_body = rq_body rq\<rparr>]"
    and "es_db st' = es_db st"
  using assms(2) by (auto simp: fetch_pinned_def connect_address_pinned [OF assms(1)] Let_def)

text \<open>What a hop adds: the decisions it journals and the number of connections it makes.\<close>

fun hop_decisions :: "egress_error + hop_result \<Rightarrow> string list \<times> nat" where
  "hop_decisions (Inr _) = ([''allowed''], 1)"
| "hop_decisions (Inl (Not_in_allowlist _)) = ([''blocked''], 0)"
| "hop_decisions (Inl (Vetting _)) = ([''blocked''], 0)"
| "hop_decisions (Inl (Fetch_failed _)) = ([], 1)"
| "hop_decisions (Inl _) = ([], 0)"

definition hop_effect ::
  "egress_env \<Rightarrow> egress_request \<Rightarrow> 'a journal_db_scheme egress_state \<Rightarrow> 'a journal_db_scheme egress_state \<Rightarrow>
   connection list \<Rightarrow> string list \<Rightarrow> bool" where
  "hop_effect env rq st st' cs ds \<longleftrightarrow>
     es_conns st' = es_conns st @ cs \<and> list_all (vetted_connection env rq) cs
     \<and> (\<exists>rows. journal (es_db st') = journal (es_db st) @ rows \<and> list_all (egress_row (rq_connector rq)) rows
              \<and> map decision_of rows = map (\<lambda>d. Some (JStr d)) ds)"

lemma hop_effect_refl [simp]: "hop_effect env rq st st [] []"
  by (simp add: hop_effect_def)

lemma hop_effect_trans:
  assumes "hop_effect env rq st st1 cs ds" and "hop_effect env rq st1 st2 cs' ds'"
  shows "hop_effect env rq st st2 (cs @ cs') (ds @ ds')"
proof -
  obtain rows rows' where "journal (es_db st1) = journal (es_db st) @ rows" "list_all (egress_row (rq_connector rq)) rows"
      "map decision_of rows = map (\<lambda>d. Some (JStr d)) ds"
      "journal (es_db st2) = journal (es_db st1) @ rows'" "list_all (egress_row (rq_connector rq)) rows'"
      "map decision_of rows' = map (\<lambda>d. Some (JStr d)) ds'"
    using assms by (auto simp: hop_effect_def)
  then have "journal (es_db st2) = journal (es_db st) @ (rows @ rows') \<and> list_all (egress_row (rq_connector rq)) (rows @ rows')
      \<and> map decision_of (rows @ rows') = map (\<lambda>d. Some (JStr d)) (ds @ ds')" by simp
  then show ?thesis using assms unfolding hop_effect_def by (metis append_assoc list_all_append)
qed

lemma note_egress_effect:
  assumes "note_egress env rq n host decision rd respd res st = (r, st')"
  shows "r = res \<and> hop_effect env rq st st' [] [decision]"
  using assms
proof (rule note_egress_appends)
  fix row
  assume a: "r = res" "es_conns st' = es_conns st" "journal (es_db st') = journal (es_db st) @ [row]"
    "egress_row (rq_connector rq) row" "decision_of row = Some (JStr decision)"
  then show ?thesis by (auto simp: hop_effect_def intro!: exI [of _ "[row]"])
qed

lemma egress_answer_effect:
  assumes "egress_answer env rq n host rd res st = (r, st')"
  shows "hop_effect env rq st st' [] (fst (hop_decisions r)) \<and> snd (hop_decisions r) = 1"
proof (cases "redirect_target res")
  case (Some location)
  with note_egress_effect [of env rq n host "''allowed''" rd None "Inr (Redirected location)" st r st'] assms
  show ?thesis by (auto simp: egress_answer_def)
next
  case None
  with assms show ?thesis by (cases "ee_body_ok env n res") (auto simp: egress_answer_def dest!: note_egress_effect)
qed

lemma hop_effect_fetch:
  assumes "resolveVettedIp (ee_resolve env n) hostname = Inr ip" and "ee_parse_url env url = Some (host, hostname)"
    and "assertEgressAllowed (rq_contract rq) (Some (JStr host)) (Some (JStr (rq_method rq))) = Inr True"
    and "fetch_pinned env rq n url hostname ip st = (res, st')"
  shows "\<exists>c. hop_effect env rq st st' [c] []"
proof -
  let ?c = "\<lparr>cn_url = url, cn_address = ip, cn_method = rq_method rq, cn_headers = rq_headers rq, cn_body = rq_body rq\<rparr>"
  have "vetted_connection env rq ?c"
    using assms(1-3) resolveVettedIp_Inr [OF assms(1)] by (auto simp: vetted_connection_def)
  then have "hop_effect env rq st st' [?c] []"
    using fetch_pinned_connects [OF assms(1,4)] by (simp add: hop_effect_def)
  then show ?thesis by blast
qed

lemma assertEgressAllowed_error: "assertEgressAllowed c h m = Inl e \<Longrightarrow> e = Allowlist_type_error"
  by (auto simp: assertEgressAllowed_def js_includes_def split: option.splits json.splits if_splits)

lemma request_digest_error: "request_digest sha rq url = Inl e \<Longrightarrow> \<exists>j. e = Egress_journal j"
  by (auto simp: request_digest_def recordDigestHex_def split: sum.splits)

lemma egress_hop_effect:
  assumes "egress_hop env rq n url st = (r, st')"
  shows "\<exists>cs. hop_effect env rq st st' cs (fst (hop_decisions r)) \<and> length cs = snd (hop_decisions r)"
proof (cases "ee_parse_url env url")
  case None
  then show ?thesis using assms by (auto simp: egress_hop_def)
next
  case (Some p)
  obtain host hostname where p: "ee_parse_url env url = Some (host, hostname)" using Some by (cases p) auto
  show ?thesis
  proof (cases "request_digest (ee_sha env) rq url")
    case (Inl e)
    then show ?thesis using assms p request_digest_error [OF Inl] by (auto simp: egress_hop_def)
  next
    case (Inr rd)
    show ?thesis
    proof (cases "assertEgressAllowed (rq_contract rq) (Some (JStr host)) (Some (JStr (rq_method rq)))")
      case (Inl e)
      then show ?thesis using assms p Inr assertEgressAllowed_error [OF Inl] by (auto simp: egress_hop_def)
    next
      case (Inr ok)
      note d = \<open>request_digest (ee_sha env) rq url = Inr rd\<close>
      show ?thesis
      proof (cases ok)
        case False
        with assms p d Inr note_egress_effect [of env rq n host "''blocked''" rd None "Inl (Not_in_allowlist host)" st r st']
        show ?thesis by (auto simp: egress_hop_def)
      next
        case True
        have ok: "assertEgressAllowed (rq_contract rq) (Some (JStr host)) (Some (JStr (rq_method rq))) = Inr True"
          using Inr True by simp
        show ?thesis
        proof (cases "resolveVettedIp (ee_resolve env n) hostname")
          case (Inl e)
          with assms p d ok note_egress_effect [of env rq n host "''blocked''" rd None "Inl (Vetting e)" st r st']
          show ?thesis by (auto simp: egress_hop_def)
        next
          case (Inr ip)
          obtain res st1 where f: "fetch_pinned env rq n url hostname ip st = (res, st1)" by fastforce
          obtain c where c: "hop_effect env rq st st1 [c] []" using hop_effect_fetch [OF Inr p ok f] by blast
          show ?thesis
          proof (cases res)
            case None
            then show ?thesis using assms p d ok Inr f c by (auto simp: egress_hop_def)
          next
            case (Some a)
            then have "egress_answer env rq n host rd a st1 = (r, st')" using assms p d ok Inr f by (simp add: egress_hop_def)
            from egress_answer_effect [OF this] hop_effect_trans [OF c] show ?thesis by (intro exI [of _ "[c]"]) auto
          qed
        qed
      qed
    qed
  qed
qed

subsection \<open>The whole call\<close>

text \<open>The decisions a call with the given outcome and number of connections has journaled.\<close>

fun transcript_of :: "egress_error + response \<Rightarrow> nat \<Rightarrow> string list" where
  "transcript_of (Inl (Not_in_allowlist _)) k = replicate k ''allowed'' @ [''blocked'']"
| "transcript_of (Inl (Vetting _)) k = replicate k ''allowed'' @ [''blocked'']"
| "transcript_of (Inl (Fetch_failed _)) k = replicate (k - 1) ''allowed''"
| "transcript_of _ k = replicate k ''allowed''"

definition fetch_counted :: "egress_error + response \<Rightarrow> nat \<Rightarrow> bool" where
  "fetch_counted r k \<longleftrightarrow> ((\<exists>h. r = Inl (Fetch_failed h)) \<longrightarrow> 0 < k)"

lemma transcript_of_Suc: "fetch_counted r k \<Longrightarrow> transcript_of r (Suc k) = ''allowed'' # transcript_of r k"
  unfolding fetch_counted_def
proof (induction r k rule: transcript_of.induct)
  case (3 h k)
  then show ?case by (cases k) simp_all
qed simp_all

lemma transcript_of_hop:
  "transcript_of (Inl e) (snd (hop_decisions (Inl e))) = fst (hop_decisions (Inl e))
   \<and> fetch_counted (Inl e) (snd (hop_decisions (Inl e))) \<and> snd (hop_decisions (Inl e)) \<le> Suc 0"
  by (cases e) (auto simp: fetch_counted_def)

lemma egress_hops_effect:
  "egress_hops env rq left url st = (r, st') \<Longrightarrow>
   \<exists>cs. hop_effect env rq st st' cs (transcript_of r (length cs)) \<and> length cs \<le> Suc left \<and> fetch_counted r (length cs)"
proof (induction left arbitrary: url st r st')
  case 0
  obtain h st1 where h: "egress_hop env rq (MAX_REDIRECTS - 0) url st = (h, st1)" by fastforce
  from egress_hop_effect [OF h] obtain cs where cs: "hop_effect env rq st st1 cs (fst (hop_decisions h))" "length cs = snd (hop_decisions h)"
    by blast
  show ?case
  proof (cases h)
    case (Inl e)
    then have "r = Inl e" "st' = st1" using 0 h by (auto simp: egress_hops.simps)
    then show ?thesis using cs Inl transcript_of_hop [of e] by (intro exI [of _ cs]) auto
  next
    case (Inr a)
    then show ?thesis using 0 h cs
      by (intro exI [of _ cs]) (cases a; auto simp: egress_hops.simps fetch_counted_def)
  qed
next
  case (Suc l)
  obtain h st1 where h: "egress_hop env rq (MAX_REDIRECTS - Suc l) url st = (h, st1)" by fastforce
  from egress_hop_effect [OF h] obtain cs where cs: "hop_effect env rq st st1 cs (fst (hop_decisions h))" "length cs = snd (hop_decisions h)"
    by blast
  show ?case
  proof (cases h)
    case (Inl e)
    then have "r = Inl e" "st' = st1" using Suc.prems h by (auto simp: egress_hops.simps)
    then show ?thesis using cs Inl transcript_of_hop [of e] by (intro exI [of _ cs]) auto
  next
    case (Inr a)
    then have cs1: "hop_effect env rq st st1 cs [''allowed'']" "length cs = 1" using cs by simp_all
    show ?thesis
    proof (cases a)
      case (Answered res)
      then show ?thesis using Suc.prems h Inr cs1
        by (intro exI [of _ cs]) (auto simp: egress_hops.simps fetch_counted_def)
    next
      case (Redirected location)
      show ?thesis
      proof (cases "ee_join_url env location url")
        case None
        then show ?thesis using Suc.prems h Inr Redirected cs1
          by (intro exI [of _ cs]) (auto simp: egress_hops.simps fetch_counted_def)
      next
        case (Some url')
        then have "egress_hops env rq l url' st1 = (r, st')"
          using Suc.prems h Inr Redirected by (simp add: egress_hops.simps [of env rq "Suc l"])
        from Suc.IH [OF this] obtain cs' where cs': "hop_effect env rq st1 st' cs' (transcript_of r (length cs'))"
          "length cs' \<le> Suc l" "fetch_counted r (length cs')" by blast
        have "hop_effect env rq st st' (cs @ cs') ([''allowed''] @ transcript_of r (length cs'))"
          by (rule hop_effect_trans [OF cs1(1) cs'(1)])
        then show ?thesis using cs1(2) cs'(2,3) transcript_of_Suc [OF cs'(3)]
          by (intro exI [of _ "cs @ cs'"]) (auto simp: fetch_counted_def)
      qed
    qed
  qed
qed

definition resolved_request :: "egress_env \<Rightarrow> egress_request \<Rightarrow> credential option \<Rightarrow> egress_request" where
  "resolved_request env rq cred =
     (case cred of None \<Rightarrow> rq
      | Some cd \<Rightarrow> (case attachCredential (ee_vault env) (rq_headers rq) cd of Inl _ \<Rightarrow> rq | Inr h \<Rightarrow> rq\<lparr>rq_headers := h\<rparr>))"

lemma vetted_connection_headers [simp]: "vetted_connection env (rq\<lparr>rq_headers := h\<rparr>) = vetted_connection env rq"
  by (simp add: fun_eq_iff vetted_connection_def)

lemma hop_effect_headers [simp]: "hop_effect env (rq\<lparr>rq_headers := h\<rparr>) = hop_effect env rq"
  by (simp add: fun_eq_iff hop_effect_def)

lemma performEgress_effect:
  "\<exists>cs. hop_effect env rq st (snd (performEgress env rq url cred st)) cs (transcript_of (fst (performEgress env rq url cred st)) (length cs))
     \<and> length cs \<le> 6 \<and> fetch_counted (fst (performEgress env rq url cred st)) (length cs)"
proof (cases "(case cred of None \<Rightarrow> Inr (rq_headers rq) | Some cd \<Rightarrow> attachCredential (ee_vault env) (rq_headers rq) cd)")
  case (Inl e)
  then show ?thesis by (intro exI [of _ "[]"]) (simp add: performEgress_def fetch_counted_def)
next
  case (Inr h)
  obtain r st' where p: "egress_hops env (rq\<lparr>rq_headers := h\<rparr>) MAX_REDIRECTS url st = (r, st')" by fastforce
  from egress_hops_effect [OF p] obtain cs where
    "hop_effect env rq st st' cs (transcript_of r (length cs))" "length cs \<le> Suc MAX_REDIRECTS" "fetch_counted r (length cs)"
    by auto
  then show ?thesis using Inr p by (intro exI [of _ cs]) (simp add: performEgress_def MAX_REDIRECTS_def)
qed

text \<open>C20. Whatever the contract, the redirects, the resolver and the endpoint do, a call makes at most six
  connections, and each of them goes to a host and method of the contract's allowlist, at the very
  address that the guard vetted for its host name and that is not on the deny list: the lookup of the
  connection itself (\<open>ee_lookup\<close>) has no influence.\<close>

theorem egress_connects_to_vetted_addresses:
  "\<exists>cs. es_conns (snd (performEgress env rq url cred st)) = es_conns st @ cs
     \<and> length cs \<le> 6 \<and> list_all (vetted_connection env rq) cs"
  using performEgress_effect [of env rq st url cred] by (auto simp: hop_effect_def)

text \<open>The transcript of a call follows from its outcome: every connection that was answered has one
  row \<open>allowed\<close>, a refusal by the allowlist or by the address guard adds one row \<open>blocked\<close> after them, and a
  connection that failed has none. All rows go to the connector's own stream and nothing else is
  journaled.\<close>

theorem egress_transcript:
  "\<exists>cs rows. es_conns (snd (performEgress env rq url cred st)) = es_conns st @ cs
     \<and> journal (es_db (snd (performEgress env rq url cred st))) = journal (es_db st) @ rows
     \<and> list_all (egress_row (rq_connector rq)) rows
     \<and> map decision_of rows = map (\<lambda>d. Some (JStr d)) (transcript_of (fst (performEgress env rq url cred st)) (length cs))"
  using performEgress_effect [of env rq st url cred] unfolding hop_effect_def by blast

subsection \<open>Concurrent calls\<close>

text \<open>
  Calls interleave: each acquires a pin after the guard vetted an address and holds the closure that
  releases it, which may be called more than once. The state is the table and the closures with their
  \<open>released\<close> flags.
\<close>

type_synonym pin_state = "pins \<times> (string \<times> bool) list"

inductive pin_step :: "pin_state \<Rightarrow> pin_state \<Rightarrow> bool" where
  acquire: "pin_step (ps, hs) (pinHostResolution hostname ip ps, hs @ [(js_lower hostname, False)])"
    if "resolveVettedIp resolve hostname = Inr ip"
| release: "pin_step (ps, hs) (ps', hs[i := (key, rel')])"
    if "i < length hs" "hs ! i = (key, rel)" "unpin key rel ps = (rel', ps')"

inductive pin_reach :: "pin_state \<Rightarrow> bool" where
  start: "pin_reach ([], [])"
| step: "pin_reach s \<Longrightarrow> pin_step s s' \<Longrightarrow> pin_reach s'"

inductive_cases pin_stepE: "pin_step (ps, hs) s'"

definition live :: "string \<Rightarrow> (string \<times> bool) list \<Rightarrow> nat" where
  "live key hs = length (filter (\<lambda>h. h = (key, False)) hs)"

fun pin_ok :: "pin option \<Rightarrow> nat \<Rightarrow> bool" where
  "pin_ok None k = (k = 0)"
| "pin_ok (Some p) k = (pin_refs p = int k \<and> 0 < k \<and> \<not> isDeniedIp (pin_ip p))"

fun pins_inv :: "pin_state \<Rightarrow> bool" where
  "pins_inv (ps, hs) = (\<forall>key. pin_ok (tbl_get ps key) (live key hs))"

lemma live_snoc [simp]: "live key (hs @ [h]) = live key hs + (if h = (key, False) then 1 else 0)"
  by (simp add: live_def)

lemma live_update:
  "i < length hs \<Longrightarrow> live key (hs[i := h]) + (if hs ! i = (key, False) then 1 else 0) = live key hs + (if h = (key, False) then 1 else 0)"
proof (induction hs arbitrary: i)
  case (Cons x hs)
  show ?case
  proof (cases i)
    case (Suc j)
    with Cons.IH [of j] Cons.prems show ?thesis by (auto simp: live_def split: if_splits)
  qed (auto simp: live_def)
qed simp

lemma live_positive: "(key, False) \<in> set hs \<longleftrightarrow> 0 < live key hs"
  by (induction hs) (auto simp: live_def)

lemma pins_inv_acquire:
  assumes inv: "pins_inv (ps, hs)" and ip: "resolveVettedIp resolve hostname = Inr ip"
  shows "pins_inv (pinHostResolution hostname ip ps, hs @ [(js_lower hostname, False)])"
proof -
  have nd: "\<not> isDeniedIp ip" using resolveVettedIp_Inr [OF ip] by blast
  have "pin_ok (tbl_get (pinHostResolution hostname ip ps) k) (live k (hs @ [(js_lower hostname, False)]))" for k
  proof -
    have "pin_ok (tbl_get ps k) (live k hs)" using inv by simp
    with nd show ?thesis by (cases "tbl_get ps (js_lower hostname)") (auto simp: pinHostResolution_def Let_def)
  qed
  then show ?thesis by simp
qed

lemma pins_inv_release:
  assumes inv: "pins_inv (ps, hs)" and i: "i < length hs" "hs ! i = (key, rel)" and u: "unpin key rel ps = (rel', ps')"
  shows "pins_inv (ps', hs[i := (key, rel')])"
proof (cases rel)
  case True
  then have e: "rel' = rel" "ps' = ps" using u by (auto simp: unpin_def)
  have "hs[i := (key, rel')] = hs" unfolding e(1) i(2) [symmetric] by (rule list_update_id)
  with inv e(2) show ?thesis by simp
next
  case False
  have lk: "live k (hs[i := (key, True)]) = live k hs - (if k = key then 1 else 0)" for k
    using live_update [OF i(1), of k "(key, True)"] i(2) False by (simp split: if_splits)
  have "(key, False) \<in> set hs" using i False by (metis nth_mem)
  then have pos: "0 < live key hs" by (simp add: live_positive)
  have at: "pin_ok (tbl_get ps k) (live k hs)" for k using inv by simp
  obtain p where p: "tbl_get ps key = Some p" using at [of key] pos by (cases "tbl_get ps key") auto
  have r: "pin_refs p = int (live key hs)" "\<not> isDeniedIp (pin_ip p)" using at [of key] p by simp_all
  have rel': "rel' = True" using u False by (simp add: unpin_def)
  have get': "tbl_get ps' k = (if k = key then (if live key hs = 1 then None else Some (p\<lparr>pin_refs := pin_refs p - 1\<rparr>)) else tbl_get ps k)" for k
    using u False p r(1) pos by (auto simp: unpin_def Let_def split: if_splits)
  have "pin_ok (tbl_get ps' k) (live k (hs[i := (key, rel')]))" for k
    using at [of k] r pos by (auto simp: get' rel' lk)
  then show ?thesis by simp
qed

lemma pin_reach_inv: "pin_reach s \<Longrightarrow> pins_inv s"
proof (induction rule: pin_reach.induct)
  case start
  show ?case by (simp add: live_def)
next
  case (step s s')
  from step.hyps(2) step.IH show ?case
    by (cases rule: pin_step.cases) (blast intro: pins_inv_acquire pins_inv_release)+
qed

text \<open>C21. In every interleaving of calls, while some call holds a pin on a host name, every lookup of
  that name is answered from the table with an address that is not on the deny list, whatever the real
  resolver would say; a name on which no call holds a pin is looked up for real.\<close>

theorem live_pins_answer_lookups:
  assumes "pin_reach (ps, hs)"
  shows "if (js_lower hostname, False) \<in> set hs
    then \<exists>a f. pinnedDnsLookup real ps hostname allAddresses = [(a, f)] \<and> \<not> isDeniedIp a
    else pinnedDnsLookup real ps hostname allAddresses = real hostname allAddresses"
proof -
  have "pin_ok (tbl_get ps (js_lower hostname)) (live (js_lower hostname) hs)"
    using pin_reach_inv [OF assms] by simp
  then show ?thesis
    by (cases "tbl_get ps (js_lower hostname)") (simp_all add: pinnedDnsLookup_def live_positive)
qed

definition public_resolver :: "string \<Rightarrow> string list option" where
  "public_resolver _ = Some [dotted 8 8 8 8]"

lemma public_resolver_vets: "resolveVettedIp public_resolver ''A.b'' = Inr (dotted 8 8 8 8)"
proof -
  have "isIP ''A.b'' = 0" by code_simp
  moreover have "\<not> isDeniedIp (dotted 8 8 8 8)"
    by (simp add: isDeniedIp_def isIP_dotted isDeniedV4_dotted)
  ultimately show ?thesis by (simp add: resolveVettedIp_def public_resolver_def)
qed

lemma live_pins_answer_lookups_witness:
  "\<exists>a f. pinnedDnsLookup (\<lambda>_ _. []) (pinHostResolution ''A.b'' (dotted 8 8 8 8) []) ''a.B'' True = [(a, f)] \<and> \<not> isDeniedIp a"
proof -
  have "pin_reach (pinHostResolution ''A.b'' (dotted 8 8 8 8) [], [] @ [(js_lower ''A.b'', False)])"
    by (rule pin_reach.step [OF pin_reach.start pin_step.acquire [OF public_resolver_vets]])
  moreover have "js_lower ''a.B'' = js_lower ''A.b''" by code_simp
  ultimately show ?thesis using live_pins_answer_lookups [of _ _ "''a.B''" "\<lambda>_ _. []" True] by force
qed

subsection \<open>Contracts are well typed\<close>

lemma accepts_string:
  "validate matches (Suc n) root str_items d path = Some [] \<longleftrightarrow> (\<exists>s. d = JStr s \<and> s \<noteq> [])"
  by (cases d) (auto simp: str_items_def validate_step_def validate_plain_def check_value_def check_scalar_def fault_if_def)

lemma gather_map_Nil: "gather (map f xs) = Some [] \<longleftrightarrow> list_all (\<lambda>x. f x = Some []) xs"
  by (auto simp: gather_Nil_iff list_all_iff)

lemma accepts_strings:
  assumes "jget schema ''type'' = Some (JStr ''array'')" "jget schema ''items'' = Some str_items"
    "jget schema ''$ref'' = None" "jget schema ''oneOf'' = None"
    and "validate matches (Suc (Suc n)) root schema d path = Some []"
  shows "\<exists>ss. d = JArr (map JStr ss) \<and> [] \<notin> set ss"
proof -
  have nn: "schema \<noteq> JNull" using assms(1) by auto
  have p: "validate_plain matches (validate matches (Suc n) root) schema d path = Some []"
    using assms(3-5) nn by (simp add: validate_step_def)
  then obtain xs where d: "d = JArr xs" using assms(1) by (cases d) (auto simp: validate_plain_def)
  have it: "js_truthy (Some str_items)" by (simp add: str_items_def)
  have "check_items (validate matches (Suc n) root) schema xs path = Some []"
    using p by (auto simp: validate_plain_def d split: if_splits)
  then have e: "\<forall>q \<in> set (List.enumerate 0 xs). validate matches (Suc n) root str_items (snd q) (path @ ''['' @ show_nat (fst q) @ '']'') = Some []"
    unfolding check_items_def assms(2) using it by (simp add: gather_map_Nil list_all_iff split_def del: validate.simps)
  have "\<exists>s. x = JStr s \<and> s \<noteq> []" if "x \<in> set xs" for x
  proof -
    from that obtain i where "i < length xs" "x = xs ! i" by (auto simp: in_set_conv_nth)
    then have "(i, x) \<in> set (List.enumerate 0 xs)" by (simp add: in_set_enumerate_eq)
    with e have "validate matches (Suc n) root str_items x (path @ ''['' @ show_nat i @ '']'') = Some []" by fastforce
    then show ?thesis by (simp only: accepts_string)
  qed
  then have "\<forall>x \<in> set xs. \<exists>s. x = JStr s \<and> s \<noteq> []" by blast
  then show ?thesis using d
  proof (induction xs arbitrary: d)
    case (Cons x xs)
    then obtain ss where "xs = map JStr ss" "[] \<notin> set ss" by auto
    moreover obtain s where "x = JStr s" "s \<noteq> []" using Cons.prems by auto
    ultimately show ?case using Cons.prems by (intro exI [of _ "s # ss"]) simp
  qed simp
qed

lemma contract_schema_members:
  "jget CONTRACT_SCHEMA ''type'' = Some (JStr ''object'')" "jget CONTRACT_SCHEMA ''additionalProperties'' = Some (JBool False)"
  "jget CONTRACT_SCHEMA ''$ref'' = None" "jget CONTRACT_SCHEMA ''oneOf'' = None"
  "jget CONTRACT_SCHEMA ''const'' = None" "jget CONTRACT_SCHEMA ''enum'' = None"
  by (simp_all add: CONTRACT_SCHEMA_def)

definition contract_props :: "(string \<times> json) list" where
  "contract_props = jmembers (jget CONTRACT_SCHEMA ''properties'')"

lemma contract_schema_props: "jget CONTRACT_SCHEMA ''properties'' = Some (JObj contract_props)"
  by (simp add: contract_props_def CONTRACT_SCHEMA_def)

definition array_schema :: "json \<Rightarrow> bool" where
  "array_schema s \<longleftrightarrow> jget s ''type'' = Some (JStr ''array'') \<and> jget s ''items'' = Some str_items
     \<and> jget s ''$ref'' = None \<and> jget s ''oneOf'' = None"

lemma contract_schema_arrays:
  assumes "k \<in> {''allowed_hosts'', ''allowed_methods'', ''scopes''}"
  shows "\<exists>s. (k, s) \<in> set contract_props \<and> jget s ''type'' = Some (JStr ''array'') \<and> jget s ''items'' = Some str_items
     \<and> jget s ''$ref'' = None \<and> jget s ''oneOf'' = None"
proof -
  have "list_ex (\<lambda>(k', s). k' = k \<and> array_schema s) contract_props"
    using assms by (auto simp: contract_props_def CONTRACT_SCHEMA_def array_schema_def)
  then show ?thesis unfolding list_ex_iff array_schema_def by blast
qed

lemma contract_array:
  assumes "validate matches 4 CONTRACT_SCHEMA CONTRACT_SCHEMA raw path = Some []"
    and "k \<in> {''allowed_hosts'', ''allowed_methods'', ''scopes''}"
  shows "\<exists>ss. jget raw k = Some (JArr (map JStr ss)) \<and> [] \<notin> set ss"
proof -
  have "validate matches (Suc 3) CONTRACT_SCHEMA CONTRACT_SCHEMA raw path = Some []"
    using assms(1) by (simp add: numeral_eq_Suc del: validate.simps)
  note ok = this [unfolded closed_schema_accepts [OF contract_schema_members(1,2) contract_schema_props contract_schema_members(3-6)]]
  have "JStr k \<in> set (jarr_or_empty (jget CONTRACT_SCHEMA ''required''))"
    using assms(2) by (auto simp: CONTRACT_SCHEMA_def)
  with ok have "jget raw (js_string (JStr k)) \<noteq> None" by blast
  then obtain v where v: "jget raw k = Some v" by auto
  obtain s where s: "(k, s) \<in> set contract_props" "jget s ''type'' = Some (JStr ''array'')" "jget s ''items'' = Some str_items"
      "jget s ''$ref'' = None" "jget s ''oneOf'' = None"
    using contract_schema_arrays [OF assms(2)] by blast
  from ok v s(1) have "validate matches 3 CONTRACT_SCHEMA s v (path @ ''.'' @ k) = Some []" by blast
  then have "validate matches (Suc (Suc 1)) CONTRACT_SCHEMA s v (path @ ''.'' @ k) = Some []"
    by (simp add: numeral_eq_Suc del: validate.simps)
  from accepts_strings [OF s(2-5) this] v show ?thesis by simp
qed

lemma loadContract_valid:
  "loadContract sha files p = Inr cf \<Longrightarrow>
   validate (\<lambda>_ _. True) 4 CONTRACT_SCHEMA CONTRACT_SCHEMA (cf_contract cf) ''$'' = Some []"
  by (auto simp: loadContract_def simp del: validate.simps split: option.splits list.splits sum.splits)

text \<open>A contract that loads is well typed where the allowlist is concerned: its hosts and methods are
  arrays of non-empty strings, so the check never throws and is exactly membership of the pair in both
  lists, without patterns and without a case that passes by default.\<close>

theorem loaded_contract_allowlist:
  assumes "loadContract sha files path = Inr cf"
  shows "\<exists>hosts methods.
    jget (cf_contract cf) ''allowed_hosts'' = Some (JArr (map JStr hosts)) \<and> [] \<notin> set hosts
    \<and> jget (cf_contract cf) ''allowed_methods'' = Some (JArr (map JStr methods)) \<and> [] \<notin> set methods
    \<and> assertEgressAllowed (cf_contract cf) (Some (JStr host)) (Some (JStr method)) = Inr (host \<in> set hosts \<and> method \<in> set methods)"
proof -
  note ok = loadContract_valid [OF assms]
  obtain hs where hs: "jget (cf_contract cf) ''allowed_hosts'' = Some (JArr (map JStr hs))" "[] \<notin> set hs"
    using contract_array [OF ok, of "''allowed_hosts''"] by blast
  obtain ms where ms: "jget (cf_contract cf) ''allowed_methods'' = Some (JArr (map JStr ms))" "[] \<notin> set ms"
    using contract_array [OF ok, of "''allowed_methods''"] by blast
  show ?thesis
    by (rule exI [of _ hs], rule exI [of _ ms])
      (use hs ms in \<open>auto simp: assertEgressAllowed_def js_includes_def\<close>)
qed

definition sample_contract :: json where
  "sample_contract = JObj [(''connector_id'', JStr ''c''), (''connector_version'', JStr ''1''), (''publisher'', JStr ''p''),
     (''allowed_hosts'', JArr [JStr ''a.b'']), (''allowed_methods'', JArr [JStr ''GET'']), (''scopes'', JArr [])]"

lemma sample_contract_valid: "validate (\<lambda>_ _. True) 4 CONTRACT_SCHEMA CONTRACT_SCHEMA sample_contract ''$'' = Some []"
  by code_simp

lemma sample_contract_loads: "\<exists>cf. loadContract sha (\<lambda>_. Some sample_contract) [] = Inr cf \<and> cf_contract cf = sample_contract"
proof -
  have "ijson_ok sample_contract"
    by (simp add: sample_contract_def ijson_ok_iff MAX_DEPTH_def MAX_ELEMENTS_def)
  then show ?thesis
    by (simp add: loadContract_def sample_contract_valid verifyClassDigestHex_def ijson_ok_def Let_def del: validate.simps)
qed

lemma loaded_contract_allowlist_witness:
  "assertEgressAllowed sample_contract (Some (JStr ''a.b'')) (Some (JStr ''GET'')) = Inr True
   \<and> assertEgressAllowed sample_contract (Some (JStr ''a.b'')) (Some (JStr ''PUT'')) = Inr False"
proof -
  obtain cf where cf: "loadContract id (\<lambda>_. Some sample_contract) [] = Inr cf" "cf_contract cf = sample_contract"
    using sample_contract_loads by blast
  from loaded_contract_allowlist [OF cf(1), of "''a.b''" "''GET''"] loaded_contract_allowlist [OF cf(1), of "''a.b''" "''PUT''"]
  show ?thesis by (auto simp: cf(2) sample_contract_def)
qed

end
