(* ===== verification/Webhook_Guard.thy ===== *)
theory Webhook_Guard
  imports Js_Values
begin

text \<open>
  \<^verbatim>\<open>hub/webhook-signing.mjs\<close> (signatures over outbound deliveries) and
  \<^verbatim>\<open>hub/webhook-guard.mjs\<close> (authentication, replay and idempotency of inbound deliveries). The
  keyed hash is a parameter \<open>hmac\<close>, whose value is its hexadecimal digest; times are integers
  (seconds in the first module, milliseconds in the second) and every reading of the clock is an
  argument. A \<open>Map\<close> compares keys with SameValueZero, so a key that is an object is never found.
\<close>

subsection \<open>Outbound signatures\<close>

datatype signing_error = Secret_required

datatype signature_verdict = Signature_ok int | Malformed_header | Outside_tolerance int | Signature_mismatch

definition hmacHex :: "(string \<Rightarrow> string \<Rightarrow> string) \<Rightarrow> string \<Rightarrow> string \<Rightarrow> string" where
  "hmacHex hmac secret message = hmac secret message"

definition signWebhookPayload :: "(string \<Rightarrow> string \<Rightarrow> string) \<Rightarrow> string \<Rightarrow> string \<Rightarrow> int \<Rightarrow> signing_error + string" where
  "signWebhookPayload hmac secret body timestamp =
     (if secret = [] then Inl Secret_required
      else Inr (''t='' @ show_int timestamp @ '',v1='' @ hmacHex hmac secret (show_int timestamp @ ''.'' @ body)))"

definition header_pair :: "string \<Rightarrow> string \<times> string" where
  \<comment> \<open>one part of the header, split at its first \<open>=\<close>\<close>
  "header_pair kv =
     (if CHR ''='' \<notin> set kv then (kv, [])
      else (js_trim (takeWhile (\<lambda>c. c \<noteq> CHR ''='') kv), js_trim (tl (dropWhile (\<lambda>c. c \<noteq> CHR ''='') kv))))"

definition header_parts :: "string \<Rightarrow> (string, string) tbl" where
  \<comment> \<open>\<open>Object.fromEntries\<close>: the last of equal names counts\<close>
  "header_parts header = rev (map header_pair (js_split (CHR '','') header))"

definition parseSignatureHeader :: "json option \<Rightarrow> (int \<times> string) option" where
  "parseSignatureHeader header =
     (case header of
        Some (JStr h) \<Rightarrow>
          (case (tbl_get (header_parts h) ''t'', tbl_get (header_parts h) ''v1'') of
             (Some t, Some v1) \<Rightarrow>
               if t = [] \<or> v1 = [] \<or> \<not> list_all is_digit t then None else Some (int (read_nat t), v1)
           | _ \<Rightarrow> None)
      | _ \<Rightarrow> None)"

definition verifyWebhookSignature_signing ::
  "(string \<Rightarrow> string \<Rightarrow> string) \<Rightarrow> string \<Rightarrow> json option \<Rightarrow> string \<Rightarrow> int \<Rightarrow> int \<Rightarrow> signature_verdict" where
  "verifyWebhookSignature_signing hmac secret header body toleranceSeconds now =
     (case parseSignatureHeader header of
        None \<Rightarrow> Malformed_header
      | Some (timestamp, signature) \<Rightarrow>
          if \<bar>now - timestamp\<bar> > toleranceSeconds then Outside_tolerance toleranceSeconds
          else if hmacHex hmac secret (show_int timestamp @ ''.'' @ body) \<noteq> signature then Signature_mismatch
          else Signature_ok timestamp)"

definition checkAndRecord :: "int \<Rightarrow> string \<Rightarrow> int \<Rightarrow> (string, int) tbl \<Rightarrow> bool \<times> (string, int) tbl" where
  "checkAndRecord windowSeconds eventId now seen =
     (let seen1 = filter (\<lambda>(_, expiry). \<not> expiry \<le> now) seen
      in if tbl_get seen1 eventId \<noteq> None then (False, seen1)
         else (True, tbl_upsert eventId (now + windowSeconds) seen1))"

subsection \<open>Inbound authentication\<close>

definition verifyWebhookSignature :: "(string \<Rightarrow> string \<Rightarrow> string) \<Rightarrow> string \<Rightarrow> string \<Rightarrow> string option \<Rightarrow> bool" where
  "verifyWebhookSignature hmac secret rawBody headerValue =
     (case headerValue of
        Some (c # cs) \<Rightarrow>
          secret \<noteq> [] \<and>
          (let provided = (if starts_with (c # cs) ''sha256='' then drop 7 (c # cs) else c # cs)
           in hmac secret rawBody = provided)
      | _ \<Rightarrow> False)"

definition NONCE_TOLERANCE_MS :: int where "NONCE_TOLERANCE_MS = 5 * 60 * 1000"

definition isTimestampFresh :: "(string \<Rightarrow> int option) \<Rightarrow> json \<Rightarrow> int \<Rightarrow> int \<Rightarrow> bool" where
  "isTimestampFresh dateParse timestamp toleranceMs now =
     (case dateParse (js_string timestamp) of None \<Rightarrow> False | Some t \<Rightarrow> \<bar>now - t\<bar> \<le> toleranceMs)"

definition map_has :: "(json, 'v) tbl \<Rightarrow> json \<Rightarrow> 'v option" where
  \<comment> \<open>\<open>Map.get\<close> with a key that was just parsed\<close>
  "map_has m k = (if is_prim (Some k) then tbl_get m k else None)"

definition map_put :: "json \<Rightarrow> 'v \<Rightarrow> (json, 'v) tbl \<Rightarrow> (json, 'v) tbl" where
  "map_put k v m = (if is_prim (Some k) then tbl_upsert k v m else m @ [(k, v)])"

definition checkAndConsumeNonce :: "json \<Rightarrow> int \<Rightarrow> int \<Rightarrow> (json, int) tbl \<Rightarrow> bool \<times> (json, int) tbl" where
  "checkAndConsumeNonce nonce ttlMs now seenNonces =
     (let seen1 = filter (\<lambda>(_, expiresAt). \<not> expiresAt < now) seenNonces
      in if map_has seen1 nonce \<noteq> None then (False, seen1)
         else (True, map_put nonce (now + ttlMs) seen1))"

subsection \<open>Idempotency\<close>

record cached_response =
  ca_expires :: int
  ca_status :: int
  ca_body :: json

definition IDEMPOTENCY_TTL_MS :: int where "IDEMPOTENCY_TTL_MS = 24 * 60 * 60 * 1000"

definition getIdempotentResponse ::
  "json \<Rightarrow> int \<Rightarrow> (json, cached_response) tbl \<Rightarrow> (int \<times> json) option \<times> (json, cached_response) tbl" where
  "getIdempotentResponse key now cache =
     (case map_has cache key of
        None \<Rightarrow> (None, cache)
      | Some entry \<Rightarrow>
          if ca_expires entry < now then (None, tbl_delete key cache)
          else (Some (ca_status entry, ca_body entry), cache))"

definition storeIdempotentResponse ::
  "json \<Rightarrow> int \<Rightarrow> json \<Rightarrow> int \<Rightarrow> int \<Rightarrow> (json, cached_response) tbl \<Rightarrow> (json, cached_response) tbl" where
  "storeIdempotentResponse key status body ttlMs now cache =
     map_put key \<lparr>ca_expires = now + ttlMs, ca_status = status, ca_body = body\<rparr> cache"

subsection \<open>A signature verifies\<close>

lemma js_trim_plain: "list_all (\<lambda>c. \<not> is_js_space c) s \<Longrightarrow> js_trim s = s"
proof -
  assume a: "list_all (\<lambda>c. \<not> is_js_space c) s"
  then have d: "dropWhile is_js_space s = s" by (cases s) simp_all
  from a have "list_all (\<lambda>c. \<not> is_js_space c) (rev s)" by simp
  then have "dropWhile is_js_space (rev s) = rev s" by (cases "rev s") simp_all
  with d show ?thesis by (simp add: js_trim_def)
qed

lemma is_digit_facts: "is_digit c \<Longrightarrow> \<not> is_js_space c \<and> c \<noteq> CHR '','' \<and> c \<noteq> CHR ''=''"
  by (auto simp: is_digit_def is_js_space_def)

lemma is_hex_char_facts: "is_hex_char c \<Longrightarrow> \<not> is_js_space c \<and> c \<noteq> CHR '','' \<and> c \<noteq> CHR ''=''"
  by (auto simp: is_hex_char_def is_digit_def is_js_space_def)

lemma header_pair_plain:
  assumes "list_all (\<lambda>c. \<not> is_js_space c) k" "list_all (\<lambda>c. \<not> is_js_space c) v" "CHR ''='' \<notin> set k"
  shows "header_pair (k @ CHR ''='' # v) = (k, v)"
proof -
  have t: "takeWhile (\<lambda>c. c \<noteq> CHR ''='') (k @ CHR ''='' # v) = k" "dropWhile (\<lambda>c. c \<noteq> CHR ''='') (k @ CHR ''='' # v) = CHR ''='' # v"
    using assms(3) by (induction k) auto
  show ?thesis unfolding header_pair_def t using assms by (simp add: js_trim_plain)
qed

lemma js_split_two: "c \<notin> set a \<Longrightarrow> c \<notin> set b \<Longrightarrow> js_split c (a @ c # b) = [a, b]"
proof (induction a)
  case Nil
  then show ?case by (induction b) auto
qed auto

lemma show_nat_no: "c \<in> set (show_nat n) \<Longrightarrow> is_digit c"
  using show_nat_digits [of n] by blast

lemma parse_signed_header:
  assumes "0 \<le> ts" and hex: "list_all is_hex_char sig" "sig \<noteq> []"
  shows "parseSignatureHeader (Some (JStr (''t='' @ show_int ts @ '',v1='' @ sig))) = Some (ts, sig)"
proof -
  let ?t = "show_nat (nat ts)"
  have st: "show_int ts = ?t" using assms(1) by (simp add: show_int_def)
  have dt: "list_all is_digit ?t" using show_nat_digits [of "nat ts"] by (simp add: list_all_iff)
  have plain: "list_all (\<lambda>c. \<not> is_js_space c) ?t" "list_all (\<lambda>c. \<not> is_js_space c) sig" "CHR '','' \<notin> set ?t" "CHR '','' \<notin> set sig"
    using dt hex is_digit_facts is_hex_char_facts unfolding list_all_iff by blast+
  have k: "list_all (\<lambda>c. \<not> is_js_space c) ''t''" "list_all (\<lambda>c. \<not> is_js_space c) ''v1''"
    by (simp_all add: is_js_space_def)
  have "js_split (CHR '','') ((''t'' @ CHR ''='' # ?t) @ CHR '','' # (''v1'' @ CHR ''='' # sig))
      = [''t'' @ CHR ''='' # ?t, ''v1'' @ CHR ''='' # sig]"
    by (rule js_split_two) (use plain in auto)
  then have "header_parts (''t='' @ ?t @ '',v1='' @ sig) = [(''v1'', sig), (''t'', ?t)]"
    using header_pair_plain [OF k(1) plain(1)] header_pair_plain [OF k(2) plain(2)] by (simp add: header_parts_def)
  then show ?thesis using dt hex(2) assms(1) by (simp add: parseSignatureHeader_def st)
qed

text \<open>A delivery signed by the daemon verifies with the same secret and body exactly while the clock is
  within the tolerance of its time stamp, for every hash with non-empty hexadecimal digests; outside it
  the verdict names the tolerance and never the signature.\<close>

theorem signed_delivery_verifies:
  assumes "signWebhookPayload hmac secret body ts = Inr header" and "0 \<le> ts"
    and "hex_digest_fun (hmac secret)"
  shows "verifyWebhookSignature_signing hmac secret (Some (JStr header)) body tolerance now =
    (if \<bar>now - ts\<bar> \<le> tolerance then Signature_ok ts else Outside_tolerance tolerance)"
proof -
  have h: "is_hex64 (hmacHex hmac secret (show_int ts @ ''.'' @ body))" using assms(3) by (simp add: hex_digest_fun_def hmacHex_def)
  then have "hmacHex hmac secret (show_int ts @ ''.'' @ body) \<noteq> []" by (auto simp: is_hex64_def)
  with h have "parseSignatureHeader (Some (JStr header)) = Some (ts, hmacHex hmac secret (show_int ts @ ''.'' @ body))"
    using assms(1) parse_signed_header [OF assms(2), of "hmacHex hmac secret (show_int ts @ ''.'' @ body)"]
    by (auto simp: signWebhookPayload_def is_hex64_def split: if_splits)
  then show ?thesis by (simp add: verifyWebhookSignature_signing_def)
qed

lemma signed_delivery_verifies_witness:
  "verifyWebhookSignature_signing (\<lambda>_ _. replicate 64 (CHR ''0'')) ''k''
     (Some (JStr (''t='' @ show_int 7 @ '',v1='' @ replicate 64 (CHR ''0'')))) ''b'' 300 8 = Signature_ok 7"
  using signed_delivery_verifies [of "\<lambda>_ _. replicate 64 (CHR ''0'')" "''k''" "''b''" 7 _ 300 8]
  by (simp add: signWebhookPayload_def hmacHex_def hex_digest_fun_def is_hex64_def list_all_iff is_hex_char_def is_digit_def)

subsection \<open>Replay\<close>

text \<open>A run of nonce checks: each with its nonce and the clock, in the order of the calls.\<close>

fun consume_all :: "(json \<times> int) list \<Rightarrow> (json, int) tbl \<Rightarrow> (json, int) tbl" where
  "consume_all [] seen = seen"
| "consume_all ((n, now) # cs) seen = consume_all cs (snd (checkAndConsumeNonce n NONCE_TOLERANCE_MS now seen))"

definition keeps_nonce :: "json \<Rightarrow> int \<Rightarrow> (json, int) tbl \<Rightarrow> bool" where
  "keeps_nonce n e seen \<longleftrightarrow> (\<exists>t \<ge> e. (n, t) \<in> set seen)"

lemma map_has_present: "is_prim (Some n) \<Longrightarrow> map_has seen n \<noteq> None \<longleftrightarrow> n \<in> fst ` set seen"
  by (simp add: map_has_def dom_map_of_conv_image_fst [symmetric] domIff)

lemma update_fresh: "k \<notin> fst ` set t \<Longrightarrow> AList.update k v t = t @ [(k, v)]"
  by (induction t) auto

lemma checkAndConsumeNonce_keeps:
  assumes "keeps_nonce n e seen" and "now \<le> e"
  shows "keeps_nonce n e (snd (checkAndConsumeNonce m NONCE_TOLERANCE_MS now seen))"
proof -
  obtain t where t: "t \<ge> e" "(n, t) \<in> set seen" using assms(1) by (auto simp: keeps_nonce_def)
  let ?s = "filter (\<lambda>(_, expiresAt). \<not> expiresAt < now) seen"
  have f: "(n, t) \<in> set ?s" using t assms(2) by simp
  show ?thesis
  proof (cases "map_has ?s m")
    case None
    have "(n, t) \<in> set (map_put m (now + NONCE_TOLERANCE_MS) ?s)"
    proof (cases "is_prim (Some m)")
      case True
      then have "m \<notin> fst ` set ?s" using None map_has_present [of m ?s] by simp
      then show ?thesis using f True by (auto simp: map_put_def tbl_upsert_def update_fresh)
    qed (use f in \<open>simp add: map_put_def\<close>)
    with None t(1) show ?thesis by (auto simp: checkAndConsumeNonce_def keeps_nonce_def Let_def)
  next
    case (Some x)
    with f t(1) show ?thesis by (auto simp: checkAndConsumeNonce_def keeps_nonce_def Let_def)
  qed
qed

lemma consume_all_keeps:
  "keeps_nonce n e seen \<Longrightarrow> list_all (\<lambda>(_, now). now \<le> e) cs \<Longrightarrow> keeps_nonce n e (consume_all cs seen)"
  by (induction cs seen rule: consume_all.induct) (auto intro: checkAndConsumeNonce_keeps)

lemma accepted_nonce_kept:
  assumes "checkAndConsumeNonce n NONCE_TOLERANCE_MS now seen = (True, seen1)"
  shows "keeps_nonce n (now + NONCE_TOLERANCE_MS) seen1"
proof -
  have "(n, now + NONCE_TOLERANCE_MS) \<in> set seen1"
    using assms map_of_SomeD [of "tbl_upsert n (now + NONCE_TOLERANCE_MS) _" n]
    by (auto simp: checkAndConsumeNonce_def Let_def map_put_def split: if_splits)
  then show ?thesis by (auto simp: keeps_nonce_def)
qed

lemma kept_nonce_rejected:
  assumes "keeps_nonce n e seen" and "now \<le> e" and "is_prim (Some n)"
  shows "fst (checkAndConsumeNonce n NONCE_TOLERANCE_MS now seen) = False"
proof -
  obtain t where "t \<ge> e" "(n, t) \<in> set seen" using assms(1) by (auto simp: keeps_nonce_def)
  then have "(n, t) \<in> set (filter (\<lambda>(_, expiresAt). \<not> expiresAt < now) seen)" using assms(2) by simp
  then have "n \<in> fst ` set (filter (\<lambda>(_, expiresAt). \<not> expiresAt < now) seen)" by (rule rev_image_eqI) simp
  then have "map_has (filter (\<lambda>(_, expiresAt). \<not> expiresAt < now) seen) n \<noteq> None"
    by (simp only: map_has_present [OF assms(3)])
  then show ?thesis unfolding checkAndConsumeNonce_def Let_def by (simp only: not_False_eq_True if_True fst_conv)
qed



text \<open>A nonce that is an object is a new key of the \<open>Map\<close> at every delivery and never recognised.\<close>

lemma object_nonce_always_accepted:
  "\<not> is_prim (Some n) \<Longrightarrow> fst (checkAndConsumeNonce n ttl now seen)"
  by (simp add: checkAndConsumeNonce_def map_has_def Let_def)

end
