(* ===== verification/Connectors.thy ===== *)
theory Connectors
  imports Egress Webhook_Guard
begin

text \<open>
  The three connectors that go through \<open>performEgress\<close> or its parts: \<^verbatim>\<open>connectors/http-send.mjs\<close>,
  \<^verbatim>\<open>connectors/google-drive-fetch.mjs\<close> and \<^verbatim>\<open>connectors/inbound-webhook.mjs\<close>. A connector object
  is the vault slice of its closure: \<open>None\<close> before \<open>init\<close> and after \<open>dispose\<close>.
\<close>

datatype connector_error =
    Not_initialized
  | No_vault_slice
  | In_egress egress_error
  | In_signing signing_error
  | Blocked_source
  | Connector_type_error

type_synonym vault_slice = "json option"

definition slice_ref :: "vault_slice \<Rightarrow> string \<Rightarrow> string option" where
  \<comment> \<open>\<open>vaultSlice?.k\<close> when it is a reference\<close>
  "slice_ref vslice k = (case jget_opt vslice k of Some (JStr (c # cs)) \<Rightarrow> Some (c # cs) | _ \<Rightarrow> None)"

record send_result =
  sd_attestation :: json
  sd_payload :: string
  sd_status :: int

record send_context =
  sx_run_id :: "json option"
  sx_manifest_digest :: "json option"
  sx_contract :: json
  sx_contract_digest :: string
  sx_now :: string
  sx_classification :: "json option"

definition attest :: "(string \<Rightarrow> string) \<Rightarrow> send_context \<Rightarrow> string \<Rightarrow> json \<Rightarrow> json option \<Rightarrow> string \<Rightarrow> json" where
  "attest sha x connectorId operation endpointHost payload =
     buildConnectorAttestation sha (sx_now x)
       \<lparr>at_run_id = sx_run_id x, at_manifest_digest = sx_manifest_digest x, at_connector_id = connectorId,
        at_connector_version = ''1.0.0'', at_contract_digest = sx_contract_digest x, at_operation = Some operation,
        at_scope = jget (sx_contract x) ''scopes'', at_endpoint_host = endpointHost, at_payload = payload,
        at_classification = sx_classification x\<rparr>"

definition url_host :: "egress_env \<Rightarrow> string \<Rightarrow> json option" where
  "url_host env url = map_option (\<lambda>(host, _). JStr host) (ee_parse_url env url)"

definition egress_then ::
  "egress_env \<Rightarrow> egress_request \<Rightarrow> string \<Rightarrow> credential option \<Rightarrow> send_context \<Rightarrow> string \<Rightarrow> json \<Rightarrow>
   'a journal_db_scheme egress_state \<Rightarrow> (connector_error + send_result) \<times> 'a journal_db_scheme egress_state" where
  \<comment> \<open>the request and the attestation of its response\<close>
  "egress_then env rq url cred x connectorId operation st =
     (case performEgress env rq url cred st of
        (Inl e, st1) \<Rightarrow> (Inl (In_egress e), st1)
      | (Inr res, st1) \<Rightarrow>
          (Inr \<lparr>sd_attestation = attest (ee_sha env) x connectorId operation (url_host env url) (rs_body res),
                sd_payload = rs_body res, sd_status = rs_status res\<rparr>, st1))"

subsection \<open>http.send\<close>

record http_payload =
  hp_url :: string
  hp_method :: string
  hp_headers :: headers
  hp_body :: "string option"
  hp_scheme :: "string option"
  hp_operation :: "json option"
  hp_signing_secret :: "string option"

definition HTTP_SEND_ID :: string where "HTTP_SEND_ID = ''http.send''"

definition http_selfTest :: "(string \<Rightarrow> vault_error + json) \<Rightarrow> vault_slice \<Rightarrow> credential_error + bool" where
  "http_selfTest get vslice =
     (case slice_ref vslice ''credentialRef'' of None \<Rightarrow> Inr True | Some ref \<Rightarrow> credentialExists get ref)"

definition http_headers :: "(string \<Rightarrow> string \<Rightarrow> string) \<Rightarrow> int \<Rightarrow> http_payload \<Rightarrow> signing_error + headers" where
  "http_headers hmac ts p =
     (case (hp_signing_secret p, hp_body p) of
        (Some (c # cs), Some body) \<Rightarrow>
          and_then (signWebhookPayload hmac (c # cs) body ts) (\<lambda>sig. Inr (jspread (hp_headers p) [(''Helm-Signature'', JStr sig)]))
      | _ \<Rightarrow> Inr (hp_headers p))"

definition createHttpConnector ::
  "egress_env \<Rightarrow> (string \<Rightarrow> string \<Rightarrow> string) \<Rightarrow> int \<Rightarrow> send_context \<Rightarrow> vault_slice \<Rightarrow> http_payload \<Rightarrow>
   'a journal_db_scheme egress_state \<Rightarrow> (connector_error + send_result) \<times> 'a journal_db_scheme egress_state" where
  \<comment> \<open>\<open>send\<close> of the connector\<close>
  "createHttpConnector env hmac ts x vslice p st =
     (if vslice = None then (Inl Not_initialized, st)
      else case http_headers hmac ts p of
        Inl e \<Rightarrow> (Inl (In_signing e), st)
      | Inr sentHeaders \<Rightarrow>
          egress_then env
            \<lparr>rq_contract = sx_contract x, rq_connector = HTTP_SEND_ID, rq_method = hp_method p, rq_headers = sentHeaders, rq_body = hp_body p\<rparr>
            (hp_url p)
            (map_option (\<lambda>ref. \<lparr>cd_ref = ref, cd_scheme = Some (case hp_scheme p of None \<Rightarrow> ''bearer'' | Some s \<Rightarrow> s),
                                cd_field = None, cd_header = None\<rparr>) (slice_ref vslice ''credentialRef''))
            x HTTP_SEND_ID (case hp_operation p of None \<Rightarrow> JStr ''http.send'' | Some v \<Rightarrow> v) st)"

subsection \<open>google-drive.fetch\<close>

definition GOOGLE_DRIVE_FETCH_ID :: string where "GOOGLE_DRIVE_FETCH_ID = ''google-drive.fetch''"

definition upper_hex :: "nat \<Rightarrow> char" where
  "upper_hex n = ''0123456789ABCDEF'' ! n"

definition uri_unreserved :: "char \<Rightarrow> bool" where
  "uri_unreserved c = (let n = of_char c :: nat in
     is_digit c \<or> 65 \<le> n \<and> n \<le> 90 \<or> 97 \<le> n \<and> n \<le> 122 \<or> c \<in> set ''-_.!~*()'' \<or> n = 39)"

definition encodeURIComponent :: "string \<Rightarrow> string" where
  "encodeURIComponent s =
     concat (map (\<lambda>c. if uri_unreserved c then [c]
                      else concat (map (\<lambda>b. [CHR ''%'', upper_hex (b div 16), upper_hex (b mod 16)]) (utf8_bytes [c]))) s)"

definition drive_url :: "string \<Rightarrow> string" where
  "drive_url fileId = ''https://www.googleapis.com/drive/v3/files/'' @ encodeURIComponent fileId @ ''?alt=media''"

definition drive_selfTest :: "(string \<Rightarrow> vault_error + json) \<Rightarrow> vault_slice \<Rightarrow> credential_error + bool" where
  "drive_selfTest get vslice =
     (case slice_ref vslice ''tokenRef'' of None \<Rightarrow> Inr False | Some ref \<Rightarrow> credentialExists get ref)"

definition createGoogleDriveFetchConnector ::
  "egress_env \<Rightarrow> send_context \<Rightarrow> vault_slice \<Rightarrow> json \<Rightarrow>
   'a journal_db_scheme egress_state \<Rightarrow> (connector_error + send_result) \<times> 'a journal_db_scheme egress_state" where
  "createGoogleDriveFetchConnector env x vslice fileId st =
     (case slice_ref vslice ''tokenRef'' of
        None \<Rightarrow> (Inl No_vault_slice, st)
      | Some ref \<Rightarrow>
          egress_then env
            \<lparr>rq_contract = sx_contract x, rq_connector = GOOGLE_DRIVE_FETCH_ID, rq_method = ''GET'', rq_headers = [], rq_body = None\<rparr>
            (drive_url (js_string fileId))
            (Some \<lparr>cd_ref = ref, cd_scheme = Some ''bearer'', cd_field = None, cd_header = None\<rparr>)
            x GOOGLE_DRIVE_FETCH_ID (JStr ''drive.files.get'') st)"

subsection \<open>inbound-webhook\<close>

definition INBOUND_WEBHOOK_ID :: string where "INBOUND_WEBHOOK_ID = ''inbound-webhook''"

record inbound_payload =
  ib_source :: "json option"
  ib_method :: "json option"
  ib_body :: json
  ib_operation :: "json option"

definition body_bytes :: "json \<Rightarrow> string" where
  "body_bytes body = (case body of JStr s \<Rightarrow> s | v \<Rightarrow> json_stringify v)"

definition createInboundWebhookConnector ::
  "(string \<Rightarrow> string) \<Rightarrow> journal_clock \<Rightarrow> send_context \<Rightarrow> inbound_payload \<Rightarrow>
   'a journal_db_scheme \<Rightarrow> (connector_error + send_result) \<times> 'a journal_db_scheme" where
  \<comment> \<open>\<open>send\<close>: the slice is not consulted\<close>
  "createInboundWebhookConnector sha clk x p db =
     (let bytes = body_bytes (ib_body p); requestDigest = sha256ref (sha bytes);
          note = recordEgress sha clk INBOUND_WEBHOOK_ID (ib_source p) (ib_method p)
      in case assertEgressAllowed (sx_contract x) (ib_source p) (ib_method p) of
           Inl e \<Rightarrow> (Inl (In_egress e), db)
         | Inr False \<Rightarrow>
             (case note ''blocked'' requestDigest None db of
                (Inl e, db1) \<Rightarrow> (Inl (In_egress e), db1) | (Inr _, db1) \<Rightarrow> (Inl Blocked_source, db1))
         | Inr True \<Rightarrow>
             (case note ''allowed'' requestDigest None db of
                (Inl e, db1) \<Rightarrow> (Inl (In_egress e), db1)
              | (Inr _, db1) \<Rightarrow>
                  (Inr \<lparr>sd_attestation = attest sha x INBOUND_WEBHOOK_ID
                          (case ib_operation p of None \<Rightarrow> JStr ''governed-step.receive'' | Some v \<Rightarrow> v) (ib_source p) bytes,
                        sd_payload = bytes, sd_status = 200\<rparr>, db1)))"

lemma inbound_send_tables:
  "runs (snd (createInboundWebhookConnector sha clk x p db)) = runs db
   \<and> step_results (snd (createInboundWebhookConnector sha clk x p db)) = step_results db"
  by (auto simp: createInboundWebhookConnector_def recordEgress_def appendEntry_cases Let_def split: sum.splits bool.splits prod.splits)

end
