(* ===== verification/Ha_Gate_Eval.thy ===== *)
theory Ha_Gate_Eval
  imports Js_Values
begin

text \<open>
  \<^verbatim>\<open>hub/vendored/ocg/kernels/_hagate.mjs\<close>: the evaluator that decides whether a step's
  human-accountability precondition is satisfied, held, overridden, rejected or escalated. The
  collected records are JSON objects. \<open>Date.parse\<close> is the parameter \<open>dateParse\<close> (\<open>None\<close> for
  \<open>NaN\<close>, which compares as false), the caller's signature verdicts are the parameter \<open>verdictOf\<close>.
  The wording of a result's reason is the datatype \<open>gate_reason\<close>.
\<close>

type_synonym verdict_fn = "(json \<Rightarrow> bool option) option"

definition HA_GATE_POLICIES :: "string list" where
  "HA_GATE_POLICIES = [''auto_pass'', ''review_required'', ''dual_control'', ''escalate'', ''hold'', ''reject'',
                       ''emergency_override'']"

datatype ha_status = Satisfied | Hold | Override_active | Rejected | Escalate

datatype evidence_verification = Verified | Structural_only | Invalid | Not_applicable

datatype gate_reason =
    Unknown_policy | Rejection_present | Override_until string | Auto_pass | Unconditional_reject | Routes_to_exception
  | Enough_approvals nat int | Missing_approvals nat int | Unreachable

record gate_result =
  gr_status :: ha_status
  gr_policy_applied :: "json option"
  gr_satisfied :: bool
  gr_matched :: "json list"
  gr_evidence :: evidence_verification
  gr_reason :: gate_reason

definition or_empty_string :: "json option \<Rightarrow> json option" where
  \<comment> \<open>\<open>v || ''\<close>\<close>
  "or_empty_string v = (if js_truthy v then v else Some (JStr []))"

definition identity_id :: "json \<Rightarrow> json option" where
  \<comment> \<open>\<open>record.identity?.id\<close>\<close>
  "identity_id record = jget_opt (jget record ''identity'') ''id''"

definition isConformantEvidence :: "json \<Rightarrow> bool" where
  "isConformantEvidence record =
     (let proof = jget_opt (jget record ''audit_signature'') ''proof''
      in if \<not> js_truthy proof then False
         else
           let vm = or_empty_string (jget_opt proof ''verificationMethod'')
           in jget_opt proof ''cryptosuite'' = Some (JStr ''eddsa-jcs-2022'')
              \<and> (case vm of
                    Some (JStr s) \<Rightarrow>
                      starts_with s (if js_truthy (identity_id record) then js_template (identity_id record) else '' '')
                  | _ \<Rightarrow> False))"

definition proofVerdict :: "json \<Rightarrow> verdict_fn \<Rightarrow> bool option" where
  "proofVerdict record verdictOf = (case verdictOf of None \<Rightarrow> None | Some f \<Rightarrow> f record)"

record evidence_part =
  ep_counted :: "json list"
  ep_invalid :: "json list"

definition partitionEvidence ::
  "json list \<Rightarrow> (json \<Rightarrow> bool) \<Rightarrow> bool \<Rightarrow> verdict_fn \<Rightarrow> evidence_part" where
  "partitionEvidence records predicate requireConformant verdictOf =
     (let rs = filter (\<lambda>r. predicate r \<and> (requireConformant \<longrightarrow> isConformantEvidence r)) records
      in \<lparr>ep_counted = filter (\<lambda>r. proofVerdict r verdictOf \<noteq> Some False) rs,
          ep_invalid = filter (\<lambda>r. proofVerdict r verdictOf = Some False) rs\<rparr>)"

definition classifyEvidenceVerification :: "evidence_part \<Rightarrow> verdict_fn \<Rightarrow> evidence_verification" where
  "classifyEvidenceVerification part verdictOf =
     (if ep_invalid part \<noteq> [] then Invalid
      else if ep_counted part = [] then Not_applicable
      else if list_all (\<lambda>r. proofVerdict r verdictOf = Some True) (ep_counted part) then Verified
      else Structural_only)"

definition of_type :: "string \<Rightarrow> json \<Rightarrow> string \<Rightarrow> json \<Rightarrow> bool" where
  \<comment> \<open>the record type, role and subject that a piece of evidence must have\<close>
  "of_type ty role subjectHash r \<longleftrightarrow>
     jget r ''record_type'' = Some (JStr ty) \<and> js_same (jget r ''role'') (Some role)
     \<and> jget r ''subject_hash'' = Some (JStr subjectHash)"

definition approvalEvidence :: "json list \<Rightarrow> json \<Rightarrow> string \<Rightarrow> bool \<Rightarrow> verdict_fn \<Rightarrow> evidence_part" where
  "approvalEvidence records role subjectHash requireConformant verdictOf =
     partitionEvidence records (of_type ''approval'' role subjectHash) requireConformant verdictOf"

definition rejectionEvidence :: "json list \<Rightarrow> json \<Rightarrow> string \<Rightarrow> bool \<Rightarrow> verdict_fn \<Rightarrow> evidence_part" where
  "rejectionEvidence records role subjectHash requireConformant verdictOf =
     partitionEvidence records (of_type ''rejection'' role subjectHash) requireConformant verdictOf"

definition hasRejection :: "json list \<Rightarrow> json \<Rightarrow> string \<Rightarrow> bool \<Rightarrow> verdict_fn \<Rightarrow> bool" where
  "hasRejection records role subjectHash requireConformant verdictOf \<longleftrightarrow>
     ep_counted (rejectionEvidence records role subjectHash requireConformant verdictOf) \<noteq> []"

fun distinct_values :: "json list \<Rightarrow> json list" where
  \<comment> \<open>\<open>new Set(xs)\<close>: objects are never identical\<close>
  "distinct_values [] = []"
| "distinct_values (x # xs) = x # filter (\<lambda>y. \<not> js_same (Some y) (Some x)) (distinct_values xs)"

definition approver_ids :: "json list \<Rightarrow> json list" where
  "approver_ids counted = distinct_values (filter (\<lambda>v. js_truthy (Some v)) (List.map_filter identity_id counted))"

definition distinctApprovers :: "json list \<Rightarrow> json \<Rightarrow> string \<Rightarrow> bool \<Rightarrow> verdict_fn \<Rightarrow> json list" where
  "distinctApprovers records role subjectHash requireConformant verdictOf =
     approver_ids (ep_counted (approvalEvidence records role subjectHash requireConformant verdictOf))"

definition satisfiesThreshold :: "json list \<Rightarrow> json \<Rightarrow> string \<Rightarrow> int \<Rightarrow> bool \<Rightarrow> verdict_fn \<Rightarrow> bool" where
  "satisfiesThreshold records role subjectHash n requireConformant verdictOf \<longleftrightarrow>
     n \<le> int (length (distinctApprovers records role subjectHash requireConformant verdictOf))"

definition isOverrideActive :: "(string \<Rightarrow> int option) \<Rightarrow> json \<Rightarrow> string \<Rightarrow> bool" where
  "isOverrideActive dateParse record nowISO =
     (let expiry = jget_opt (jget record ''override'') ''expiry''
      in if jget record ''record_type'' \<noteq> Some (JStr ''override'') \<or> \<not> js_truthy expiry then False
         else case (dateParse nowISO, dateParse (js_template expiry)) of
                (Some n, Some e) \<Rightarrow> n < e
              | _ \<Rightarrow> False)"

definition overrideEvidence ::
  "(string \<Rightarrow> int option) \<Rightarrow> json list \<Rightarrow> string \<Rightarrow> string \<Rightarrow> bool \<Rightarrow> verdict_fn \<Rightarrow> evidence_part" where
  "overrideEvidence dateParse records subjectHash nowISO requireConformant verdictOf =
     partitionEvidence records
       (\<lambda>r. jget r ''record_type'' = Some (JStr ''override'') \<and> jget r ''subject_hash'' = Some (JStr subjectHash)
            \<and> isOverrideActive dateParse r nowISO) requireConformant verdictOf"

definition findActiveOverride ::
  "(string \<Rightarrow> int option) \<Rightarrow> json list \<Rightarrow> string \<Rightarrow> string \<Rightarrow> bool \<Rightarrow> verdict_fn \<Rightarrow> json option" where
  "findActiveOverride dateParse records subjectHash nowISO requireConformant verdictOf =
     (case ep_counted (overrideEvidence dateParse records subjectHash nowISO requireConformant verdictOf) of
        [] \<Rightarrow> None | r # _ \<Rightarrow> Some r)"

definition effectiveGatePolicy ::
  "(string \<Rightarrow> int option) \<Rightarrow> json option \<Rightarrow> string \<Rightarrow> json option \<Rightarrow> json option" where
  "effectiveGatePolicy dateParse overrideRecord nowISO underlyingPolicy =
     (case overrideRecord of
        Some r \<Rightarrow> if isOverrideActive dateParse r nowISO then Some (JStr ''emergency_override'') else underlyingPolicy
      | None \<Rightarrow> underlyingPolicy)"

record gate_request =
  gq_policy :: "json option"
  gq_threshold :: "json option"
  gq_role :: json
  gq_subject :: string
  gq_records :: "json list"
  gq_now :: string
  gq_conformant :: bool
  gq_verdict :: verdict_fn

definition gate_threshold :: "gate_request \<Rightarrow> int" where
  "gate_threshold q =
     (case gq_threshold q of Some (JNum n) \<Rightarrow> n
      | _ \<Rightarrow> if gq_policy q = Some (JStr ''dual_control'') then 2 else 1)"

datatype gate_error = GateTypeError

definition evaluateHaGate :: "(string \<Rightarrow> int option) \<Rightarrow> gate_request \<Rightarrow> gate_error + gate_result" where
  "evaluateHaGate dateParse q =
     (if gq_policy q \<notin> (\<lambda>p. Some (JStr p)) ` set HA_GATE_POLICIES
      then Inr \<lparr>gr_status = Hold, gr_policy_applied = gq_policy q, gr_satisfied = False, gr_matched = [],
            gr_evidence = Not_applicable, gr_reason = Unknown_policy\<rparr>
      else
        let rej = rejectionEvidence (gq_records q) (gq_role q) (gq_subject q) (gq_conformant q) (gq_verdict q);
            classify = (\<lambda>counted invalid.
              classifyEvidenceVerification \<lparr>ep_counted = counted, ep_invalid = invalid\<rparr> (gq_verdict q))
        in if ep_counted rej \<noteq> []
           then Inr \<lparr>gr_status = Rejected, gr_policy_applied = gq_policy q, gr_satisfied = False, gr_matched = [],
                 gr_evidence = classify (ep_counted rej) (ep_invalid rej), gr_reason = Rejection_present\<rparr>
           else
             let ovr = overrideEvidence dateParse (gq_records q) (gq_subject q) (gq_now q) (gq_conformant q) (gq_verdict q);
                 activeOverride = (case ep_counted ovr of [] \<Rightarrow> None | r # _ \<Rightarrow> Some r);
                 consumedInvalid = ep_invalid rej @ ep_invalid ovr;
                 applied = effectiveGatePolicy dateParse activeOverride (gq_now q) (gq_policy q)
             in if applied = Some (JStr ''emergency_override'')
                then (case activeOverride of
                        None \<Rightarrow> Inl GateTypeError \<comment> \<open>\<open>activeOverride.override\<close> of \<open>null\<close>\<close>
                      | Some ov \<Rightarrow> Inr \<lparr>gr_status = Override_active, gr_policy_applied = applied, gr_satisfied = True,
                         gr_matched = (if js_truthy (identity_id ov) then [the (identity_id ov)] else []),
                         gr_evidence = classify [ov] consumedInvalid,
                         gr_reason = Override_until (js_template (jget_opt (jget ov ''override'') ''expiry''))\<rparr>)
                else if gq_policy q = Some (JStr ''auto_pass'')
                then Inr \<lparr>gr_status = Satisfied, gr_policy_applied = gq_policy q, gr_satisfied = True, gr_matched = [],
                      gr_evidence = classify [] consumedInvalid, gr_reason = Auto_pass\<rparr>
                else if gq_policy q = Some (JStr ''reject'')
                then Inr \<lparr>gr_status = Rejected, gr_policy_applied = gq_policy q, gr_satisfied = False, gr_matched = [],
                      gr_evidence = classify [] consumedInvalid, gr_reason = Unconditional_reject\<rparr>
                else if gq_policy q = Some (JStr ''escalate'')
                then Inr \<lparr>gr_status = Escalate, gr_policy_applied = gq_policy q, gr_satisfied = False, gr_matched = [],
                      gr_evidence = classify [] consumedInvalid, gr_reason = Routes_to_exception\<rparr>
                else
                  let n = gate_threshold q;
                      app = approvalEvidence (gq_records q) (gq_role q) (gq_subject q) (gq_conformant q) (gq_verdict q);
                      ids = approver_ids (ep_counted app);
                      satisfied = n \<le> int (length ids)
                  in Inr \<lparr>gr_status = (if satisfied then Satisfied else Hold), gr_policy_applied = gq_policy q,
                      gr_satisfied = satisfied, gr_matched = ids,
                      gr_evidence = classify (ep_counted app) (consumedInvalid @ ep_invalid app),
                      gr_reason = (if satisfied then Enough_approvals (length ids) n else Missing_approvals (length ids) n)\<rparr>)"

subsection \<open>Evidence\<close>

lemma partition_filter:
  "ep_counted (partitionEvidence (filter (\<lambda>r. proofVerdict r v \<noteq> Some False) records) P c v)
     = ep_counted (partitionEvidence records P c v)"
  by (simp add: partitionEvidence_def Let_def conj_commute conj_left_commute)

lemma counted_mem:
  "r \<in> set (ep_counted (partitionEvidence records P c v)) \<longleftrightarrow>
     r \<in> set records \<and> P r \<and> (c \<longrightarrow> isConformantEvidence r) \<and> proofVerdict r v \<noteq> Some False"
  by (auto simp: partitionEvidence_def Let_def)

lemma counted_append:
  "ep_counted (partitionEvidence (xs @ ys) P c v) = ep_counted (partitionEvidence xs P c v) @ ep_counted (partitionEvidence ys P c v)"
  by (simp add: partitionEvidence_def Let_def)

lemma distinct_values_subset: "set (distinct_values xs) \<subseteq> set xs"
  by (induction xs) auto

lemma distinct_values_apart: "sorted_wrt (\<lambda>x y. \<not> js_same (Some x) (Some y)) (distinct_values xs)"
  by (induction xs) (auto simp: sorted_wrt_filter js_same_def)

lemma distinct_values_append: "length (distinct_values xs) \<le> length (distinct_values (xs @ ys))"
proof -
  have "\<exists>zs. distinct_values (xs @ ys) = distinct_values xs @ zs"
  proof (induction xs)
    case (Cons x xs)
    then obtain zs where "distinct_values (xs @ ys) = distinct_values xs @ zs" by blast
    then show ?case by simp
  qed simp
  then show ?thesis by fastforce
qed

lemma approver_ids_append: "length (approver_ids xs) \<le> length (approver_ids (xs @ ys))"
  by (simp add: approver_ids_def List.map_filter_def distinct_values_append)

lemma approver_ids_mem: "i \<in> set (approver_ids rs) \<Longrightarrow> \<exists>r \<in> set rs. identity_id r = Some i \<and> js_truthy (Some i)"
proof -
  assume "i \<in> set (approver_ids rs)"
  then have "i \<in> set (filter (\<lambda>v. js_truthy (Some v)) (List.map_filter identity_id rs))"
    unfolding approver_ids_def using distinct_values_subset by (rule subsetD [rotated])
  then show ?thesis by (auto simp: List.map_filter_def)
qed

lemma active_override_mem:
  "ep_counted (overrideEvidence dp records s now c v) = o1 # os \<Longrightarrow> isOverrideActive dp o1 now"
proof -
  assume "ep_counted (overrideEvidence dp records s now c v) = o1 # os"
  then have "o1 \<in> set (ep_counted (overrideEvidence dp records s now c v))" by simp
  then show ?thesis by (simp only: overrideEvidence_def counted_mem)
qed

text \<open>The evaluation in cases.\<close>

definition gate_rejections :: "gate_request \<Rightarrow> json list" where
  "gate_rejections q = ep_counted (rejectionEvidence (gq_records q) (gq_role q) (gq_subject q) (gq_conformant q) (gq_verdict q))"

definition gate_overrides :: "(string \<Rightarrow> int option) \<Rightarrow> gate_request \<Rightarrow> json list" where
  "gate_overrides dp q = ep_counted (overrideEvidence dp (gq_records q) (gq_subject q) (gq_now q) (gq_conformant q) (gq_verdict q))"

definition gate_approver_ids :: "gate_request \<Rightarrow> json list" where
  "gate_approver_ids q = distinctApprovers (gq_records q) (gq_role q) (gq_subject q) (gq_conformant q) (gq_verdict q)"

definition known_policy :: "gate_request \<Rightarrow> bool" where
  "known_policy q \<longleftrightarrow> gq_policy q \<in> (\<lambda>p. Some (JStr p)) ` set HA_GATE_POLICIES"

definition outcome_of :: "gate_result \<Rightarrow> ha_status \<times> bool \<times> json list" where
  "outcome_of r = (gr_status r, gr_satisfied r, gr_matched r)"

lemma evaluateHaGate_outcome:
  "map_sum id outcome_of (evaluateHaGate dp q) =
     (if \<not> known_policy q then Inr (Hold, False, [])
      else if gate_rejections q \<noteq> [] then Inr (Rejected, False, [])
      else case gate_overrides dp q of
        ov # _ \<Rightarrow> Inr (Override_active, True, if js_truthy (identity_id ov) then [the (identity_id ov)] else [])
      | [] \<Rightarrow>
          if gq_policy q = Some (JStr ''emergency_override'') then Inl GateTypeError
          else if gq_policy q = Some (JStr ''auto_pass'') then Inr (Satisfied, True, [])
          else if gq_policy q = Some (JStr ''reject'') then Inr (Rejected, False, [])
          else if gq_policy q = Some (JStr ''escalate'') then Inr (Escalate, False, [])
          else if gate_threshold q \<le> int (length (gate_approver_ids q)) then Inr (Satisfied, True, gate_approver_ids q)
          else Inr (Hold, False, gate_approver_ids q))"
proof (cases "known_policy q \<and> gate_rejections q = []")
  case False
  then show ?thesis
    by (auto simp: evaluateHaGate_def known_policy_def gate_rejections_def outcome_of_def Let_def)
next
  case True
  then have k: "gq_policy q \<in> (\<lambda>p. Some (JStr p)) ` set HA_GATE_POLICIES"
    and r: "ep_counted (rejectionEvidence (gq_records q) (gq_role q) (gq_subject q) (gq_conformant q) (gq_verdict q)) = []"
    by (auto simp: known_policy_def gate_rejections_def)
  show ?thesis
  proof (cases "gate_overrides dp q")
    case (Cons ov os)
    then have "isOverrideActive dp ov (gq_now q)" unfolding gate_overrides_def by (rule active_override_mem)
    then show ?thesis using True Cons
      by (simp add: evaluateHaGate_def k r gate_overrides_def effectiveGatePolicy_def outcome_of_def Let_def)
  next
    case Nil
    then have n: "ep_counted (overrideEvidence dp (gq_records q) (gq_subject q) (gq_now q) (gq_conformant q) (gq_verdict q)) = []"
      by (simp add: gate_overrides_def)
    show ?thesis using True Nil
      by (simp add: evaluateHaGate_def k r n effectiveGatePolicy_def outcome_of_def Let_def gate_approver_ids_def
          distinctApprovers_def)
  qed
qed

lemma evaluate_Inr: "evaluateHaGate dp q = Inr r \<Longrightarrow> map_sum id outcome_of (evaluateHaGate dp q) = Inr (gr_status r, gr_satisfied r, gr_matched r)"
  by (simp add: outcome_of_def)

subsection \<open>Properties\<close>

text \<open>C11. A gate that is satisfied by approvals rests on enough different people: it lists at least as
  many pairwise different identities as the threshold in force (two for dual control when none is
  given), and each of them filed an approval for this role and this subject that carries a
  conformant proof and was not found to be badly signed. No rejection was counted.\<close>

theorem satisfied_gate_has_distinct_approvers:
  assumes "evaluateHaGate dp q = Inr r" and "gr_status r = Satisfied" and "gq_policy q \<noteq> Some (JStr ''auto_pass'')"
    and "gq_conformant q"
  shows "gate_threshold q \<le> int (length (gr_matched r))
    \<and> sorted_wrt (\<lambda>x y. \<not> js_same (Some x) (Some y)) (gr_matched r)
    \<and> (\<forall>i \<in> set (gr_matched r). \<exists>rec \<in> set (gq_records q). identity_id rec = Some i
        \<and> of_type ''approval'' (gq_role q) (gq_subject q) rec \<and> isConformantEvidence rec
        \<and> proofVerdict rec (gq_verdict q) \<noteq> Some False)
    \<and> gate_rejections q = []"
proof -
  have o: "map_sum id outcome_of (evaluateHaGate dp q) = Inr (Satisfied, gr_satisfied r, gr_matched r)"
    using evaluate_Inr [OF assms(1)] assms(2) by simp
  then have m: "gr_matched r = gate_approver_ids q" "gate_threshold q \<le> int (length (gate_approver_ids q))"
    "gate_rejections q = []"
    using assms(3) by (auto simp: evaluateHaGate_outcome split: if_splits list.splits)
  have "\<exists>rec \<in> set (gq_records q). identity_id rec = Some i
        \<and> of_type ''approval'' (gq_role q) (gq_subject q) rec \<and> isConformantEvidence rec
        \<and> proofVerdict rec (gq_verdict q) \<noteq> Some False" if "i \<in> set (gate_approver_ids q)" for i
    using approver_ids_mem [OF that [unfolded gate_approver_ids_def distinctApprovers_def]] assms(4)
    by (auto simp: approvalEvidence_def counted_mem)
  moreover have "sorted_wrt (\<lambda>x y. \<not> js_same (Some x) (Some y)) (gate_approver_ids q)"
    by (simp add: gate_approver_ids_def distinctApprovers_def approver_ids_def distinct_values_apart)
  ultimately show ?thesis using m by simp
qed

definition sample_approval :: "string \<Rightarrow> string \<Rightarrow> json" where
  "sample_approval ty who = JObj [(''record_type'', JStr ty), (''role'', JStr ''approver''), (''subject_hash'', JStr ''h''),
     (''identity'', JObj [(''id'', JStr who)]),
     (''audit_signature'', JObj [(''proof'', JObj [(''cryptosuite'', JStr ''eddsa-jcs-2022''),
        (''verificationMethod'', JStr (who @ ''#key-1''))])])]"

definition sample_request :: "string \<Rightarrow> json list \<Rightarrow> gate_request" where
  "sample_request policy records = \<lparr>gq_policy = Some (JStr policy), gq_threshold = None, gq_role = JStr ''approver'',
     gq_subject = ''h'', gq_records = records, gq_now = ''now'', gq_conformant = True, gq_verdict = None\<rparr>"

lemmas sample_gate_simps = sample_request_def sample_approval_def evaluateHaGate_def HA_GATE_POLICIES_def
  rejectionEvidence_def overrideEvidence_def approvalEvidence_def partitionEvidence_def of_type_def js_same_def
  isConformantEvidence_def or_empty_string_def identity_id_def starts_with_def jget_opt_def proofVerdict_def
  effectiveGatePolicy_def gate_threshold_def approver_ids_def List.map_filter_def classifyEvidenceVerification_def
  isOverrideActive_def

lemma satisfied_gate_has_distinct_approvers_witness:
  "\<exists>r. evaluateHaGate (\<lambda>_. None) (sample_request ''dual_control'' [sample_approval ''approval'' ''ann'', sample_approval ''approval'' ''bob'']) = Inr r
     \<and> 2 \<le> length (gr_matched r)"
proof -
  let ?q = "sample_request ''dual_control'' [sample_approval ''approval'' ''ann'', sample_approval ''approval'' ''bob'']"
  obtain r where r: "evaluateHaGate (\<lambda>_. None) ?q = Inr r" "gr_status r = Satisfied"
    by (simp add: sample_gate_simps Let_def)
  have "gate_threshold ?q = 2" "gq_conformant ?q" "gq_policy ?q \<noteq> Some (JStr ''auto_pass'')"
    by (simp_all add: sample_request_def gate_threshold_def)
  then show ?thesis using satisfied_gate_has_distinct_approvers [OF r] r(1) by auto
qed

text \<open>A conformant rejection for the role and subject that was not found to be badly signed blocks
  the gate whatever its policy, whatever approvals and whatever override there are.\<close>

theorem rejection_blocks_gate:
  assumes "known_policy q" and "rec \<in> set (gq_records q)" and "of_type ''rejection'' (gq_role q) (gq_subject q) rec"
    and "isConformantEvidence rec" and "proofVerdict rec (gq_verdict q) \<noteq> Some False"
  shows "\<exists>r. evaluateHaGate dp q = Inr r \<and> gr_status r = Rejected \<and> \<not> gr_satisfied r"
proof -
  have "rec \<in> set (gate_rejections q)"
    using assms by (simp add: gate_rejections_def rejectionEvidence_def counted_mem)
  then have "map_sum id outcome_of (evaluateHaGate dp q) = Inr (Rejected, False, [])"
    using assms(1) by (auto simp: evaluateHaGate_outcome)
  then show ?thesis by (cases "evaluateHaGate dp q") (auto simp: outcome_of_def)
qed

lemma rejection_blocks_gate_witness:
  "\<exists>r. evaluateHaGate (\<lambda>_. None) (sample_request ''auto_pass'' [sample_approval ''rejection'' ''eve'']) = Inr r \<and> gr_status r = Rejected"
proof -
  let ?e = "sample_approval ''rejection'' ''eve''"
  have "\<exists>r. evaluateHaGate (\<lambda>_. None) (sample_request ''auto_pass'' [?e]) = Inr r \<and> gr_status r = Rejected \<and> \<not> gr_satisfied r"
    by (rule rejection_blocks_gate [of _ ?e]) (simp_all add: sample_gate_simps known_policy_def)
  then show ?thesis by blast
qed

text \<open>A record whose signature was checked and failed never counts, for or against: leaving such
  records out changes neither the status, nor whether the gate is satisfied, nor whose approvals
  are listed.\<close>

theorem failed_proofs_never_count:
  "map_sum id outcome_of (evaluateHaGate dp (q\<lparr>gq_records := filter (\<lambda>r. proofVerdict r (gq_verdict q) \<noteq> Some False) (gq_records q)\<rparr>))
   = map_sum id outcome_of (evaluateHaGate dp q)"
proof -
  let ?q = "q\<lparr>gq_records := filter (\<lambda>r. proofVerdict r (gq_verdict q) \<noteq> Some False) (gq_records q)\<rparr>"
  have "known_policy ?q = known_policy q" "gate_threshold ?q = gate_threshold q"
    by (simp_all add: known_policy_def gate_threshold_def)
  moreover have "gate_rejections ?q = gate_rejections q" "gate_overrides dp ?q = gate_overrides dp q"
    "gate_approver_ids ?q = gate_approver_ids q"
    by (simp_all add: gate_rejections_def rejectionEvidence_def gate_overrides_def overrideEvidence_def
        gate_approver_ids_def distinctApprovers_def approvalEvidence_def partition_filter)
  ultimately show ?thesis by (cases "gate_overrides dp q") (simp_all add: evaluateHaGate_outcome)
qed

text \<open>The evaluation returns a result for every request but one kind: the declared policy is
  \<open>emergency_override\<close> itself, nothing was rejected and no override is active. Then it throws, where
  every other missing record makes it hold.\<close>

theorem gate_evaluation_throws_iff:
  "(\<exists>e. evaluateHaGate dp q = Inl e) \<longleftrightarrow>
     gq_policy q = Some (JStr ''emergency_override'') \<and> gate_rejections q = [] \<and> gate_overrides dp q = []"
proof -
  have "(\<exists>e. evaluateHaGate dp q = Inl e) \<longleftrightarrow> (\<exists>e. map_sum id outcome_of (evaluateHaGate dp q) = Inl e)"
    by (cases "evaluateHaGate dp q") auto
  also have "\<dots> \<longleftrightarrow> gq_policy q = Some (JStr ''emergency_override'') \<and> gate_rejections q = [] \<and> gate_overrides dp q = []"
    by (auto simp: evaluateHaGate_outcome known_policy_def HA_GATE_POLICIES_def split: list.splits)
  finally show ?thesis .
qed

text \<open>More approvals never unsatisfy a gate: if it is satisfied, it stays so when records are added
  none of which is a rejection or an override.\<close>

theorem more_approvals_keep_gate_satisfied:
  assumes "evaluateHaGate dp q = Inr r" and "gr_status r = Satisfied"
    and "\<forall>x \<in> set extra. jget x ''record_type'' \<notin> {Some (JStr ''rejection''), Some (JStr ''override'')}"
  shows "\<exists>r'. evaluateHaGate dp (q\<lparr>gq_records := gq_records q @ extra\<rparr>) = Inr r' \<and> gr_status r' = Satisfied"
proof -
  let ?q = "q\<lparr>gq_records := gq_records q @ extra\<rparr>"
  have none: "ep_counted (partitionEvidence extra P c v) = []" if "\<And>x. x \<in> set extra \<Longrightarrow> \<not> P x" for P c v
    using that counted_mem [of _ extra P c v] by (metis list.set_intros(1) neq_Nil_conv)
  have "gate_rejections ?q = gate_rejections q" "gate_overrides dp ?q = gate_overrides dp q"
    using assms(3) by (auto simp: gate_rejections_def rejectionEvidence_def gate_overrides_def overrideEvidence_def
        counted_append none of_type_def)
  moreover have "known_policy ?q = known_policy q" "gate_threshold ?q = gate_threshold q"
    by (simp_all add: known_policy_def gate_threshold_def)
  moreover have "length (gate_approver_ids q) \<le> length (gate_approver_ids ?q)"
    by (simp add: gate_approver_ids_def distinctApprovers_def approvalEvidence_def counted_append approver_ids_append)
  moreover have "map_sum id outcome_of (evaluateHaGate dp q) = Inr (Satisfied, gr_satisfied r, gr_matched r)"
    using evaluate_Inr [OF assms(1)] assms(2) by simp
  ultimately have "\<exists>b ids. map_sum id outcome_of (evaluateHaGate dp ?q) = Inr (Satisfied, b, ids)"
    by (auto simp: evaluateHaGate_outcome split: if_splits list.splits)
  then show ?thesis by (cases "evaluateHaGate dp ?q") (auto simp: outcome_of_def)
qed

lemma more_approvals_keep_gate_satisfied_witness:
  "\<exists>r. evaluateHaGate (\<lambda>_. None) ((sample_request ''auto_pass'' [])\<lparr>gq_records := [] @ [sample_approval ''approval'' ''ann'']\<rparr>) = Inr r
     \<and> gr_status r = Satisfied"
proof -
  let ?q = "sample_request ''auto_pass'' []"
  obtain r where r: "evaluateHaGate (\<lambda>_. None) ?q = Inr r" "gr_status r = Satisfied"
    by (simp add: sample_gate_simps Let_def)
  have "gq_records ?q = []" by (simp add: sample_request_def)
  then show ?thesis
    using more_approvals_keep_gate_satisfied [OF r, of "[sample_approval ''approval'' ''ann'']"]
    by (simp add: sample_approval_def)
qed

end
