(* ===== verification/Ha_Store.thy ===== *)
theory Ha_Store
  imports Run_Engine Schema_Validator Ha_Gate_Eval
begin

text \<open>
  \<^verbatim>\<open>hub/ha-store.mjs\<close>: the store of human-accountability records and of countersignature slots.
  The two tables extend the run database. A \<open>_json\<close> column holds the JSON value. The schema document
  (a JSON file), \<open>RegExp.test\<close> and SHA-256 are the parameters of \<open>ha_env\<close>, the clock reading of an
  operation is its first argument. A record that passes the schema has strings in the four columns
  that \<open>appendHaRecord\<close> copies out; any other value there is the error \<open>Column_not_text\<close>.
\<close>

datatype ha_error =
    Refused_record "schema_error list"
  | Not_conformant
  | Schema_diverges
  | Column_not_text
  | Record_not_ijson ijson_error
  | Maker_without_keyid
  | Maker_swapped
  | Slot_without_maker
  | Checker_is_maker
  | No_attester_kind
  | Ha_type_error

record ha_row =
  hr_subject :: string
  hr_type :: string
  hr_role :: string
  hr_identity :: string
  hr_record :: json
  hr_created :: string

record ha_db = run_db +
  ha_records :: "(string, ha_row) tbl"
  ha_slots :: "(string, json \<times> string) tbl"

definition initHaTables :: "run_db \<Rightarrow> ha_db" where
  \<comment> \<open>a run database without these tables; on an existing database nothing changes\<close>
  "initHaTables db = run_db.extend (run_db.truncate db) (ha_db.fields [] [])"

record ha_env =
  he_sha :: "string \<Rightarrow> string"
  he_schema :: json
  he_matches :: "string \<Rightarrow> string \<Rightarrow> bool"
  he_fuel :: nat

subsection \<open>Records\<close>

definition HA_RECORD_SCHEMA :: "json \<Rightarrow> json option" where
  "HA_RECORD_SCHEMA doc = jget_opt (jget doc ''$defs'') ''humanAccountabilityRecord''"

definition shape_only :: "json \<Rightarrow> json" where
  \<comment> \<open>\<open>const { audit_signature, ...shapeOnly } = record ?? {}\<close>\<close>
  "shape_only r = JObj (filter (\<lambda>p. fst p \<noteq> ''audit_signature'') (js_entries r))"

definition validateHaRecordShape :: "ha_env \<Rightarrow> json \<Rightarrow> ha_error + unit" where
  "validateHaRecordShape env r =
     (case HA_RECORD_SCHEMA (he_schema env) of
        None \<Rightarrow> Inl Ha_type_error
      | Some schema \<Rightarrow>
          (case validate (he_matches env) (he_fuel env) (he_schema env) schema (shape_only r) ''$'' of
             None \<Rightarrow> Inl Schema_diverges
           | Some (e # es) \<Rightarrow> Inl (Refused_record (e # es))
           | Some [] \<Rightarrow> guard_err (isConformantEvidence r) Not_conformant))"

definition text_column :: "json option \<Rightarrow> ha_error + string" where
  "text_column v = (case v of Some (JStr s) \<Rightarrow> Inr s | _ \<Rightarrow> Inl Column_not_text)"

definition ha_digest :: "(string \<Rightarrow> string) \<Rightarrow> json \<Rightarrow> ha_error + string" where
  "ha_digest sha v = (case jcsDigestHex sha v of Inl e \<Rightarrow> Inl (Record_not_ijson e) | Inr d \<Rightarrow> Inr d)"

definition ha_row_of :: "string \<Rightarrow> json \<Rightarrow> ha_error + ha_row" where
  "ha_row_of now r =
     and_then (text_column (jget r ''subject_hash'')) (\<lambda>subj.
     and_then (text_column (jget r ''record_type'')) (\<lambda>ty.
     and_then (text_column (jget r ''role'')) (\<lambda>role.
     and_then (text_column (identity_id r)) (\<lambda>who.
       Inr \<lparr>hr_subject = subj, hr_type = ty, hr_role = role, hr_identity = who, hr_record = r, hr_created = now\<rparr>))))"

definition appendHaRecord :: "string \<Rightarrow> ha_env \<Rightarrow> json \<Rightarrow> 'a ha_db_scheme \<Rightarrow> (ha_error + string) \<times> 'a ha_db_scheme" where
  "appendHaRecord now env r db =
     (case and_then (validateHaRecordShape env r) (\<lambda>_.
           and_then (ha_digest (he_sha env) r) (\<lambda>d.
           and_then (ha_row_of now r) (\<lambda>row. Inr (sha256ref d, row)))) of
        Inl e \<Rightarrow> (Inl e, db)
      | Inr (recordId, row) \<Rightarrow>
          (Inr recordId, db\<lparr>ha_records := tbl_insert_ignore recordId row (ha_records db)\<rparr>))"

text \<open>\<open>ORDER BY created_at ASC\<close>: rows of the same instant keep the order of the table.\<close>

fun str_le :: "string \<Rightarrow> string \<Rightarrow> bool" where
  "str_le [] _ = True"
| "str_le (_ # _) [] = False"
| "str_le (a # s) (b # t) =
     (if (of_char a :: nat) = of_char b then str_le s t else (of_char a :: nat) < of_char b)"

fun insert_by_time :: "ha_row \<Rightarrow> ha_row list \<Rightarrow> ha_row list" where
  "insert_by_time r [] = [r]"
| "insert_by_time r (x # xs) = (if str_le (hr_created r) (hr_created x) then r # x # xs else x # insert_by_time r xs)"

definition by_created :: "ha_row list \<Rightarrow> ha_row list" where
  "by_created rows = foldr insert_by_time rows []"

definition recordsForSubject :: "string \<Rightarrow> 'a ha_db_scheme \<Rightarrow> json list" where
  "recordsForSubject subjectHash db =
     map hr_record (by_created (filter (\<lambda>r. hr_subject r = subjectHash) (map snd (ha_records db))))"

definition getRecordById :: "string \<Rightarrow> 'a ha_db_scheme \<Rightarrow> json option" where
  "getRecordById recordId db = map_option hr_record (tbl_get (ha_records db) recordId)"

definition allHaRecords :: "'a ha_db_scheme \<Rightarrow> json list" where
  "allHaRecords db = map hr_record (by_created (map snd (ha_records db)))"

subsection \<open>Countersignature slots\<close>

definition getSlot :: "string \<Rightarrow> 'a ha_db_scheme \<Rightarrow> json option" where
  "getSlot subjectHash db = map_option fst (tbl_get (ha_slots db) subjectHash)"

definition fresh_slot :: "string \<Rightarrow> json \<Rightarrow> json" where
  "fresh_slot subjectHash makerSignature =
     JObj [(''bundle_digest'', JStr subjectHash), (''maker_signature'', makerSignature), (''countersignatures'', JArr [])]"

definition getOrInitSlot :: "string \<Rightarrow> string \<Rightarrow> json \<Rightarrow> 'a ha_db_scheme \<Rightarrow> json \<times> 'a ha_db_scheme" where
  "getOrInitSlot now subjectHash makerSignature db =
     (case getSlot subjectHash db of
        Some slot \<Rightarrow> (slot, db)
      | None \<Rightarrow> (fresh_slot subjectHash makerSignature,
                 db\<lparr>ha_slots := tbl_upsert subjectHash (fresh_slot subjectHash makerSignature, now) (ha_slots db)\<rparr>))"

definition save_slot :: "string \<Rightarrow> string \<Rightarrow> json \<Rightarrow> 'a ha_db_scheme \<Rightarrow> 'a ha_db_scheme" where
  "save_slot now subjectHash slot db =
     db\<lparr>ha_slots := tbl_update_where subjectHash (\<lambda>_. (slot, now)) (ha_slots db)\<rparr>"

definition slot_keyid :: "json \<Rightarrow> json option" where
  \<comment> \<open>\<open>slot.maker_signature?.keyid\<close>\<close>
  "slot_keyid slot = jget_opt (jget slot ''maker_signature'') ''keyid''"

definition setMakerSignature ::
  "string \<Rightarrow> string \<Rightarrow> json option \<Rightarrow> 'a ha_db_scheme \<Rightarrow> (ha_error + json) \<times> 'a ha_db_scheme" where
  "setMakerSignature now subjectHash makerSignature db =
     (let keyid = jget_opt makerSignature ''keyid''
      in if \<not> js_truthy keyid then (Inl Maker_without_keyid, db)
         else
           let (existing, db1) = getOrInitSlot now subjectHash JNull db
           in if existing = JNull then (Inl Ha_type_error, db1)
              else if js_truthy (slot_keyid existing) \<and> \<not> js_same (slot_keyid existing) keyid then (Inl Maker_swapped, db1)
              else let slot = js_with existing ''maker_signature'' (the makerSignature)
                   in (Inr slot, save_slot now subjectHash slot db1))"

definition counts_as_human :: "json \<Rightarrow> bool" where
  "counts_as_human c \<longleftrightarrow> jget c ''attester_kind'' = Some (JStr ''human'') \<and> js_truthy (identity_id c)"

definition distinctHumanCheckerIds :: "json option \<Rightarrow> ha_error + json list" where
  "distinctHumanCheckerIds countersignatures =
     and_then (js_iter Ha_type_error countersignatures) (\<lambda>cs.
       Inr (distinct_values (List.map_filter identity_id (filter counts_as_human cs))))"

definition slot_pinned :: "json \<Rightarrow> bool" where
  "slot_pinned slot \<longleftrightarrow> \<not> js_nullish (jget slot ''threshold'') \<and> js_truthy (jget slot ''as_of'')"

definition pinSlotSatisfaction ::
  "string \<Rightarrow> string \<Rightarrow> int \<Rightarrow> string \<Rightarrow> 'a ha_db_scheme \<Rightarrow> (ha_error + json option) \<times> 'a ha_db_scheme" where
  "pinSlotSatisfaction now subjectHash requiredThreshold nowISO db =
     (case getSlot subjectHash db of
        None \<Rightarrow> (Inr None, db)
      | Some slot \<Rightarrow>
          if slot = JNull then (Inr None, db)
          else if slot_pinned slot then (Inr (Some slot), db)
          else
            (case distinctHumanCheckerIds (jget slot ''countersignatures'') of
               Inl e \<Rightarrow> (Inl e, db)
             | Inr ids \<Rightarrow>
                 if int (length ids) < requiredThreshold then (Inr (Some slot), db)
                 else let pinned = js_with (js_with slot ''threshold'' (JNum requiredThreshold)) ''as_of'' (JStr nowISO)
                      in (Inr (Some pinned), save_slot now subjectHash pinned db)))"

definition trimmed :: "json option \<Rightarrow> ha_error + string" where
  \<comment> \<open>\<open>(x ?? "").trim()\<close>\<close>
  "trimmed x = (if js_nullish x then Inr [] else case x of Some (JStr s) \<Rightarrow> Inr (js_trim s) | _ \<Rightarrow> Inl Ha_type_error)"

definition same_maker :: "json option \<Rightarrow> json option \<Rightarrow> ha_error + bool" where
  \<comment> \<open>\<open>checkerId && checkerId === makerKeyid.trim()\<close>\<close>
  "same_maker checker makerKeyid =
     and_then (trimmed checker) (\<lambda>checkerId.
       if checkerId = [] then Inr False
       else and_then (trimmed makerKeyid) (\<lambda>makerId. Inr (checkerId = makerId)))"

definition same_act :: "json \<Rightarrow> json \<Rightarrow> ha_error + bool" where
  "same_act countersignature c =
     (if c = JNull then Inl Ha_type_error
      else Inr (js_same (identity_id c) (identity_id countersignature)
                \<and> js_same (jget c ''signed_at'') (jget countersignature ''signed_at'')))"

fun array_of :: "json option \<Rightarrow> ha_error + json list" where
  \<comment> \<open>\<open>some\<close> and \<open>push\<close> need an array\<close>
  "array_of (Some (JArr xs)) = Inr xs"
| "array_of _ = Inl Ha_type_error"

definition check_act :: "json \<Rightarrow> json \<Rightarrow> ha_error + json list \<times> json option" where
  \<comment> \<open>the refusals, then the acts already there and the one that is the same\<close>
  "check_act slot countersignature =
     and_then (same_maker (identity_id countersignature) (slot_keyid slot)) (\<lambda>same.
     and_then (guard_err (\<not> same) Checker_is_maker) (\<lambda>_.
     and_then (guard_err (jget countersignature ''attester_kind'' \<in> {Some (JStr ''human''), Some (JStr ''automated'')})
                 No_attester_kind) (\<lambda>_.
     and_then (array_of (jget slot ''countersignatures'')) (\<lambda>cs.
     and_then (find_err (same_act countersignature) cs) (\<lambda>already. Inr (cs, already))))))"

definition addCountersignature ::
  "string \<Rightarrow> string \<Rightarrow> json \<Rightarrow> json \<Rightarrow> 'a ha_db_scheme \<Rightarrow> (ha_error + json) \<times> 'a ha_db_scheme" where
  "addCountersignature now subjectHash countersignature makerSignature db =
     (let (slot, db1) = getOrInitSlot now subjectHash makerSignature db
      in if slot = JNull then (Inl Ha_type_error, db1)
         else if \<not> js_truthy (slot_keyid slot) then (Inl Slot_without_maker, db1)
         else
           case check_act slot countersignature of
             Inl e \<Rightarrow> (Inl e, db1)
           | Inr (cs, already) \<Rightarrow>
               let slot' = (case already of
                              Some _ \<Rightarrow> slot
                            | None \<Rightarrow> js_with slot ''countersignatures'' (JArr (cs @ [countersignature])))
               in (Inr slot', save_slot now subjectHash slot' db1))"

subsection \<open>The life of one slot\<close>

text \<open>
  What may happen to the slot of a subject, as a relation on its content: it is created, the maker
  signs, a checker is added, the satisfaction is pinned. Every operation above makes only such steps,
  and only on the slot of its own subject.
\<close>

definition slot_acts :: "json \<Rightarrow> json list" where
  "slot_acts slot = jarr_or_empty (jget slot ''countersignatures'')"

definition slot_humans :: "json list \<Rightarrow> json list" where
  "slot_humans cs = distinct_values (List.map_filter identity_id (filter counts_as_human cs))"

inductive slot_next :: "string \<Rightarrow> json option \<Rightarrow> json option \<Rightarrow> bool" for subjectHash :: string where
  created: "slot_next subjectHash None (Some (fresh_slot subjectHash makerSignature))"
| maker_signs: "slot_next subjectHash (Some slot) (Some (js_with slot ''maker_signature'' ms))"
    if "js_truthy (jget ms ''keyid'')" "slot \<noteq> JNull" "js_truthy (slot_keyid slot) \<Longrightarrow> slot_keyid slot = jget ms ''keyid''"
| checker_signs: "slot_next subjectHash (Some slot) (Some (js_with slot ''countersignatures'' (JArr (cs @ [c]))))"
    if "slot \<noteq> JNull" "js_truthy (slot_keyid slot)" "jget slot ''countersignatures'' = Some (JArr cs)"
       "same_maker (identity_id c) (slot_keyid slot) = Inr False"
       "jget c ''attester_kind'' \<in> {Some (JStr ''human''), Some (JStr ''automated'')}"
| pinned: "slot_next subjectHash (Some slot) (Some (js_with (js_with slot ''threshold'' (JNum n)) ''as_of'' (JStr t)))"
    if "slot \<noteq> JNull" "\<not> slot_pinned slot" "jget slot ''countersignatures'' = Some (JArr cs)" "n \<le> int (length (slot_humans cs))"



lemma slot_next_SomeD: "slot_next s x y \<Longrightarrow> \<exists>slot'. y = Some slot'"
  by (cases rule: slot_next.cases) auto

definition acts_ok :: "json \<Rightarrow> json list \<Rightarrow> bool" where
  "acts_ok slot cs \<longleftrightarrow>
     (cs \<noteq> [] \<longrightarrow> js_truthy (slot_keyid slot))
     \<and> (\<forall>c \<in> set cs. jget c ''attester_kind'' \<in> {Some (JStr ''human''), Some (JStr ''automated'')}
           \<and> same_maker (identity_id c) (slot_keyid slot) = Inr False)
     \<and> (slot_pinned slot \<longrightarrow> (\<exists>n. jget slot ''threshold'' = Some (JNum n) \<and> n \<le> int (length (slot_humans cs))))"

definition slot_wf :: "json \<Rightarrow> bool" where
  "slot_wf slot \<longleftrightarrow>
     (\<exists>kvs cs. slot = JObj kvs \<and> jget slot ''countersignatures'' = Some (JArr cs) \<and> acts_ok slot cs)"

lemma slot_wfI: "slot = JObj kvs \<Longrightarrow> jget slot ''countersignatures'' = Some (JArr cs) \<Longrightarrow> acts_ok slot cs \<Longrightarrow> slot_wf slot"
  unfolding slot_wf_def by (intro exI conjI)

lemma slot_wfE:
  assumes "slot_wf slot"
  obtains kvs cs where "slot = JObj kvs" "jget slot ''countersignatures'' = Some (JArr cs)" "acts_ok slot cs"
  using assms unfolding slot_wf_def by (elim exE conjE) (rule that)

lemma slot_humans_append: "length (slot_humans cs) \<le> length (slot_humans (cs @ ds))"
  by (simp add: slot_humans_def List.map_filter_def distinct_values_append)

lemma js_same_eq: "js_same x y \<Longrightarrow> x = y"
  by (simp add: js_same_def)

lemma js_with_obj: "\<exists>kvs. js_with v k x = JObj kvs"
  by (simp add: js_with_def)

lemma map_of_entries [simp]: "slot = JObj kvs \<Longrightarrow> map_of (js_entries slot) k = jget slot k"
  by simp

lemma acts_ok_maker:
  assumes "acts_ok slot cs" and "slot_keyid slot' = k" and "js_truthy k" and "js_truthy (slot_keyid slot) \<Longrightarrow> slot_keyid slot = k"
    and "slot_pinned slot' = slot_pinned slot" and "jget slot' ''threshold'' = jget slot ''threshold''"
  shows "acts_ok slot' cs"
  using assms by (cases cs) (auto simp: acts_ok_def)

lemma acts_ok_checker:
  assumes "acts_ok slot cs" and "slot_keyid slot' = slot_keyid slot" and "js_truthy (slot_keyid slot)"
    and "slot_pinned slot' = slot_pinned slot" and "jget slot' ''threshold'' = jget slot ''threshold''"
    and "same_maker (identity_id c) (slot_keyid slot) = Inr False"
    and "jget c ''attester_kind'' \<in> {Some (JStr ''human''), Some (JStr ''automated'')}"
  shows "acts_ok slot' (cs @ [c])"
proof -
  have "int (length (slot_humans cs)) \<le> int (length (slot_humans (cs @ [c])))" using slot_humans_append by simp
  then show ?thesis using assms unfolding acts_ok_def by (auto intro: order_trans)
qed

lemma slot_next_keeps_wf: "slot_next s x y \<Longrightarrow> (\<forall>slot. x = Some slot \<longrightarrow> slot_wf slot) \<Longrightarrow> y = Some slot' \<Longrightarrow> slot_wf slot'"
proof (induction rule: slot_next.induct)
  case (created ms)
  then show ?case by (auto simp: slot_wf_def acts_ok_def fresh_slot_def slot_pinned_def)
next
  case (maker_signs ms slot)
  from maker_signs.prems have "slot_wf slot" by simp
  then obtain kvs cs where w: "slot = JObj kvs" "jget slot ''countersignatures'' = Some (JArr cs)" "acts_ok slot cs"
    by (rule slot_wfE)
  have k: "slot_keyid slot' = jget ms ''keyid''" using maker_signs.prems by (auto simp: slot_keyid_def jget_opt_def)
  have same: "jget slot' k = jget slot k" if "k \<noteq> ''maker_signature''" for k
    using maker_signs.prems that w(1) by auto
  obtain kvs' where j: "slot' = JObj kvs'" using maker_signs.prems js_with_obj by blast
  have "acts_ok slot' cs"
    by (rule acts_ok_maker [OF w(3) k maker_signs.hyps(1,3)]) (simp_all add: slot_pinned_def same)
  then show ?case using w(2) by (intro slot_wfI [OF j]) (simp_all add: same)
next
  case (checker_signs slot cs c)
  from checker_signs.prems have "slot_wf slot" by simp
  then obtain kvs where w: "slot = JObj kvs" "acts_ok slot cs"
    using checker_signs.hyps(3) by (elim slot_wfE) simp
  have same: "jget slot' k = jget slot k" if "k \<noteq> ''countersignatures''" for k
    using checker_signs.prems that w(1) by auto
  obtain kvs' where j: "slot' = JObj kvs'" using checker_signs.prems js_with_obj by blast
  have cs: "jget slot' ''countersignatures'' = Some (JArr (cs @ [c]))" using checker_signs.prems by auto
  have "acts_ok slot' (cs @ [c])"
    by (rule acts_ok_checker [OF w(2) _ checker_signs.hyps(2) _ _ checker_signs.hyps(4,5)])
      (simp_all add: slot_pinned_def slot_keyid_def same)
  then show ?case by (rule slot_wfI [OF j cs])
next
  case (pinned slot cs n t)
  from pinned.prems have "slot_wf slot" by simp
  then obtain kvs where w: "slot = JObj kvs" "acts_ok slot cs"
    using pinned.hyps(3) by (elim slot_wfE) simp
  have same: "jget slot' k = jget slot k" if "k \<noteq> ''threshold''" "k \<noteq> ''as_of''" for k
    using pinned.prems that w(1) by (auto simp: js_with_def update_conv)
  have k: "slot_keyid slot' = slot_keyid slot" by (simp add: slot_keyid_def same)
  have th: "jget slot' ''threshold'' = Some (JNum n)" using pinned.prems by (auto simp: js_with_def update_conv)
  obtain kvs' where j: "slot' = JObj kvs'" using pinned.prems js_with_obj by blast
  have "acts_ok slot' cs" using w(2) pinned.hyps(4) by (simp add: acts_ok_def k th)
  then show ?case using pinned.hyps(3) by (intro slot_wfI [OF j]) (simp_all add: same)
qed

subsection \<open>The operations follow the life of a slot\<close>

definition slots_wf :: "'a ha_db_scheme \<Rightarrow> bool" where
  "slots_wf db \<longleftrightarrow> (\<forall>s slot. getSlot s db = Some slot \<longrightarrow> slot_wf slot)"

lemma getSlot_save [simp]:
  "getSlot s (save_slot now subj slot db) = (if s = subj then map_option (\<lambda>_. slot) (getSlot s db) else getSlot s db)"
  by (simp add: getSlot_def save_slot_def option.map_comp comp_def)

lemma getOrInitSlot_facts:
  assumes "getOrInitSlot now subj ms db = (slot, db1)"
  shows "(slot_next subj)\<^sup>*\<^sup>* (getSlot subj db) (Some slot)" and "getSlot subj db1 = Some slot"
    and "s \<noteq> subj \<Longrightarrow> getSlot s db1 = getSlot s db"
  using assms by (auto simp: getOrInitSlot_def getSlot_def split: option.splits intro: slot_next.created)

lemma getOrInitSlot_keeps_wf: "getOrInitSlot now subj ms db = (slot, db1) \<Longrightarrow> slots_wf db \<Longrightarrow> slot_wf slot"
  by (auto simp: getOrInitSlot_def slots_wf_def split: option.splits intro: slot_next_keeps_wf [OF slot_next.created])

inductive ha_op :: "'a ha_db_scheme \<Rightarrow> 'a ha_db_scheme \<Rightarrow> bool" where
  append_record: "appendHaRecord now env r db = (res, db') \<Longrightarrow> ha_op db db'"
| open_slot: "getOrInitSlot now s ms db = (slot, db') \<Longrightarrow> ha_op db db'"
| set_maker: "setMakerSignature now s ms db = (res', db') \<Longrightarrow> ha_op db db'"
| add_checker: "addCountersignature now s c ms db = (res', db') \<Longrightarrow> ha_op db db'"
| pin: "pinSlotSatisfaction now s n at db = (res'', db') \<Longrightarrow> ha_op db db'"

lemma getSlot_append [simp]: "getSlot s (snd (appendHaRecord now env r db)) = getSlot s db"
  by (simp add: appendHaRecord_def getSlot_def split: sum.splits)

lemma setMakerSignature_slots:
  assumes "setMakerSignature now subj ms db = (res, db')"
  shows "(slot_next subj)\<^sup>*\<^sup>* (getSlot subj db) (getSlot subj db')" and "s \<noteq> subj \<Longrightarrow> getSlot s db' = getSlot s db"
proof -
  obtain slot db1 where g: "getOrInitSlot now subj JNull db = (slot, db1)" by (cases "getOrInitSlot now subj JNull db")
  note f = getOrInitSlot_facts [OF g]
  show "s \<noteq> subj \<Longrightarrow> getSlot s db' = getSlot s db"
    using assms f(3) by (auto simp: setMakerSignature_def g Let_def split: if_splits)
  show "(slot_next subj)\<^sup>*\<^sup>* (getSlot subj db) (getSlot subj db')"
  proof (cases "res")
    case (Inl e)
    then have "db' = db \<or> db' = db1" using assms by (auto simp: setMakerSignature_def g Let_def split: if_splits)
    then show ?thesis using f(1,2) by auto
  next
    case (Inr slot')
    then obtain v where v: "ms = Some v" "js_truthy (jget v ''keyid'')" "slot \<noteq> JNull"
      "js_truthy (slot_keyid slot) \<Longrightarrow> slot_keyid slot = jget v ''keyid''"
      "db' = save_slot now subj (js_with slot ''maker_signature'' v) db1"
      using assms by (cases ms) (auto simp: setMakerSignature_def g Let_def jget_opt_def js_same_def split: if_splits)
    have "slot_next subj (Some slot) (getSlot subj db')"
      using slot_next.maker_signs [OF v(2,3,4)] v(5) f(2) by simp
    with f(1) show ?thesis by (rule rtranclp.rtrancl_into_rtrancl)
  qed
qed

lemma array_of_Inr [simp]: "array_of v = Inr xs \<longleftrightarrow> v = Some (JArr xs)"
  by (cases v rule: array_of.cases) auto

lemma addCountersignature_slots:
  assumes "addCountersignature now subj c ms db = (res, db')"
  shows "(slot_next subj)\<^sup>*\<^sup>* (getSlot subj db) (getSlot subj db')" and "s \<noteq> subj \<Longrightarrow> getSlot s db' = getSlot s db"
proof -
  obtain slot db1 where g: "getOrInitSlot now subj ms db = (slot, db1)" by (cases "getOrInitSlot now subj ms db")
  note f = getOrInitSlot_facts [OF g]
  show "s \<noteq> subj \<Longrightarrow> getSlot s db' = getSlot s db"
    using assms f(3) by (auto simp: addCountersignature_def g Let_def split: if_splits sum.splits)
  show "(slot_next subj)\<^sup>*\<^sup>* (getSlot subj db) (getSlot subj db')"
  proof (cases "res")
    case (Inl e)
    then have "db' = db \<or> db' = db1" using assms by (auto simp: addCountersignature_def g Let_def split: if_splits sum.splits)
    then show ?thesis using f(1,2) by auto
  next
    case (Inr slot')
    then have n: "slot \<noteq> JNull" "js_truthy (slot_keyid slot)" and "\<not> isl (check_act slot c)"
      using assms by (auto simp: addCountersignature_def g split: if_splits sum.splits)
    then obtain cs already where ca: "check_act slot c = Inr (cs, already)" by (cases "check_act slot c") auto
    then have v: "jget slot ''countersignatures'' = Some (JArr cs)" "same_maker (identity_id c) (slot_keyid slot) = Inr False"
      "jget c ''attester_kind'' \<in> {Some (JStr ''human''), Some (JStr ''automated'')}"
      by (auto simp: check_act_def)
    have "db' = save_slot now subj (case already of Some _ \<Rightarrow> slot
         | None \<Rightarrow> js_with slot ''countersignatures'' (JArr (cs @ [c]))) db1"
      using assms n ca by (simp add: addCountersignature_def g Let_def)
    then have "(slot_next subj)\<^sup>*\<^sup>* (Some slot) (getSlot subj db')"
      using slot_next.checker_signs [OF n v] f(2) by (cases already) auto
    with f(1) show ?thesis by (rule rtranclp_trans)
  qed
qed

lemma distinctHumans_of_array:
  "jget slot ''countersignatures'' = Some (JArr cs) \<Longrightarrow> distinctHumanCheckerIds (jget slot ''countersignatures'') = Inr (slot_humans cs)"
  by (simp add: distinctHumanCheckerIds_def js_iter_def slot_humans_def)

lemma pinSlotSatisfaction_slots:
  assumes "pinSlotSatisfaction now subj n at db = (res, db')" and "slots_wf db"
  shows "(slot_next subj)\<^sup>*\<^sup>* (getSlot subj db) (getSlot subj db')" and "s \<noteq> subj \<Longrightarrow> getSlot s db' = getSlot s db"
proof -
  show "s \<noteq> subj \<Longrightarrow> getSlot s db' = getSlot s db"
    using assms(1) by (auto simp: pinSlotSatisfaction_def Let_def split: if_splits sum.splits option.splits)
  show "(slot_next subj)\<^sup>*\<^sup>* (getSlot subj db) (getSlot subj db')"
  proof (cases "db' = db")
    case False
    then obtain slot where s: "getSlot subj db = Some slot" "slot \<noteq> JNull" "\<not> slot_pinned slot"
      using assms(1) by (auto simp: pinSlotSatisfaction_def split: if_splits option.splits)
    obtain cs where cs: "jget slot ''countersignatures'' = Some (JArr cs)"
      using assms(2) s(1) by (auto simp: slots_wf_def elim!: slot_wfE)
    have "n \<le> int (length (slot_humans cs))"
      and "db' = save_slot now subj (js_with (js_with slot ''threshold'' (JNum n)) ''as_of'' (JStr at)) db"
      using assms(1) False s by (auto simp: pinSlotSatisfaction_def distinctHumans_of_array [OF cs] Let_def split: if_splits)
    then show ?thesis using slot_next.pinned [OF s(2,3) cs] s(1) by auto
  qed simp
qed

lemma ha_op_slots:
  assumes "ha_op db db'" and "slots_wf db"
  shows "(slot_next s)\<^sup>*\<^sup>* (getSlot s db) (getSlot s db')"
  using assms(1)
proof cases
  case (append_record now env r res)
  then show ?thesis using getSlot_append [of s now env r db] by simp
next
  case (open_slot now subj ms slot)
  then show ?thesis using getOrInitSlot_facts [OF open_slot] by (cases "s = subj") auto
next
  case (set_maker now subj ms res')
  then show ?thesis using setMakerSignature_slots [OF set_maker] by (cases "s = subj") auto
next
  case (add_checker now subj c ms res')
  then show ?thesis using addCountersignature_slots [OF add_checker] by (cases "s = subj") auto
next
  case (pin now subj n at res'')
  then show ?thesis using pinSlotSatisfaction_slots [OF pin assms(2)] by (cases "s = subj") auto
qed

lemma slot_steps_keep_wf:
  "(slot_next s)\<^sup>*\<^sup>* x y \<Longrightarrow> (\<forall>slot. x = Some slot \<longrightarrow> slot_wf slot) \<Longrightarrow> (\<forall>slot. y = Some slot \<longrightarrow> slot_wf slot)"
  by (induction rule: rtranclp_induct) (auto dest: slot_next_keeps_wf)

lemma ha_op_keeps_wf: "ha_op db db' \<Longrightarrow> slots_wf db \<Longrightarrow> slots_wf db'"
  using ha_op_slots slot_steps_keep_wf unfolding slots_wf_def by metis

lemma ha_ops_slots:
  "ha_op\<^sup>*\<^sup>* db db' \<Longrightarrow> slots_wf db \<Longrightarrow> slots_wf db' \<and> (slot_next s)\<^sup>*\<^sup>* (getSlot s db) (getSlot s db')"
proof (induction rule: rtranclp_induct)
  case (step y z)
  then show ?case using ha_op_keeps_wf ha_op_slots rtranclp_trans [of "slot_next s"] by blast
qed simp

subsection \<open>Listing records\<close>

lemma mset_insert_by_time: "mset (insert_by_time r xs) = add_mset r (mset xs)"
  by (induction xs) auto

lemma mset_by_created [simp]: "mset (by_created rows) = mset rows"
  by (induction rows) (auto simp: by_created_def mset_insert_by_time)

lemma set_by_created [simp]: "set (by_created rows) = set rows"
  by (metis mset_by_created mset_eq_setD)

lemma str_le_refl [simp]: "str_le s s"
  by (induction s) auto

lemma str_le_total: "str_le s t \<or> str_le t s"
proof (induction s t rule: str_le.induct)
  case (3 a s b t)
  then show ?case using linorder_less_linear [of "of_char a :: nat" "of_char b"] by auto
qed auto

lemma str_le_trans: "str_le s t \<Longrightarrow> str_le t u \<Longrightarrow> str_le s u"
proof (induction s t arbitrary: u rule: str_le.induct)
  case (3 a s b t)
  then show ?case by (cases u) (auto split: if_splits)
qed auto

lemma sorted_insert_by_time:
  "sorted_wrt (\<lambda>a b. str_le (hr_created a) (hr_created b)) xs \<Longrightarrow>
   sorted_wrt (\<lambda>a b. str_le (hr_created a) (hr_created b)) (insert_by_time r xs)"
proof (induction xs)
  case (Cons x xs)
  have s: "set (insert_by_time r xs) = insert r (set xs)"
    by (metis mset_insert_by_time set_mset_add_mset_insert set_mset_mset)
  show ?case
  proof (cases "str_le (hr_created r) (hr_created x)")
    case True
    then show ?thesis using Cons.prems by (auto intro: str_le_trans)
  next
    case False
    then have "str_le (hr_created x) (hr_created r)" using str_le_total by blast
    then show ?thesis using Cons False s by auto
  qed
qed simp

lemma sorted_by_created: "sorted_wrt (\<lambda>a b. str_le (hr_created a) (hr_created b)) (by_created rows)"
  by (induction rows) (auto simp: by_created_def sorted_insert_by_time)

lemma recordsForSubject_mem:
  "r \<in> set (recordsForSubject s db) \<longleftrightarrow> (\<exists>row \<in> snd ` set (ha_records db). hr_subject row = s \<and> hr_record row = r)"
  by (auto simp: recordsForSubject_def)

lemma appendHaRecord_Inr:
  assumes "appendHaRecord now env r db = (Inr i, db')"
  obtains row d where "validateHaRecordShape env r = Inr ()" "ha_digest (he_sha env) r = Inr d" "i = sha256ref d"
    "ha_row_of now r = Inr row" "db' = db\<lparr>ha_records := tbl_insert_ignore i row (ha_records db)\<rparr>"
  using assms unfolding appendHaRecord_def
  by (auto split: sum.splits)

lemma appendHaRecord_again:
  assumes "appendHaRecord now env r db = (Inr i, db')" and "tbl_get (ha_records db) i = Some x"
  shows "db' = db"
  using assms by (auto elim!: appendHaRecord_Inr simp: tbl_insert_ignore_present)

lemma ha_row_of_Inr: "ha_row_of now r = Inr row \<Longrightarrow>
   hr_record row = r \<and> hr_created row = now \<and> jget r ''subject_hash'' = Some (JStr (hr_subject row))"
  by (auto simp: ha_row_of_def text_column_def split: option.splits json.splits)

lemma ha_row_of_any_time: "ha_row_of now r = Inr row \<Longrightarrow> ha_row_of now' r = Inr (row\<lparr>hr_created := now'\<rparr>)"
  by (auto simp: ha_row_of_def)

subsection \<open>Properties\<close>

definition slot_later :: "json \<Rightarrow> json \<Rightarrow> bool" where
  "slot_later slot slot' \<longleftrightarrow>
     (js_truthy (slot_keyid slot) \<longrightarrow> slot_keyid slot' = slot_keyid slot)
     \<and> prefix (slot_acts slot) (slot_acts slot')
     \<and> (slot_pinned slot \<longrightarrow> jget slot' ''threshold'' = jget slot ''threshold'' \<and> jget slot' ''as_of'' = jget slot ''as_of'')"

lemma slot_later_refl: "slot_later slot slot"
  by (simp add: slot_later_def)

lemma slot_later_trans: "slot_later a b \<Longrightarrow> slot_later b c \<Longrightarrow> slot_later a c"
  by (auto simp: slot_later_def slot_pinned_def)

lemma slot_next_later:
  assumes "slot_next s (Some slot) y" and "slot_wf slot"
  shows "\<exists>slot'. y = Some slot' \<and> slot_later slot slot'"
proof -
  obtain kvs where j: "slot = JObj kvs" using assms(2) by (rule slot_wfE)
  from assms(1) show ?thesis
  proof (cases rule: slot_next.cases)
    case (maker_signs ms)
    then show ?thesis
      by (auto simp: slot_later_def slot_acts_def slot_keyid_def jget_opt_def j)
  next
    case (checker_signs cs c)
    then show ?thesis
      by (auto simp: slot_later_def slot_acts_def slot_keyid_def j)
  next
    case (pinned cs n t)
    then show ?thesis
      by (auto simp: slot_later_def slot_acts_def slot_keyid_def j js_with_def update_conv)
  qed
qed

lemma slot_steps_later:
  "(slot_next s)\<^sup>*\<^sup>* x y \<Longrightarrow> x = Some slot \<Longrightarrow> slot_wf slot \<Longrightarrow> \<exists>slot'. y = Some slot' \<and> slot_later slot slot'"
proof (induction rule: rtranclp_induct)
  case base
  then show ?case by (simp add: slot_later_refl)
next
  case (step y z)
  then obtain slot1 where y: "y = Some slot1" "slot_later slot slot1" by blast
  have "slot_wf slot1" using slot_steps_keep_wf [OF step.hyps(1)] step.prems y(1) by simp
  then obtain slot2 where "z = Some slot2" "slot_later slot1 slot2"
    using slot_next_later step.hyps(2) y(1) by blast
  then show ?case using y(2) slot_later_trans by blast
qed

text \<open>C13. Maker and checker are never the same person: in whatever order records are filed, slots opened,
  makers and checkers sign and thresholds are pinned, starting from a database without slots, a slot
  that holds a countersignature has a maker, every countersigner states whether a human or a machine
  acts, and its identity is blank or differs from the maker's after trimming. A pinned threshold is met
  by distinct human checkers.\<close>

theorem checkers_differ_from_maker:
  assumes "ha_op\<^sup>*\<^sup>* db0 db" and "ha_slots db0 = []" and "getSlot s db = Some slot"
  shows "(\<forall>c \<in> set (slot_acts slot). js_truthy (slot_keyid slot)
            \<and> jget c ''attester_kind'' \<in> {Some (JStr ''human''), Some (JStr ''automated'')}
            \<and> same_maker (identity_id c) (slot_keyid slot) = Inr False)
    \<and> (slot_pinned slot \<longrightarrow> (\<exists>n ids. jget slot ''threshold'' = Some (JNum n)
          \<and> distinctHumanCheckerIds (jget slot ''countersignatures'') = Inr ids \<and> n \<le> int (length ids)))"
proof -
  have "slots_wf db0" using assms(2) by (simp add: slots_wf_def getSlot_def)
  then have "slot_wf slot" using ha_ops_slots [OF assms(1)] assms(3) unfolding slots_wf_def by blast
  then obtain cs where cs: "jget slot ''countersignatures'' = Some (JArr cs)" "acts_ok slot cs" by (rule slot_wfE)
  have "slot_acts slot = cs" using cs(1) by (simp add: slot_acts_def)
  then show ?thesis using cs(2) distinctHumans_of_array [OF cs(1)] by (auto simp: acts_ok_def)
qed

definition sample_maker :: json where
  "sample_maker = JObj [(''keyid'', JStr ''did:m'')]"

definition sample_checker :: "string \<Rightarrow> string \<Rightarrow> json" where
  "sample_checker who at = JObj [(''identity'', JObj [(''id'', JStr who)]), (''signed_at'', JStr at), (''attester_kind'', JStr ''human'')]"

definition empty_ha :: ha_db where
  "empty_ha = initHaTables initRunTables"

lemma empty_ha_slots [simp]: "ha_slots empty_ha = []" "ha_records empty_ha = []"
  by (simp_all add: empty_ha_def initHaTables_def run_db.defs ha_db.defs)

definition countersigned :: "ha_db" where
  "countersigned = snd (addCountersignature ''t2'' ''h'' (sample_checker ''did:c'' ''t2'') JNull
     (snd (setMakerSignature ''t1'' ''h'' (Some sample_maker) empty_ha)))"

lemma countersigned_reached: "ha_op\<^sup>*\<^sup>* empty_ha countersigned"
proof -
  let ?db1 = "snd (setMakerSignature ''t1'' ''h'' (Some sample_maker) empty_ha)"
  have "ha_op empty_ha ?db1" by (rule ha_op.set_maker) (rule prod.collapse [symmetric])
  moreover have "ha_op ?db1 countersigned"
    unfolding countersigned_def by (rule ha_op.add_checker) (rule prod.collapse [symmetric])
  ultimately show ?thesis by simp
qed

lemma countersigned_slot: "\<exists>slot. getSlot ''h'' countersigned = Some slot \<and> slot_acts slot = [sample_checker ''did:c'' ''t2'']
    \<and> slot_keyid slot = Some (JStr ''did:m'')"
proof -
  have "getSlot ''h'' countersigned = Some (JObj [(''bundle_digest'', JStr ''h''), (''maker_signature'', sample_maker),
      (''countersignatures'', JArr [sample_checker ''did:c'' ''t2''])])"
    by code_simp
  then show ?thesis by (simp add: slot_acts_def slot_keyid_def sample_maker_def jget_opt_def)
qed

lemma checkers_differ_from_maker_witness:
  "\<exists>slot. getSlot ''h'' countersigned = Some slot \<and> (\<forall>c \<in> set (slot_acts slot). js_truthy (slot_keyid slot))
     \<and> slot_acts slot \<noteq> []"
proof -
  obtain slot where s: "getSlot ''h'' countersigned = Some slot" "slot_acts slot = [sample_checker ''did:c'' ''t2'']"
    using countersigned_slot by blast
  show ?thesis using checkers_differ_from_maker [OF countersigned_reached empty_ha_slots(1) s(1)] s by auto
qed

text \<open>C14. The history of a slot is append-only: whatever operations follow, the slot stays, a maker key
  once set is never replaced by another, the countersignatures so far stay in place and in order, and a
  pinned threshold with its time of determination never changes.\<close>

theorem slot_history_append_only:
  assumes "ha_op\<^sup>*\<^sup>* db db'" and "slots_wf db" and "getSlot s db = Some slot"
  shows "\<exists>slot'. getSlot s db' = Some slot'
    \<and> (js_truthy (slot_keyid slot) \<longrightarrow> slot_keyid slot' = slot_keyid slot)
    \<and> prefix (slot_acts slot) (slot_acts slot')
    \<and> (slot_pinned slot \<longrightarrow> jget slot' ''threshold'' = jget slot ''threshold'' \<and> jget slot' ''as_of'' = jget slot ''as_of'')"
proof -
  have "slot_wf slot" using assms(2,3) by (simp add: slots_wf_def)
  then show ?thesis
    using slot_steps_later [OF conjunct2 [OF ha_ops_slots [OF assms(1,2)]] assms(3)] by (simp add: slot_later_def)
qed

lemma slot_history_append_only_witness:
  "\<exists>slot'. getSlot ''h'' (snd (pinSlotSatisfaction ''t3'' ''h'' 1 ''t3'' countersigned)) = Some slot'
     \<and> prefix [sample_checker ''did:c'' ''t2''] (slot_acts slot')"
proof -
  obtain slot where s: "getSlot ''h'' countersigned = Some slot" "slot_acts slot = [sample_checker ''did:c'' ''t2'']"
    using countersigned_slot by blast
  have "slots_wf countersigned"
    using ha_ops_slots [OF countersigned_reached] by (simp add: slots_wf_def getSlot_def)
  moreover have "ha_op countersigned (snd (pinSlotSatisfaction ''t3'' ''h'' 1 ''t3'' countersigned))"
    by (rule ha_op.pin) (rule prod.collapse [symmetric])
  ultimately show ?thesis
    using slot_history_append_only [OF r_into_rtranclp _ s(1)] s(2) by fastforce
qed

text \<open>Which countersignatures an existing, well-formed slot accepts: exactly those of a slot that has
  a maker, from an identity that is blank or not the maker's, with an explicit attester kind. A refusal
  leaves the database unchanged.\<close>

theorem countersignature_accepted_iff:
  assumes "getSlot s db = Some slot" and "slot_wf slot" and "slot_keyid slot = Some (JStr k)" and "identity_id c = Some (JStr i)"
    and "JNull \<notin> set (slot_acts slot)"
  shows "((\<exists>slot'. fst (addCountersignature now s c ms db) = Inr slot') \<longleftrightarrow>
      k \<noteq> [] \<and> (js_trim i = [] \<or> js_trim i \<noteq> js_trim k)
      \<and> jget c ''attester_kind'' \<in> {Some (JStr ''human''), Some (JStr ''automated'')})
    \<and> ((\<exists>e. fst (addCountersignature now s c ms db) = Inl e) \<longrightarrow> snd (addCountersignature now s c ms db) = db)"
proof -
  obtain kvs cs where w: "slot = JObj kvs" "jget slot ''countersignatures'' = Some (JArr cs)" using assms(2) by (rule slot_wfE)
  have g: "getOrInitSlot now s ms db = (slot, db)" using assms(1) by (simp add: getOrInitSlot_def)
  have cs: "JNull \<notin> set cs" using assms(5) w(2) by (simp add: slot_acts_def)
  then have "\<exists>a. find_err (same_act c) cs = Inr a" by (induction cs) (auto simp: same_act_def)
  then obtain a where a: "find_err (same_act c) cs = Inr a" by blast
  have n: "slot \<noteq> JNull" using w(1) by simp
  show ?thesis
    using n assms(3,4) a by (auto simp: addCountersignature_def g check_act_def same_maker_def trimmed_def w(2) Let_def guard_err_def split: sum.splits)
qed

lemma countersignature_accepted_iff_witness:
  "\<exists>e. fst (addCountersignature ''t3'' ''h'' (sample_checker ''did:m '' ''t3'') JNull countersigned) = Inl e"
proof -
  obtain slot where s: "getSlot ''h'' countersigned = Some slot" "slot_acts slot = [sample_checker ''did:c'' ''t2'']"
    "slot_keyid slot = Some (JStr ''did:m'')"
    using countersigned_slot by blast
  have w: "slot_wf slot" using ha_ops_slots [OF countersigned_reached] s(1) by (simp add: slots_wf_def getSlot_def)
  have i: "identity_id (sample_checker ''did:m '' ''t3'') = Some (JStr ''did:m '')"
    by (simp add: sample_checker_def identity_id_def jget_opt_def)
  have "JNull \<notin> set (slot_acts slot)" using s(2) by (simp add: sample_checker_def)
  note acc = countersignature_accepted_iff [OF s(1) w s(3) i this, of "''t3''" JNull]
  have "\<not> (js_trim ''did:m '' = [] \<or> js_trim ''did:m '' \<noteq> js_trim ''did:m'')" by code_simp
  with acc show ?thesis by (metis (no_types) sum.exhaust)
qed

text \<open>Filing a record is idempotent and never overwrites: filing the same record again, at any later
  time, gives the same identifier and changes nothing, the record filed under any identifier before stays,
  and a record filed for the first time is listed for its subject.\<close>

theorem filing_a_record_is_idempotent:
  assumes "appendHaRecord now env r db = (Inr i, db')"
  shows "appendHaRecord now' env r db' = (Inr i, db')
    \<and> (\<forall>j x. getRecordById j db = Some x \<longrightarrow> getRecordById j db' = Some x)
    \<and> (getRecordById i db = None \<longrightarrow> getRecordById i db' = Some r
          \<and> (\<exists>subj. jget r ''subject_hash'' = Some (JStr subj) \<and> r \<in> set (recordsForSubject subj db')))"
proof -
  obtain row d where f: "validateHaRecordShape env r = Inr ()" "ha_digest (he_sha env) r = Inr d" "i = sha256ref d"
    "ha_row_of now r = Inr row" "db' = db\<lparr>ha_records := tbl_insert_ignore i row (ha_records db)\<rparr>"
    using assms by (rule appendHaRecord_Inr)
  obtain x where x: "tbl_get (ha_records db') i = Some x"
    using f(5) by (cases "tbl_get (ha_records db) i") auto
  have again: "appendHaRecord now' env r db' = (Inr i, db'\<lparr>ha_records := tbl_insert_ignore i (row\<lparr>hr_created := now'\<rparr>) (ha_records db')\<rparr>)"
    by (simp add: appendHaRecord_def f(1,2) ha_row_of_any_time [OF f(4)] f(3))
  have "tbl_insert_ignore i (row\<lparr>hr_created := now'\<rparr>) (ha_records db') = ha_records db'"
    using x by (rule tbl_insert_ignore_present)
  with again have "appendHaRecord now' env r db' = (Inr i, db')" by simp
  moreover have "getRecordById j db' = Some x" if "getRecordById j db = Some x" for j x
    using that f(5) by (auto simp: getRecordById_def)
  moreover have "getRecordById i db' = Some r \<and> (\<exists>subj. jget r ''subject_hash'' = Some (JStr subj) \<and> r \<in> set (recordsForSubject subj db'))"
    if "getRecordById i db = None"
  proof -
    have "tbl_get (ha_records db) i = None" using that by (simp add: getRecordById_def)
    then have "ha_records db' = ha_records db @ [(i, row)]" using f(5) by (simp add: tbl_insert_ignore_def)
    then show ?thesis using ha_row_of_Inr [OF f(4)] f(5) \<open>tbl_get (ha_records db) i = None\<close>
      by (auto simp: getRecordById_def recordsForSubject_mem map_add_def)
  qed
  ultimately show ?thesis by blast
qed

definition sample_ha_schema :: json where
  "sample_ha_schema = JObj [(''$defs'', JObj [(''humanAccountabilityRecord'', JObj [(''type'', JStr ''object'')])])]"

definition sample_ha_env :: ha_env where
  "sample_ha_env = \<lparr>he_sha = (\<lambda>s. s), he_schema = sample_ha_schema, he_matches = (\<lambda>_ _. True), he_fuel = 3\<rparr>"

lemma sample_record_filed:
  "\<exists>i db'. appendHaRecord ''t'' sample_ha_env (sample_approval ''approval'' ''ann'') empty_ha = (Inr i, db')"
proof -
  have "validateHaRecordShape sample_ha_env (sample_approval ''approval'' ''ann'') = Inr ()"
    by code_simp
  moreover have "ijson_ok (sample_approval ''approval'' ''ann'')"
    by (simp add: sample_approval_def ijson_ok_iff MAX_DEPTH_def MAX_ELEMENTS_def)
  then have "\<not> isl (ha_digest (he_sha sample_ha_env) (sample_approval ''approval'' ''ann''))"
    by (auto simp: ha_digest_def jcsDigestHex_def ijson_ok_def)
  moreover have "\<not> isl (ha_row_of ''t'' (sample_approval ''approval'' ''ann''))"
    by (simp add: sample_approval_def ha_row_of_def text_column_def identity_id_def jget_opt_def)
  ultimately show "\<exists>i db'. appendHaRecord ''t'' sample_ha_env (sample_approval ''approval'' ''ann'') empty_ha = (Inr i, db')"
    unfolding appendHaRecord_def
    by (cases "ha_digest (he_sha sample_ha_env) (sample_approval ''approval'' ''ann'')";
        cases "ha_row_of ''t'' (sample_approval ''approval'' ''ann'')") simp_all
qed

lemma filing_a_record_is_idempotent_witness:
  "\<exists>i db'. appendHaRecord ''t'' sample_ha_env (sample_approval ''approval'' ''ann'') empty_ha = (Inr i, db')
      \<and> appendHaRecord ''u'' sample_ha_env (sample_approval ''approval'' ''ann'') db' = (Inr i, db')"
  using sample_record_filed conjunct1 [OF filing_a_record_is_idempotent] by (elim exE) (intro exI conjI)

text \<open>
  Distinctness of checkers is not modulo the trimming that the comparison with the maker uses: one
  identity with and without a trailing blank counts as two people.
\<close>

lemma padded_identity_counts_twice:
  "distinctHumanCheckerIds (Some (JArr [sample_checker ''did:c'' ''t'', sample_checker ''did:c '' ''t'']))
     = Inr [JStr ''did:c'', JStr ''did:c '']"
  by code_simp

end
