(* ===== verification/Ha_Gate.thy ===== *)
theory Ha_Gate
  imports Ha_Store Kernel_Runner
begin

text \<open>
  \<^verbatim>\<open>hub/ha-gate.mjs\<close>: the gate check that the run engine consults before a step, the submission of
  signed records, makers and countersignatures, and the two ways a recorded step is checked again
  (re-execution of a kernel, recomputation of an artifact binding). Signing, verifying and the
  resolution of a \<open>did:key\<close> are the parameters of \<open>ha_crypto\<close>; \<open>None\<close> is an exception there.
\<close>

datatype ha_gate_error =
    In_store ha_error
  | In_plan run_error
  | In_kernel kernel_error
  | In_evaluation gate_error
  | Record_unverified
  | Maker_unverified
  | Maker_without_kind
  | Keyid_not_identity
  | Checker_unverified
  | Kind_required
  | Unknown_run_id string
  | Unknown_step_id string string
  | Wrong_kind string
  | Nothing_recorded
  | No_execution_hash
  | Gate_type_error

record ha_crypto =
  hc_public_key :: "json \<Rightarrow> string option"
  hc_verify_record :: "json \<Rightarrow> string \<Rightarrow> bool option"
  hc_verify_raw :: "string \<Rightarrow> json \<Rightarrow> string \<Rightarrow> bool option"
  hc_sign_record :: "json \<Rightarrow> string \<Rightarrow> string \<Rightarrow> string \<Rightarrow> json"
  hc_sign_raw :: "string \<Rightarrow> string \<Rightarrow> string"

record ha_identity =
  hi_id :: string
  hi_private_key :: string

subsection \<open>Signed records\<close>

definition signHaRecord :: "ha_crypto \<Rightarrow> json \<Rightarrow> ha_identity \<Rightarrow> string \<Rightarrow> json" where
  "signHaRecord cr r identity now = hc_sign_record cr r (hi_id identity @ ''#key-1'') now (hi_private_key identity)"

definition verifyHaRecordSignature :: "ha_crypto \<Rightarrow> json \<Rightarrow> ha_gate_error + bool" where
  "verifyHaRecordSignature cr r =
     (let vm = jget_opt (jget_opt (jget r ''audit_signature'') ''proof'') ''verificationMethod''
      in if js_nullish vm then Inr False
         else case vm of
           Some (JStr s) \<Rightarrow>
             (if \<not> starts_with s (if js_nullish (identity_id r) then [char_of (0::nat)] else js_template (identity_id r))
              then Inr False
              else if js_nullish (jget r ''identity'') then Inl Gate_type_error
              else case identity_id r of
                     None \<Rightarrow> Inr False
                   | Some did \<Rightarrow>
                       Inr (case hc_public_key cr did of
                              None \<Rightarrow> False
                            | Some key \<Rightarrow> hc_verify_record cr r key = Some True))
         | _ \<Rightarrow> Inl Gate_type_error)"

definition submitHaRecord ::
  "string \<Rightarrow> ha_env \<Rightarrow> ha_crypto \<Rightarrow> json \<Rightarrow> 'a ha_db_scheme \<Rightarrow> (ha_gate_error + string) \<times> 'a ha_db_scheme" where
  "submitHaRecord now env cr r db =
     (case verifyHaRecordSignature cr r of
        Inl e \<Rightarrow> (Inl e, db)
      | Inr False \<Rightarrow> (Inl Record_unverified, db)
      | Inr True \<Rightarrow>
          (case appendHaRecord now env r db of
             (Inl e, db1) \<Rightarrow> (Inl (In_store e), db1) | (Inr i, db1) \<Rightarrow> (Inr i, db1)))"

subsection \<open>The gate check\<close>

definition artifact_hash :: "json option \<Rightarrow> json option" where
  \<comment> \<open>\<open>output?.artifact?.execution_hash\<close>\<close>
  "artifact_hash priorOutput = jget_opt (jget_opt priorOutput ''artifact'') ''execution_hash''"

definition subjectHashFor :: "string option \<Rightarrow> json option \<Rightarrow> string" where
  "subjectHashFor priorOutputDigest priorOutput =
     (if js_truthy (artifact_hash priorOutput) then ''sha256:'' @ js_template (artifact_hash priorOutput)
      else case priorOutputDigest of Some d \<Rightarrow> d | None \<Rightarrow> ''sha256:'' @ replicate 64 (CHR ''0''))"

record held_gate =
  hg_step_id :: string
  hg_result :: gate_result
  hg_subject :: string
  hg_role :: json
  hg_policy :: json
  hg_threshold :: "json option"

definition gate_request_for ::
  "string \<Rightarrow> json \<Rightarrow> string \<Rightarrow> json list \<Rightarrow> gate_request" where
  "gate_request_for now item subjectHash records =
     \<lparr>gq_policy = jget item ''gate_policy'', gq_threshold = jget item ''gate_threshold'',
      gq_role = or_default (JStr ''approver'') (jget item ''gate_role''), gq_subject = subjectHash,
      gq_records = records, gq_now = now, gq_conformant = True, gq_verdict = None\<rparr>"

definition haGateCheckFor ::
  "(string \<Rightarrow> int option) \<Rightarrow> string \<Rightarrow> 'a ha_db_scheme \<Rightarrow> step \<Rightarrow> string option \<Rightarrow> json option \<Rightarrow>
   ha_gate_error + held_gate option" where
  "haGateCheckFor dateParse now db s priorOutputDigest priorOutput =
     (let item = st_item s; subjectHash = subjectHashFor priorOutputDigest priorOutput;
          q = gate_request_for now item subjectHash (recordsForSubject subjectHash db)
      in if \<not> js_truthy (jget item ''gate_policy'') then Inr None
         else case evaluateHaGate dateParse q of
                Inl e \<Rightarrow> Inl (In_evaluation e)
              | Inr result \<Rightarrow>
                  if gr_status result = Satisfied \<or> gr_status result = Override_active then Inr None
                  else Inr (Some \<lparr>hg_step_id = st_id s, hg_result = result, hg_subject = subjectHash, hg_role = gq_role q,
                                  hg_policy = the (jget item ''gate_policy''), hg_threshold = gq_threshold q\<rparr>))"

text \<open>The callback in the form in which the engine calls it; the wording of errors and reasons is a parameter.\<close>

definition gate_callback ::
  "(ha_gate_error \<Rightarrow> string) \<Rightarrow> (held_gate \<Rightarrow> string) \<Rightarrow> (string \<Rightarrow> int option) \<Rightarrow> string \<Rightarrow>
   step \<Rightarrow> string option \<Rightarrow> json option \<Rightarrow> string \<Rightarrow> 'a ha_db_scheme \<Rightarrow> string + string option" where
  "gate_callback message reason dateParse now s prior priorOutput runId db =
     map_sum message (map_option reason) (haGateCheckFor dateParse now db s prior priorOutput)"

fun find_held ::
  "(string \<Rightarrow> string) \<Rightarrow> (string \<Rightarrow> int option) \<Rightarrow> string \<Rightarrow> string \<Rightarrow> bool \<Rightarrow> 'a ha_db_scheme \<Rightarrow>
   step list \<Rightarrow> string option \<Rightarrow> json option \<Rightarrow> string option \<Rightarrow> ha_gate_error + (string option \<times> held_gate) option" where
  \<comment> \<open>the loop of \<open>findHeldGate\<close>; the parameters of a bound step are not resolved\<close>
  "find_held sha dateParse now runId dryRun db [] prior priorOutput priorStepId = Inr None"
| "find_held sha dateParse now runId dryRun db (s # ss) prior priorOutput priorStepId =
     (case and_then (stepInputDigest sha runId s prior dryRun None) (\<lambda>i. getMemoizedStep sha db runId (st_id s) i) of
        Inl e \<Rightarrow> Inl (In_plan e)
      | Inr (Some (output, outputDigest)) \<Rightarrow>
          find_held sha dateParse now runId dryRun db ss (Some outputDigest) (Some output) (Some (st_id s))
      | Inr None \<Rightarrow>
          and_then (haGateCheckFor dateParse now db s prior priorOutput) (\<lambda>held.
            Inr (map_option (\<lambda>h. (priorStepId, h)) held)))"

definition findHeldGate ::
  "(string \<Rightarrow> string) \<Rightarrow> (string \<Rightarrow> int option) \<Rightarrow> string \<Rightarrow> 'a ha_db_scheme \<Rightarrow> string \<Rightarrow> run_row \<Rightarrow>
   ha_gate_error + (string option \<times> held_gate) option" where
  "findHeldGate sha dateParse now db runId row =
     (case planSteps sha (rr_manifest row) of
        Inl e \<Rightarrow> Inl (In_plan e)
      | Inr steps \<Rightarrow> find_held sha dateParse now runId (rr_dry_run row) db steps None None None)"

subsection \<open>Checking a recorded step again\<close>

definition recorded_outputs :: "string \<Rightarrow> string \<Rightarrow> 'a run_db_scheme \<Rightarrow> json list" where
  \<comment> \<open>\<open>SELECT output_json ... WHERE run_id = ? AND step_id = ?\<close>, in the order of the table\<close>
  "recorded_outputs runId stepId db =
     map (sr_output \<circ> snd) (filter (\<lambda>((r, s, _), _). r = runId \<and> s = stepId) (step_results db))"

definition recorded_step ::
  "(string \<Rightarrow> string) \<Rightarrow> string \<Rightarrow> string \<Rightarrow> string \<Rightarrow> 'a run_db_scheme \<Rightarrow> ha_gate_error + step \<times> json" where
  \<comment> \<open>what both checks begin with: the step, of the right kind, and the hash that its last output claims\<close>
  "recorded_step sha kind runId stepId db =
     (case tbl_get (runs db) runId of
        None \<Rightarrow> Inl (Unknown_run_id runId)
      | Some row \<Rightarrow>
          (case planSteps sha (rr_manifest row) of
             Inl e \<Rightarrow> Inl (In_plan e)
           | Inr steps \<Rightarrow>
               (case find (\<lambda>s. st_id s = stepId) steps of
                  None \<Rightarrow> Inl (Unknown_step_id stepId runId)
                | Some s \<Rightarrow>
                    if st_kind s \<noteq> kind then Inl (Wrong_kind (st_kind s))
                    else let outputs = recorded_outputs runId stepId db
                         in if outputs = [] then Inl Nothing_recorded
                            else if \<not> js_truthy (artifact_hash (Some (last outputs))) then Inl No_execution_hash
                            else Inr (s, the (artifact_hash (Some (last outputs)))))))"

definition signBundleDigest :: "ha_crypto \<Rightarrow> ha_identity \<Rightarrow> string \<Rightarrow> json" where
  "signBundleDigest cr identity bundleDigest =
     JObj [(''keyid'', JStr (hi_id identity)), (''sig'', JStr (hc_sign_raw cr (hi_private_key identity) bundleDigest)),
           (''alg'', JStr ''EdDSA'')]"

definition checker_act :: "ha_crypto \<Rightarrow> ha_identity \<Rightarrow> string \<Rightarrow> string \<Rightarrow> bool option \<Rightarrow> string \<Rightarrow> json" where
  "checker_act cr identity claimedHash now replayVerified kind =
     JObj (opt_members
       [(''role'', Some (JStr ''checker'')), (''identity'', Some (JObj [(''id'', JStr (hi_id identity))])),
        (''signature'', Some (signBundleDigest cr identity claimedHash)), (''signed_at'', Some (JStr now)),
        (''replay_verified'', map_option JBool replayVerified), (''attester_kind'', Some (JStr kind))])"

record replay_report =
  rp_matched :: bool
  rp_claimed :: string
  rp_recomputed :: "json option"
  rp_slot :: json

definition recordReplay ::
  "ha_crypto \<Rightarrow> kernel_env \<Rightarrow> string \<Rightarrow> string \<Rightarrow> string \<Rightarrow> string \<Rightarrow> ha_identity \<Rightarrow> 'a ha_db_scheme \<Rightarrow>
   (ha_gate_error + replay_report) \<times> 'a ha_db_scheme" where
  "recordReplay cr env now nowDb runId stepId checkerIdentity db =
     (case recorded_step (ke_sha env) ''nodes'' runId stepId db of
        Inl e \<Rightarrow> (Inl e, db)
      | Inr (s, claimedHashHex) \<Rightarrow>
          let claimedHash = ''sha256:'' @ js_template (Some claimedHashHex)
          in case runKernelNode env now s of
               Inl e \<Rightarrow> (Inl (In_kernel e), db)
             | Inr fresh \<Rightarrow>
                 if js_nullish (jget fresh ''artifact'') then (Inl Gate_type_error, db)
                 else
                   let matched = js_same (artifact_hash (Some fresh)) (Some claimedHashHex)
                   in case addCountersignature nowDb claimedHash
                             (checker_act cr checkerIdentity claimedHash now (Some matched) ''automated'') JNull db of
                        (Inl e, db1) \<Rightarrow> (Inl (In_store e), db1)
                      | (Inr slot, db1) \<Rightarrow>
                          (Inr \<lparr>rp_matched = matched, rp_claimed = claimedHash,
                                rp_recomputed = artifact_hash (Some fresh), rp_slot = slot\<rparr>, db1))"

definition binding_preimage :: "json \<Rightarrow> json option" where
  \<comment> \<open>the object whose digest is recomputed; \<open>None\<close> when \<open>artifact\<close> has no members to read\<close>
  "binding_preimage item =
     (if item = JNull \<or> js_nullish (jget item ''artifact'') then None
      else Some (JObj (opt_members
        [(''tool_ref'', jget item ''tool_ref''), (''inputs_digest'', jget item ''inputs_digest''),
         (''artifact'', Some (JObj (opt_members
            [(''content_type'', jget_opt (jget item ''artifact'') ''content_type''),
             (''content_digest'', jget_opt (jget item ''artifact'') ''content_digest'')])))])))"

definition binding_approval :: "ha_crypto \<Rightarrow> ha_identity \<Rightarrow> string \<Rightarrow> string \<Rightarrow> json" where
  "binding_approval cr identity claimedHash now =
     signHaRecord cr (JObj
       [(''record_type'', JStr ''approval''), (''role'', JStr ''approver''), (''subject_hash'', JStr claimedHash),
        (''identity'', JObj [(''id'', JStr (hi_id identity))]), (''decision'', JStr ''approve''),
        (''reason_code'', JStr ''ARTIFACT_BINDING_VERIFIED''), (''timestamp'', JStr now)]) identity now"

definition recordArtifactBindingVerification ::
  "ha_crypto \<Rightarrow> ha_env \<Rightarrow> string \<Rightarrow> string \<Rightarrow> string \<Rightarrow> string \<Rightarrow> ha_identity \<Rightarrow> string option \<Rightarrow> 'a ha_db_scheme \<Rightarrow>
   (ha_gate_error + replay_report) \<times> 'a ha_db_scheme" where
  "recordArtifactBindingVerification cr env now nowDb runId stepId checkerIdentity attesterKind db =
     (if attesterKind \<notin> {Some ''human'', Some ''automated''} then (Inl Kind_required, db)
      else case recorded_step (he_sha env) ''attested_artifacts'' runId stepId db of
        Inl e \<Rightarrow> (Inl e, db)
      | Inr (s, claimedHashHex) \<Rightarrow>
          let claimedHash = ''sha256:'' @ js_template (Some claimedHashHex)
          in case (case binding_preimage (st_item s) of
                     None \<Rightarrow> Inl Gate_type_error
                   | Some p \<Rightarrow> (case ha_digest (he_sha env) p of Inl e \<Rightarrow> Inl (In_store e) | Inr d \<Rightarrow> Inr d)) of
               Inl e \<Rightarrow> (Inl e, db)
             | Inr recomputed \<Rightarrow>
                 let matched = (claimedHashHex = JStr recomputed)
                 in case addCountersignature nowDb claimedHash
                           (checker_act cr checkerIdentity claimedHash now None (the attesterKind)) JNull db of
                      (Inl e, db1) \<Rightarrow> (Inl (In_store e), db1)
                    | (Inr slot, db1) \<Rightarrow>
                        let report = \<lparr>rp_matched = matched, rp_claimed = claimedHash,
                                      rp_recomputed = Some (JStr recomputed), rp_slot = slot\<rparr>
                        in if \<not> matched then (Inr report, db1)
                           else case appendHaRecord nowDb env (binding_approval cr checkerIdentity claimedHash now) db1 of
                                  (Inl e, db2) \<Rightarrow> (Inl (In_store e), db2)
                                | (Inr _, db2) \<Rightarrow> (Inr report, db2))"

subsection \<open>Makers and human checkers\<close>

definition verifyBundleDigestSignature :: "ha_crypto \<Rightarrow> string \<Rightarrow> json option \<Rightarrow> ha_gate_error + bool" where
  "verifyBundleDigestSignature cr bundleDigest signature =
     (if js_nullish signature then Inl Gate_type_error
      else let keyid = jget_opt signature ''keyid''; sig = jget_opt signature ''sig''
           in if jget_opt signature ''alg'' \<noteq> Some (JStr ''EdDSA'') \<or> \<not> js_truthy keyid \<or> \<not> js_truthy sig then Inr False
              else Inr (case hc_public_key cr (the keyid) of
                          None \<Rightarrow> False
                        | Some key \<Rightarrow> hc_verify_raw cr key (the sig) bundleDigest = Some True))"

definition submitMakerSignature ::
  "string \<Rightarrow> ha_crypto \<Rightarrow> string \<Rightarrow> json option \<Rightarrow> 'a ha_db_scheme \<Rightarrow> (ha_gate_error + json) \<times> 'a ha_db_scheme" where
  "submitMakerSignature now cr subjectHash makerSignature db =
     (case verifyBundleDigestSignature cr subjectHash makerSignature of
        Inl e \<Rightarrow> (Inl e, db)
      | Inr ok \<Rightarrow>
          if \<not> ok then (Inl Maker_unverified, db)
          else if jget_opt makerSignature ''attester_kind'' \<notin> {Some (JStr ''human''), Some (JStr ''automated'')}
          then (Inl Maker_without_kind, db)
          else case setMakerSignature now subjectHash makerSignature db of
                 (Inl e, db1) \<Rightarrow> (Inl (In_store e), db1) | (Inr slot, db1) \<Rightarrow> (Inr slot, db1))"

definition submitCountersignature ::
  "string \<Rightarrow> ha_crypto \<Rightarrow> string \<Rightarrow> json \<Rightarrow> 'a ha_db_scheme \<Rightarrow> (ha_gate_error + json) \<times> 'a ha_db_scheme" where
  "submitCountersignature now cr subjectHash countersignature db =
     (if \<not> js_same (jget_opt (jget countersignature ''signature'') ''keyid'') (identity_id countersignature)
      then (Inl Keyid_not_identity, db)
      else case verifyBundleDigestSignature cr subjectHash (jget countersignature ''signature'') of
             Inl e \<Rightarrow> (Inl e, db)
           | Inr ok \<Rightarrow>
               if \<not> ok then (Inl Checker_unverified, db)
               else case addCountersignature now subjectHash countersignature JNull db of
                      (Inl e, db1) \<Rightarrow> (Inl (In_store e), db1) | (Inr slot, db1) \<Rightarrow> (Inr slot, db1))"

subsection \<open>What the operations leave alone\<close>

lemma getOrInitSlot_records: "getOrInitSlot now s ms db = (slot, db1) \<Longrightarrow> ha_records db1 = ha_records db"
  by (auto simp: getOrInitSlot_def split: option.splits)

lemma save_slot_records [simp]: "ha_records (save_slot now s slot db) = ha_records db"
  by (simp add: save_slot_def)

lemma addCountersignature_records: "addCountersignature now s c ms db = (r, db') \<Longrightarrow> ha_records db' = ha_records db"
proof -
  assume a: "addCountersignature now s c ms db = (r, db')"
  obtain slot db1 where g: "getOrInitSlot now s ms db = (slot, db1)" by (cases "getOrInitSlot now s ms db")
  from a getOrInitSlot_records [OF g] show ?thesis
    by (auto simp: addCountersignature_def g Let_def split: if_splits sum.splits)
qed

lemma setMakerSignature_records: "setMakerSignature now s ms db = (r, db') \<Longrightarrow> ha_records db' = ha_records db"
proof -
  assume a: "setMakerSignature now s ms db = (r, db')"
  obtain slot db1 where g: "getOrInitSlot now s JNull db = (slot, db1)" by (cases "getOrInitSlot now s JNull db")
  from a getOrInitSlot_records [OF g] show ?thesis
    by (auto simp: setMakerSignature_def g Let_def split: if_splits)
qed

lemma addCountersignature_slot:
  assumes "addCountersignature now s c ms db = (r, db')"
  shows "(\<exists>slot0. getSlot s db' = Some slot0 \<and> (getSlot s db = Some slot0 \<or> getSlot s db = None \<and> slot0 = fresh_slot s ms))
    \<or> (\<exists>slot0 cs. (getSlot s db = Some slot0 \<or> getSlot s db = None \<and> slot0 = fresh_slot s ms)
         \<and> jget slot0 ''countersignatures'' = Some (JArr cs)
         \<and> getSlot s db' = Some (js_with slot0 ''countersignatures'' (JArr (cs @ [c]))))"
proof -
  obtain slot db1 where g: "getOrInitSlot now s ms db = (slot, db1)" by (cases "getOrInitSlot now s ms db")
  have s1: "getSlot s db1 = Some slot" by (rule getOrInitSlot_facts(2) [OF g])
  have s0: "getSlot s db = Some slot \<or> getSlot s db = None \<and> slot = fresh_slot s ms"
    using g by (auto simp: getOrInitSlot_def split: option.splits)
  show ?thesis
  proof (cases "slot = JNull \<or> \<not> js_truthy (slot_keyid slot) \<or> isl (check_act slot c)")
    case True
    then have "db' = db1" using assms by (auto simp: addCountersignature_def g split: if_splits sum.splits)
    then show ?thesis using s0 s1 by simp
  next
    case False
    then obtain cs already where ca: "check_act slot c = Inr (cs, already)" by (cases "check_act slot c") auto
    have "jget slot ''countersignatures'' = Some (JArr cs)" using ca by (auto simp: check_act_def)
    moreover have "db' = save_slot now s (case already of Some _ \<Rightarrow> slot
         | None \<Rightarrow> js_with slot ''countersignatures'' (JArr (cs @ [c]))) db1"
      using assms False ca by (simp add: addCountersignature_def g Let_def)
    ultimately show ?thesis using s0 s1 by (cases already) auto
  qed
qed

lemma gate_depends_on_records:
  "ha_records db' = ha_records db \<Longrightarrow> haGateCheckFor dp now db' s prior po = haGateCheckFor dp now db s prior po"
  by (simp add: haGateCheckFor_def recordsForSubject_def)

lemma slot_humans_automated: "jget c ''attester_kind'' = Some (JStr ''automated'') \<Longrightarrow> slot_humans (cs @ [c]) = slot_humans cs"
  by (simp add: slot_humans_def counts_as_human_def)

lemma checker_act_kind [simp]: "jget (checker_act cr i h now b k) ''attester_kind'' = Some (JStr k)"
  by (cases b) (simp_all add: checker_act_def)

subsection \<open>Properties\<close>


definition no_crypto :: ha_crypto where
  "no_crypto = \<lparr>hc_public_key = (\<lambda>_. None), hc_verify_record = (\<lambda>_ _. None), hc_verify_raw = (\<lambda>_ _ _. None),
     hc_sign_record = (\<lambda>r _ _ _. r), hc_sign_raw = (\<lambda>_ m. m)\<rparr>"

definition sample_identity :: ha_identity where
  "sample_identity = \<lparr>hi_id = ''did:d'', hi_private_key = ''k''\<rparr>"




subsection \<open>Everything stored is signed\<close>

text \<open>
  The requests that reach the two tables: a signed record, a maker's or a checker's signature, the two
  checks of a recorded step, the pinning of a slot.
\<close>

inductive ha_service :: "ha_crypto \<Rightarrow> 'a ha_db_scheme \<Rightarrow> 'a ha_db_scheme \<Rightarrow> bool" for cr :: ha_crypto where
  record_filed: "submitHaRecord now env cr r db = (res, db') \<Longrightarrow> ha_service cr db db'"
| maker_signed: "submitMakerSignature now cr s ms db = (res', db') \<Longrightarrow> ha_service cr db db'"
| checker_signed: "submitCountersignature now cr s c db = (res', db') \<Longrightarrow> ha_service cr db db'"
| replayed: "recordReplay cr kenv now nowDb runId stepId who db = (rep, db') \<Longrightarrow> ha_service cr db db'"
| rebound: "recordArtifactBindingVerification cr env now nowDb runId stepId who kind db = (rep, db') \<Longrightarrow> ha_service cr db db'"
| pinned_slot: "pinSlotSatisfaction now s n at db = (res'', db') \<Longrightarrow> ha_service cr db db'"

definition record_verified :: "ha_crypto \<Rightarrow> json \<Rightarrow> bool" where
  "record_verified cr r \<longleftrightarrow> (\<exists>did key. identity_id r = Some did \<and> hc_public_key cr did = Some key \<and> hc_verify_record cr r key = Some True)"

definition act_verified :: "ha_crypto \<Rightarrow> string \<Rightarrow> json \<Rightarrow> bool" where
  "act_verified cr s c \<longleftrightarrow>
     (\<exists>who key sig. identity_id c = Some who \<and> jget_opt (jget c ''signature'') ''keyid'' = Some who
        \<and> jget_opt (jget c ''signature'') ''sig'' = Some sig
        \<and> hc_public_key cr who = Some key \<and> hc_verify_raw cr key sig s = Some True)"

definition made_here :: "ha_crypto \<Rightarrow> string \<Rightarrow> json \<Rightarrow> bool" where
  "made_here cr s c \<longleftrightarrow> (\<exists>who now b kind. c = checker_act cr who s now b kind)"

definition tables_signed :: "ha_crypto \<Rightarrow> 'a ha_db_scheme \<Rightarrow> bool" where
  "tables_signed cr db \<longleftrightarrow>
     (\<forall>row \<in> snd ` set (ha_records db). record_verified cr (hr_record row)
         \<or> (\<exists>who s now. hr_record row = binding_approval cr who s now))
     \<and> (\<forall>s slot. getSlot s db = Some slot \<longrightarrow> (\<exists>kvs. slot = JObj kvs)
         \<and> (\<forall>c \<in> set (slot_acts slot). act_verified cr s c \<or> made_here cr s c))"

lemma verifyHaRecordSignature_True: "verifyHaRecordSignature cr r = Inr True \<Longrightarrow> record_verified cr r"
  by (auto simp: verifyHaRecordSignature_def record_verified_def Let_def split: if_splits option.splits json.splits)

lemma appendHaRecord_rows:
  "appendHaRecord now env r db = (res, db') \<Longrightarrow> row \<in> snd ` set (ha_records db') \<Longrightarrow> row \<in> snd ` set (ha_records db) \<or> hr_record row = r"
proof -
  assume a: "appendHaRecord now env r db = (res, db')" and m: "row \<in> snd ` set (ha_records db')"
  have "ha_records db' = ha_records db \<or> (\<exists>i row0. ha_records db' = ha_records db @ [(i, row0)] \<and> hr_record row0 = r)"
    using a by (auto simp: appendHaRecord_def tbl_insert_ignore_def ha_row_of_def split: sum.splits option.splits)
  then show "row \<in> snd ` set (ha_records db) \<or> hr_record row = r" using m by (elim disjE exE conjE) (simp, simp, blast)
qed

lemma appendHaRecord_slots: "appendHaRecord now env r db = (res, db') \<Longrightarrow> getSlot s db' = getSlot s db"
  using getSlot_append [of s now env r db] by simp

lemma tables_signed_append:
  assumes "tables_signed cr db" and "appendHaRecord now env r db = (res, db')"
    and "record_verified cr r \<or> (\<exists>who s now. r = binding_approval cr who s now)"
  shows "tables_signed cr db'"
  using assms appendHaRecord_rows [OF assms(2)] appendHaRecord_slots [OF assms(2)] unfolding tables_signed_def by metis

lemma tables_signed_act:
  assumes "tables_signed cr db" and a: "addCountersignature now s c JNull db = (res, db')"
    and "act_verified cr s c \<or> made_here cr s c"
  shows "tables_signed cr db'"
proof -
  have old: "(\<exists>kvs. slot = JObj kvs) \<and> (\<forall>c \<in> set (slot_acts slot). act_verified cr t c \<or> made_here cr t c)"
    if "getSlot t db = Some slot \<or> getSlot t db = None \<and> slot = fresh_slot t JNull" for t slot
    using that assms(1) by (auto simp: tables_signed_def fresh_slot_def slot_acts_def)
  have "(\<exists>kvs. slot = JObj kvs) \<and> (\<forall>c \<in> set (slot_acts slot). act_verified cr t c \<or> made_here cr t c)"
    if g: "getSlot t db' = Some slot" for t slot
  proof (cases "t = s")
    case False
    then show ?thesis using addCountersignature_slots(2) [OF a] g old by auto
  next
    case True
    from addCountersignature_slot [OF a] show ?thesis
    proof (elim disjE exE conjE)
      fix slot0 cs
      assume f: "getSlot s db = Some slot0" "jget slot0 ''countersignatures'' = Some (JArr cs)"
        "getSlot s db' = Some (js_with slot0 ''countersignatures'' (JArr (cs @ [c])))"
      then show ?thesis using old [of s slot0] assms(3) g True js_with_obj by (auto simp: slot_acts_def)
    next
      fix slot0 cs
      assume f: "getSlot s db = None" "slot0 = fresh_slot s JNull" "jget slot0 ''countersignatures'' = Some (JArr cs)"
        "getSlot s db' = Some (js_with slot0 ''countersignatures'' (JArr (cs @ [c])))"
      then show ?thesis using old [of s slot0] assms(3) g True js_with_obj by (auto simp: slot_acts_def)
    qed (use g True old in auto)
  qed
  then show ?thesis using assms(1) addCountersignature_records [OF a] by (simp add: tables_signed_def)
qed

lemma tables_signed_maker:
  assumes "tables_signed cr db" and m: "setMakerSignature now s ms db = (res, db')"
  shows "tables_signed cr db'"
proof -
  obtain slot0 db1 where g: "getOrInitSlot now s JNull db = (slot0, db1)" by (cases "getOrInitSlot now s JNull db")
  have old: "(\<exists>kvs. slot = JObj kvs) \<and> (\<forall>c \<in> set (slot_acts slot). act_verified cr t c \<or> made_here cr t c)"
    if "getSlot t db = Some slot \<or> getSlot t db = None \<and> slot = fresh_slot t JNull" for t slot
    using that assms(1) by (auto simp: tables_signed_def fresh_slot_def slot_acts_def)
  have s1: "getSlot s db1 = Some slot0" by (rule getOrInitSlot_facts(2) [OF g])
  have s0: "(\<exists>kvs. slot0 = JObj kvs) \<and> (\<forall>c \<in> set (slot_acts slot0). act_verified cr s c \<or> made_here cr s c)"
    using g by (intro old) (auto simp: getOrInitSlot_def split: option.splits)
  have "db' = db \<or> db' = db1 \<or> (\<exists>v. db' = save_slot now s (js_with slot0 ''maker_signature'' v) db1)"
    using m by (auto simp: setMakerSignature_def g Let_def split: if_splits)
  then have at_s: "getSlot s db' = getSlot s db \<or> getSlot s db' = Some slot0
      \<or> (\<exists>v. getSlot s db' = Some (js_with slot0 ''maker_signature'' v))"
    using s1 by auto
  have "(\<exists>kvs. slot = JObj kvs) \<and> (\<forall>c \<in> set (slot_acts slot). act_verified cr t c \<or> made_here cr t c)"
    if t: "getSlot t db' = Some slot" for t slot
  proof (cases "t = s")
    case False
    then show ?thesis using setMakerSignature_slots(2) [OF m] t old by auto
  next
    case True
    have "slot_acts (js_with slot0 ''maker_signature'' v) = slot_acts slot0" for v
      using s0 by (auto simp: slot_acts_def)
    moreover have "getSlot s db = Some slot \<or> slot = slot0 \<or> (\<exists>v. slot = js_with slot0 ''maker_signature'' v)"
      using at_s t True by auto
    ultimately show ?thesis using True s0 old [of s slot] js_with_obj by (elim disjE exE) simp_all
  qed
  then show ?thesis using assms(1) setMakerSignature_records [OF m] by (simp add: tables_signed_def)
qed

lemma tables_signed_pin:
  assumes "tables_signed cr db" and p: "pinSlotSatisfaction now s n at db = (res, db')"
  shows "tables_signed cr db'"
proof -
  have r: "ha_records db' = ha_records db"
    using p by (auto simp: pinSlotSatisfaction_def Let_def split: if_splits sum.splits option.splits)
  have "db' = db \<or> (\<exists>slot. getSlot s db = Some slot
      \<and> db' = save_slot now s (js_with (js_with slot ''threshold'' (JNum n)) ''as_of'' (JStr at)) db)"
    using p by (auto simp: pinSlotSatisfaction_def Let_def split: if_splits sum.splits option.splits)
  then show ?thesis
  proof (elim disjE exE conjE)
    fix slot
    assume g: "getSlot s db = Some slot" "db' = save_slot now s (js_with (js_with slot ''threshold'' (JNum n)) ''as_of'' (JStr at)) db"
    obtain kvs where j: "slot = JObj kvs" using g(1) assms(1) unfolding tables_signed_def by blast
    have "slot_acts (js_with (js_with slot ''threshold'' (JNum n)) ''as_of'' (JStr at)) = slot_acts slot"
      by (simp add: slot_acts_def j js_with_def update_conv)
    then show ?thesis using assms(1) r g js_with_obj unfolding tables_signed_def by auto
  qed (use assms(1) in simp)
qed

lemma verifyBundle_True:
  "verifyBundleDigestSignature cr s sg = Inr True \<Longrightarrow> \<exists>who key sig. jget_opt sg ''keyid'' = Some who
     \<and> jget_opt sg ''sig'' = Some sig \<and> hc_public_key cr who = Some key \<and> hc_verify_raw cr key sig s = Some True"
  by (cases "jget_opt sg ''keyid''"; cases "jget_opt sg ''sig''")
    (auto simp: verifyBundleDigestSignature_def Let_def split: if_splits option.splits)

lemma recordArtifactBinding_effect:
  assumes "recordArtifactBindingVerification cr env now nowDb runId stepId who kind db = (rep, db')"
  shows "db' = db \<or> (\<exists>claimed b k r' db1. addCountersignature nowDb claimed
      (checker_act cr who claimed now b k) JNull db = (r', db1)
      \<and> (db' = db1 \<or> (\<exists>r''. appendHaRecord nowDb env (binding_approval cr who claimed now) db1 = (r'', db'))))"
proof (cases "kind \<in> {Some ''human'', Some ''automated''} \<and> \<not> isl (recorded_step (he_sha env) ''attested_artifacts'' runId stepId db)")
  case False
  then have "db' = db" using assms unfolding recordArtifactBindingVerification_def by (auto split: sum.splits if_splits)
  then show ?thesis ..
next
  case True
  then obtain s h where sh: "recorded_step (he_sha env) ''attested_artifacts'' runId stepId db = Inr (s, h)"
    by (cases "recorded_step (he_sha env) ''attested_artifacts'' runId stepId db") auto
  let ?claimed = "''sha256:'' @ js_template (Some h)"
  let ?d = "case binding_preimage (st_item s) of None \<Rightarrow> Inl Gate_type_error
     | Some p \<Rightarrow> (case ha_digest (he_sha env) p of Inl e \<Rightarrow> Inl (In_store e) | Inr d \<Rightarrow> Inr d)"
  obtain r' db1 where a: "addCountersignature nowDb ?claimed (checker_act cr who ?claimed now None (the kind)) JNull db = (r', db1)"
    by fastforce
  obtain r'' db2 where b: "appendHaRecord nowDb env (binding_approval cr who ?claimed now) db1 = (r'', db2)" by fastforce
  have k: "(kind \<notin> {Some ''human'', Some ''automated''}) = False" using True by simp
  have "db' = db \<or> db' = db1 \<or> db' = db2"
  proof (cases ?d)
    case (Inl e)
    then show ?thesis using assms unfolding recordArtifactBindingVerification_def k sh by simp
  next
    case (Inr d)
    then show ?thesis using assms a b unfolding recordArtifactBindingVerification_def k sh Let_def
      by (cases r'; cases r'') (auto split: if_splits)
  qed
  then show ?thesis using a b by blast
qed

lemma ha_service_signed: "ha_service cr db db' \<Longrightarrow> tables_signed cr db \<Longrightarrow> tables_signed cr db'"
proof (induction rule: ha_service.induct)
  case (record_filed now env r db res db')
  show ?case
  proof (cases "verifyHaRecordSignature cr r = Inr True")
    case True
    obtain q d where a: "appendHaRecord now env r db = (q, d)" by fastforce
    have "db' = d" using record_filed.hyps True a by (auto simp: submitHaRecord_def split: sum.splits)
    then show ?thesis using tables_signed_append [OF record_filed.prems a] verifyHaRecordSignature_True [OF True] by simp
  next
    case False
    then have "db' = db" using record_filed.hyps by (auto simp: submitHaRecord_def split: sum.splits bool.splits)
    then show ?thesis using record_filed.prems by simp
  qed
next
  case (maker_signed now s ms db res' db')
  obtain q d where a: "setMakerSignature now s ms db = (q, d)" by fastforce
  have "db' = db \<or> db' = d" using maker_signed.hyps a by (auto simp: submitMakerSignature_def split: sum.splits if_splits)
  then show ?case using tables_signed_maker [OF maker_signed.prems a] maker_signed.prems by auto
next
  case (checker_signed now s c db res' db')
  obtain q d where a: "addCountersignature now s c JNull db = (q, d)" by fastforce
  show ?case
  proof (cases "js_same (jget_opt (jget c ''signature'') ''keyid'') (identity_id c)
      \<and> verifyBundleDigestSignature cr s (jget c ''signature'') = Inr True")
    case True
    then have "act_verified cr s c" using verifyBundle_True unfolding act_verified_def js_same_def by metis
    moreover have "db' = d" using checker_signed.hyps True a by (auto simp: submitCountersignature_def split: sum.splits)
    ultimately show ?thesis using tables_signed_act [OF checker_signed.prems a] by simp
  next
    case False
    then have "db' = db" using checker_signed.hyps by (auto simp: submitCountersignature_def split: sum.splits if_splits)
    then show ?thesis using checker_signed.prems by simp
  qed
next
  case (replayed kenv now nowDb runId stepId who db rep db')
  then have "db' = db \<or> (\<exists>claimed b r'. addCountersignature nowDb claimed
      (checker_act cr who claimed now b ''automated'') JNull db = (r', db'))"
    unfolding recordReplay_def Let_def by (auto split: sum.splits prod.splits if_splits)
  moreover have "made_here cr claimed (checker_act cr who claimed now b k)" for claimed b k
    by (auto simp: made_here_def)
  ultimately show ?case using tables_signed_act [OF replayed.prems] replayed.prems by metis
next
  case (rebound env now nowDb runId stepId who kind db rep db')
  then show ?case using recordArtifactBinding_effect [OF rebound.hyps]
  proof (elim disjE exE conjE)
    fix claimed b k r' db1
    assume a: "addCountersignature nowDb claimed (checker_act cr who claimed now b k) JNull db = (r', db1)"
    have s1: "tables_signed cr db1" using tables_signed_act [OF rebound.prems a] by (auto simp: made_here_def)
    {
      assume "db' = db1"
      then show ?thesis using s1 by simp
    next
      fix r''
      assume "appendHaRecord nowDb env (binding_approval cr who claimed now) db1 = (r'', db')"
      then show ?thesis using tables_signed_append [OF s1] by blast
    }
  qed (use rebound.prems in simp)
next
  case (pinned_slot now s n at db res'' db')
  then show ?case using tables_signed_pin by blast
qed

text \<open>C16. Nothing unsigned gets in: after any sequence of requests on an empty store, every record in it
  verified against the public key of its own identity or is the approval that the daemon itself signed
  for a matching artifact binding; and every countersignature in a slot carries a signature over that
  slot's subject that verified under the key of the identity it names, or was made by the daemon for
  that subject.\<close>

theorem stored_evidence_is_signed:
  assumes "(ha_service cr)\<^sup>*\<^sup>* db0 db" and "ha_records db0 = []" and "ha_slots db0 = []"
  shows "(\<forall>row \<in> snd ` set (ha_records db). record_verified cr (hr_record row)
            \<or> (\<exists>who s now. hr_record row = binding_approval cr who s now))
    \<and> (\<forall>s slot. getSlot s db = Some slot \<longrightarrow> (\<forall>c \<in> set (slot_acts slot). act_verified cr s c \<or> made_here cr s c))"
proof -
  have "tables_signed cr db0" using assms(2,3) by (simp add: tables_signed_def getSlot_def)
  with assms(1) have "tables_signed cr db" by (induction rule: rtranclp_induct) (auto intro: ha_service_signed)
  then show ?thesis by (simp add: tables_signed_def)
qed

definition trusting_crypto :: ha_crypto where
  "trusting_crypto = no_crypto\<lparr>hc_public_key := (\<lambda>_. Some ''pk''), hc_verify_record := (\<lambda>_ _. Some True)\<rparr>"

lemma stored_evidence_is_signed_witness:
  "\<exists>row. row \<in> snd ` set (ha_records (snd (submitHaRecord ''t'' sample_ha_env trusting_crypto (sample_approval ''approval'' ''ann'') empty_ha)))
     \<and> (record_verified trusting_crypto (hr_record row) \<or> (\<exists>who s now. hr_record row = binding_approval trusting_crypto who s now))"
proof -
  let ?r = "sample_approval ''approval'' ''ann''"
  let ?db = "snd (submitHaRecord ''t'' sample_ha_env trusting_crypto ?r empty_ha)"
  obtain i db' where a: "appendHaRecord ''t'' sample_ha_env ?r empty_ha = (Inr i, db')"
    using sample_record_filed by blast
  have v: "verifyHaRecordSignature trusting_crypto ?r = Inr True" by code_simp
  have d: "?db = db'" by (simp add: submitHaRecord_def v a)
  have "ha_records db' \<noteq> []"
    using a by (elim appendHaRecord_Inr) (simp add: tbl_insert_ignore_def)
  then obtain p where "p \<in> set (ha_records db')" by (cases "ha_records db'") auto
  then have row: "snd p \<in> snd ` set (ha_records ?db)" unfolding d by (rule imageI)
  have "ha_service trusting_crypto empty_ha ?db" by (rule ha_service.record_filed) (rule prod.collapse [symmetric])
  then have "(ha_service trusting_crypto)\<^sup>*\<^sup>* empty_ha ?db" by (rule r_into_rtranclp)
  from bspec [OF conjunct1 [OF stored_evidence_is_signed [OF this empty_ha_slots(2,1)]] row] row
  show ?thesis by (intro exI conjI)
qed

subsection \<open>Checking an honest artifact binding\<close>

definition binding_item :: "json \<Rightarrow> json \<Rightarrow> json \<Rightarrow> (string \<times> json) list \<Rightarrow> json" where
  \<comment> \<open>an item as the manifest schema has it\<close>
  "binding_item artifact_id tool_ref inputs_digest members =
     JObj [(''artifact_id'', artifact_id), (''tool_ref'', tool_ref), (''inputs_digest'', inputs_digest),
           (''artifact'', JObj members)]"

lemma map_of_two: "map_of [(k, v)] x = (if x = k then Some v else None)"
  by simp

lemma binding_same_digest:
  assumes "members = [(''content_type'', ct), (''content_digest'', cd)] \<or> members = [(''content_digest'', cd), (''content_type'', ct)]"
    and "binding_preimage (binding_item aid tr inp members) = Some p"
  shows "cgCanonV1 p = cgCanonV1 (JObj [(''tool_ref'', tr), (''inputs_digest'', inp), (''artifact'', JObj members)])"
proof -
  have p: "p = JObj [(''tool_ref'', tr), (''inputs_digest'', inp),
      (''artifact'', JObj [(''content_type'', ct), (''content_digest'', cd)])]"
    using assms by (auto simp: binding_preimage_def binding_item_def jget_opt_def)
  have "same_json (JObj [(''content_type'', ct), (''content_digest'', cd)]) (JObj members)"
    using assms(1) by (intro same_json.same_reorder) auto
  then have "same_json p (JObj [(''tool_ref'', tr), (''inputs_digest'', inp), (''artifact'', JObj members)])"
    unfolding p by (intro same_json.same_members) (auto intro: same_json.same_refl)
  then show ?thesis by (rule cgCanonV1_same)
qed

text \<open>The artifact-binding check agrees with the run: for an item of the shape the manifest schema
  requires (an artifact with a content type and a content digest, in either order) whose member names are
  ordinary, the hash that the recheck recomputes is the hash that executing the step recorded.\<close>

theorem honest_binding_matches:
  assumes "st_item s = binding_item aid tr inp members"
    and "members = [(''content_type'', ct), (''content_digest'', cd)] \<or> members = [(''content_digest'', cd), (''content_type'', ct)]"
    and "ordinary_names tr" "ordinary_names inp" "ordinary_names ct" "ordinary_names cd"
    and "runAttestedArtifact sha s = Inr out"
  shows "\<exists>p d. binding_preimage (st_item s) = Some p \<and> ha_digest sha p = Inr d \<and> artifact_hash (Some out) = Some (JStr d)"
proof -
  let ?full = "JObj [(''tool_ref'', tr), (''inputs_digest'', inp), (''artifact'', JObj members)]"
  have i: "jget (st_item s) ''tool_ref'' = Some tr" "jget (st_item s) ''inputs_digest'' = Some inp"
    "jget (st_item s) ''artifact'' = Some (JObj members)" "st_item s \<noteq> JNull"
    by (simp_all add: assms(1) binding_item_def)
  obtain h c where v: "verifyClassDigestHex sha ?full = Inr (h, c)" and o: "artifact_hash (Some out) = Some (JStr h)"
    using assms(7) by (cases "jget (st_item s) ''artifact_id''")
      (auto simp: runAttestedArtifact_def i Let_def artifact_hash_def jget_opt_def or_empty_obj_def)
  have k: "ijson_ok ?full" and h: "h = sha (jcsStringify ?full)"
    using v by (auto simp: verifyClassDigestHex_def ijson_ok_def Let_def split: sum.splits)
  have "ordinary_names ?full" using assms(2-6) by (auto simp: is_array_index_def is_digit_def)
  then have hv: "h = sha (recordCanonV1 ?full)" unfolding h by (simp only: serialisers_agree)
  obtain p where p: "binding_preimage (st_item s) = Some p" using i by (simp add: binding_preimage_def)
  have c: "cgCanonV1 p = cgCanonV1 ?full" by (rule binding_same_digest [OF assms(2)]) (use p assms(1) in simp)
  have "shape_ok p 1 = shape_ok ?full 1" "jcount p = jcount ?full"
    using p assms(2) by (auto simp: assms(1) binding_preimage_def binding_item_def jget_opt_def)
  then have "ijson_ok p" using k by (simp add: ijson_ok_iff)
  then have "jcsDigestHex sha p = Inr h" by (simp add: hv recordCanonV1_def c)
  then have "ha_digest sha p = Inr h" unfolding ha_digest_def by (simp only: sum.case)
  then show ?thesis using p o by blast
qed

definition zero_ref :: json where
  "zero_ref = JStr (''sha256:'' @ replicate 64 (CHR ''0''))"

definition sample_artifact_step :: step where
  "sample_artifact_step = sample_node\<lparr>st_kind := ''attested_artifacts'',
     st_item := binding_item (JStr ''a'') (JObj [(''manifest_digest'', zero_ref)]) zero_ref
       [(''content_digest'', zero_ref), (''content_type'', JStr ''text/html'')]\<rparr>"

lemma honest_binding_matches_witness:
  "\<exists>out p d. runAttestedArtifact (\<lambda>s. s) sample_artifact_step = Inr out
     \<and> binding_preimage (st_item sample_artifact_step) = Some p \<and> ha_digest (\<lambda>s. s) p = Inr d
     \<and> artifact_hash (Some out) = Some (JStr d)"
proof -
  have z: "is_sha256ref (Some zero_ref)" "jget zero_ref k = None" "ordinary_names zero_ref" for k
    by (simp_all add: is_sha256ref_def zero_ref_def is_hex64_def is_hex_char_def is_digit_def list_all_iff)
  have i: "st_item sample_artifact_step = binding_item (JStr ''a'') (JObj [(''manifest_digest'', zero_ref)]) zero_ref
       [(''content_digest'', zero_ref), (''content_type'', JStr ''text/html'')]"
    by (simp add: sample_artifact_step_def)
  have "ijson_ok (JObj [(''tool_ref'', JObj [(''manifest_digest'', zero_ref)]), (''inputs_digest'', zero_ref),
      (''artifact'', JObj [(''content_digest'', zero_ref), (''content_type'', JStr ''text/html'')])])"
    by (simp add: zero_ref_def ijson_ok_iff MAX_DEPTH_def MAX_ELEMENTS_def)
  then have "\<exists>out. runAttestedArtifact (\<lambda>s. s) sample_artifact_step = Inr out"
    by (simp add: runAttestedArtifact_def i binding_item_def jget_opt_def z verifyClassDigestHex_def ijson_ok_def guard_err_def Let_def)
  then obtain out where out: "runAttestedArtifact (\<lambda>s. s) sample_artifact_step = Inr out" ..
  show ?thesis
    using honest_binding_matches [OF i, of "JStr ''text/html''" zero_ref "\<lambda>s. s" out] out z(3)
    by (simp add: is_array_index_def is_digit_def)
qed

subsection \<open>The pending gate and the engine\<close>

lemma step_inputs_unbound:
  assumes "st_bindings s = None"
    and "and_then (stepInputDigest sha runId s prior dryRun None) (\<lambda>i. getMemoizedStep sha db runId (st_id s) i) = Inr memo"
  shows "\<exists>i. step_inputs sha runId dryRun db prior outs s = Inr (None, i, memo)"
  using assms by (auto simp: step_inputs_def resolveBoundParams_def)

text \<open>The review queue and the engine agree on plans without bound steps: when the scan reports a held
  gate, resuming the run with the same clock stops at that very step with that very reason (or the
  journal refuses the transition), whatever the step runner would do.\<close>

theorem reported_gate_is_where_the_run_holds:
  assumes "find_held (re_sha env) dp now runId dryRun db steps prior po pre = Inr (Some (pre', h))"
    and "\<forall>s \<in> set steps. st_bindings s = None"
    and "re_gate env = Some (gate_callback message reason dp now)"
  shows "\<exists>ds. run_steps env runId wmd dryRun humans steps prior po digests outs db =
    (case transitionState (re_sha env) (re_clk env) runId wmd humans (Some Running) Awaiting_data db of
       (Inl e, db1) \<Rightarrow> (Inl e, db1) | (Inr _, db1) \<Rightarrow> (Inr (ds, Some (hg_step_id h, reason h)), db1))"
  using assms(1,2)
proof (induction steps arbitrary: prior po pre digests outs)
  case Nil
  then show ?case by simp
next
  case (Cons s ss)
  let ?m = "and_then (stepInputDigest (re_sha env) runId s prior dryRun None) (\<lambda>i. getMemoizedStep (re_sha env) db runId (st_id s) i)"
  obtain memo where m: "?m = Inr memo"
    using Cons.prems(1) by (cases ?m) auto
  obtain i where i: "step_inputs (re_sha env) runId dryRun db prior outs s = Inr (None, i, memo)"
    using step_inputs_unbound [OF _ m] Cons.prems(2) by auto
  show ?case
  proof (cases memo)
    case (Some od)
    obtain v d where od: "od = (v, d)" by fastforce
    have "find_held (re_sha env) dp now runId dryRun db ss (Some d) (Some v) (Some (st_id s)) = Inr (Some (pre', h))"
      using Cons.prems(1) m Some od by simp
    from Cons.IH [OF this] Cons.prems(2) show ?thesis by (simp add: i Some od)
  next
    case None
    then have g: "haGateCheckFor dp now db s prior po = Inr (Some h)" using Cons.prems(1) m by simp
    have "hg_step_id h = st_id s"
      using g by (auto simp: haGateCheckFor_def Let_def split: if_splits sum.splits)
    moreover have "gate_callback message reason dp now s prior po runId db = Inr (Some (reason h))"
      by (simp add: gate_callback_def g)
    ultimately show ?thesis using assms(3)
      by (auto simp: i None fresh_step_def split: prod.split sum.split)
  qed
qed

definition sample_gated :: step where
  "sample_gated = sample_node\<lparr>st_item := JObj [(''gate_policy'', JStr ''reject'')]\<rparr>"

definition sample_gate_env :: "unit ha_db_ext run_env" where
  "sample_gate_env = \<lparr>re_sha = (\<lambda>s. s), re_clk = (\<lambda>_. ''t''), re_runner = (\<lambda>s p r db. (Inl ''none'', db)), re_can_dispatch = None,
     re_gate = Some (gate_callback (\<lambda>_. []) (\<lambda>_. ''held'') (\<lambda>_. None) ''t'')\<rparr>"

lemma reported_gate_is_where_the_run_holds_witness:
  "\<exists>ds. run_steps sample_gate_env ''r'' ''w'' False [] [sample_gated] None None [] [] empty_ha =
    (case transitionState (re_sha sample_gate_env) (re_clk sample_gate_env) ''r'' ''w'' [] (Some Running) Awaiting_data empty_ha of
       (Inl e, db1) \<Rightarrow> (Inl e, db1) | (Inr _, db1) \<Rightarrow> (Inr (ds, Some (''nodes:n1'', ''held'')), db1))"
proof -
  have s: "stepInputDigest (re_sha sample_gate_env) ''r'' sample_gated None False None
      = Inr (sha256ref (recordCanonV1 (JObj [(''run_id'', JStr ''r''), (''step_id'', JStr ''nodes:n1''),
          (''content_digest'', JNull), (''prior_output_digest'', JNull), (''dry_run'', JBool False)])))"
    by (simp add: stepInputDigest_def run_digest_Inr sample_gate_env_def sample_gated_def sample_node_def ijson_ok_iff
        MAX_DEPTH_def MAX_ELEMENTS_def)
  have m: "getMemoizedStep sha empty_ha r s i = Inr None" for sha r s i
    by (simp add: getMemoizedStep_def empty_ha_def initHaTables_def initRunTables_def run_db.defs ha_db.defs journal_db.defs)
  have "map_sum (\<lambda>_. ()) (map_option hg_step_id) (haGateCheckFor (\<lambda>_. None) ''t'' empty_ha sample_gated None None) = Inr (Some ''nodes:n1'')"
    by code_simp
  then obtain h where h: "haGateCheckFor (\<lambda>_. None) ''t'' empty_ha sample_gated None None = Inr (Some h)" "hg_step_id h = ''nodes:n1''"
    by (cases "haGateCheckFor (\<lambda>_. None) ''t'' empty_ha sample_gated None None") auto
  have f: "find_held (re_sha sample_gate_env) (\<lambda>_. None) ''t'' ''r'' False empty_ha [sample_gated] None None None = Inr (Some (None, h))"
    by (simp add: s m h)
  have u: "\<forall>s \<in> set [sample_gated]. st_bindings s = None" by (simp add: sample_gated_def sample_node_def)
  have g: "re_gate sample_gate_env = Some (gate_callback (\<lambda>_. []) (\<lambda>_. ''held'') (\<lambda>_. None) ''t'')" by (simp add: sample_gate_env_def)
  show ?thesis using reported_gate_is_where_the_run_holds [OF f u g, of "''w''" "[]" "[]" "[]"] unfolding h(2) .
qed

end
