(* ===== verification/Inbound_Route.thy ===== *)
theory Inbound_Route
  imports Connectors Ha_Gate
begin

text \<open>
  \<open>handleInboundWebhook\<close> of \<^verbatim>\<open>hub/server.mjs\<close>: the route by which an external orchestrator pushes a
  step completion. It authenticates the raw body, checks freshness and the nonce, answers retries from
  the idempotency cache, passes the delivery to the connector and, when the contract grants it, resumes
  a run that waits for data through the engine and its gate.

  The state is the two in-memory stores of the guard and the database. The answer \<open>None\<close> stands for a
  handler that throws (a vault that cannot be read, a body that is JSON \<open>null\<close>, a journal that refuses an
  entry). The reading of a JSON text, the engine's environment and the clocks are parameters.
\<close>

subsection \<open>The handler\<close>

record inbound_request =
  iq_body :: "string option"
  iq_signature :: "string option"
  iq_remote :: "string option"
  iq_method :: string

record 'a inbound_env =
  ie_sha :: "string \<Rightarrow> string"
  ie_hmac :: "string \<Rightarrow> string \<Rightarrow> string"
  ie_vault :: "string \<Rightarrow> vault_error + json"
  ie_parse :: "string \<Rightarrow> json option"
  ie_date :: "string \<Rightarrow> int option"
  ie_now :: "nat \<Rightarrow> int"
  ie_clock :: journal_clock
  ie_attest_now :: string
  ie_kernels :: kernel_env
  ie_kernel_now :: string
  ie_run_clk :: "clock_reading \<Rightarrow> string"
  ie_gate_now :: string
  ie_kernel_message :: "kernel_error \<Rightarrow> string"
  ie_gate_message :: "ha_gate_error \<Rightarrow> string"
  ie_gate_reason :: "held_gate \<Rightarrow> string"

record 'd inbound_state =
  in_nonces :: "(json, int) tbl"
  in_cache :: "(json, cached_response) tbl"
  in_db :: 'd

type_synonym answer = "(int \<times> json) option"

definition deny :: "int \<Rightarrow> string \<Rightarrow> answer" where
  "deny status error = Some (status, JObj [(''error'', JStr error)])"

definition webhook_secret :: "'a inbound_env \<Rightarrow> json \<Rightarrow> string option option" where
  \<comment> \<open>\<open>None\<close>: reading throws; \<open>Some None\<close>: no secret configured\<close>
  "webhook_secret env contract =
     (case (case jget contract ''vault_scope'' of Some (JArr (x # _)) \<Rightarrow> Some x | _ \<Rightarrow> None) of
        Some (JStr (c # cs)) \<Rightarrow>
          (case ie_vault env (c # cs) of
             Inl _ \<Rightarrow> None
           | Inr secretRaw \<Rightarrow>
               (case (case secretRaw of JStr s \<Rightarrow> Some (JStr s) | v \<Rightarrow> jget v ''value'') of
                  Some (JStr (k # ks)) \<Rightarrow> Some (Some (k # ks))
                | v \<Rightarrow> if js_truthy v then None else Some None))
      | _ \<Rightarrow> Some None)"

definition REQUIRED_FIELDS :: "string list" where
  "REQUIRED_FIELDS = [''sourceHost'', ''runId'', ''workflowManifestDigest'', ''timestamp'', ''nonce'', ''idempotencyKey'']"

definition body_method :: "json \<Rightarrow> json" where
  "body_method body = (case jget body ''method'' of None \<Rightarrow> JStr ''POST'' | Some m \<Rightarrow> m)"

definition note_inbound ::
  "'a inbound_env \<Rightarrow> json option \<Rightarrow> json option \<Rightarrow> string \<Rightarrow> string \<Rightarrow> answer \<Rightarrow>
   'a ha_db_scheme inbound_state \<Rightarrow> answer \<times> 'a ha_db_scheme inbound_state" where
  "note_inbound env host operation decision raw ans st =
     (case recordEgress (ie_sha env) (ie_clock env) INBOUND_WEBHOOK_ID host operation decision
             (sha256ref (ie_sha env raw)) None (in_db st) of
        (Inl e, db) \<Rightarrow> (None, st\<lparr>in_db := db\<rparr>)
      | (Inr _, db) \<Rightarrow> (ans, st\<lparr>in_db := db\<rparr>))"

definition resume_env :: "'a inbound_env \<Rightarrow> 'a ha_db_ext run_env" where
  \<comment> \<open>the wrapper around the kernel step runner carries no \<open>canDispatch\<close>\<close>
  "resume_env env =
     (createKernelStepRunner (ie_kernels env) (ie_kernel_now env) (ie_kernel_message env) None
        \<lparr>re_sha = ie_sha env, re_clk = ie_run_clk env, re_runner = (\<lambda>s prior runId db. (Inl [], db)), re_can_dispatch = None,
         re_gate = Some (gate_callback (ie_gate_message env) (ie_gate_reason env) (ie_date env) (ie_gate_now env))\<rparr>)
     \<lparr>re_can_dispatch := None\<rparr>"

definition state_json :: "run_state option \<Rightarrow> json" where
  "state_json s = (case s of None \<Rightarrow> JNull | Some x \<Rightarrow> JStr (state_name x))"

definition resume_run ::
  "'a inbound_env \<Rightarrow> json \<Rightarrow> 'a ha_db_scheme \<Rightarrow> (bool \<times> json) option \<times> 'a ha_db_scheme" where
  \<comment> \<open>\<open>resumed\<close> and \<open>runState\<close>; binding a value that is neither string, number nor \<open>null\<close> throws\<close>
  "resume_run env runId db =
     (case runId of
        JStr r \<Rightarrow>
          (case tbl_get (runs db) r of
             None \<Rightarrow> (Some (False, JNull), db)
           | Some row \<Rightarrow>
               if rr_state row \<noteq> Awaiting_data then (Some (False, state_json (Some (rr_state row))), db)
               else (case executeRun (resume_env env) r (rr_manifest row) (rr_dry_run row) [] db of
                       (Inl e, db1) \<Rightarrow> (Some (False, JStr ''failed''), db1)
                     | (Inr res, db1) \<Rightarrow> (Some (ro_state res \<noteq> Some Awaiting_data, state_json (ro_state res)), db1)))
      | JNum _ \<Rightarrow> (Some (False, JNull), db)
      | _ \<Rightarrow> (None, db))"

definition resume_authorized :: "json \<Rightarrow> bool" where
  "resume_authorized contract \<longleftrightarrow>
     (case jget contract ''scopes'' of Some (JArr xs) \<Rightarrow> JStr ''run.resume'' \<in> set xs | _ \<Rightarrow> False)"

definition accept_delivery ::
  "'a inbound_env \<Rightarrow> json \<Rightarrow> json \<Rightarrow> json \<Rightarrow> 'a ha_db_scheme inbound_state \<Rightarrow> answer \<times> 'a ha_db_scheme inbound_state" where
  \<comment> \<open>after the connector took the delivery: resume, remember the response, answer\<close>
  "accept_delivery env contract body attestation st =
     (let (result, db1) = (if resume_authorized contract then resume_run env (the (jget body ''runId'')) (in_db st)
                           else (Some (False, JNull), in_db st))
      in case result of
           None \<Rightarrow> (None, st\<lparr>in_db := db1\<rparr>)
         | Some (resumed, runState) \<Rightarrow>
             let response = JObj [(''attestation'', attestation), (''resumed'', JBool resumed), (''runState'', runState),
                                  (''resumeAuthorized'', JBool (resume_authorized contract))]
             in (Some (200, response),
                 st\<lparr>in_db := db1,
                    in_cache := storeIdempotentResponse (the (jget body ''idempotencyKey'')) 200 response
                                  IDEMPOTENCY_TTL_MS (ie_now env 3) (in_cache st)\<rparr>))"

definition deliver ::
  "'a inbound_env \<Rightarrow> json \<Rightarrow> string \<Rightarrow> json \<Rightarrow> 'a ha_db_scheme inbound_state \<Rightarrow> answer \<times> 'a ha_db_scheme inbound_state" where
  \<comment> \<open>a new delivery goes to the connector\<close>
  "deliver env contract contractDigest body st =
     (case createInboundWebhookConnector (ie_sha env) (ie_clock env)
             \<lparr>sx_run_id = jget body ''runId'', sx_manifest_digest = jget body ''workflowManifestDigest'', sx_contract = contract,
              sx_contract_digest = contractDigest, sx_now = ie_attest_now env, sx_classification = jget body ''classification''\<rparr>
             \<lparr>ib_source = jget body ''sourceHost'', ib_method = Some (body_method body),
              ib_body = or_empty_obj (jget body ''data''), ib_operation = jget body ''operation''\<rparr> (in_db st) of
        (Inl e, db1) \<Rightarrow>
          (deny 403 ''source_not_allowed'',
           st\<lparr>in_db := db1,
              in_cache := storeIdempotentResponse (the (jget body ''idempotencyKey'')) 403
                            (JObj [(''error'', JStr ''source_not_allowed'')]) IDEMPOTENCY_TTL_MS (ie_now env 3) (in_cache st)\<rparr>)
      | (Inr sent, db1) \<Rightarrow> accept_delivery env contract body (sd_attestation sent) (st\<lparr>in_db := db1\<rparr>))"

definition check_delivery ::
  "'a inbound_env \<Rightarrow> json \<Rightarrow> string \<Rightarrow> string \<Rightarrow> json \<Rightarrow> 'a ha_db_scheme inbound_state \<Rightarrow> answer \<times> 'a ha_db_scheme inbound_state" where
  \<comment> \<open>a complete body: freshness, nonce, idempotency\<close>
  "check_delivery env contract contractDigest raw body st =
     (if \<not> isTimestampFresh (ie_date env) (the (jget body ''timestamp'')) NONCE_TOLERANCE_MS (ie_now env 0)
      then note_inbound env (jget body ''sourceHost'') (Some (body_method body)) ''replay_rejected'' raw (deny 401 ''stale_timestamp'') st
      else
        let (new, nonces) = checkAndConsumeNonce (the (jget body ''nonce'')) NONCE_TOLERANCE_MS (ie_now env 1) (in_nonces st);
            st1 = st\<lparr>in_nonces := nonces\<rparr>
        in if \<not> new
           then note_inbound env (jget body ''sourceHost'') (Some (body_method body)) ''replay_rejected'' raw (deny 401 ''replayed_nonce'') st1
           else
             let (cached, cache) = getIdempotentResponse (the (jget body ''idempotencyKey'')) (ie_now env 2) (in_cache st1);
                 st2 = st1\<lparr>in_cache := cache\<rparr>
             in case cached of
                  Some r \<Rightarrow> (Some r, st2)
                | None \<Rightarrow> deliver env contract contractDigest body st2)"

definition handle_authentic ::
  "'a inbound_env \<Rightarrow> json \<Rightarrow> string \<Rightarrow> string \<Rightarrow> 'a ha_db_scheme inbound_state \<Rightarrow> answer \<times> 'a ha_db_scheme inbound_state" where
  "handle_authentic env contract contractDigest raw st =
     (case ie_parse env raw of
        None \<Rightarrow> (deny 400 ''invalid_json'', st)
      | Some body \<Rightarrow>
          if body = JNull then (None, st)
          else case find (\<lambda>f. \<not> js_truthy (jget body f)) REQUIRED_FIELDS of
                 Some field \<Rightarrow> (deny 400 (''missing_'' @ field), st)
               | None \<Rightarrow> check_delivery env contract contractDigest raw body st)"

definition handleInboundWebhook ::
  "'a inbound_env \<Rightarrow> json \<Rightarrow> string \<Rightarrow> inbound_request \<Rightarrow> 'a ha_db_scheme inbound_state \<Rightarrow> answer \<times> 'a ha_db_scheme inbound_state" where
  "handleInboundWebhook env contract contractDigest req st =
     (case iq_body req of
        None \<Rightarrow> (deny 400 ''invalid_body'', st)
      | Some raw \<Rightarrow>
          (case webhook_secret env contract of
             None \<Rightarrow> (None, st)
           | Some None \<Rightarrow> (deny 503 ''webhook_not_configured'', st)
           | Some (Some secret) \<Rightarrow>
               if \<not> verifyWebhookSignature (ie_hmac env) secret raw (iq_signature req)
               then note_inbound env
                      (Some (JStr (case iq_remote req of Some (c # cs) \<Rightarrow> c # cs | _ \<Rightarrow> ''unknown'')))
                      (Some (JStr (iq_method req))) ''auth_failed'' raw (deny 401 ''invalid_signature'') st
               else handle_authentic env contract contractDigest raw st))"

subsection \<open>Which deliveries reach the engine\<close>

definition run_tables :: "'a ha_db_scheme \<Rightarrow> (string, run_row) tbl \<times> (memo_key, step_row) tbl" where
  "run_tables db = (runs db, step_results db)"

lemma recordEgress_tables [simp]:
  "run_tables (snd (recordEgress sha clk c h m d rd resp db)) = run_tables db"
  by (simp add: recordEgress_def appendEntry_cases run_tables_def Let_def)

lemma note_inbound_tables [simp]: "run_tables (in_db (snd (note_inbound env h m d raw ans st))) = run_tables (in_db st)"
  using recordEgress_tables [of "ie_sha env" "ie_clock env" INBOUND_WEBHOOK_ID h m d "sha256ref (ie_sha env raw)" None "in_db st"]
  by (cases "recordEgress (ie_sha env) (ie_clock env) INBOUND_WEBHOOK_ID h m d (sha256ref (ie_sha env raw)) None (in_db st)")
    (auto simp: note_inbound_def split: sum.splits)

text \<open>Everything the route demands before it may resume a run.\<close>

definition may_resume :: "'a inbound_env \<Rightarrow> json \<Rightarrow> inbound_request \<Rightarrow> 'a ha_db_scheme inbound_state \<Rightarrow> bool" where
  "may_resume env contract req st \<longleftrightarrow>
     (\<exists>raw secret body r row. iq_body req = Some raw \<and> webhook_secret env contract = Some (Some secret)
        \<and> verifyWebhookSignature (ie_hmac env) secret raw (iq_signature req)
        \<and> ie_parse env raw = Some body \<and> find (\<lambda>f. \<not> js_truthy (jget body f)) REQUIRED_FIELDS = None
        \<and> isTimestampFresh (ie_date env) (the (jget body ''timestamp'')) NONCE_TOLERANCE_MS (ie_now env 0)
        \<and> fst (checkAndConsumeNonce (the (jget body ''nonce'')) NONCE_TOLERANCE_MS (ie_now env 1) (in_nonces st))
        \<and> fst (getIdempotentResponse (the (jget body ''idempotencyKey'')) (ie_now env 2) (in_cache st)) = None
        \<and> assertEgressAllowed contract (jget body ''sourceHost'') (Some (body_method body)) = Inr True
        \<and> resume_authorized contract
        \<and> jget body ''runId'' = Some (JStr r) \<and> tbl_get (runs (in_db st)) r = Some row \<and> rr_state row = Awaiting_data)"

lemma connector_tables [simp]:
  "run_tables (snd (createInboundWebhookConnector sha clk x p db)) = run_tables db"
  using inbound_send_tables [of sha clk x p db] by (simp add: run_tables_def)

lemma connector_success:
  "createInboundWebhookConnector sha clk x p db = (Inr s, db1) \<Longrightarrow> assertEgressAllowed (sx_contract x) (ib_source p) (ib_method p) = Inr True"
  by (auto simp: createInboundWebhookConnector_def Let_def split: sum.splits bool.splits prod.splits)

lemma accept_delivery_tables:
  assumes "run_tables (in_db (snd (accept_delivery env contract body a st))) \<noteq> run_tables (in_db st)"
  shows "resume_authorized contract \<and>
    (\<exists>r row. the (jget body ''runId'') = JStr r \<and> tbl_get (runs (in_db st)) r = Some row \<and> rr_state row = Awaiting_data)"
proof (cases "resume_authorized contract")
  case True
  obtain result db1 where r: "resume_run env (the (jget body ''runId'')) (in_db st) = (result, db1)" by fastforce
  have "in_db (snd (accept_delivery env contract body a st)) = db1"
    using True r by (auto simp: accept_delivery_def Let_def split: option.splits)
  with assms have "run_tables db1 \<noteq> run_tables (in_db st)" by simp
  with r True show ?thesis
    by (auto simp: resume_run_def split: json.splits option.splits if_splits)
next
  case False
  then show ?thesis using assms by (simp add: accept_delivery_def Let_def)
qed

lemma deliver_tables:
  assumes "run_tables (in_db (snd (deliver env contract digest body st))) \<noteq> run_tables (in_db st)"
  shows "assertEgressAllowed contract (jget body ''sourceHost'') (Some (body_method body)) = Inr True \<and> resume_authorized contract
    \<and> (\<exists>r row. the (jget body ''runId'') = JStr r \<and> tbl_get (runs (in_db st)) r = Some row \<and> rr_state row = Awaiting_data)"
proof -
  let ?x = "\<lparr>sx_run_id = jget body ''runId'', sx_manifest_digest = jget body ''workflowManifestDigest'', sx_contract = contract,
              sx_contract_digest = digest, sx_now = ie_attest_now env, sx_classification = jget body ''classification''\<rparr>"
  let ?p = "\<lparr>ib_source = jget body ''sourceHost'', ib_method = Some (body_method body),
              ib_body = or_empty_obj (jget body ''data''), ib_operation = jget body ''operation''\<rparr>"
  obtain res db1 where c: "createInboundWebhookConnector (ie_sha env) (ie_clock env) ?x ?p (in_db st) = (res, db1)" by fastforce
  have t: "run_tables db1 = run_tables (in_db st)" using connector_tables [of "ie_sha env" "ie_clock env" ?x ?p "in_db st"] c by simp
  show ?thesis
  proof (cases res)
    case (Inl e)
    with assms c t show ?thesis by (simp add: deliver_def)
  next
    case (Inr sent)
    with c have a: "assertEgressAllowed contract (jget body ''sourceHost'') (Some (body_method body)) = Inr True"
      using connector_success [of "ie_sha env" "ie_clock env" ?x ?p "in_db st" sent db1] by simp
    have "run_tables (in_db (snd (accept_delivery env contract body (sd_attestation sent) (st\<lparr>in_db := db1\<rparr>))))
        \<noteq> run_tables (in_db (st\<lparr>in_db := db1\<rparr>))"
      using assms c t Inr by (simp add: deliver_def)
    from accept_delivery_tables [OF this] a t show ?thesis by (simp add: run_tables_def)
  qed
qed

lemma check_delivery_tables:
  assumes "run_tables (in_db (snd (check_delivery env contract digest raw body st))) \<noteq> run_tables (in_db st)"
  shows "isTimestampFresh (ie_date env) (the (jget body ''timestamp'')) NONCE_TOLERANCE_MS (ie_now env 0)
    \<and> fst (checkAndConsumeNonce (the (jget body ''nonce'')) NONCE_TOLERANCE_MS (ie_now env 1) (in_nonces st))
    \<and> fst (getIdempotentResponse (the (jget body ''idempotencyKey'')) (ie_now env 2) (in_cache st)) = None
    \<and> assertEgressAllowed contract (jget body ''sourceHost'') (Some (body_method body)) = Inr True \<and> resume_authorized contract
    \<and> (\<exists>r row. the (jget body ''runId'') = JStr r \<and> tbl_get (runs (in_db st)) r = Some row \<and> rr_state row = Awaiting_data)"
proof -
  obtain new nonces where n: "checkAndConsumeNonce (the (jget body ''nonce'')) NONCE_TOLERANCE_MS (ie_now env 1) (in_nonces st) = (new, nonces)"
    by fastforce
  obtain cached cache where c: "getIdempotentResponse (the (jget body ''idempotencyKey'')) (ie_now env 2) (in_cache st) = (cached, cache)"
    by fastforce
  let ?st = "st\<lparr>in_nonces := nonces, in_cache := cache\<rparr>"
  have f: "isTimestampFresh (ie_date env) (the (jget body ''timestamp'')) NONCE_TOLERANCE_MS (ie_now env 0)"
    using assms unfolding check_delivery_def by (rule contrapos_np) simp
  have new
  proof (rule ccontr)
    assume "\<not> new"
    with f n have "check_delivery env contract digest raw body st =
        note_inbound env (jget body ''sourceHost'') (Some (body_method body)) ''replay_rejected'' raw (deny 401 ''replayed_nonce'')
          (st\<lparr>in_nonces := nonces\<rparr>)" by (simp add: check_delivery_def)
    with assms show False by simp
  qed
  moreover have "cached = None" using assms f n c \<open>new\<close> by (cases cached) (simp_all add: check_delivery_def)
  moreover have "run_tables (in_db (snd (deliver env contract digest body ?st))) \<noteq> run_tables (in_db ?st)"
    using assms f n c calculation by (simp add: check_delivery_def)
  ultimately show ?thesis using f n c deliver_tables [of env contract digest body ?st] by simp
qed

text \<open>C23. The push route reaches the run engine only for a delivery whose raw body carries a valid signature
  under the configured secret, whose fields are all there, whose time stamp is fresh, whose nonce and
  idempotency key are new, whose source and method the contract allows, under a contract that grants
  \<open>run.resume\<close>, and for a run that is waiting for data. Every other request leaves the runs and their
  memoised steps as they are.\<close>

theorem webhook_reaches_engine_only_when:
  assumes "run_tables (in_db (snd (handleInboundWebhook env contract contractDigest req st))) \<noteq> run_tables (in_db st)"
  shows "may_resume env contract req st"
proof -
  obtain raw where raw: "iq_body req = Some raw" using assms by (cases "iq_body req") (auto simp: handleInboundWebhook_def)
  obtain secret where s: "webhook_secret env contract = Some (Some secret)"
    using assms raw by (cases "webhook_secret env contract"; cases "the (webhook_secret env contract)") (auto simp: handleInboundWebhook_def)
  have v: "verifyWebhookSignature (ie_hmac env) secret raw (iq_signature req)"
    using assms unfolding handleInboundWebhook_def by (rule contrapos_np) (simp add: raw s)
  have h: "run_tables (in_db (snd (handle_authentic env contract contractDigest raw st))) \<noteq> run_tables (in_db st)"
    using assms raw s v by (simp add: handleInboundWebhook_def)
  then obtain body where b: "ie_parse env raw = Some body" by (cases "ie_parse env raw") (auto simp: handle_authentic_def)
  have fd: "find (\<lambda>f. \<not> js_truthy (jget body f)) REQUIRED_FIELDS = None"
    using h b by (auto simp: handle_authentic_def split: if_splits option.splits)
  then have "\<not> (\<exists>f \<in> set REQUIRED_FIELDS. \<not> js_truthy (jget body f))" by (simp only: find_None_iff) blast
  then have "js_truthy (jget body ''runId'')" by (simp add: REQUIRED_FIELDS_def)
  then obtain v where rid: "jget body ''runId'' = Some v" by (cases "jget body ''runId''") auto
  have "run_tables (in_db (snd (check_delivery env contract contractDigest raw body st))) \<noteq> run_tables (in_db st)"
    using h b fd by (auto simp: handle_authentic_def split: if_splits)
  from check_delivery_tables [OF this] show ?thesis
    unfolding may_resume_def using raw s v b fd rid by auto
qed

subsection \<open>A delivery executes once\<close>

lemma accept_delivery_stores:
  assumes "run_tables (in_db (snd (accept_delivery env contract body a st))) \<noteq> run_tables (in_db st)"
  shows "\<exists>resp. in_cache (snd (accept_delivery env contract body a st)) =
    storeIdempotentResponse (the (jget body ''idempotencyKey'')) 200 resp IDEMPOTENCY_TTL_MS (ie_now env 3) (in_cache st)"
proof -
  from accept_delivery_tables [OF assms] obtain r row where r: "resume_authorized contract" "the (jget body ''runId'') = JStr r"
    "tbl_get (runs (in_db st)) r = Some row" "rr_state row = Awaiting_data" by blast
  obtain res db1 where x: "executeRun (resume_env env) r (rr_manifest row) (rr_dry_run row) [] (in_db st) = (res, db1)" by fastforce
  then show ?thesis using r by (cases res) (auto simp: accept_delivery_def resume_run_def Let_def)
qed

lemma deliver_stores:
  assumes "run_tables (in_db (snd (deliver env contract digest body st))) \<noteq> run_tables (in_db st)"
  shows "\<exists>resp. in_cache (snd (deliver env contract digest body st)) =
    storeIdempotentResponse (the (jget body ''idempotencyKey'')) 200 resp IDEMPOTENCY_TTL_MS (ie_now env 3) (in_cache st)"
proof -
  let ?x = "\<lparr>sx_run_id = jget body ''runId'', sx_manifest_digest = jget body ''workflowManifestDigest'', sx_contract = contract,
              sx_contract_digest = digest, sx_now = ie_attest_now env, sx_classification = jget body ''classification''\<rparr>"
  let ?p = "\<lparr>ib_source = jget body ''sourceHost'', ib_method = Some (body_method body),
              ib_body = or_empty_obj (jget body ''data''), ib_operation = jget body ''operation''\<rparr>"
  obtain res db1 where c: "createInboundWebhookConnector (ie_sha env) (ie_clock env) ?x ?p (in_db st) = (res, db1)" by fastforce
  have t: "run_tables db1 = run_tables (in_db st)" using connector_tables [of "ie_sha env" "ie_clock env" ?x ?p "in_db st"] c by simp
  show ?thesis
  proof (cases res)
    case (Inl e)
    with assms c t show ?thesis by (simp add: deliver_def)
  next
    case (Inr sent)
    have "run_tables (in_db (snd (accept_delivery env contract body (sd_attestation sent) (st\<lparr>in_db := db1\<rparr>))))
        \<noteq> run_tables (in_db (st\<lparr>in_db := db1\<rparr>))"
      using assms c t Inr by (simp add: deliver_def)
    from accept_delivery_stores [OF this] c Inr show ?thesis by (simp add: deliver_def)
  qed
qed

lemma check_delivery_stores:
  assumes ch: "run_tables (in_db (snd (check_delivery env contract digest raw body st))) \<noteq> run_tables (in_db st)"
  shows "\<exists>resp cache. in_cache (snd (check_delivery env contract digest raw body st)) =
    storeIdempotentResponse (the (jget body ''idempotencyKey'')) 200 resp IDEMPOTENCY_TTL_MS (ie_now env 3) cache"
proof -
  obtain new nonces where n: "checkAndConsumeNonce (the (jget body ''nonce'')) NONCE_TOLERANCE_MS (ie_now env 1) (in_nonces st) = (new, nonces)"
    by fastforce
  obtain cached cache where c: "getIdempotentResponse (the (jget body ''idempotencyKey'')) (ie_now env 2) (in_cache st) = (cached, cache)"
    by fastforce
  let ?st = "st\<lparr>in_nonces := nonces, in_cache := cache\<rparr>"
  from check_delivery_tables [OF ch] n c have k: "check_delivery env contract digest raw body st = deliver env contract digest body ?st"
    by (simp add: check_delivery_def)
  with ch have "run_tables (in_db (snd (deliver env contract digest body ?st))) \<noteq> run_tables (in_db ?st)" by simp
  from deliver_stores [OF this] k show ?thesis by auto
qed

lemma handle_engine:
  assumes "run_tables (in_db (snd (handleInboundWebhook env contract digest req st))) \<noteq> run_tables (in_db st)"
  obtains raw body where "iq_body req = Some raw" "ie_parse env raw = Some body"
    "handleInboundWebhook env contract digest req st = check_delivery env contract digest raw body st"
proof -
  obtain raw where raw: "iq_body req = Some raw" using assms by (cases "iq_body req") (auto simp: handleInboundWebhook_def)
  obtain secret where s: "webhook_secret env contract = Some (Some secret)"
    using assms raw by (cases "webhook_secret env contract"; cases "the (webhook_secret env contract)") (auto simp: handleInboundWebhook_def)
  have v: "verifyWebhookSignature (ie_hmac env) secret raw (iq_signature req)"
    using assms unfolding handleInboundWebhook_def by (rule contrapos_np) (simp add: raw s)
  have e: "handleInboundWebhook env contract digest req st = handle_authentic env contract digest raw st"
    using raw s v by (simp add: handleInboundWebhook_def)
  with assms obtain body where b: "ie_parse env raw = Some body" by (cases "ie_parse env raw") (auto simp: handle_authentic_def)
  have "handle_authentic env contract digest raw st = check_delivery env contract digest raw body st"
    using assms e b by (auto simp: handle_authentic_def split: if_splits option.splits)
  with e raw b that show ?thesis by simp
qed

definition body_key :: "'a inbound_env \<Rightarrow> inbound_request \<Rightarrow> json option" where
  \<comment> \<open>the idempotency key a request names\<close>
  "body_key env req = Option.bind (iq_body req) (\<lambda>raw. Option.bind (ie_parse env raw) (\<lambda>body. jget body ''idempotencyKey''))"

text \<open>C24. A delivery that reached the run engine is not executed again by a retry: until the cached
  response expires a day later, every request that names the same idempotency key leaves runs and memoised
  steps alone, with whatever other requests in between that left the cache entry in place.\<close>

theorem retry_does_not_execute_again:
  assumes "run_tables (in_db (snd (handleInboundWebhook env contract digest req st))) \<noteq> run_tables (in_db st)"
    and "body_key env req = Some k" and "is_prim (Some k)"
    and "map_has (in_cache st2) k = map_has (in_cache (snd (handleInboundWebhook env contract digest req st))) k"
    and "body_key env2 req2 = Some k" and "ie_now env2 2 \<le> ie_now env 3 + IDEMPOTENCY_TTL_MS"
  shows "run_tables (in_db (snd (handleInboundWebhook env2 contract2 digest2 req2 st2))) = run_tables (in_db st2)"
proof (rule ccontr)
  assume ch: "run_tables (in_db (snd (handleInboundWebhook env2 contract2 digest2 req2 st2))) \<noteq> run_tables (in_db st2)"
  obtain raw body where h: "iq_body req = Some raw" "ie_parse env raw = Some body"
    "handleInboundWebhook env contract digest req st = check_delivery env contract digest raw body st"
    by (rule handle_engine [OF assms(1)])
  have k: "the (jget body ''idempotencyKey'') = k" using assms(2) h by (simp add: body_key_def)
  have "run_tables (in_db (snd (check_delivery env contract digest raw body st))) \<noteq> run_tables (in_db st)"
    using assms(1) h(3) by simp
  from check_delivery_stores [OF this] obtain resp cache where
    "in_cache (snd (handleInboundWebhook env contract digest req st)) =
       storeIdempotentResponse k 200 resp IDEMPOTENCY_TTL_MS (ie_now env 3) cache" using h(3) k by auto
  with assms(3,4) have e: "map_has (in_cache st2) k = Some \<lparr>ca_expires = ie_now env 3 + IDEMPOTENCY_TTL_MS, ca_status = 200, ca_body = resp\<rparr>"
    by (simp add: storeIdempotentResponse_def map_put_def map_has_def)
  obtain raw2 body2 where h2: "iq_body req2 = Some raw2" "ie_parse env2 raw2 = Some body2"
    "handleInboundWebhook env2 contract2 digest2 req2 st2 = check_delivery env2 contract2 digest2 raw2 body2 st2"
    by (rule handle_engine [OF ch])
  have k2: "the (jget body2 ''idempotencyKey'') = k" using assms(5) h2 by (simp add: body_key_def)
  have "fst (getIdempotentResponse k (ie_now env2 2) (in_cache st2)) = None"
    using check_delivery_tables [of env2 contract2 digest2 raw2 body2 st2] ch h2(3) k2 by simp
  with e assms(6) show False by (simp add: getIdempotentResponse_def)
qed

subsection \<open>The properties at a concrete delivery\<close>

definition sample_grant :: json where
  "sample_grant = JObj [(''allowed_hosts'', JArr [JStr ''h'']), (''allowed_methods'', JArr [JStr ''POST'']),
     (''scopes'', JArr [JStr ''run.resume'']), (''vault_scope'', JArr [JStr ''v''])]"

definition sample_body :: json where
  "sample_body = JObj [(''sourceHost'', JStr ''h''), (''runId'', JStr ''r''), (''workflowManifestDigest'', JStr ''d''),
     (''timestamp'', JStr ''t''), (''nonce'', JStr ''n''), (''idempotencyKey'', JStr ''k'')]"

definition sample_inbound_env :: "unit inbound_env" where
  "sample_inbound_env = \<lparr>ie_sha = sample_sha, ie_hmac = (\<lambda>_ _. ''s''), ie_vault = (\<lambda>_. Inr (JStr ''key'')), ie_parse = (\<lambda>_. Some sample_body),
     ie_date = (\<lambda>_. Some 0), ie_now = (\<lambda>_. 0), ie_clock = \<lparr>jc_entry = ''t'', jc_append = ''t''\<rparr>, ie_attest_now = ''t'',
     ie_kernels = sample_kernel_env, ie_kernel_now = ''t'', ie_run_clk = (\<lambda>_. ''t''), ie_gate_now = ''t'',
     ie_kernel_message = (\<lambda>_. []), ie_gate_message = (\<lambda>_. []), ie_gate_reason = (\<lambda>_. [])\<rparr>"

definition waiting_row :: run_row where
  "waiting_row = \<lparr>rr_manifest_digest = ''d'', rr_manifest = JObj [], rr_dry_run = False, rr_state = Awaiting_data,
     rr_execution_hash = None, rr_created_at = ''t''\<rparr>"

definition waiting_db :: ha_db where
  "waiting_db = initHaTables (initRunTables\<lparr>runs := [(''r'', waiting_row)]\<rparr>)"

definition sample_inbound_state :: "ha_db inbound_state" where
  "sample_inbound_state = \<lparr>in_nonces = [], in_cache = [], in_db = waiting_db\<rparr>"

definition sample_inbound_request :: inbound_request where
  "sample_inbound_request = \<lparr>iq_body = Some ''raw'', iq_signature = Some ''s'', iq_remote = None, iq_method = ''POST''\<rparr>"

lemma empty_plan: "planSteps sha (JObj []) = Inr []" "validateManifestBindings sha (JObj []) = Inr ()"
  "manifestDigest sha (JObj []) = Inr (sha256ref (sha (recordCanonV1 (JObj []))))"
  by (simp_all add: planSteps_def base_steps_def STEP_LAYERS_def jprop_def js_iter_def validateManifestBindings_def manifestDigest_def
      run_digest_Inr ijson_ok_iff MAX_DEPTH_def MAX_ELEMENTS_def)

lemma empty_run_resumes:
  assumes "seq_tight db" "nextJournalSeq db \<le> 10" "tbl_get (runs db) r = Some row" "rr_state row = Awaiting_data"
  shows "\<exists>out db'. executeRun env r (JObj []) False [] db = (Inr out, db') \<and> currentState db' r = Some Completed"
proof -
  let ?tr = "\<lambda>a b d. transitionState (re_sha env) (re_clk env) r (sha256ref (re_sha env (recordCanonV1 (JObj [])))) [] a b d"
  obtain x db1 where 1: "?tr (Some Awaiting_data) Running db = (Inr x, db1)" "seq_tight db1" "nextJournalSeq db1 = Suc (nextJournalSeq db)"
    using transition_succeeds [OF assms(1), of Running "Some Awaiting_data"] assms(2) by force
  have run1: "tbl_get (runs db1) r = Some (row\<lparr>rr_state := Running\<rparr>)"
    using transitionState_frame(4) [OF 1(1) HOL.refl] assms(3) by simp
  obtain h where h: "execution_hash (re_sha env) r (sha256ref (re_sha env (recordCanonV1 (JObj [])))) [] = Inr h"
    by (auto simp: execution_hash_def run_digest_Inr ijson_ok_iff MAX_DEPTH_def MAX_ELEMENTS_def)
  let ?db2 = "db1\<lparr>runs := tbl_update_where r (\<lambda>r. r\<lparr>rr_execution_hash := Some h\<rparr>) (runs db1)\<rparr>"
  have db2: "seq_tight ?db2" "nextJournalSeq ?db2 \<le> 1000" using 1 assms(2) by (simp_all add: seq_tight_def nextJournalSeq_def)
  obtain y db3 where 3: "?tr (Some Running) Completed ?db2 = (Inr y, db3)"
    using transition_succeeds [OF db2, of Completed "Some Running"] by force
  have "tbl_get (runs db3) r = map_option (\<lambda>r. r\<lparr>rr_state := Completed\<rparr>) (tbl_get (runs ?db2) r)"
    by (rule transitionState_frame(4) [OF 3 HOL.refl])
  then have "currentState db3 r = Some Completed" using run1 by (simp add: currentState_def)
  moreover have "currentState db r = Some Awaiting_data" "currentState db1 r = Some Running"
    using assms(3,4) run1 by (simp_all add: currentState_def)
  ultimately show ?thesis
    using assms(3) by (simp add: executeRun_def empty_plan start_run_def 1(1) execute_steps_def finish_run_def h 3)
qed

lemma waiting_db_facts: "seq_tight waiting_db" "nextJournalSeq waiting_db = 1" "runs waiting_db = [(''r'', waiting_row)]"
  by (simp_all add: waiting_db_def initHaTables_def initRunTables_def openJournal_def run_db.defs journal_db.defs ha_db.defs
      seq_tight_def nextJournalSeq_def)

lemma sample_record:
  obtains db1 where "recordEgress sha clk cid (Some (JStr h)) (Some (JStr m)) d rd resp waiting_db = (Inr (), db1)"
    "seq_tight db1" "nextJournalSeq db1 \<le> 10" "runs db1 = [(''r'', waiting_row)]"
proof -
  let ?e = "egress_entry (jc_entry clk) cid (Some (JStr h)) (Some (JStr m)) d rd resp"
  let ?p = "appendEntry sha (jc_append clk) (''egress:'' @ cid) ''egress'' None ?e waiting_db"
  have t: "seq_tight (snd ?p)" by (rule seq_tight_append [OF waiting_db_facts(1)])
  have j: "journal waiting_db = []" "sqlite_sequence waiting_db = 0"
    by (simp_all add: waiting_db_def initHaTables_def initRunTables_def openJournal_def run_db.defs journal_db.defs ha_db.defs)
  have "nextJournalSeq (snd ?p) \<le> 10" "runs (snd ?p) = [(''r'', waiting_row)]" "\<exists>x. fst ?p = Inr x"
    using waiting_db_facts(3) j by (simp_all add: appendEntry_cases egress_entry_accepted Let_def nextJournalSeq_def new_row_def next_rowid_def)
  with t that [of "snd ?p"] show ?thesis by (cases ?p) (auto simp: recordEgress_def)
qed

lemma sample_allowed:
  "webhook_secret sample_inbound_env sample_grant = Some (Some ''key'')"
  "assertEgressAllowed sample_grant (Some (JStr ''h'')) (Some (JStr ''POST'')) = Inr True"
  "resume_authorized sample_grant" "body_method sample_body = JStr ''POST''"
  by (simp_all add: webhook_secret_def sample_grant_def sample_inbound_env_def assertEgressAllowed_def js_includes_def
      resume_authorized_def body_method_def sample_body_def)

lemma sample_required: "find (\<lambda>f. \<not> js_truthy (jget sample_body f)) REQUIRED_FIELDS = None"
  unfolding find_None_iff by (simp add: REQUIRED_FIELDS_def sample_body_def)

lemma sample_body_members:
  "jget sample_body ''sourceHost'' = Some (JStr ''h'')" "jget sample_body ''runId'' = Some (JStr ''r'')"
  "jget sample_body ''timestamp'' = Some (JStr ''t'')" "jget sample_body ''nonce'' = Some (JStr ''n'')"
  "jget sample_body ''idempotencyKey'' = Some (JStr ''k'')" "sample_body \<noteq> JNull"
  by (simp_all add: sample_body_def)

lemma sample_deliver:
  assumes "in_db st = waiting_db"
  shows "run_tables (in_db (snd (deliver sample_inbound_env sample_grant dg sample_body st))) \<noteq> run_tables waiting_db"
proof -
  let ?e = "sample_inbound_env"
  let ?x = "\<lparr>sx_run_id = jget sample_body ''runId'', sx_manifest_digest = jget sample_body ''workflowManifestDigest'', sx_contract = sample_grant,
              sx_contract_digest = dg, sx_now = ie_attest_now ?e, sx_classification = jget sample_body ''classification''\<rparr>"
  let ?p = "\<lparr>ib_source = jget sample_body ''sourceHost'', ib_method = Some (body_method sample_body),
              ib_body = or_empty_obj (jget sample_body ''data''), ib_operation = jget sample_body ''operation''\<rparr>"
  obtain db1 where db1: "recordEgress (ie_sha ?e) (ie_clock ?e) INBOUND_WEBHOOK_ID (Some (JStr ''h'')) (Some (JStr ''POST'')) ''allowed''
      (sha256ref (ie_sha ?e (body_bytes (ib_body ?p)))) None waiting_db = (Inr (), db1)"
    "seq_tight db1" "nextJournalSeq db1 \<le> 10" "runs db1 = [(''r'', waiting_row)]" by (rule sample_record)
  obtain sent where c: "createInboundWebhookConnector (ie_sha ?e) (ie_clock ?e) ?x ?p waiting_db = (Inr sent, db1)"
    using db1(1) sample_allowed(2) by (simp add: createInboundWebhookConnector_def Let_def sample_body_members sample_allowed(4))
  obtain out db2 where x: "executeRun (resume_env ?e) ''r'' (JObj []) False [] db1 = (Inr out, db2)" "currentState db2 ''r'' = Some Completed"
    using empty_run_resumes [OF db1(2,3), of "''r''" waiting_row "resume_env ?e"] db1(4) by (auto simp: waiting_row_def)
  have "resume_run ?e (JStr ''r'') db1 = (Some (ro_state out \<noteq> Some Awaiting_data, state_json (ro_state out)), db2)"
    using x(1) by (simp add: resume_run_def db1(4) waiting_row_def)
  then have "in_db (snd (deliver ?e sample_grant dg sample_body st)) = db2"
    using c assms sample_allowed(3) by (simp add: deliver_def accept_delivery_def sample_body_members Let_def)
  moreover have "runs db2 \<noteq> runs waiting_db"
    using x(2) by (auto simp: currentState_def waiting_db_facts(3) waiting_row_def)
  ultimately show ?thesis by (simp add: run_tables_def)
qed

lemma sample_delivery:
  "run_tables (in_db (snd (handleInboundWebhook sample_inbound_env sample_grant dg sample_inbound_request sample_inbound_state)))
   \<noteq> run_tables (in_db sample_inbound_state)"
proof -
  let ?e = "sample_inbound_env"
  have v: "verifyWebhookSignature (ie_hmac ?e) ''key'' ''raw'' (Some ''s'')"
    by (simp add: verifyWebhookSignature_def sample_inbound_env_def starts_with_def)
  have f: "isTimestampFresh (ie_date ?e) (JStr ''t'') NONCE_TOLERANCE_MS (ie_now ?e 0)"
    by (simp add: isTimestampFresh_def sample_inbound_env_def NONCE_TOLERANCE_MS_def)
  obtain ns where n: "checkAndConsumeNonce (JStr ''n'') NONCE_TOLERANCE_MS (ie_now ?e 1) [] = (True, ns)"
    by (simp add: checkAndConsumeNonce_def map_has_def)
  have "handleInboundWebhook ?e sample_grant dg sample_inbound_request sample_inbound_state =
      check_delivery ?e sample_grant dg ''raw'' sample_body sample_inbound_state"
    using v by (simp add: handleInboundWebhook_def sample_inbound_request_def sample_allowed(1) handle_authentic_def
        sample_required sample_body_members(6)) (simp add: sample_inbound_env_def sample_required sample_body_members(6))
  also have "\<dots> = deliver ?e sample_grant dg sample_body (sample_inbound_state\<lparr>in_nonces := ns, in_cache := []\<rparr>)"
    using f n by (simp add: check_delivery_def sample_body_members sample_inbound_state_def getIdempotentResponse_def map_has_def)
  finally show ?thesis using sample_deliver [of "sample_inbound_state\<lparr>in_nonces := ns, in_cache := []\<rparr>" dg]
    by (simp add: sample_inbound_state_def)
qed

lemma webhook_reaches_engine_only_when_witness:
  "may_resume sample_inbound_env sample_grant sample_inbound_request sample_inbound_state"
  by (rule webhook_reaches_engine_only_when [OF sample_delivery])

lemma retry_does_not_execute_again_witness:
  "\<exists>st. st = snd (handleInboundWebhook sample_inbound_env sample_grant ''d'' sample_inbound_request sample_inbound_state)
     \<and> run_tables (in_db st) \<noteq> run_tables (in_db sample_inbound_state)
     \<and> run_tables (in_db (snd (handleInboundWebhook sample_inbound_env sample_grant ''d'' sample_inbound_request
          (st\<lparr>in_nonces := []\<rparr>)))) = run_tables (in_db st)"
proof -
  let ?st = "snd (handleInboundWebhook sample_inbound_env sample_grant ''d'' sample_inbound_request sample_inbound_state)"
  have k: "body_key sample_inbound_env sample_inbound_request = Some (JStr ''k'')"
    by (simp add: body_key_def sample_inbound_request_def sample_inbound_env_def sample_body_members)
  have t: "ie_now sample_inbound_env 2 \<le> ie_now sample_inbound_env 3 + IDEMPOTENCY_TTL_MS"
    by (simp add: sample_inbound_env_def IDEMPOTENCY_TTL_MS_def)
  have "run_tables (in_db (snd (handleInboundWebhook sample_inbound_env sample_grant ''d'' sample_inbound_request (?st\<lparr>in_nonces := []\<rparr>))))
      = run_tables (in_db (?st\<lparr>in_nonces := []\<rparr>))"
    by (rule retry_does_not_execute_again [OF sample_delivery k _ _ k t]) simp_all
  then show ?thesis using sample_delivery by (intro exI [of _ ?st]) simp
qed

end
