(* ===== verification/Packs.thy ===== *)
theory Packs
  imports Kernel_Runner
begin

text \<open>
  \<^verbatim>\<open>hub/packs.mjs\<close> and \<^verbatim>\<open>hub/templates.mjs\<close>: the catalogue of compiled workflow packs, which the
  process reads once, and the templates that put sample data into a copy of a pack's manifest. The
  directory is a list of file names with what \<open>JSON.parse\<close> makes of the content (\<open>None\<close>: it throws);
  \<open>None\<close> in place of the list is a directory that cannot be read. The list of templates, a constant
  with fractional numbers in it, is an argument. The manifest of a pack is an object; any other value
  there is a type error.
\<close>

datatype pack_error = Pack_unparsable string | Pack_type_error

type_synonym catalog = "(json option \<times> json) list"

definition map_set :: "json option \<Rightarrow> json \<Rightarrow> catalog \<Rightarrow> catalog" where
  \<comment> \<open>\<open>Map.set\<close>: an object is a key of its own\<close>
  "map_set k v c = (if is_prim k then AList.update k v c else c @ [(k, v)])"

definition map_get :: "json option \<Rightarrow> catalog \<Rightarrow> json option" where
  "map_get k c = (if is_prim k then map_of c k else None)"

lemma map_of_opt_members:
  "distinct (map fst ms) \<Longrightarrow> map_of (opt_members ms) k = Option.bind (map_of ms k) id"
proof (induction ms)
  case (Cons m ms)
  obtain a v where m: "m = (a, v)" by (cases m)
  have "map_of ms a = None" using Cons.prems m by (auto simp: map_of_eq_None_iff)
  with Cons m show ?case by (cases v) auto
qed simp

subsection \<open>The catalogue\<close>

definition is_pack_file :: "string \<Rightarrow> bool" where
  "is_pack_file f \<longleftrightarrow> ends_with f ''.json'' \<and> f \<noteq> ''INDEX.json''"

fun load_files :: "(string \<times> json option) list \<Rightarrow> catalog \<Rightarrow> (pack_error + unit) \<times> catalog" where
  "load_files [] c = (Inr (), c)"
| "load_files ((f, content) # fs) c =
     (if \<not> is_pack_file f then load_files fs c
      else case content of
             None \<Rightarrow> (Inl (Pack_unparsable f), c)
           | Some p \<Rightarrow> if p = JNull then (Inl Pack_type_error, c)
                       else load_files fs (map_set (jget p ''workflow_id'') p c))"

definition loadAll :: "(string \<times> json option) list option \<Rightarrow> catalog option \<Rightarrow> (pack_error + catalog) \<times> catalog option" where
  "loadAll dir cache =
     (case cache of
        Some c \<Rightarrow> (Inr c, Some c)
      | None \<Rightarrow>
          (case dir of
             None \<Rightarrow> (Inr [], Some [])
           | Some fs \<Rightarrow> let (r, c) = load_files fs [] in (map_sum id (\<lambda>_. c) r, Some c)))"

definition pack_card :: "json \<Rightarrow> pack_error + json" where
  "pack_card p =
     (case jget_opt (jget p ''manifest'') ''nodes'' of
        Some (JArr ns) \<Rightarrow>
          and_then (each_err (\<lambda>n. guard_err (n \<noteq> JNull) Pack_type_error) ns) (\<lambda>_.
            Inr (JObj (opt_members
              [(''workflow_id'', jget p ''workflow_id''), (''name'', jget p ''name''), (''outcome'', jget p ''outcome''),
               (''unverifiedStepCount'', Some (JNum (int (length (filter (\<lambda>n. jget n ''verified'' = Some (JBool False)) ns)))))])))
      | v \<Rightarrow> if js_nullish v
             then Inr (JObj (opt_members
               [(''workflow_id'', jget p ''workflow_id''), (''name'', jget p ''name''), (''outcome'', jget p ''outcome''),
                (''unverifiedStepCount'', Some (JNum 0))]))
             else Inl Pack_type_error)"

definition listPacks :: "(string \<times> json option) list option \<Rightarrow> catalog option \<Rightarrow> (pack_error + json list) \<times> catalog option" where
  "listPacks dir cache =
     (let (r, cache') = loadAll dir cache in (and_then r (\<lambda>c. map_err (pack_card \<circ> snd) c), cache'))"

definition getPack :: "(string \<times> json option) list option \<Rightarrow> json option \<Rightarrow> catalog option \<Rightarrow> (pack_error + json option) \<times> catalog option" where
  "getPack dir workflowId cache =
     (let (r, cache') = loadAll dir cache in (map_sum id (map_get workflowId) r, cache'))"

text \<open>A file that does not parse fails the first lookup; every later one answers from what was read before it.\<close>

lemma broken_pack_fails_once:
  assumes "load_files fs [] = (Inl e, c)"
  shows "fst (getPack (Some fs) i None) = Inl e"
    and "fst (getPack (Some fs) i (snd (getPack (Some fs) i None))) = Inr (map_get i c)"
  using assms by (simp_all add: getPack_def loadAll_def)

lemma getPack_loaded: "getPack dir i (Some c) = (Inr (map_get i c), Some c)"
  by (simp add: getPack_def loadAll_def)

lemma map_get_set: "is_prim k \<Longrightarrow> map_get k' (map_set k v c) = (if k' = k then Some v else map_get k' c)"
  by (auto simp: map_get_def map_set_def update_conv)

subsection \<open>Templates\<close>

definition manifest_of :: "json \<Rightarrow> pack_error + json" where
  "manifest_of pack =
     (case jget pack ''manifest'' of Some (JObj m) \<Rightarrow> Inr (JObj m) | _ \<Rightarrow> Inl Pack_type_error)"

definition map_nodes :: "'e \<Rightarrow> (json \<Rightarrow> 'e + json) \<Rightarrow> json \<Rightarrow> 'e + json" where
  \<comment> \<open>\<open>m.nodes = (m.nodes ?? []).map(f)\<close>, where \<open>f\<close> reads a member of each node\<close>
  "map_nodes e f m =
     and_then (case jget m ''nodes'' of
                 Some (JArr ns) \<Rightarrow> map_err (\<lambda>n. if n = JNull then Inl e else f n) ns
               | v \<Rightarrow> if js_nullish v then Inr [] else Inl e)
       (\<lambda>ns. Inr (js_with m ''nodes'' (JArr ns)))"

definition node_key :: "json \<Rightarrow> string" where
  "node_key node = js_template (jget node ''node_id'')"

definition listTemplates :: "json list \<Rightarrow> json list" where
  "listTemplates templates =
     map (\<lambda>t. JObj (opt_members (map (\<lambda>k. (k, jget t k)) [''slug'', ''title'', ''blurb'', ''workflow_id'']))) templates"

definition getTemplate :: "json list \<Rightarrow> json option \<Rightarrow> json option" where
  "getTemplate templates slug = find (\<lambda>t. js_same (jget t ''slug'') slug) templates"

definition sampled_node :: "json \<Rightarrow> json \<Rightarrow> json" where
  "sampled_node template node =
     js_with node ''policy_parameters''
       (let sample = (case jget template ''sample_data'' of None \<Rightarrow> None | Some d \<Rightarrow> js_index d (node_key node))
        in or_default (or_default (JObj []) (jget node ''policy_parameters'')) sample)"

definition buildTemplateManifest :: "catalog \<Rightarrow> json \<Rightarrow> pack_error + json option" where
  "buildTemplateManifest cat template =
     (case map_get (jget template ''workflow_id'') cat of
        None \<Rightarrow> Inr None
      | Some pack \<Rightarrow>
          and_then (manifest_of pack) (\<lambda>m.
          and_then (map_nodes Pack_type_error (\<lambda>n. Inr (sampled_node template n)) m) (\<lambda>m'. Inr (Some m'))))"

lemma map_nodes_Inr:
  assumes "map_nodes e f m = Inr m'"
  obtains ns ns' where "jarr_or_empty (jget m ''nodes'') = ns" "m' = js_with m ''nodes'' (JArr ns')"
    "list_all2 (\<lambda>n n'. n \<noteq> JNull \<and> f n = Inr n') ns ns'"
proof -
  obtain ns' where ns': "m' = js_with m ''nodes'' (JArr ns')"
    and c: "(case jget m ''nodes'' of
              Some (JArr ns) \<Rightarrow> map_err (\<lambda>n. if n = JNull then Inl e else f n) ns
            | v \<Rightarrow> if js_nullish v then Inr [] else Inl e) = Inr ns'"
    using assms by (auto simp: map_nodes_def)
  have "list_all2 (\<lambda>n n'. n \<noteq> JNull \<and> f n = Inr n') (jarr_or_empty (jget m ''nodes'')) ns'"
  proof (cases "\<exists>ns. jget m ''nodes'' = Some (JArr ns)")
    case True
    with c show ?thesis by (auto simp: map_err_Inr elim: list_all2_mono split: if_splits)
  next
    case False
    with c show ?thesis by (cases "jget m ''nodes''"; cases "the (jget m ''nodes'')") (auto split: if_splits)
  qed
  then show thesis using that ns' by blast
qed

end
