(* ===== verification/Smtp.thy ===== *)
theory Smtp
  imports Connectors
begin

text \<open>
  \<^verbatim>\<open>connectors/smtp-send.mjs\<close>: mail over raw SMTP. The relay is a parameter: its reply depends on
  everything written so far. What the client writes is kept in order and tagged with the channel, clear or
  encrypted, it went over.

  The lemmas show that the reader of replies does not depend on how the bytes are cut into chunks, that
  nothing but single command lines precedes the message, that credentials never travel in the clear, and
  that the message cannot end its own transmission early.
\<close>

subsection \<open>Reading replies\<close>

abbreviation CR :: char where "CR \<equiv> CHR 0x0D"
abbreviation LF :: char where "LF \<equiv> CHR 0x0A"

record reply =
  rp_code :: string
  rp_lines :: "string list"

record reader =
  rd_buf :: string
  rd_pending :: "string list"
  rd_waiters :: nat
  rd_replies :: "reply list"

definition makeReader :: reader where
  "makeReader = \<lparr>rd_buf = [], rd_pending = [], rd_waiters = 0, rd_replies = []\<rparr>"

definition readResponse :: "reader \<Rightarrow> reader" where
  "readResponse r = r\<lparr>rd_waiters := Suc (rd_waiters r)\<rparr>"

definition pushLine :: "string \<Rightarrow> reader \<Rightarrow> reader" where
  \<comment> \<open>a reply ends with the line whose fourth character is not a hyphen; it goes to the first waiter and is
      lost when there is none\<close>
  "pushLine l r =
     (let ls = rd_pending r @ [l]
      in if drop 3 (take 4 l) \<noteq> ''-''
         then (case rd_waiters r of
                 0 \<Rightarrow> r\<lparr>rd_pending := []\<rparr>
               | Suc w \<Rightarrow> r\<lparr>rd_pending := [], rd_waiters := w, rd_replies := rd_replies r @ [\<lparr>rp_code = take 3 l, rp_lines = ls\<rparr>]\<rparr>)
         else r\<lparr>rd_pending := ls\<rparr>)"

fun next_line :: "string \<Rightarrow> (string \<times> string) option" where
  \<comment> \<open>the text before and after the first CRLF\<close>
  "next_line (a # b # s) =
     (if a = CR \<and> b = LF then Some ([], s)
      else case next_line (b # s) of None \<Rightarrow> None | Some (l, rest) \<Rightarrow> Some (a # l, rest))"
| "next_line _ = None"

lemma next_line_shorter: "next_line s = Some (l, rest) \<Longrightarrow> length rest < length s"
  by (induction s arbitrary: l rule: next_line.induct) (auto split: if_splits option.splits)

function drain :: "reader \<Rightarrow> reader" where
  "drain r = (case next_line (rd_buf r) of None \<Rightarrow> r | Some (l, rest) \<Rightarrow> drain ((pushLine l r)\<lparr>rd_buf := rest\<rparr>))"
  by auto
termination
  by (relation "measure (\<lambda>r. length (rd_buf r))") (auto dest: next_line_shorter)

declare drain.simps [simp del]

definition on_data :: "string \<Rightarrow> reader \<Rightarrow> reader" where
  "on_data chunk r = drain (r\<lparr>rd_buf := rd_buf r @ chunk\<rparr>)"

subsection \<open>The dialogue\<close>

datatype wire = Clear string | Secure string

fun wire_text :: "wire \<Rightarrow> string" where
  "wire_text (Clear s) = s"
| "wire_text (Secure s) = s"

datatype smtp_error =
    Header_injection string
  | Response_timeout
  | Unexpected_response reply
  | No_starttls
  | Tls_failed
  | Clear_text_auth
  | No_password
  | Smtp_egress egress_error
  | Socket_failed

record relay =
  rl_reply :: "wire list \<Rightarrow> reply option"
  rl_tls :: bool

type_synonym 'a dialogue = "(smtp_error + 'a) \<times> bool \<times> wire list"
  \<comment> \<open>result; whether the channel is encrypted; everything written\<close>

definition CRLF :: string where "CRLF = [CR, LF]"

definition put_wire :: "string \<Rightarrow> bool \<times> wire list \<Rightarrow> bool \<times> wire list" where
  "put_wire s c = (fst c, snd c @ [if fst c then Secure s else Clear s])"

definition writeLine :: "string \<Rightarrow> bool \<times> wire list \<Rightarrow> bool \<times> wire list" where
  "writeLine line c = put_wire (line @ CRLF) c"

definition expect :: "relay \<Rightarrow> string list \<Rightarrow> bool \<times> wire list \<Rightarrow> reply dialogue" where
  "expect rl okCodes c =
     (case rl_reply rl (snd c) of
        None \<Rightarrow> (Inl Response_timeout, c)
      | Some res \<Rightarrow> if rp_code res \<in> set okCodes then (Inr res, c) else (Inl (Unexpected_response res), c))"

definition say :: "relay \<Rightarrow> string \<Rightarrow> string list \<Rightarrow> bool \<times> wire list \<Rightarrow> reply dialogue" where
  "say rl line okCodes c = expect rl okCodes (writeLine line c)"

definition and_say :: "'a dialogue \<Rightarrow> ('a \<Rightarrow> bool \<times> wire list \<Rightarrow> 'b dialogue) \<Rightarrow> 'b dialogue" where
  "and_say d f = (case d of (Inl e, c) \<Rightarrow> (Inl e, c) | (Inr x, c) \<Rightarrow> f x c)"

record mail =
  ml_from :: string
  ml_to :: "string list"
  ml_subject :: string
  ml_text :: string

definition js_upper :: "string \<Rightarrow> string" where
  \<comment> \<open>\<open>toUpperCase\<close> on ASCII\<close>
  "js_upper s = map (\<lambda>c. let n = of_char c :: nat in if 97 \<le> n \<and> n \<le> 122 then char_of (n - 32) else c) s"

definition capabilities :: "reply \<Rightarrow> string list" where
  "capabilities ehlo = map (\<lambda>l. js_upper (drop 4 l)) (rp_lines ehlo)"

definition start_tls :: "relay \<Rightarrow> string \<Rightarrow> string \<Rightarrow> reply \<Rightarrow> bool \<times> wire list \<Rightarrow> unit dialogue" where
  "start_tls rl secure heloHost ehlo c =
     (if secure \<noteq> ''starttls'' then (Inr (), c)
      else if \<not> list_ex (\<lambda>l. starts_with l ''STARTTLS'') (capabilities ehlo) then (Inl No_starttls, c)
      else and_say (say rl ''STARTTLS'' [''220''] c) (\<lambda>_ c.
             if \<not> rl_tls rl then (Inl Tls_failed, c)
             else and_say (say rl (''EHLO '' @ heloHost) [''250''] (True, snd c)) (\<lambda>_ c. (Inr (), c))))"

definition auth_login :: "relay \<Rightarrow> string option \<Rightarrow> string option \<Rightarrow> bool \<times> wire list \<Rightarrow> unit dialogue" where
  "auth_login rl authUser authPass c =
     (case authUser of
        Some (u # us) \<Rightarrow>
          if \<not> fst c then (Inl Clear_text_auth, c)
          else and_say (say rl ''AUTH LOGIN'' [''334''] c) (\<lambda>_ c.
               and_say (say rl (base64 (utf8_bytes (u # us))) [''334''] c) (\<lambda>_ c.
               case authPass of
                 None \<Rightarrow> (Inl No_password, c)
               | Some p \<Rightarrow> and_say (say rl (base64 (utf8_bytes p)) [''235''] c) (\<lambda>_ c. (Inr (), c))))
      | _ \<Rightarrow> (Inr (), c))"

fun rcpt_all :: "relay \<Rightarrow> string list \<Rightarrow> bool \<times> wire list \<Rightarrow> unit dialogue" where
  "rcpt_all rl [] c = (Inr (), c)"
| "rcpt_all rl (rcpt # rs) c = and_say (say rl (''RCPT TO:<'' @ rcpt @ ''>'') [''250'', ''251''] c) (\<lambda>_ c. rcpt_all rl rs c)"

fun dot_stuff :: "string \<Rightarrow> string" where
  \<comment> \<open>\<open>replace(/\r\n\./g, "\r\n..")\<close>\<close>
  "dot_stuff (a # b # d # s) =
     (if a = CR \<and> b = LF \<and> d = CHR ''.'' then CR # LF # CHR ''.'' # CHR ''.'' # dot_stuff s
      else a # dot_stuff (b # d # s))"
| "dot_stuff s = s"

definition mail_header :: "string \<Rightarrow> mail \<Rightarrow> string" where
  "mail_header date m =
     join_with CRLF [''From: '' @ ml_from m, ''To: '' @ join_with '', '' (ml_to m), ''Subject: '' @ ml_subject m, ''Date: '' @ date, []]"

definition mail_body :: "string \<Rightarrow> mail \<Rightarrow> string" where
  "mail_body date m = dot_stuff (mail_header date m @ ml_text m)"

definition END_OF_DATA :: string where "END_OF_DATA = [CR, LF, CHR ''.'', CR, LF]"

definition runDialogue ::
  "relay \<Rightarrow> string \<Rightarrow> string \<Rightarrow> mail \<Rightarrow> string option \<Rightarrow> string option \<Rightarrow> string \<Rightarrow> string dialogue" where
  "runDialogue rl heloHost date m authUser authPass secure =
     and_say (expect rl [''220''] (secure = ''tls'', [])) (\<lambda>_ c.
     and_say (say rl (''EHLO '' @ heloHost) [''250''] c) (\<lambda>ehlo c.
     and_say (start_tls rl secure heloHost ehlo c) (\<lambda>_ c.
     and_say (auth_login rl authUser authPass c) (\<lambda>_ c.
     and_say (say rl (''MAIL FROM:<'' @ ml_from m @ ''>'') [''250''] c) (\<lambda>_ c.
     and_say (rcpt_all rl (ml_to m) c) (\<lambda>_ c.
     and_say (say rl ''DATA'' [''354''] c) (\<lambda>_ c.
     and_say (expect rl [''250''] (put_wire (mail_body date m @ END_OF_DATA) c)) (\<lambda>_ c.
       (Inr (mail_body date m), snd (say rl ''QUIT'' [''221''] c))))))))))"

subsection \<open>Sending\<close>

definition SMTP_SEND_ID :: string where "SMTP_SEND_ID = ''smtp.send''"

definition has_crlf :: "string \<Rightarrow> bool" where
  "has_crlf s \<longleftrightarrow> CR \<in> set s \<or> LF \<in> set s"

definition assertNoHeaderInjection :: "string \<Rightarrow> string \<Rightarrow> smtp_error + unit" where
  "assertNoHeaderInjection value field = guard_err (\<not> has_crlf value) (Header_injection field)"

definition check_mail :: "mail \<Rightarrow> smtp_error + unit" where
  "check_mail m =
     and_then (assertNoHeaderInjection (ml_from m) ''from'') (\<lambda>_.
     and_then (each_err (\<lambda>r. assertNoHeaderInjection r ''to'') (ml_to m)) (\<lambda>_.
     assertNoHeaderInjection (ml_subject m) ''subject''))"

record smtp_payload =
  sm_host :: string
  sm_port :: string
  sm_secure :: "string option"
  sm_mail :: mail

record smtp_env =
  se_sha :: "string \<Rightarrow> string"
  se_vault :: "string \<Rightarrow> vault_error + json"
  se_resolve :: "string \<Rightarrow> string list option"
  se_connect :: "string \<Rightarrow> string \<Rightarrow> bool \<Rightarrow> relay option"
  se_clock :: journal_clock
  se_date :: string

record 'd smtp_state =
  ss_pins :: pins
  ss_sockets :: "(string \<times> string) list"
  ss_wire :: "wire list"
  ss_db :: 'd

definition smtp_credential :: "smtp_env \<Rightarrow> vault_slice \<Rightarrow> smtp_error + string option \<times> string option" where
  \<comment> \<open>user and password; values that are not strings count as absent\<close>
  "smtp_credential env vslice =
     (case slice_ref vslice ''credentialRef'' of
        None \<Rightarrow> Inr (None, None)
      | Some ref \<Rightarrow>
          (case se_vault env ref of
             Inl e \<Rightarrow> Inl (Smtp_egress (Credential (Vault_failed e)))
           | Inr cred \<Rightarrow>
               let pick = (\<lambda>a b. jstr_of (if js_nullish (jget cred a) then jget cred b else jget cred a))
               in Inr (pick ''username'' ''user'', pick ''password'' ''pass'')))"

definition note_smtp ::
  "smtp_env \<Rightarrow> string \<Rightarrow> string \<Rightarrow> string \<Rightarrow> string option \<Rightarrow> smtp_error + 'r \<Rightarrow>
   'a journal_db_scheme smtp_state \<Rightarrow> (smtp_error + 'r) \<times> 'a journal_db_scheme smtp_state" where
  "note_smtp env hostPort decision rd respd res st =
     (case recordEgress (se_sha env) (se_clock env) SMTP_SEND_ID (Some (JStr hostPort)) (Some (JStr ''SEND'')) decision rd respd (ss_db st) of
        (Inl e, db) \<Rightarrow> (Inl (Smtp_egress e), st\<lparr>ss_db := db\<rparr>)
      | (Inr _, db) \<Rightarrow> (res, st\<lparr>ss_db := db\<rparr>))"

definition smtp_transmit ::
  "smtp_env \<Rightarrow> send_context \<Rightarrow> smtp_payload \<Rightarrow> string \<Rightarrow> string \<Rightarrow> string \<Rightarrow> string option \<times> string option \<Rightarrow>
   'a journal_db_scheme smtp_state \<Rightarrow> (smtp_error + json) \<times> 'a journal_db_scheme smtp_state" where
  \<comment> \<open>pin, connect, unpin, run the dialogue, journal the send, attest it\<close>
  "smtp_transmit env x p hostPort ip rd cred st =
     (let secure = (case sm_secure p of None \<Rightarrow> ''starttls'' | Some s \<Rightarrow> s);
          ps = pinHostResolution (sm_host p) ip (ss_pins st);
          address = (if isIP (sm_host p) \<noteq> 0 then sm_host p
                     else case pinnedDnsLookup (\<lambda>_ _. []) ps (sm_host p) True of (a, _) # _ \<Rightarrow> a | [] \<Rightarrow> []);
          st1 = st\<lparr>ss_pins := snd (unpin (js_lower (sm_host p)) False ps), ss_sockets := ss_sockets st @ [(address, sm_port p)]\<rparr>
      in case se_connect env address (sm_port p) (secure = ''tls'') of
           None \<Rightarrow> (Inl Socket_failed, st1)
         | Some rl \<Rightarrow>
             (case runDialogue rl ''helm.local'' (se_date env) (sm_mail p) (fst cred) (snd cred) secure of
                (Inl e, c) \<Rightarrow> (Inl e, st1\<lparr>ss_wire := ss_wire st1 @ snd c\<rparr>)
              | (Inr bytes, c) \<Rightarrow>
                  note_smtp env hostPort ''allowed'' rd (Some (sha256ref (se_sha env bytes)))
                    (Inr (attest (se_sha env) x SMTP_SEND_ID (JStr ''smtp.send'') (Some (JStr hostPort)) bytes))
                    (st1\<lparr>ss_wire := ss_wire st1 @ snd c\<rparr>)))"

definition createSmtpConnector ::
  "smtp_env \<Rightarrow> send_context \<Rightarrow> vault_slice \<Rightarrow> smtp_payload \<Rightarrow>
   'a journal_db_scheme smtp_state \<Rightarrow> (smtp_error + json) \<times> 'a journal_db_scheme smtp_state" where
  \<comment> \<open>\<open>send\<close> of the connector\<close>
  "createSmtpConnector env x vslice p st =
     (case check_mail (sm_mail p) of
        Inl e \<Rightarrow> (Inl e, st)
      | Inr _ \<Rightarrow>
          let m = sm_mail p; hostPort = sm_host p @ '':'' @ sm_port p;
              rd = sha256ref (se_sha env (json_stringify (JObj [(''host'', JStr hostPort), (''from'', JStr (ml_from m)),
                     (''to'', JArr (map JStr (ml_to m))), (''subject'', JStr (ml_subject m))])))
          in case assertEgressAllowed (sx_contract x) (Some (JStr hostPort)) (Some (JStr ''SEND'')) of
               Inl e \<Rightarrow> (Inl (Smtp_egress e), st)
             | Inr False \<Rightarrow> note_smtp env hostPort ''blocked'' rd None (Inl (Smtp_egress (Not_in_allowlist hostPort))) st
             | Inr True \<Rightarrow>
                 (case resolveVettedIp (se_resolve env) (sm_host p) of
                    Inl e \<Rightarrow> note_smtp env hostPort ''blocked'' rd None (Inl (Smtp_egress (Vetting e))) st
                  | Inr ip \<Rightarrow>
                      (case smtp_credential env vslice of
                         Inl e \<Rightarrow> (Inl e, st)
                       | Inr cred \<Rightarrow> smtp_transmit env x p hostPort ip rd cred st)))"

subsection \<open>Chunks do not matter\<close>

lemma next_line_append: "next_line s = Some (l, rest) \<Longrightarrow> next_line (s @ t) = Some (l, rest @ t)"
  by (induction s arbitrary: l rule: next_line.induct) (auto split: if_splits option.splits)

lemma pushLine_buf [simp]: "rd_buf (pushLine l r) = rd_buf r"
  by (simp add: pushLine_def Let_def split: nat.split)

lemma pushLine_update [simp]: "pushLine l (r\<lparr>rd_buf := b\<rparr>) = (pushLine l r)\<lparr>rd_buf := b\<rparr>"
  by (simp add: pushLine_def Let_def split: nat.split)

lemma drain_append: "drain ((drain r)\<lparr>rd_buf := rd_buf (drain r) @ t\<rparr>) = drain (r\<lparr>rd_buf := rd_buf r @ t\<rparr>)"
proof (induction r rule: drain.induct)
  case (1 r)
  show ?case
  proof (cases "next_line (rd_buf r)")
    case None
    then show ?thesis by (simp add: drain.simps [of r])
  next
    case (Some p)
    obtain l rest where p: "next_line (rd_buf r) = Some (l, rest)" using Some by (cases p) auto
    have "drain (r\<lparr>rd_buf := rd_buf r @ t\<rparr>) = drain ((pushLine l r)\<lparr>rd_buf := rest @ t\<rparr>)"
      by (subst drain.simps) (simp add: next_line_append [OF p])
    then show ?thesis using 1 [OF p HOL.refl] p by (simp add: drain.simps [of r])
  qed
qed

lemma on_data_on_data: "on_data b (on_data a r) = on_data (a @ b) r"
  unfolding on_data_def using drain_append [of "r\<lparr>rd_buf := rd_buf r @ a\<rparr>" b] by simp

text \<open>The replies read from a stream are those of the whole stream, however the network cut it.\<close>

lemma reader_ignores_chunking: "fold on_data chunks (readResponse makeReader) = on_data (concat chunks) (readResponse makeReader)"
proof -
  let ?r = "readResponse makeReader"
  have "fold on_data chunks (on_data [] ?r) = on_data (concat chunks) ?r"
  proof (induction chunks rule: rev_induct)
    case (snoc c cs)
    then show ?case by (simp add: on_data_on_data)
  qed simp
  moreover have "on_data [] ?r = ?r" by (simp add: on_data_def makeReader_def readResponse_def drain.simps)
  ultimately show ?thesis by simp
qed

subsection \<open>What is written\<close>

definition writes_only :: "bool \<Rightarrow> (wire \<Rightarrow> bool) \<Rightarrow> (bool \<times> wire list \<Rightarrow> 'a dialogue) \<Rightarrow> bool" where
  \<comment> \<open>from a channel that is encrypted if \<open>b\<close>, a step adds writes that satisfy \<open>Q\<close> and keeps the encryption\<close>
  "writes_only b Q D \<longleftrightarrow>
     (\<forall>c. (b \<longrightarrow> fst c) \<longrightarrow> (b \<longrightarrow> fst (snd (D c))) \<and> (\<exists>ws. snd (snd (D c)) = snd c @ ws \<and> list_all Q ws))"

lemma writes_onlyD: "writes_only b Q D \<Longrightarrow> (b \<Longrightarrow> fst c) \<Longrightarrow> \<exists>ws. snd (snd (D c)) = snd c @ ws \<and> list_all Q ws"
  unfolding writes_only_def by blast

lemma writes_only_and_say:
  assumes "writes_only b Q D" and "\<And>x. writes_only b Q (F x)"
  shows "writes_only b Q (\<lambda>c. and_say (D c) F)"
  unfolding writes_only_def
proof (intro allI impI)
  fix c :: "bool \<times> wire list"
  assume b: "b \<longrightarrow> fst c"
  obtain r c1 where d: "D c = (r, c1)" by (rule prod.exhaust)
  from assms(1) b d obtain ws where 1: "b \<longrightarrow> fst c1" "snd c1 = snd c @ ws" "list_all Q ws"
    unfolding writes_only_def by (metis snd_conv)
  show "(b \<longrightarrow> fst (snd (and_say (D c) F))) \<and> (\<exists>ws. snd (snd (and_say (D c) F)) = snd c @ ws \<and> list_all Q ws)"
  proof (cases r)
    case (Inl e)
    then show ?thesis using 1 d by (simp add: and_say_def)
  next
    case (Inr x)
    from assms(2) [of x] 1(1) obtain ws' where "b \<longrightarrow> fst (snd (F x c1))" "snd (snd (F x c1)) = snd c1 @ ws'" "list_all Q ws'"
      unfolding writes_only_def by blast
    then show ?thesis using 1 d Inr by (simp add: and_say_def)
  qed
qed

definition written :: "bool \<Rightarrow> (wire \<Rightarrow> bool) \<Rightarrow> string \<Rightarrow> bool" where
  "written b Q s \<longleftrightarrow> Q (Secure s) \<and> (b \<or> Q (Clear s))"

lemma expect_channel [simp]: "snd (expect rl codes c) = c"
  by (simp add: expect_def split: option.split)

lemma writes_only_expect: "writes_only b Q (expect rl codes)"
  by (simp add: writes_only_def)

lemma writes_only_put: "written b Q s \<Longrightarrow> writes_only b Q (\<lambda>c. expect rl codes (put_wire s c))"
  by (auto simp: writes_only_def put_wire_def written_def)

lemma writes_only_say: "written b Q (line @ CRLF) \<Longrightarrow> writes_only b Q (say rl line codes)"
  using writes_only_put [of b Q "line @ CRLF" rl codes] by (simp add: writes_only_def say_def writeLine_def)

lemma writes_only_done: "writes_only b Q (\<lambda>c. (r, c))"
  by (simp add: writes_only_def)

lemma writes_only_rcpt:
  "(\<And>r. r \<in> set rs \<Longrightarrow> written b Q ((''RCPT TO:<'' @ r @ ''>'') @ CRLF)) \<Longrightarrow> writes_only b Q (rcpt_all rl rs)"
proof (induction rs)
  case Nil
  then show ?case by (simp add: writes_only_done)
next
  case (Cons r rs)
  then show ?case
    using writes_only_and_say [OF writes_only_say [of b Q "''RCPT TO:<'' @ r @ ''>''" rl "[''250'', ''251'']"], of "\<lambda>_. rcpt_all rl rs"]
    by simp
qed

lemma writes_only_upgrade:
  assumes "written True Q (line @ CRLF)"
  shows "writes_only b Q (\<lambda>c. and_say (say rl line codes (True, snd c)) (\<lambda>_ c. (Inr (), c)))"
  using assms by (auto simp: writes_only_def and_say_def say_def writeLine_def put_wire_def written_def expect_def
      split: option.split)

lemma writes_only_start_tls:
  assumes "written b Q (''STARTTLS'' @ CRLF)" and "written True Q ((''EHLO '' @ heloHost) @ CRLF)"
  shows "writes_only b Q (start_tls rl secure heloHost ehlo)"
proof -
  have "writes_only b Q (\<lambda>c. and_say (say rl ''STARTTLS'' [''220''] c) (\<lambda>_ c.
             if \<not> rl_tls rl then (Inl Tls_failed, c)
             else and_say (say rl (''EHLO '' @ heloHost) [''250''] (True, snd c)) (\<lambda>_ c. (Inr (), c))))"
    by (rule writes_only_and_say [OF writes_only_say [OF assms(1)]], cases "rl_tls rl")
      (use writes_only_upgrade [OF assms(2)] in \<open>simp_all add: writes_only_done\<close>)
  then show ?thesis by (auto simp: start_tls_def writes_only_def)
qed

lemma writes_only_auth:
  assumes "written b Q (''AUTH LOGIN'' @ CRLF)" and "\<And>s. written b Q (base64 (utf8_bytes s) @ CRLF)"
  shows "writes_only b Q (auth_login rl u p)"
proof -
  have "writes_only b Q (\<lambda>c. and_say (say rl ''AUTH LOGIN'' [''334''] c) (\<lambda>_ c.
               and_say (say rl (base64 (utf8_bytes v)) [''334''] c) (\<lambda>_ c.
               case p of None \<Rightarrow> (Inl No_password, c)
               | Some p \<Rightarrow> and_say (say rl (base64 (utf8_bytes p)) [''235''] c) (\<lambda>_ c. (Inr (), c)))))" for v
    by (cases p) (intro writes_only_and_say writes_only_say writes_only_done assms | simp add: writes_only_done)+
  then show ?thesis by (auto simp: auth_login_def writes_only_def split: option.split list.split)
qed

definition one_line :: "string \<Rightarrow> bool" where
  "one_line s \<longleftrightarrow> (\<exists>l. s = l @ CRLF \<and> \<not> has_crlf l)"

lemma has_crlf_simps [simp]:
  "\<not> has_crlf []" "has_crlf (c # s) \<longleftrightarrow> c = CR \<or> c = LF \<or> has_crlf s" "has_crlf (a @ b) \<longleftrightarrow> has_crlf a \<or> has_crlf b"
  by (auto simp: has_crlf_def)

lemma base64_char_line: "n < 64 \<Longrightarrow> base64_char n \<noteq> CR \<and> base64_char n \<noteq> LF"
proof -
  have "list_all (\<lambda>n. base64_char n \<noteq> CR \<and> base64_char n \<noteq> LF) [0..<64]" by code_simp
  then show "n < 64 \<Longrightarrow> base64_char n \<noteq> CR \<and> base64_char n \<noteq> LF" by (simp add: list_all_iff)
qed

lemma base64_line: "list_all (\<lambda>b. b < 256) bs \<Longrightarrow> \<not> has_crlf (base64 bs)"
proof (induction bs rule: base64.induct)
  case (2 a)
  then have "a div 4 < 64" "a mod 4 * 16 < 64" by auto
  from this [THEN base64_char_line] show ?case by simp
next
  case (3 a b)
  then have "a div 4 < 64" "a mod 4 * 16 + b div 16 < 64" "b mod 16 * 4 < 64" by auto
  from this [THEN base64_char_line] show ?case by simp
next
  case (4 a b c r)
  then have "a div 4 < 64" "a mod 4 * 16 + b div 16 < 64" "b mod 16 * 4 + c div 64 < 64" "c mod 64 < 64" by auto
  from this [THEN base64_char_line] 4 show ?case by simp
qed simp

lemma utf8_bytes_bound: "list_all (\<lambda>b. b < 256) (utf8_bytes s)"
proof -
  have "n = of_char c \<or> n = 192 + of_char c div 64 \<or> n = 128 + of_char c mod 64 \<Longrightarrow> n < (256::nat)" for c :: char and n
  proof -
    have "(of_char c :: nat) < 256" by simp
    then have "(of_char c :: nat) div 64 < 4" by (simp add: less_mult_imp_div_less)
    then show "n = of_char c \<or> n = 192 + of_char c div 64 \<or> n = 128 + of_char c mod 64 \<Longrightarrow> n < 256"
      using mod_less_divisor [of 64 "of_char c :: nat"] by auto
  qed
  then show ?thesis unfolding utf8_bytes_def list_all_iff by (auto simp: Let_def split: if_splits)
qed

lemma credential_line: "one_line (base64 (utf8_bytes s) @ CRLF)"
  unfolding one_line_def using base64_line [OF utf8_bytes_bound] by blast

definition command_or_message :: "string \<Rightarrow> mail \<Rightarrow> wire \<Rightarrow> bool" where
  "command_or_message date m w \<longleftrightarrow> one_line (wire_text w) \<or> wire_text w = mail_body date m @ END_OF_DATA"

lemma written_line: "\<not> has_crlf l \<Longrightarrow> written b (command_or_message date m) (l @ CRLF)"
  by (auto simp: written_def command_or_message_def one_line_def)

lemma check_mail_Inr: "check_mail m = Inr () \<longleftrightarrow> \<not> has_crlf (ml_from m) \<and> \<not> list_ex has_crlf (ml_to m) \<and> \<not> has_crlf (ml_subject m)"
  by (auto simp: check_mail_def assertNoHeaderInjection_def list_ex_iff guard_err_def)

lemma dialogue_writes:
  assumes "check_mail m = Inr ()" and "\<not> has_crlf heloHost"
  shows "list_all (command_or_message date m) (snd (snd (runDialogue rl heloHost date m u p secure)))"
proof -
  let ?Q = "command_or_message date m"
  have ok: "\<not> has_crlf (ml_from m)" "\<And>r. r \<in> set (ml_to m) \<Longrightarrow> \<not> has_crlf r"
    using assms(1) by (auto simp: check_mail_Inr list_ex_iff)
  have w: "written b ?Q (''STARTTLS'' @ CRLF)" "written b ?Q ((''EHLO '' @ heloHost) @ CRLF)" "written b ?Q (''AUTH LOGIN'' @ CRLF)"
    "written b ?Q ((''MAIL FROM:<'' @ ml_from m @ ''>'') @ CRLF)" "written b ?Q (''DATA'' @ CRLF)" "written b ?Q (''QUIT'' @ CRLF)" for b
    using assms(2) ok(1) by (intro written_line; simp)+
  have cr: "written b ?Q (base64 (utf8_bytes s) @ CRLF)" for b s
    using credential_line [of s] by (simp add: written_def command_or_message_def)
  have rc: "written b ?Q ((''RCPT TO:<'' @ r @ ''>'') @ CRLF)" if "r \<in> set (ml_to m)" for b r
    using ok(2) [OF that] by (intro written_line) simp
  have msg: "written b ?Q (mail_body date m @ END_OF_DATA)" for b
    by (simp add: written_def command_or_message_def)
  have quit: "writes_only False ?Q (\<lambda>c. (Inr x :: smtp_error + string, snd (say rl ''QUIT'' [''221''] c)))" for x
    using writes_only_say [OF w(6), of False rl "[''221'']"] by (simp add: writes_only_def)
  have "writes_only False ?Q (\<lambda>c. and_say (expect rl [''220''] c) (\<lambda>_ c.
     and_say (say rl (''EHLO '' @ heloHost) [''250''] c) (\<lambda>ehlo c.
     and_say (start_tls rl secure heloHost ehlo c) (\<lambda>_ c.
     and_say (auth_login rl u p c) (\<lambda>_ c.
     and_say (say rl (''MAIL FROM:<'' @ ml_from m @ ''>'') [''250''] c) (\<lambda>_ c.
     and_say (rcpt_all rl (ml_to m) c) (\<lambda>_ c.
     and_say (say rl ''DATA'' [''354''] c) (\<lambda>_ c.
     and_say (expect rl [''250''] (put_wire (mail_body date m @ END_OF_DATA) c)) (\<lambda>_ c.
       (Inr (mail_body date m), snd (say rl ''QUIT'' [''221''] c)))))))))))"
    by (intro writes_only_and_say writes_only_expect writes_only_say writes_only_start_tls writes_only_auth
        writes_only_rcpt writes_only_put w cr rc msg quit)
  from writes_onlyD [OF this, of "(secure = ''tls'', [])"] show ?thesis by (auto simp: runDialogue_def)
qed

text \<open>Clear writes before credentials: nothing but the greeting and the request for encryption.\<close>

definition clear_start :: "string \<Rightarrow> wire \<Rightarrow> bool" where
  "clear_start heloHost w \<longleftrightarrow>
     (case w of Secure _ \<Rightarrow> True | Clear s \<Rightarrow> s = (''EHLO '' @ heloHost) @ CRLF \<or> s = ''STARTTLS'' @ CRLF)"

lemma dialogue_secures_credentials:
  assumes "u = Some user" and "user \<noteq> []"
  shows "list_all (clear_start heloHost) (snd (snd (runDialogue rl heloHost date m u p secure)))"
proof -
  let ?Q = "clear_start heloHost"
  have sec: "written True ?Q s" for s by (simp add: written_def clear_start_def)
  have any: "written b ?Q (''STARTTLS'' @ CRLF)" "written b ?Q ((''EHLO '' @ heloHost) @ CRLF)" for b
    by (simp_all add: written_def clear_start_def)
  have quit: "writes_only True ?Q (\<lambda>c. (Inr x :: smtp_error + string, snd (say rl ''QUIT'' [''221''] c)))" for x
    using writes_only_say [OF sec, of rl "''QUIT''" "[''221'']"] by (simp add: writes_only_def)
  let ?rest = "\<lambda>c. and_say (auth_login rl u p c) (\<lambda>_ c.
     and_say (say rl (''MAIL FROM:<'' @ ml_from m @ ''>'') [''250''] c) (\<lambda>_ c.
     and_say (rcpt_all rl (ml_to m) c) (\<lambda>_ c.
     and_say (say rl ''DATA'' [''354''] c) (\<lambda>_ c.
     and_say (expect rl [''250''] (put_wire (mail_body date m @ END_OF_DATA) c)) (\<lambda>_ c.
       (Inr (mail_body date m), snd (say rl ''QUIT'' [''221''] c)))))))"
  have t: "writes_only True ?Q ?rest"
    by (intro writes_only_and_say writes_only_expect writes_only_say writes_only_auth writes_only_rcpt writes_only_put sec quit)
  have rest: "writes_only False ?Q ?rest"
    unfolding writes_only_def
  proof (intro allI impI conjI)
    fix c :: "bool \<times> wire list"
    show "\<exists>ws. snd (snd (?rest c)) = snd c @ ws \<and> list_all ?Q ws"
    proof (cases "fst c")
      case True
      then show ?thesis using writes_onlyD [OF t] by blast
    next
      case False
      obtain a as where "user = a # as" using assms(2) by (cases user) auto
      then have "auth_login rl u p c = (Inl Clear_text_auth, c)" using False assms(1) by (simp add: auth_login_def)
      then show ?thesis by (simp add: and_say_def)
    qed
  qed simp
  have "writes_only False ?Q (\<lambda>c. and_say (expect rl [''220''] c) (\<lambda>_ c.
     and_say (say rl (''EHLO '' @ heloHost) [''250''] c) (\<lambda>ehlo c.
     and_say (start_tls rl secure heloHost ehlo c) (\<lambda>_. ?rest))))"
    by (intro writes_only_and_say writes_only_expect writes_only_say writes_only_start_tls any rest)
  from writes_onlyD [OF this, of "(secure = ''tls'', [])"] show ?thesis by (auto simp: runDialogue_def)
qed

subsection \<open>The end of the message\<close>

text \<open>What a relay takes for the message: everything before the first CRLF, dot, CRLF, with doubled dots at
  line starts undone.\<close>

fun data_end :: "string \<Rightarrow> string option" where
  "data_end [] = None"
| "data_end (c # s) =
     (if take 5 (c # s) = END_OF_DATA then Some [] else map_option ((#) c) (data_end s))"

fun dot_unstuff :: "string \<Rightarrow> string" where
  "dot_unstuff (a # b # d # s) =
     (if a = CR \<and> b = LF \<and> d = CHR ''.'' then
        (case s of e # r \<Rightarrow> if e = CHR ''.'' then CR # LF # CHR ''.'' # dot_unstuff r else a # dot_unstuff (b # d # s)
         | [] \<Rightarrow> a # dot_unstuff (b # d # s))
      else a # dot_unstuff (b # d # s))"
| "dot_unstuff s = s"

lemma stuff_not_CR: "b \<noteq> CR \<Longrightarrow> dot_stuff (b # s) = b # dot_stuff s"
  by (cases s; cases "tl s") auto

lemma stuff_head: "\<exists>r. dot_stuff (b # s) = b # r"
  by (cases s; cases "tl s") auto

lemma stuffed_dot: "dot_stuff (b # d # s) = LF # CHR ''.'' # r \<Longrightarrow> b = LF \<and> d = CHR ''.''"
proof -
  assume e: "dot_stuff (b # d # s) = LF # CHR ''.'' # r"
  with stuff_head [of b "d # s"] have b: "b = LF" by auto
  then have "dot_stuff (b # d # s) = LF # dot_stuff (d # s)" by (simp add: stuff_not_CR del: dot_stuff.simps)
  with e stuff_head [of d s] b show ?thesis by auto
qed

lemma unstuff_skip:
  assumes "\<not> (a = CR \<and> (\<exists>r. t = LF # CHR ''.'' # r))"
  shows "dot_unstuff (a # t) = a # dot_unstuff t"
proof (cases t)
  case (Cons b u)
  then show ?thesis using assms by (cases u) auto
qed simp

lemma dot_unstuff_stuff: "dot_unstuff (dot_stuff s) = s"
proof (induction s rule: dot_stuff.induct)
  case (1 a b d s)
  show ?case
  proof (cases "a = CR \<and> b = LF \<and> d = CHR ''.''")
    case True
    then show ?thesis using 1 by simp
  next
    case False
    then have "dot_unstuff (a # dot_stuff (b # d # s)) = a # dot_unstuff (dot_stuff (b # d # s))"
      using stuffed_dot by (intro unstuff_skip) blast
    moreover have "dot_stuff (a # b # d # s) = a # dot_stuff (b # d # s)" using False by (simp only: dot_stuff.simps if_False)
    ultimately show ?thesis using 1(2) [OF False] by simp
  qed
qed simp_all

lemma data_end_skip: "take 5 (c # s) \<noteq> END_OF_DATA \<Longrightarrow> data_end (c # s) = map_option ((#) c) (data_end s)"
  by simp

lemma not_end_CR: "c \<noteq> CR \<Longrightarrow> take 5 (c # s) \<noteq> END_OF_DATA"
  by (simp add: END_OF_DATA_def numeral_eq_Suc)

lemma data_end_not_CR: "c \<noteq> CR \<Longrightarrow> data_end (c # s) = map_option ((#) c) (data_end s)"
  by (rule data_end_skip [OF not_end_CR])

lemma data_end_of_end: "data_end END_OF_DATA = Some []"
  by (simp add: END_OF_DATA_def)

declare data_end.simps(2) [simp del]

lemma data_end_stuffed: "data_end (dot_stuff s @ END_OF_DATA) = Some (dot_stuff s)"
proof (induction s rule: dot_stuff.induct [case_names long none one two])
  case (long a b d s)
  show ?case
  proof (cases "a = CR \<and> b = LF \<and> d = CHR ''.''")
    case True
    have "take 5 (CR # LF # CHR ''.'' # CHR ''.'' # dot_stuff s @ END_OF_DATA) \<noteq> END_OF_DATA"
      by (simp add: END_OF_DATA_def numeral_eq_Suc)
    from data_end_skip [OF this] True long(1) show ?thesis by (simp add: data_end_not_CR)
  next
    case False
    have "take 5 (a # dot_stuff (b # d # s) @ END_OF_DATA) \<noteq> END_OF_DATA"
    proof
      assume t: "take 5 (a # dot_stuff (b # d # s) @ END_OF_DATA) = END_OF_DATA"
      then have a: "a = CR" by (simp add: END_OF_DATA_def numeral_eq_Suc)
      from t obtain r where "dot_stuff (b # d # s) = LF # CHR ''.'' # r"
        using stuff_head [of b "d # s"] by (cases "tl (dot_stuff (b # d # s))") (auto simp: END_OF_DATA_def numeral_eq_Suc)
      from stuffed_dot [OF this] False a show False by simp
    qed
    then have "data_end (a # dot_stuff (b # d # s) @ END_OF_DATA) = map_option ((#) a) (data_end (dot_stuff (b # d # s) @ END_OF_DATA))"
      by (rule data_end_skip)
    moreover have "dot_stuff (a # b # d # s) = a # dot_stuff (b # d # s)" using False by (simp only: dot_stuff.simps if_False)
    ultimately show ?thesis using long(2) [OF False] by simp
  qed
next
  case none
  then show ?case by (simp add: data_end_of_end)
next
  case (one v)
  have "take 5 (v # END_OF_DATA) \<noteq> END_OF_DATA" by (simp add: END_OF_DATA_def numeral_eq_Suc)
  then show ?case by (simp add: data_end_skip data_end_of_end)
next
  case (two v w)
  have "take 5 (v # w # END_OF_DATA) \<noteq> END_OF_DATA" "take 5 (w # END_OF_DATA) \<noteq> END_OF_DATA"
    by (simp_all add: END_OF_DATA_def numeral_eq_Suc)
  then show ?case by (simp add: data_end_skip data_end_of_end)
qed

subsection \<open>Properties\<close>

text \<open>C25. Whatever the text of a mail, the relay sees the end of the message only at its real end, and undoing
  the doubled dots gives back the header and text as they were: no text can cut the message short and have
  the rest taken for commands.\<close>

theorem message_cannot_end_early:
  "map_option dot_unstuff (data_end (mail_body date m @ END_OF_DATA)) = Some (mail_header date m @ ml_text m)"
  by (simp add: mail_body_def data_end_stuffed dot_unstuff_stuff)


definition sample_mail :: mail where
  "sample_mail = \<lparr>ml_from = ''a@b'', ml_to = [''c@d''], ml_subject = ''s'', ml_text = ''Bcc: e@f'' @ CRLF @ CRLF @ ''hi''\<rparr>"

definition no_tls_relay :: relay where
  "no_tls_relay = \<lparr>rl_reply = (\<lambda>ws. Some \<lparr>rp_code = if ws = [] then ''220'' else ''250'', rp_lines = []\<rparr>), rl_tls = False\<rparr>"


subsection \<open>The header runs into the text\<close>

text \<open>The header lines of a message as a receiver reads them: up to the first empty line.\<close>

function header_lines :: "string \<Rightarrow> string list" where
  "header_lines s = (case next_line s of None \<Rightarrow> [] | Some (l, rest) \<Rightarrow> if l = [] then [] else l # header_lines rest)"
  by auto
termination
  by (relation "measure length") (auto dest: next_line_shorter)

declare header_lines.simps [simp del]

lemma next_line_plain: "\<not> has_crlf l \<Longrightarrow> next_line (l @ CRLF @ s) = Some (l, s)"
proof (induction l)
  case Nil
  then show ?case by (simp add: CRLF_def)
next
  case (Cons a l)
  then show ?case by (cases l) (auto simp: CRLF_def)
qed

lemma header_lines_plain: "\<not> has_crlf l \<Longrightarrow> l \<noteq> [] \<Longrightarrow> header_lines (l @ CRLF @ s) = l # header_lines s"
  by (simp add: header_lines.simps [of "l @ CRLF @ s"] next_line_plain)

lemma header_lines_four:
  assumes "\<not> has_crlf a" "\<not> has_crlf b" "\<not> has_crlf c" "\<not> has_crlf d" "a \<noteq> []" "b \<noteq> []" "c \<noteq> []" "d \<noteq> []"
  shows "header_lines (join_with CRLF [a, b, c, d, []] @ t) = [a, b, c, d] @ header_lines t"
  using assms by (simp add: header_lines_plain)

text \<open>The header is joined to the text without an empty line between them, so the lines of the text up
  to its own first empty line are header lines of the message.\<close>

lemma text_lines_become_header:
  assumes "check_mail m = Inr ()" and "\<not> has_crlf date"
  shows "header_lines (mail_header date m @ ml_text m) =
    [''From: '' @ ml_from m, ''To: '' @ join_with '', '' (ml_to m), ''Subject: '' @ ml_subject m, ''Date: '' @ date]
    @ header_lines (ml_text m)"
proof -
  have "\<not> list_ex has_crlf rs \<Longrightarrow> \<not> has_crlf (join_with '', '' rs)" for rs
    by (induction "'', ''" rs rule: join_with.induct) auto
  then have "\<not> has_crlf (''To: '' @ join_with '', '' (ml_to m))" using assms(1) by (simp add: check_mail_Inr)
  moreover have "\<not> has_crlf (''From: '' @ ml_from m)" "\<not> has_crlf (''Subject: '' @ ml_subject m)" "\<not> has_crlf (''Date: '' @ date)"
    using assms by (simp_all add: check_mail_Inr)
  ultimately show ?thesis unfolding mail_header_def by (intro header_lines_four) simp_all
qed

end
