(* ===== verification/Dispatch.thy ===== *)
theory Dispatch
  imports Smtp
begin

text \<open>
  \<^verbatim>\<open>connectors/dispatch.mjs\<close>: how \<open>connectors\<close> and \<open>actions\<close> steps of a run reach a connector. The
  registry has three entries; each loads its contract from disk, builds the payload from the step and
  sends. The state joins that of the HTTP connectors with the sockets and writes of the mail connector;
  pins and database are shared.

  The lemmas show which steps can be dispatched at all, that no dispatched request carries a credential,
  and what becomes of a response when its step is read back.
\<close>

datatype dispatch_error =
    Missing_param string string
  | No_port string
  | No_target_host string
  | Param_has_crlf string
  | Params_malformed
  | Unknown_connector string "json option"
  | Unsupported_kind string
  | Contract_digest_mismatch "json option" string
  | Contract_failed egress_error
  | In_connector connector_error
  | In_smtp smtp_error
  | Dispatch_type_error

record dispatch_env =
  de_egress :: egress_env
  de_smtp :: smtp_env
  de_hmac :: "string \<Rightarrow> string \<Rightarrow> string"
  de_files :: "string \<Rightarrow> json option"
  de_now :: string

record 'd dispatch_state =
  ds_egress :: "'d egress_state"
  ds_sockets :: "(string \<times> string) list"
  ds_wire :: "wire list"

datatype dispatched = Sent_http send_result | Sent_mail json

definition requireParam :: "json option \<Rightarrow> string \<Rightarrow> string \<Rightarrow> dispatch_error + json" where
  "requireParam params key stepId =
     (case Option.bind params (\<lambda>p. js_index p key) of
        None \<Rightarrow> Inl (Missing_param stepId key)
      | Some v \<Rightarrow> if v = JNull \<or> v = JStr [] then Inl (Missing_param stepId key) else Inr v)"

definition splitHostPort :: "string \<Rightarrow> dispatch_error + string \<times> string" where
  \<comment> \<open>at the last colon\<close>
  "splitHostPort hostPort =
     (if CHR '':'' \<notin> set hostPort then Inl (No_port hostPort)
      else let port = rev (takeWhile (\<lambda>c. c \<noteq> CHR '':'') (rev hostPort))
           in Inr (take (length hostPort - length port - 1) hostPort, port))"

definition port_number :: "string \<Rightarrow> string" where
  \<comment> \<open>\<open>Number(port)\<close> as it is printed again; a text that is no decimal numeral counts as NaN\<close>
  "port_number p = (if p = [] then ''0'' else if list_all is_digit p then show_nat (read_nat p) else ''NaN'')"

definition param_crlf :: "json \<Rightarrow> bool" where
  "param_crlf v = has_crlf (js_string v)"

definition to_crlf :: "json \<Rightarrow> bool" where
  "to_crlf v = (case v of JArr xs \<Rightarrow> list_ex param_crlf xs | _ \<Rightarrow> param_crlf v)"

definition http_buildPayload :: "step \<Rightarrow> dispatch_error + http_payload" where
  "http_buildPayload s =
     (if \<not> js_truthy (jget (st_item s) ''target_host'') then Inl (No_target_host (st_id s))
      else Inr \<lparr>hp_url = ''https://'' @ js_template (jget (st_item s) ''target_host''), hp_method = ''GET'', hp_headers = [],
                hp_body = None, hp_scheme = None, hp_operation = None, hp_signing_secret = None\<rparr>)"

definition drive_buildPayload :: "step \<Rightarrow> dispatch_error + json" where
  "drive_buildPayload s = requireParam (st_params s) ''fileId'' (st_id s)"

definition smtp_buildPayload :: "json \<Rightarrow> step \<Rightarrow> dispatch_error + smtp_payload" where
  \<comment> \<open>recipients that are no array make the send throw; the manifest schema admits arrays only\<close>
  "smtp_buildPayload contract s =
     and_then (requireParam (st_params s) ''from'' (st_id s)) (\<lambda>from.
     and_then (requireParam (st_params s) ''to'' (st_id s)) (\<lambda>to.
     and_then (requireParam (st_params s) ''subject'' (st_id s)) (\<lambda>subject.
     and_then (requireParam (st_params s) ''text'' (st_id s)) (\<lambda>text.
       if param_crlf from \<or> to_crlf to \<or> param_crlf subject then Inl (Param_has_crlf (st_id s))
       else and_then (case jget contract ''allowed_hosts'' of
                        Some (JArr (JStr h # _)) \<Rightarrow> splitHostPort h | _ \<Rightarrow> Inl Dispatch_type_error) (\<lambda>(host, port).
            case to of
              JArr rs \<Rightarrow> Inr \<lparr>sm_host = host, sm_port = port_number port, sm_secure = None,
                           sm_mail = \<lparr>ml_from = js_string from, ml_to = map js_string rs, ml_subject = js_string subject,
                                      ml_text = js_string text\<rparr>\<rparr>
            | _ \<Rightarrow> Inl Params_malformed)))))"

definition REGISTRY :: "(string \<times> string) list" where
  \<comment> \<open>the connectors with the paths of their contracts\<close>
  "REGISTRY = [(HTTP_SEND_ID, ''http-send.contract.json''), (GOOGLE_DRIVE_FETCH_ID, ''google-drive-fetch.contract.json''),
               (SMTP_SEND_ID, ''smtp-send.contract.json'')]"

definition connectorIdFor :: "step \<Rightarrow> json option" where
  "connectorIdFor s = (if st_kind s = ''connectors'' then jget (st_item s) ''connector_id'' else jget (st_item s) ''type'')"

definition isKnownConnector :: "json option \<Rightarrow> bool" where
  "isKnownConnector connectorId \<longleftrightarrow> map_of REGISTRY (js_template connectorId) \<noteq> None"

definition requireEntry :: "json option \<Rightarrow> string \<Rightarrow> dispatch_error + string \<times> string" where
  \<comment> \<open>names that \<open>Object.prototype\<close> has fail as well, when their contract cannot be read\<close>
  "requireEntry connectorId stepId =
     (case map_of REGISTRY (js_template connectorId) of
        None \<Rightarrow> Inl (Unknown_connector stepId connectorId) | Some path \<Rightarrow> Inr (js_template connectorId, path))"

definition step_context :: "dispatch_env \<Rightarrow> json option \<Rightarrow> string \<Rightarrow> contract_file \<Rightarrow> send_context" where
  "step_context env workflowManifestDigest runId cf =
     \<lparr>sx_run_id = Some (JStr runId), sx_manifest_digest = workflowManifestDigest, sx_contract = cf_contract cf,
      sx_contract_digest = cf_digest cf, sx_now = de_now env, sx_classification = None\<rparr>"

definition initial_slice :: vault_slice where
  \<comment> \<open>\<open>connector.init({})\<close>\<close>
  "initial_slice = Some (JObj [])"

definition send_http :: "dispatch_env \<Rightarrow> send_context \<Rightarrow> step \<Rightarrow> 'a journal_db_scheme dispatch_state \<Rightarrow>
    (dispatch_error + dispatched) \<times> 'a journal_db_scheme dispatch_state" where
  "send_http env x s st =
     (case http_buildPayload s of
        Inl e \<Rightarrow> (Inl e, st)
      | Inr p \<Rightarrow> (case createHttpConnector (de_egress env) (de_hmac env) 0 x initial_slice p (ds_egress st) of
                    (Inl e, es) \<Rightarrow> (Inl (In_connector e), st\<lparr>ds_egress := es\<rparr>)
                  | (Inr r, es) \<Rightarrow> (Inr (Sent_http r), st\<lparr>ds_egress := es\<rparr>)))"

definition send_drive :: "dispatch_env \<Rightarrow> send_context \<Rightarrow> step \<Rightarrow> 'a journal_db_scheme dispatch_state \<Rightarrow>
    (dispatch_error + dispatched) \<times> 'a journal_db_scheme dispatch_state" where
  "send_drive env x s st =
     (case drive_buildPayload s of
        Inl e \<Rightarrow> (Inl e, st)
      | Inr fileId \<Rightarrow> (case createGoogleDriveFetchConnector (de_egress env) x initial_slice fileId (ds_egress st) of
                         (Inl e, es) \<Rightarrow> (Inl (In_connector e), st\<lparr>ds_egress := es\<rparr>)
                       | (Inr r, es) \<Rightarrow> (Inr (Sent_http r), st\<lparr>ds_egress := es\<rparr>)))"

definition send_smtp :: "dispatch_env \<Rightarrow> send_context \<Rightarrow> step \<Rightarrow> 'a journal_db_scheme dispatch_state \<Rightarrow>
    (dispatch_error + dispatched) \<times> 'a journal_db_scheme dispatch_state" where
  "send_smtp env x s st =
     (case smtp_buildPayload (sx_contract x) s of
        Inl e \<Rightarrow> (Inl e, st)
      | Inr p \<Rightarrow>
          (let (r, ss) = createSmtpConnector (de_smtp env) x initial_slice p
                 \<lparr>ss_pins = es_pins (ds_egress st), ss_sockets = ds_sockets st, ss_wire = ds_wire st, ss_db = es_db (ds_egress st)\<rparr>
           in (map_sum In_smtp Sent_mail r,
               \<lparr>ds_egress = (ds_egress st)\<lparr>es_pins := ss_pins ss, es_db := ss_db ss\<rparr>,
                ds_sockets = ss_sockets ss, ds_wire = ss_wire ss\<rparr>)))"

definition runConnectorStep ::
  "dispatch_env \<Rightarrow> json option \<Rightarrow> step \<Rightarrow> json option \<Rightarrow> string \<Rightarrow> 'a journal_db_scheme dispatch_state \<Rightarrow>
   (dispatch_error + dispatched) \<times> 'a journal_db_scheme dispatch_state" where
  "runConnectorStep env workflowManifestDigest s connectorId runId st =
     (case requireEntry connectorId (st_id s) of
        Inl e \<Rightarrow> (Inl e, st)
      | Inr (name, path) \<Rightarrow>
          (case loadContract (ee_sha (de_egress env)) (de_files env) path of
             Inl e \<Rightarrow> (Inl (Contract_failed e), st)
           | Inr cf \<Rightarrow>
               let pinned = jget (st_item s) ''contract_digest''; x = step_context env workflowManifestDigest runId cf
               in if js_truthy pinned \<and> pinned \<noteq> Some (JStr (cf_digest cf))
                  then (Inl (Contract_digest_mismatch pinned (cf_digest cf)), st)
                  else if name = HTTP_SEND_ID then send_http env x s st
                  else if name = GOOGLE_DRIVE_FETCH_ID then send_drive env x s st
                  else send_smtp env x s st))"

definition dispatch ::
  "dispatch_env \<Rightarrow> json option \<Rightarrow> step \<Rightarrow> string \<Rightarrow> 'a journal_db_scheme dispatch_state \<Rightarrow>
   (dispatch_error + dispatched) \<times> 'a journal_db_scheme dispatch_state" where
  "dispatch env workflowManifestDigest s runId st =
     (if st_kind s \<noteq> ''connectors'' \<and> st_kind s \<noteq> ''actions'' then (Inl (Unsupported_kind (st_kind s)), st)
      else if st_item s = JNull then (Inl Dispatch_type_error, st)
      else runConnectorStep env workflowManifestDigest s (connectorIdFor s) runId st)"

definition dispatch_canDispatch :: "step \<Rightarrow> bool" where
  "dispatch_canDispatch s \<longleftrightarrow>
     (st_kind s = ''connectors'' \<or> st_kind s = ''actions'') \<and> isKnownConnector (connectorIdFor s)"

definition dispatched_json :: "dispatched \<Rightarrow> json" where
  \<comment> \<open>the output of the step as \<open>JSON.stringify\<close> writes it; a \<open>Buffer\<close> becomes its type and bytes.
      Only \<open>http.send\<close> answers with a payload, since the drive connector never gets that far.\<close>
  "dispatched_json d =
     (case d of
        Sent_mail a \<Rightarrow> JObj [(''attestation'', a)]
      | Sent_http r \<Rightarrow> JObj [(''attestation'', sd_attestation r),
            (''payload'', JObj [(''type'', JStr ''Buffer''), (''data'', JArr (map (\<lambda>c. JNum (of_char c)) (sd_payload r)))]),
            (''status'', JNum (sd_status r))])"

definition createConnectorStepDispatcher ::
  "dispatch_env \<Rightarrow> json option \<Rightarrow> (dispatch_error \<Rightarrow> string) \<Rightarrow> ('a run_db_scheme) other_runner" where
  "createConnectorStepDispatcher env workflowManifestDigest message =
     \<lparr>or_run = (\<lambda>s prior runId db.
        let (r, st) = dispatch env workflowManifestDigest s runId
              \<lparr>ds_egress = \<lparr>es_pins = [], es_conns = [], es_db = db\<rparr>, ds_sockets = [], ds_wire = []\<rparr>
        in (map_sum message dispatched_json r, es_db (ds_egress st))),
      or_can_dispatch = Some dispatch_canDispatch\<rparr>"

subsection \<open>Which steps can be dispatched\<close>

lemma slice_ref_initial [simp]: "slice_ref initial_slice k = None"
  by (simp add: slice_ref_def initial_slice_def jget_opt_def)

lemma drive_always_fails:
  "\<exists>e. fst (send_drive env x s st) = Inl e" "snd (send_drive env x s st) = st"
  by (simp_all add: send_drive_def createGoogleDriveFetchConnector_def split: sum.split)

text \<open>The dispatch predicate that dry runs consult is sound for refusal and not for acceptance: a step
  it rejects fails in the real run without touching anything, but a \<open>google-drive.fetch\<close> step that it accepts
  fails in every real run as well, whatever the environment, since the connector is initialised with an
  empty vault slice.\<close>

theorem dispatch_predicate_and_real_run:
  assumes "connectorIdFor s' = Some (JStr GOOGLE_DRIVE_FETCH_ID)"
  shows "(dispatch_canDispatch s \<or> (\<exists>e. dispatch env wmd s runId st = (Inl e, st)))
    \<and> (\<exists>e. dispatch env wmd s' runId st = (Inl e, st))"
proof
  show "dispatch_canDispatch s \<or> (\<exists>e. dispatch env wmd s runId st = (Inl e, st))"
    by (auto simp: dispatch_canDispatch_def dispatch_def runConnectorStep_def requireEntry_def isKnownConnector_def split: option.splits)
  have n: "GOOGLE_DRIVE_FETCH_ID \<noteq> HTTP_SEND_ID" by (simp add: GOOGLE_DRIVE_FETCH_ID_def HTTP_SEND_ID_def)
  then have e: "requireEntry (connectorIdFor s') (st_id s') = Inr (GOOGLE_DRIVE_FETCH_ID, ''google-drive-fetch.contract.json'')"
    by (simp add: assms requireEntry_def REGISTRY_def)
  have "\<exists>e. send_drive env x s' st = (Inl e, st)" for x
    using drive_always_fails [of env x s' st] by (cases "send_drive env x s' st") auto
  then have "\<exists>e. runConnectorStep env wmd s' (connectorIdFor s') runId st = (Inl e, st)"
    using n by (auto simp: runConnectorStep_def e Let_def split: sum.split)
  then show "\<exists>e. dispatch env wmd s' runId st = (Inl e, st)" by (auto simp: dispatch_def)
qed

definition closed_network :: dispatch_env where
  \<comment> \<open>no name resolves, no request is answered, no file is there\<close>
  "closed_network =
     \<lparr>de_egress = \<lparr>ee_sha = (\<lambda>s. s), ee_parse_url = (\<lambda>_. None), ee_join_url = (\<lambda>_ _. None), ee_resolve = (\<lambda>_ _. None),
        ee_lookup = (\<lambda>_ _ _. []), ee_fetch = (\<lambda>_ _. None), ee_body_ok = (\<lambda>_ _. False),
        ee_clock = (\<lambda>_. \<lparr>jc_entry = ''t'', jc_append = ''t''\<rparr>), ee_vault = (\<lambda>r. Inl (Store_unreadable r))\<rparr>,
      de_smtp = \<lparr>se_sha = (\<lambda>s. s), se_vault = (\<lambda>r. Inl (Store_unreadable r)), se_resolve = (\<lambda>_. None), se_connect = (\<lambda>_ _ _. None),
        se_clock = \<lparr>jc_entry = ''t'', jc_append = ''t''\<rparr>, se_date = ''d''\<rparr>,
      de_hmac = (\<lambda>_ _. []), de_files = (\<lambda>_. None), de_now = ''t''\<rparr>"

definition drive_step :: step where
  "drive_step = \<lparr>st_id = ''connectors:d'', st_kind = ''connectors'', st_item = JObj [(''connector_id'', JStr GOOGLE_DRIVE_FETCH_ID)],
     st_digest = JNull, st_seq = 0, st_bindings = None, st_params = None, st_resolved = None\<rparr>"

definition quiet_state :: "run_db dispatch_state" where
  "quiet_state = \<lparr>ds_egress = \<lparr>es_pins = [], es_conns = [], es_db = initRunTables\<rparr>, ds_sockets = [], ds_wire = []\<rparr>"

lemma dispatch_predicate_and_real_run_witness:
  "dispatch_canDispatch drive_step \<and> (\<exists>e. dispatch closed_network None drive_step ''r'' quiet_state = (Inl e, quiet_state))"
proof
  show "dispatch_canDispatch drive_step" by code_simp
  have "connectorIdFor drive_step = Some (JStr GOOGLE_DRIVE_FETCH_ID)"
    by (simp add: connectorIdFor_def drive_step_def)
  then show "\<exists>e. dispatch closed_network None drive_step ''r'' quiet_state = (Inl e, quiet_state)"
    using dispatch_predicate_and_real_run by blast
qed

subsection \<open>Reading a response back\<close>

text \<open>
  The digest of a step's output is taken over the value itself, of which a \<open>Buffer\<close> shows its bytes as
  members named by index; the stored text holds the form that \<open>JSON.stringify\<close> writes.
\<close>

definition enumerated_json :: "send_result \<Rightarrow> json" where
  "enumerated_json r = JObj [(''attestation'', sd_attestation r),
     (''payload'', JObj (map (\<lambda>(i, c). (show_nat i, JNum (of_char c))) (List.enumerate 0 (sd_payload r)))),
     (''status'', JNum (sd_status r))]"

definition saved_response :: "(string \<Rightarrow> string) \<Rightarrow> string \<Rightarrow> send_result \<Rightarrow> step_row" where
  \<comment> \<open>the row that \<open>saveStepResult\<close> writes for such an output\<close>
  "saved_response sha now r =
     \<lparr>sr_output = dispatched_json (Sent_http r), sr_output_digest = sha256ref (sha (recordCanonV1 (enumerated_json r))),
      sr_completed_at = now\<rparr>"

lemma canon_member:
  "cgCanonV1 (JObj kvs) = cgCanonV1 (JObj kvs') \<Longrightarrow> (k, v) \<in> set kvs \<Longrightarrow> k \<noteq> ''__proto__'' \<Longrightarrow>
   \<exists>v'. (k, v') \<in> set kvs' \<and> cgCanonV1 v = cgCanonV1 v'"
proof -
  assume e: "cgCanonV1 (JObj kvs) = cgCanonV1 (JObj kvs')" and m: "(k, v) \<in> set kvs" "k \<noteq> ''__proto__''"
  have "(k, cgCanonV1 v) \<in> set (canon_members (map (\<lambda>(k, v). (k, cgCanonV1 v)) kvs))"
    using m by (force simp: set_canon_members)
  then have "(k, cgCanonV1 v) \<in> set (canon_members (map (\<lambda>(k, v). (k, cgCanonV1 v)) kvs'))" using e by simp
  then show ?thesis by (auto simp: set_canon_members)
qed

lemma show_nat_not_type: "show_nat n \<noteq> ''type''"
proof
  assume "show_nat n = ''type''"
  then have "is_digit (CHR ''t'')" using show_nat_digits [of n] by simp
  then show False by (simp add: is_digit_def)
qed

lemma buffer_bytes_differ: "recordCanonV1 (dispatched_json (Sent_http r)) \<noteq> recordCanonV1 (enumerated_json r)"
proof
  let ?b = "JObj [(''type'', JStr ''Buffer''), (''data'', JArr (map (\<lambda>c. JNum (of_char c)) (sd_payload r)))]"
  let ?e = "map (\<lambda>(i, c). (show_nat i, JNum (of_char c))) (List.enumerate 0 (sd_payload r)) :: (string \<times> json) list"
  assume "recordCanonV1 (dispatched_json (Sent_http r)) = recordCanonV1 (enumerated_json r)"
  then have "cgCanonV1 (dispatched_json (Sent_http r)) = cgCanonV1 (enumerated_json r)" by (simp add: recordCanonV1_eq_iff)
  then have c: "cgCanonV1 (JObj [(''attestation'', sd_attestation r), (''payload'', ?b), (''status'', JNum (sd_status r))])
      = cgCanonV1 (JObj [(''attestation'', sd_attestation r), (''payload'', JObj ?e), (''status'', JNum (sd_status r))])"
    by (simp only: dispatched_json_def enumerated_json_def dispatched.case)
  have "cgCanonV1 ?b = cgCanonV1 (JObj ?e)" using canon_member [OF c, of "''payload''" ?b] by simp
  from canon_member [OF this, of "''type''" "JStr ''Buffer''"] obtain v where "(''type'', v) \<in> set ?e" by auto
  then obtain i where "show_nat i = ''type''" by auto
  then show False by (simp add: show_nat_not_type)
qed


definition sample_response :: send_result where
  "sample_response = \<lparr>sd_attestation = JNull, sd_payload = ''ok'', sd_status = 200\<rparr>"


text \<open>No dispatched request carries a credential: the slice a step's connector is initialised with is empty.\<close>

lemma dispatched_http_has_no_credential:
  "http_buildPayload s = Inr p \<Longrightarrow>
   createHttpConnector env hmac ts x initial_slice p st =
     egress_then env \<lparr>rq_contract = sx_contract x, rq_connector = HTTP_SEND_ID, rq_method = ''GET'', rq_headers = [], rq_body = None\<rparr>
       (hp_url p) None x HTTP_SEND_ID (JStr ''http.send'') st"
  by (auto simp: http_buildPayload_def createHttpConnector_def http_headers_def initial_slice_def slice_ref_def jget_opt_def split: if_splits)

end
