(* ===== verification/Event_Bus.thy ===== *)
theory Event_Bus
  imports Js_Values
begin

text \<open>
  \<^verbatim>\<open>hub/event-bus.mjs\<close>: the publication of run events inside the daemon. \<open>bus_handlers\<close> are the
  listeners in the order of registration (a number stands for a handler function, the run id for the
  event name), \<open>bus_seen\<close> records every call of a handler.
\<close>

record bus =
  lastEventByRun :: "(string, json) tbl"
  bus_handlers :: "(nat \<times> string) list"
  bus_seen :: "(nat \<times> string \<times> json) list"

definition empty_bus :: bus where
  "empty_bus = \<lparr>lastEventByRun = [], bus_handlers = [], bus_seen = []\<rparr>"

definition publishRunEvent :: "string \<Rightarrow> json \<Rightarrow> bus \<Rightarrow> bus" where
  "publishRunEvent runId data b =
     b\<lparr>lastEventByRun := tbl_upsert runId data (lastEventByRun b),
       bus_seen := bus_seen b @ map (\<lambda>(h, r). (h, r, data)) (filter (\<lambda>(h, r). r = runId) (bus_handlers b))\<rparr>"

definition subscribeRunEvents :: "string \<Rightarrow> nat \<Rightarrow> bus \<Rightarrow> bus" where
  "subscribeRunEvents runId handler b =
     b\<lparr>bus_handlers := bus_handlers b @ [(handler, runId)],
       bus_seen := bus_seen b @
         (case tbl_get (lastEventByRun b) runId of
            Some e \<Rightarrow> if js_truthy (Some e) then [(handler, runId, e)] else []
          | None \<Rightarrow> [])\<rparr>"

definition unsubscribe :: "string \<Rightarrow> nat \<Rightarrow> bus \<Rightarrow> bus" where
  \<comment> \<open>\<open>bus.off\<close> takes away the registration made last\<close>
  "unsubscribe runId handler b =
     b\<lparr>bus_handlers := rev (remove1 (handler, runId) (rev (bus_handlers b)))\<rparr>"

subsection \<open>Histories\<close>

inductive bus_step :: "bus \<Rightarrow> bus \<Rightarrow> bool" where
  published: "bus_step b (publishRunEvent runId data b)"
| subscribed: "bus_step b (subscribeRunEvents runId handler b)"
| unsubscribed: "bus_step b (unsubscribe runId handler b)"

inductive_cases bus_stepE: "bus_step b b'"

definition seen_by :: "bus \<Rightarrow> nat \<Rightarrow> string \<Rightarrow> json list" where
  "seen_by b h runId = map (snd \<circ> snd) (filter (\<lambda>(h', r, _). h' = h \<and> r = runId) (bus_seen b))"

definition caught_up :: "bus \<Rightarrow> bool" where
  "caught_up b \<longleftrightarrow>
     (\<forall>(h, runId) \<in> set (bus_handlers b). \<forall>e. tbl_get (lastEventByRun b) runId = Some e \<longrightarrow> js_truthy (Some e) \<longrightarrow>
        seen_by b h runId \<noteq> [] \<and> last (seen_by b h runId) = e)"

lemma seen_by_publish:
  "seen_by (publishRunEvent runId data b) h r
     = seen_by b h r @ (if r = runId then replicate (count_list (bus_handlers b) (h, r)) data else [])"
proof -
  have "map (snd \<circ> snd) (filter (\<lambda>(h', r', _). h' = h \<and> r' = r)
            (map (\<lambda>(h, r). (h, r, data)) (filter (\<lambda>(h, r). r = runId) hs)))
        = (if r = runId then replicate (count_list hs (h, r)) data else [])" for hs
    by (induction hs) auto
  then show ?thesis by (simp add: seen_by_def publishRunEvent_def)
qed

lemma seen_by_subscribe:
  "seen_by (subscribeRunEvents runId h b) h' r =
     seen_by b h' r @ (if h' = h \<and> r = runId
                       then (case tbl_get (lastEventByRun b) runId of
                               Some e \<Rightarrow> if js_truthy (Some e) then [e] else [] | None \<Rightarrow> [])
                       else [])"
  by (auto simp: seen_by_def subscribeRunEvents_def split: option.split)

lemma caught_up_publish: "caught_up b \<Longrightarrow> caught_up (publishRunEvent runId data b)"
  unfolding caught_up_def seen_by_publish
proof (intro ballI, clarify)
  fix h r e
  assume inv: "\<forall>(h, runId) \<in> set (bus_handlers b). \<forall>e. tbl_get (lastEventByRun b) runId = Some e \<longrightarrow> js_truthy (Some e) \<longrightarrow>
        seen_by b h runId \<noteq> [] \<and> last (seen_by b h runId) = e"
    and mem: "(h, r) \<in> set (bus_handlers (publishRunEvent runId data b))"
    and e: "tbl_get (lastEventByRun (publishRunEvent runId data b)) r = Some e" "js_truthy (Some e)"
  have m: "(h, r) \<in> set (bus_handlers b)" using mem by (simp add: publishRunEvent_def)
  show "seen_by b h r @ (if r = runId then replicate (count_list (bus_handlers b) (h, r)) data else []) \<noteq> []
        \<and> last (seen_by b h r @ (if r = runId then replicate (count_list (bus_handlers b) (h, r)) data else [])) = e"
  proof (cases "r = runId")
    case True
    with m have "count_list (bus_handlers b) (h, r) \<noteq> 0" by (simp add: count_list_0_iff)
    with True e show ?thesis by (simp add: publishRunEvent_def)
  next
    case False
    with e m inv show ?thesis by (auto simp: publishRunEvent_def)
  qed
qed

lemma caught_up_subscribe: "caught_up b \<Longrightarrow> caught_up (subscribeRunEvents runId h b)"
  unfolding caught_up_def seen_by_subscribe by (auto simp: subscribeRunEvents_def)

lemma caught_up_unsubscribe: "caught_up b \<Longrightarrow> caught_up (unsubscribe runId h b)"
proof -
  have "set (rev (remove1 p (rev xs))) \<subseteq> set xs" for p and xs :: "(nat \<times> string) list"
    using set_remove1_subset [of p "rev xs"] by simp
  then show "caught_up b \<Longrightarrow> caught_up (unsubscribe runId h b)"
    unfolding caught_up_def by (fastforce simp: unsubscribe_def seen_by_def)
qed

lemma reachable_caught_up: "bus_step\<^sup>*\<^sup>* empty_bus b \<Longrightarrow> caught_up b"
proof (induction rule: rtranclp_induct)
  case base
  then show ?case by (simp add: caught_up_def empty_bus_def)
next
  case (step b b')
  from step.hyps(2) step.IH show ?case
    by (elim bus_stepE) (auto intro: caught_up_publish caught_up_subscribe caught_up_unsubscribe)
qed


definition sample_bus :: bus where
  "sample_bus = subscribeRunEvents ''r'' 7 (publishRunEvent ''r'' (JObj [(''state'', JStr ''completed'')]) empty_bus)"


end
