(* ===== verification/Run_Actions.thy ===== *)
theory Run_Actions
  imports Packs Ha_Gate Dispatch Event_Bus
begin

text \<open>
  \<^verbatim>\<open>hub/run-actions.mjs\<close>: the one way a run is started, for the REST route and for the agent tools.
  \<open>startWorkflowRun\<close> checks the request and builds what the engine is called with (\<open>run_request\<close>); the
  execution that follows without being awaited is \<open>finish_run_request\<close>. The pack catalogue is the one
  already loaded. The state adds the event bus and the count of runs in flight to the database; a run is
  executed as a whole.
\<close>

datatype action_error =
    Engine_unavailable
  | Inputs_not_an_object
  | Template_not_found
  | Workflow_not_found
  | Missing_workflow_id
  | Inputs_refused string string
  | Kernel_raised kernel_error
  | Digest_raised run_error
  | Pack_raised pack_error
  | Action_type_error

record hub_db = ha_db +
  hub_bus :: bus
  runsInFlight :: int

record action_env =
  ae_kernels :: kernel_env
  ae_dispatch :: dispatch_env
  ae_catalog :: catalog
  ae_templates :: "json list"
  ae_override :: "(json option \<Rightarrow> json option) option"
  ae_clk :: "clock_reading \<Rightarrow> string"
  ae_now :: string
  ae_dates :: "string \<Rightarrow> int option"
  ae_say_kernel :: "kernel_error \<Rightarrow> string"
  ae_say_dispatch :: "dispatch_error \<Rightarrow> string"
  ae_say_gate :: "ha_gate_error \<Rightarrow> string"
  ae_say_held :: "held_gate \<Rightarrow> string"

subsection \<open>The manifest of a run\<close>

definition getRunsInFlightCount :: "'a hub_db_scheme \<Rightarrow> int" where
  "getRunsInFlightCount db = runsInFlight db"

definition pack_manifest :: "action_env \<Rightarrow> json option \<Rightarrow> action_error + json" where
  "pack_manifest ae workflowId =
     (case map_get workflowId (ae_catalog ae) of
        None \<Rightarrow> Inl Workflow_not_found
      | Some pack \<Rightarrow> map_sum Pack_raised id (manifest_of pack))"

definition resolveRunManifest :: "action_env \<Rightarrow> json option \<Rightarrow> json option \<Rightarrow> action_error + json option \<times> json" where
  "resolveRunManifest ae workflowId templateSlug =
     (let overridden = (if \<not> js_truthy templateSlug \<and> js_truthy workflowId
                        then Option.bind (ae_override ae) (\<lambda>f. f workflowId) else None)
      in if js_truthy overridden then Inr (workflowId, the overridden)
         else if js_truthy templateSlug then
           (case getTemplate (ae_templates ae) templateSlug of
              None \<Rightarrow> Inl Template_not_found
            | Some template \<Rightarrow>
                (case buildTemplateManifest (ae_catalog ae) template of
                   Inl e \<Rightarrow> Inl (Pack_raised e)
                 | Inr None \<Rightarrow> Inl Workflow_not_found
                 | Inr (Some m) \<Rightarrow> Inr (jget template ''workflow_id'', m)))
         else if \<not> js_truthy workflowId then Inl Missing_workflow_id
         else and_then (pack_manifest ae workflowId) (\<lambda>m. Inr (workflowId, m)))"

definition supply_node :: "kernel_env \<Rightarrow> json \<Rightarrow> json \<Rightarrow> action_error + json" where
  "supply_node ke inputs node =
     (case js_index inputs (node_key node) of
        None \<Rightarrow> Inr node
      | Some supplied \<Rightarrow>
          (case validateKernelInputs ke (jget node ''kernel_id'') (Some supplied) of
             Inl e \<Rightarrow> Inl (Kernel_raised e)
           | Inr (Some m) \<Rightarrow> Inl (Inputs_refused (node_key node) m)
           | Inr None \<Rightarrow> Inr (js_with node ''policy_parameters'' supplied)))"

definition applyInputs :: "kernel_env \<Rightarrow> json \<Rightarrow> json option \<Rightarrow> action_error + json" where
  "applyInputs ke manifest inputs =
     (case inputs of None \<Rightarrow> Inr manifest | Some i \<Rightarrow> map_nodes Action_type_error (supply_node ke i) manifest)"

subsection \<open>The checks before a step\<close>

type_synonym 'a gate_fun =
  "step \<Rightarrow> string option \<Rightarrow> json option \<Rightarrow> string \<Rightarrow> 'a run_db_scheme \<Rightarrow> string + string option"

definition missing_reason :: "json \<Rightarrow> string \<Rightarrow> string" where
  "missing_reason item m =
     ''awaiting_data: node '' @ quote_str (node_key item) @ '' needs policy_parameters ('' @ m @ '')''"

definition missingDataGateCheck :: "action_env \<Rightarrow> string list \<Rightarrow> 'a gate_fun" where
  "missingDataGateCheck ae suppliedNodeIds = (\<lambda>s prior priorOutput runId db.
     (if st_kind s \<noteq> ''nodes'' \<or> jget (st_item s) ''node_id'' \<in> Some ` JStr ` set suppliedNodeIds then Inr None
      else case validateKernelInputs (ae_kernels ae) (jget (st_item s) ''kernel_id'') (jget (st_item s) ''policy_parameters'') of
             Inl e \<Rightarrow> Inl (ae_say_kernel ae e)
           | Inr None \<Rightarrow> Inr None
           | Inr (Some m) \<Rightarrow> Inr (Some (missing_reason (st_item s) m))))"

fun composeGateChecks :: "'a gate_fun list \<Rightarrow> 'a gate_fun" where
  "composeGateChecks [] = (\<lambda>s prior priorOutput runId db. Inr None)"
| "composeGateChecks (check # checks) = (\<lambda>s prior priorOutput runId db.
     (case check s prior priorOutput runId db of
        Inl e \<Rightarrow> Inl e
      | Inr (Some reason) \<Rightarrow> Inr (Some reason)
      | Inr None \<Rightarrow> composeGateChecks checks s prior priorOutput runId db))"

definition ha_check :: "action_env \<Rightarrow> 'a ha_db_ext gate_fun" where
  "ha_check ae = gate_callback (ae_say_gate ae) (ae_say_held ae) (ae_dates ae) (ae_now ae)"

subsection \<open>The runner\<close>

definition publish_in :: "string \<Rightarrow> json \<Rightarrow> 'a hub_db_scheme \<Rightarrow> 'a hub_db_scheme" where
  "publish_in runId e db = db\<lparr>hub_bus := publishRunEvent runId e (hub_bus db)\<rparr>"

definition step_event :: "string \<Rightarrow> step \<Rightarrow> json" where
  "step_event runId s = JObj [(''run_id'', JStr runId), (''state'', JStr ''running''), (''step_id'', JStr (st_id s))]"

definition announcing ::
  "string \<Rightarrow> (step \<Rightarrow> string option \<Rightarrow> string \<Rightarrow> 'a hub_db_scheme \<Rightarrow> (string + json) \<times> 'a hub_db_scheme) \<Rightarrow>
   step \<Rightarrow> string option \<Rightarrow> string \<Rightarrow> 'a hub_db_scheme \<Rightarrow> (string + json) \<times> 'a hub_db_scheme" where
  \<comment> \<open>the wrapper around the kernel step runner: an event after every step that succeeds\<close>
  "announcing runId f s prior r db =
     (case f s prior r db of
        (Inl e, db1) \<Rightarrow> (Inl e, db1)
      | (Inr out, db1) \<Rightarrow> (Inr out, publish_in runId (step_event runId s) db1))"

definition bare_env :: "action_env \<Rightarrow> 'a run_env" where
  "bare_env ae = \<lparr>re_sha = ke_sha (ae_kernels ae), re_clk = ae_clk ae, re_runner = (\<lambda>s prior r db. (Inl [], db)),
                  re_can_dispatch = None, re_gate = None\<rparr>"

definition announced_env ::
  "action_env \<Rightarrow> 'a hub_db_scheme other_runner option \<Rightarrow> string \<Rightarrow> 'a hub_db_ext ha_db_ext gate_fun \<Rightarrow> 'a hub_db_ext ha_db_ext run_env" where
  \<comment> \<open>the runner with its predicate, wrapped, and the gate check\<close>
  "announced_env ae other runId gate =
     (let env = createKernelStepRunner (ae_kernels ae) (ae_now ae) (ae_say_kernel ae) other (bare_env ae)
      in env\<lparr>re_runner := announcing runId (re_runner env), re_gate := Some gate\<rparr>)"

subsection \<open>Starting a run\<close>

record 'a run_request =
  rq_run_id :: string
  rq_manifest :: json
  rq_dry_run :: bool
  rq_env :: "'a hub_db_ext ha_db_ext run_env"

definition other_runner_for :: "action_env \<Rightarrow> json option \<Rightarrow> string \<Rightarrow> 'a hub_db_scheme other_runner option" where
  "other_runner_for ae callerOrigin workflowManifestDigest =
     (if callerOrigin = Some (JStr ''ui'')
      then Some (createConnectorStepDispatcher (ae_dispatch ae) (Some (JStr workflowManifestDigest)) (ae_say_dispatch ae))
      else None)"

definition startWorkflowRun ::
  "action_env \<Rightarrow> bool \<Rightarrow> string \<Rightarrow> json option \<Rightarrow> json option \<Rightarrow> json option \<Rightarrow> json option \<Rightarrow> json option \<Rightarrow>
   action_error + 'a run_request" where
  \<comment> \<open>\<open>runId\<close> is the identifier that \<open>randomUUID\<close> draws; \<open>engine\<close> says whether there is a database\<close>
  "startWorkflowRun ae engine runId workflowId templateSlug dryRun inputs callerOrigin =
     and_then (guard_err engine Engine_unavailable) (\<lambda>_.
     and_then (guard_err (case inputs of None \<Rightarrow> True | Some (JObj _) \<Rightarrow> True | _ \<Rightarrow> False) Inputs_not_an_object) (\<lambda>_.
     and_then (resolveRunManifest ae workflowId templateSlug) (\<lambda>(_, resolved).
     and_then (applyInputs (ae_kernels ae) resolved inputs) (\<lambda>manifest.
     and_then (map_sum Digest_raised id (manifestDigest (ke_sha (ae_kernels ae)) manifest)) (\<lambda>wmd.
       Inr \<lparr>rq_run_id = runId, rq_manifest = manifest, rq_dry_run = js_truthy dryRun,
            rq_env = announced_env ae (other_runner_for ae callerOrigin wmd) runId
                       (composeGateChecks [missingDataGateCheck ae (js_keys inputs), ha_check ae])\<rparr>)))))"

definition outcome_event :: "string \<Rightarrow> run_outcome \<Rightarrow> json" where
  "outcome_event runId result =
     JObj (opt_members
       [(''run_id'', Some (JStr runId)), (''state'', map_option (JStr \<circ> state_name) (ro_state result)),
        (''execution_hash'', Some (case ro_execution_hash result of None \<Rightarrow> JNull | Some h \<Rightarrow> JStr h)),
        (''held'', Some (case ro_held result of None \<Rightarrow> JNull
                         | Some (sid, reason) \<Rightarrow> JObj [(''step_id'', JStr sid), (''reason'', JStr reason)]))])"

definition failure_event :: "string \<Rightarrow> string \<Rightarrow> json" where
  "failure_event runId m = JObj [(''run_id'', JStr runId), (''state'', JStr ''failed''), (''error'', JStr m)]"

definition finish_run_request ::
  "(run_error \<Rightarrow> string) \<Rightarrow> 'a run_request \<Rightarrow> 'a hub_db_scheme \<Rightarrow> 'a hub_db_scheme" where
  \<comment> \<open>the execution and the three callbacks on its promise\<close>
  "finish_run_request message rq db =
     (let (r, db1) = executeRun (rq_env rq) (rq_run_id rq) (rq_manifest rq) (rq_dry_run rq) []
                       (db\<lparr>runsInFlight := runsInFlight db + 1\<rparr>);
          db2 = publish_in (rq_run_id rq)
                  (case r of Inr result \<Rightarrow> outcome_event (rq_run_id rq) result
                           | Inl e \<Rightarrow> failure_event (rq_run_id rq) (message e)) db1
      in db2\<lparr>runsInFlight := runsInFlight db2 - 1\<rparr>)"

subsection \<open>What a run leaves alone\<close>

text \<open>
  The interface between the engine and whoever extends its database: a relation that holds between
  databases with the same extension, is transitive and holds across a call of the step runner holds across
  a whole run.
\<close>

locale run_frame =
  fixes rel :: "'a run_db_scheme \<Rightarrow> 'a run_db_scheme \<Rightarrow> bool"
    and env :: "'a run_env"
  assumes same_extension: "run_db.more db' = run_db.more db \<Longrightarrow> rel db db'"
    and rel_trans: "rel db1 db2 \<Longrightarrow> rel db2 db3 \<Longrightarrow> rel db1 db3"
    and runner_step: "rel db (snd (re_runner env s prior r db))"
begin

lemma rel_refl: "rel db db"
  by (rule same_extension) simp

lemma transition_step: "rel db (snd (transitionState sha clk runId wmd humans a b db))"
  by (rule same_extension) (auto simp: transitionState_def appendEntry_cases Let_def split: prod.split sum.split)

lemma transition_to: "transitionState sha clk runId wmd humans a b db = (r, db') \<Longrightarrow> rel db db'"
  using transition_step [of db sha clk runId wmd humans a b] by simp

lemma transitions_step: "rel db (snd (transitions env runId wmd humans ts db))"
proof (induction ts arbitrary: db)
  case Nil
  show ?case by (simp add: rel_refl)
next
  case (Cons t ts)
  obtain a b where t: "t = (a, b)" by (cases t)
  obtain r db1 where tr: "transitionState (re_sha env) (re_clk env) runId wmd humans a b db = (r, db1)" by fastforce
  then have "rel db db1" by (rule transition_to)
  with Cons.IH [of db1] show ?case by (cases r) (auto simp: t tr intro: rel_trans)
qed

lemma invoke_step: "rel db (snd (invoke_runner env runId dryRun s prior db))"
  using runner_step [of db s prior runId] by (auto simp: invoke_runner_def rel_refl split: prod.split sum.split)

lemma save_step: "rel db (snd (saveStepResult sha now runId stepId d out db))"
  by (rule same_extension) (auto simp: saveStepResult_def Let_def split: sum.split)

lemma fresh_step_rel: "rel db (snd (fresh_step env runId wmd dryRun humans s resolved d prior priorOutput db))"
proof -
  let ?t = "case resolved of None \<Rightarrow> s | Some r \<Rightarrow> s\<lparr>st_resolved := Some r\<rparr>"
  obtain r1 db1 where i: "invoke_runner env runId dryRun ?t prior db = (r1, db1)" by fastforce
  have 1: "rel db db1" using invoke_step [of db runId dryRun ?t prior] i by simp
  have 2: "rel db db2" if "saveStepResult (re_sha env) now runId (st_id s) d out db1 = (r, db2)" for now out r db2
    using rel_trans [OF 1 save_step] that by (metis snd_conv)
  show ?thesis
    unfolding fresh_step_def i using 1 2 by (auto simp: rel_refl transition_to split: sum.split option.split prod.split)
qed

lemma run_steps_rel: "rel db (snd (run_steps env runId wmd dryRun humans steps prior priorOutput digests outs db))"
proof (induction steps arbitrary: prior priorOutput digests outs db)
  case Nil
  show ?case by (simp add: rel_refl)
next
  case (Cons s ss)
  show ?case
  proof (cases "step_inputs (re_sha env) runId dryRun db prior outs s")
    case (Inl e)
    then show ?thesis by (simp add: rel_refl)
  next
    case (Inr x)
    obtain resolved d memo where x: "x = (resolved, d, memo)" by (cases x)
    obtain r db1 where m: "(case memo of
        Some (output, outputDigest) \<Rightarrow> (Inr (Stepped output outputDigest), db)
      | None \<Rightarrow> fresh_step env runId wmd dryRun humans s resolved d prior priorOutput db) = (r, db1)" by fastforce
    have 1: "rel db db1"
      using m fresh_step_rel [of db runId wmd dryRun humans s resolved d prior priorOutput]
      by (auto simp: rel_refl split: option.splits)
    show ?thesis
    proof (cases r)
      case (Inl e)
      then show ?thesis using 1 by (simp add: Inr x m)
    next
      case ok: (Inr y)
      show ?thesis
        by (cases y) (simp_all add: Inr x m ok 1 rel_trans [OF 1 Cons.IH])
    qed
  qed
qed

lemma start_run_rel: "rel db (snd (start_run env runId wmd manifest dryRun humans db))"
proof -
  obtain r db1 where 1: "(if tbl_get (runs db) runId = None
         then transitions env runId wmd humans
                [(None, Draft), (Some Draft, Validated), (Some Validated, Queued)]
                (db\<lparr>runs := runs db @ [(runId,
                   \<lparr>rr_manifest_digest = wmd, rr_manifest = manifest, rr_dry_run = dryRun, rr_state = Draft,
                    rr_execution_hash = None, rr_created_at = re_clk env At_created\<rparr>)]\<rparr>)
         else (Inr (), db)) = (r, db1)" by fastforce
  have "rel db db1"
  proof (cases "tbl_get (runs db) runId = None")
    case True
    let ?db0 = "db\<lparr>runs := runs db @ [(runId, \<lparr>rr_manifest_digest = wmd, rr_manifest = manifest, rr_dry_run = dryRun,
        rr_state = Draft, rr_execution_hash = None, rr_created_at = re_clk env At_created\<rparr>)]\<rparr>"
    have "rel db ?db0" by (rule same_extension) simp
    moreover have "rel ?db0 db1" using 1 True transitions_step
      by (metis (no_types, lifting) snd_conv)
    ultimately show ?thesis by (rule rel_trans)
  next
    case False
    with 1 show ?thesis by (simp add: rel_refl)
  qed
  then show ?thesis
    unfolding start_run_def 1 Let_def prod.case
    by (auto intro: rel_trans [OF _ transitions_step] simp del: transitions.simps split: sum.split option.split)
qed

lemma finish_run_rel: "rel db (snd (finish_run env runId wmd humans digests db))"
proof -
  have "rel db db2"
    if "transitionState (re_sha env) (re_clk env) runId wmd humans (Some Running) Completed
          (db\<lparr>runs := tbl_update_where runId (\<lambda>r. r\<lparr>rr_execution_hash := Some h\<rparr>) (runs db)\<rparr>) = (r, db2)" for h r db2
    by (rule rel_trans [OF same_extension transition_to [OF that]]) simp
  then show ?thesis unfolding finish_run_def Let_def
    by (auto simp: rel_refl split: sum.split prod.split)
qed

lemma execute_steps_rel: "rel db (snd (execute_steps env runId wmd steps dryRun humans db))"
proof -
  obtain r db1 where r: "run_steps env runId wmd dryRun humans steps None None [] [] db = (r, db1)" by fastforce
  then have 1: "rel db db1" using run_steps_rel by (metis snd_conv)
  have 2: "rel db (snd (finish_run env runId wmd humans digests db1))" for digests
    by (rule rel_trans [OF 1 finish_run_rel])
  show ?thesis unfolding execute_steps_def r
    using 1 2 by (auto intro: rel_trans [OF 1 transition_to] split: sum.split prod.split option.split)
qed

lemma executeRun_rel: "rel db (snd (executeRun env runId manifest dryRun humans db))"
proof -
  have "rel db (snd (case start_run env runId wmd manifest dryRun humans db of
             (Inl e, db1) \<Rightarrow> (Inl e, db1)
           | (Inr _, db1) \<Rightarrow>
               (case currentState db1 runId of
                  Some Running \<Rightarrow> execute_steps env runId wmd steps dryRun humans db1
                | st \<Rightarrow>
                    (Inr \<lparr>ro_state = st,
                          ro_execution_hash = Option.bind (tbl_get (runs db1) runId) rr_execution_hash,
                          ro_steps = [], ro_held = None\<rparr>, db1))))" for wmd steps
  proof -
    obtain r db1 where r: "start_run env runId wmd manifest dryRun humans db = (r, db1)" by fastforce
    then have 1: "rel db db1" using start_run_rel by (metis snd_conv)
    have "rel db (snd (execute_steps env runId wmd steps dryRun humans db1))"
      by (rule rel_trans [OF 1 execute_steps_rel])
    with 1 show ?thesis unfolding r by (auto split: sum.split option.split run_state.split)
  qed
  then show ?thesis unfolding executeRun_def by (auto simp: rel_refl split: sum.split)
qed

end

text \<open>The database as far as a run without connectors leaves it alone: everything but the engine's tables and the bus.\<close>

definition hub_kept :: "'a hub_db_scheme \<Rightarrow> 'a hub_db_scheme \<Rightarrow> bool" where
  "hub_kept db db' \<longleftrightarrow>
     hub_db.more db' = hub_db.more db \<and> runsInFlight db' = runsInFlight db
     \<and> ha_records db' = ha_records db \<and> ha_slots db' = ha_slots db"

lemma announced_runner:
  "re_runner (announced_env ae other runId gate) = announcing runId
     (\<lambda>s prior r db. map_prod (map_sum (ae_say_kernel ae) id) id (stepRunner (ae_kernels ae) (ae_now ae) other s prior r db))"
  by (simp add: announced_env_def createKernelStepRunner_def Let_def)

lemma announced_dispatch:
  "re_can_dispatch (announced_env ae other runId gate) = Some (canDispatch other)"
  "re_gate (announced_env ae other runId gate) = Some gate"
  by (simp_all add: announced_env_def createKernelStepRunner_def Let_def)

lemma kernels_leave_database: "snd (stepRunner ke now None s prior r db) = db"
  by (simp add: stepRunner_def)

interpretation unattended: run_frame hub_kept "announced_env ae None runId gate" for ae runId gate
proof
  show "hub_kept db db'" if "run_db.more db' = run_db.more db" for db db' :: "'a hub_db_scheme"
    using that by (cases db; cases db') (simp add: hub_kept_def)
  show "hub_kept db1 db3" if "hub_kept db1 db2" "hub_kept db2 db3" for db1 db2 db3 :: "'a hub_db_scheme"
    using that by (simp add: hub_kept_def)
  show "hub_kept db (snd (re_runner (announced_env ae None runId gate) s prior r db))" for db :: "'a hub_db_scheme" and s prior r
    unfolding announced_runner announcing_def
    using kernels_leave_database [of "ae_kernels ae" "ae_now ae" s prior r db]
    by (cases "stepRunner (ae_kernels ae) (ae_now ae) None s prior r db")
       (auto simp: hub_kept_def publish_in_def split: sum.split)
qed

subsection \<open>Who may dispatch, and what a run waits for\<close>

lemma start_Inr:
  assumes "startWorkflowRun ae engine runId workflowId templateSlug dryRun inputs callerOrigin = Inr rq"
  obtains manifest wmd where
    "rq = \<lparr>rq_run_id = runId, rq_manifest = manifest, rq_dry_run = js_truthy dryRun,
           rq_env = announced_env ae (other_runner_for ae callerOrigin wmd) runId
                      (composeGateChecks [missingDataGateCheck ae (js_keys inputs), ha_check ae])\<rparr>"
  using assms by (auto simp: startWorkflowRun_def split: prod.splits)

text \<open>C29. A run that was not started by the user interface cannot reach a connector: its runner refuses every
  step that is neither a node nor an attested artifact without touching the database, its predicate says so to
  a dry run, the connectors the daemon has make no difference to the request, and whatever the run does, the
  stored evidence and the count of runs in flight are as before once it ended.\<close>

theorem agent_run_cannot_dispatch:
  fixes db :: "'a hub_db_scheme"
  assumes "startWorkflowRun ae engine runId workflowId templateSlug dryRun inputs callerOrigin = Inr rq"
    and "callerOrigin \<noteq> Some (JStr ''ui'')"
    and "st_kind s \<noteq> ''nodes''" and "st_kind s \<noteq> ''attested_artifacts''"
  shows "(\<exists>m. re_runner (rq_env rq) s prior r db = (Inl m, db))
    \<and> (\<exists>can. re_can_dispatch (rq_env rq) = Some can \<and> \<not> can s)
    \<and> startWorkflowRun (ae\<lparr>ae_dispatch := d\<rparr>) engine runId workflowId templateSlug dryRun inputs callerOrigin = Inr rq
    \<and> hub_kept db (finish_run_request message rq db)"
proof -
  obtain manifest wmd where rq: "rq = \<lparr>rq_run_id = runId, rq_manifest = manifest, rq_dry_run = js_truthy dryRun,
      rq_env = announced_env ae (other_runner_for ae callerOrigin wmd) runId
                 (composeGateChecks [missingDataGateCheck ae (js_keys inputs), ha_check ae])\<rparr>"
    using start_Inr [OF assms(1)] .
  have none: "other_runner_for a callerOrigin w = None" for a w using assms(2) by (simp add: other_runner_for_def)
  have 1: "\<exists>m. re_runner (rq_env rq) s prior r db = (Inl m, db)"
    by (simp add: rq none announced_runner announcing_def stepRunner_def assms(3,4))
  have 2: "\<exists>can. re_can_dispatch (rq_env rq) = Some can \<and> \<not> can s"
    by (simp add: rq none announced_dispatch canDispatch_def assms(3,4))
  have f: "ae_kernels (ae\<lparr>ae_dispatch := d\<rparr>) = ae_kernels ae" "ae_catalog (ae\<lparr>ae_dispatch := d\<rparr>) = ae_catalog ae"
    "ae_templates (ae\<lparr>ae_dispatch := d\<rparr>) = ae_templates ae" "ae_override (ae\<lparr>ae_dispatch := d\<rparr>) = ae_override ae"
    "ae_clk (ae\<lparr>ae_dispatch := d\<rparr>) = ae_clk ae" "ae_now (ae\<lparr>ae_dispatch := d\<rparr>) = ae_now ae"
    "ae_dates (ae\<lparr>ae_dispatch := d\<rparr>) = ae_dates ae" "ae_say_kernel (ae\<lparr>ae_dispatch := d\<rparr>) = ae_say_kernel ae"
    "ae_say_gate (ae\<lparr>ae_dispatch := d\<rparr>) = ae_say_gate ae" "ae_say_held (ae\<lparr>ae_dispatch := d\<rparr>) = ae_say_held ae"
    by simp_all
  have 3: "startWorkflowRun (ae\<lparr>ae_dispatch := d\<rparr>) engine runId workflowId templateSlug dryRun inputs callerOrigin
      = (startWorkflowRun ae engine runId workflowId templateSlug dryRun inputs callerOrigin :: action_error + 'a run_request)"
    unfolding startWorkflowRun_def resolveRunManifest_def pack_manifest_def none announced_env_def bare_env_def
      missingDataGateCheck_def ha_check_def f ..
  let ?db = "db\<lparr>runsInFlight := runsInFlight db + 1\<rparr>"
  have "hub_kept ?db (snd (executeRun (rq_env rq) runId manifest (js_truthy dryRun) [] ?db))"
    unfolding rq none run_request.simps by (rule unattended.executeRun_rel)
  then have 4: "hub_kept db (finish_run_request message rq db)"
    by (auto simp: finish_run_request_def rq hub_kept_def publish_in_def Let_def split: prod.split)
  from 1 2 3 4 assms(1) show ?thesis by simp
qed

text \<open>A node whose parameters its kernel refuses, and which the caller supplied nothing for, holds the run
  instead of failing it. The check looks at the parameters in the manifest only: the run is held also when a
  binding supplies, in \<open>resolved\<close>, what the kernel misses. Conversely a step passes this check only if it is not a node, was supplied, or has
  parameters that its kernel accepts.\<close>

theorem run_waits_for_missing_inputs:
  assumes "startWorkflowRun ae engine runId workflowId templateSlug dryRun inputs callerOrigin = Inr rq"
    and "st_kind s = ''nodes''" and "jget (st_item s) ''node_id'' \<notin> Some ` JStr ` set (js_keys inputs)"
  shows "(case validateKernelInputs (ae_kernels ae) (jget (st_item s) ''kernel_id'') (jget (st_item s) ''policy_parameters'') of
            Inr (Some m) \<Rightarrow>
              fresh_step (rq_env rq) runId wmd dry humans s resolved inputDigest prior priorOutput db
                = (case transitionState (re_sha (rq_env rq)) (re_clk (rq_env rq)) runId wmd humans (Some Running) Awaiting_data db of
                     (Inl e, db1) \<Rightarrow> (Inl e, db1) | (Inr _, db1) \<Rightarrow> (Inr (Held (missing_reason (st_item s) m)), db1))
          | Inr None \<Rightarrow> the (re_gate (rq_env rq)) s prior priorOutput runId db = ha_check ae s prior priorOutput runId db
          | Inl e \<Rightarrow> the (re_gate (rq_env rq)) s prior priorOutput runId db = Inl (ae_say_kernel ae e))"
proof -
  obtain gate where g: "re_gate (rq_env rq) = Some gate"
    "gate = composeGateChecks [missingDataGateCheck ae (js_keys inputs), ha_check ae]"
    by (rule start_Inr [OF assms(1)]) (simp add: announced_dispatch)
  show ?thesis
  proof (cases "validateKernelInputs (ae_kernels ae) (jget (st_item s) ''kernel_id'') (jget (st_item s) ''policy_parameters'')")
    case (Inl e)
    then show ?thesis using assms(2,3) by (simp add: g missingDataGateCheck_def)
  next
    case (Inr v)
    show ?thesis
    proof (cases v)
      case None
      with Inr show ?thesis
        using assms(2,3) by (simp add: g missingDataGateCheck_def split: sum.split option.split)
    next
      case (Some m)
      with Inr assms(2,3) have "gate s prior priorOutput runId db = Inr (Some (missing_reason (st_item s) m))"
        by (simp add: g missingDataGateCheck_def)
      with Inr Some g(1) show ?thesis by (simp add: fresh_step_def)
    qed
  qed
qed

subsection \<open>The properties at a concrete request\<close>

definition demanding_kernels :: kernel_env where
  \<comment> \<open>one kernel that refuses to compute without parameters\<close>
  "demanding_kernels = sample_kernel_env\<lparr>ke_kernels :=
     (\<lambda>i. if i = ''art-1'' then Some \<lparr>k_compute = (\<lambda>p. if p = JObj [] then Inl ''no data'' else Inr p), k_build = (\<lambda>p opts. Inr p)\<rparr>
          else None)\<rparr>"

definition sample_pack :: json where
  "sample_pack = JObj [(''workflow_id'', JStr ''p''),
     (''manifest'', JObj [(''nodes'', JArr [JObj [(''node_id'', JStr ''n1''), (''kernel_id'', JStr ''art-1'')]])])]"

definition sample_action_env :: action_env where
  "sample_action_env = \<lparr>ae_kernels = demanding_kernels, ae_dispatch = closed_network, ae_catalog = [(Some (JStr ''p''), sample_pack)],
     ae_templates = [], ae_override = None, ae_clk = (\<lambda>_. ''t''), ae_now = ''t'', ae_dates = (\<lambda>_. None),
     ae_say_kernel = (\<lambda>_. []), ae_say_dispatch = (\<lambda>_. []), ae_say_gate = (\<lambda>_. []), ae_say_held = (\<lambda>_. [])\<rparr>"

definition sample_run_request :: "unit run_request" where
  "sample_run_request = projr (startWorkflowRun sample_action_env True ''r'' (Some (JStr ''p'')) None None None None)"

lemma sample_run_request_started:
  "startWorkflowRun sample_action_env True ''r'' (Some (JStr ''p'')) None None None None = Inr sample_run_request"
proof -
  let ?m = "the (jget sample_pack ''manifest'')"
  have 1: "resolveRunManifest sample_action_env (Some (JStr ''p'')) None = Inr (Some (JStr ''p''), ?m)"
    by (simp add: resolveRunManifest_def pack_manifest_def map_get_def manifest_of_def sample_action_env_def sample_pack_def)
  obtain d where 2: "manifestDigest (ke_sha (ae_kernels sample_action_env)) ?m = Inr d"
    by (simp add: manifestDigest_def run_digest_Inr ijson_ok_iff MAX_DEPTH_def MAX_ELEMENTS_def sample_pack_def)
  have "\<exists>rq. startWorkflowRun sample_action_env True ''r'' (Some (JStr ''p'')) None None None None = Inr (rq :: unit run_request)"
    by (simp add: startWorkflowRun_def 1 2 applyInputs_def)
  then show ?thesis by (auto simp: sample_run_request_def)
qed

definition sample_hub :: hub_db where
  "sample_hub = ha_db.extend (initHaTables initRunTables) (hub_db.fields empty_bus 0)"

definition sample_action_step :: step where
  "sample_action_step = sample_node\<lparr>st_kind := ''actions''\<rparr>"

lemma agent_run_cannot_dispatch_witness:
  "\<exists>m. re_runner (rq_env sample_run_request) sample_action_step None ''r'' sample_hub
     = (Inl m, sample_hub)"
  using agent_run_cannot_dispatch [OF sample_run_request_started, of sample_action_step None "''r''"
      sample_hub closed_network "\<lambda>_. []"]
  by (simp add: sample_action_step_def)

lemma run_waits_for_missing_inputs_witness:
  "fresh_step (rq_env sample_run_request) ''r'' ''w'' False [] sample_node (Some (JObj [(''x'', JNum 1)])) ''d'' None None sample_hub
     = (case transitionState (re_sha (rq_env sample_run_request)) (re_clk (rq_env sample_run_request)) ''r'' ''w'' [] (Some Running) Awaiting_data
              sample_hub of
          (Inl e, db1) \<Rightarrow> (Inl e, db1) | (Inr _, db1) \<Rightarrow> (Inr (Held (missing_reason (st_item sample_node) ''no data'')), db1))"
proof -
  have "validateKernelInputs (ae_kernels sample_action_env) (jget (st_item sample_node) ''kernel_id'')
      (jget (st_item sample_node) ''policy_parameters'') = Inr (Some ''no data'')"
    by (simp add: validateKernelInputs_def find_kernel_def sample_action_env_def demanding_kernels_def sample_node_def or_empty_obj_def)
  moreover have "st_kind sample_node = ''nodes''" by (simp add: sample_node_def)
  ultimately show ?thesis
    using run_waits_for_missing_inputs [OF sample_run_request_started, where s = sample_node and wmd = "''w''" and dry = False
        and humans = "[]" and resolved = "Some (JObj [(''x'', JNum 1)])" and inputDigest = "''d''" and prior = None
        and priorOutput = None and db = sample_hub]
    by simp
qed

end
