(* ===== verification/Js_Date.thy ===== *)
theory Js_Date
  imports Js_Values
begin

text \<open>
  The part of the language's \<open>Date\<close> that the hub uses: \<open>new Date(ms).toISOString()\<close> and
  \<open>Date.parse\<close>. A time value is the number of milliseconds since 1970-01-01T00:00:00Z on the
  proleptic Gregorian calendar without leap seconds. The hub's clock readings are not before 1970; an
  earlier time value, and one beyond the largest one of the language, is \<open>None\<close>. A string that
  \<open>toISOString\<close> prints is read back as the standard requires; what \<open>Date.parse\<close> makes of any other
  text depends on the implementation and is the parameter \<open>other\<close> (\<open>None\<close> is \<open>NaN\<close>).
\<close>

definition leap_year :: "int \<Rightarrow> bool" where
  "leap_year y \<longleftrightarrow> y mod 4 = 0 \<and> (y mod 100 \<noteq> 0 \<or> y mod 400 = 0)"

definition year_days :: "int \<Rightarrow> int" where
  "year_days y = (if leap_year y then 366 else 365)"

definition month_days :: "int \<Rightarrow> int list" where
  "month_days y = [31, if leap_year y then 29 else 28, 31, 30, 31, 30, 31, 31, 30, 31, 30, 31]"

lemma year_days_pos: "0 < year_days y"
  by (simp add: year_days_def)

lemma sum_month_days: "sum_list (month_days y) = year_days y"
  by (simp add: month_days_def year_days_def)

function split_year :: "int \<Rightarrow> int \<Rightarrow> int \<times> int" where
  \<comment> \<open>the year of the \<open>d\<close>-th day from the first of January of year \<open>y\<close>, and the day in it\<close>
  "split_year y d = (if d < year_days y then (y, d) else split_year (y + 1) (d - year_days y))"
  by pat_completeness auto
termination
  by (relation "measure (\<lambda>(y, d). nat d)") (auto simp: year_days_def split: if_splits)

declare split_year.simps [simp del]

fun split_month :: "int list \<Rightarrow> int \<Rightarrow> int \<times> int" where
  "split_month [] d = (0, d)"
| "split_month (l # ls) d = (if d < l then (0, d) else let (m, k) = split_month ls (d - l) in (m + 1, k))"

function days_before :: "int \<Rightarrow> int \<Rightarrow> int" where
  \<comment> \<open>days from the first of January of \<open>a\<close> to that of \<open>b\<close>\<close>
  "days_before a b = (if b \<le> a then 0 else year_days a + days_before (a + 1) b)"
  by pat_completeness auto
termination
  by (relation "measure (\<lambda>(a, b). nat (b - a))") auto

declare days_before.simps [simp del]

subsection \<open>Decimal fields\<close>

fun padded :: "nat \<Rightarrow> int \<Rightarrow> string" where
  "padded 0 n = []"
| "padded (Suc w) n = padded w (n div 10) @ [digit_char (nat (n mod 10))]"

definition decimal :: "string \<Rightarrow> int" where
  "decimal s = foldl (\<lambda>n c. 10 * n + int (char_digit c)) 0 s"

lemma length_padded [simp]: "length (padded w n) = w"
  by (induction w arbitrary: n) auto

lemma decimal_padded: "0 \<le> n \<Longrightarrow> n < 10 ^ w \<Longrightarrow> decimal (padded w n) = n"
proof (induction w arbitrary: n)
  case 0
  then show ?case by (simp add: decimal_def)
next
  case (Suc w)
  have "decimal (padded w (n div 10)) = n div 10"
    using Suc.prems by (intro Suc.IH) auto
  moreover have "int (char_digit (digit_char (nat (n mod 10)))) = n mod 10" by simp
  ultimately show ?case by (simp add: decimal_def)
qed

subsection \<open>Printing and reading\<close>

definition MS_PER_DAY :: int where "MS_PER_DAY = 86400000"
definition MAX_TIME :: int where "MAX_TIME = 8640000000000000"

definition iso_year :: "int \<Rightarrow> string" where
  "iso_year y = (if y \<le> 9999 then padded 4 y else CHR ''+'' # padded 6 y)"

definition iso_rest :: "int \<Rightarrow> int \<Rightarrow> int \<Rightarrow> string" where
  \<comment> \<open>month and day from zero, milliseconds of the day\<close>
  "iso_rest m d r =
     CHR ''-'' # padded 2 (m + 1) @ CHR ''-'' # padded 2 (d + 1) @ CHR ''T'' # padded 2 (r div 3600000)
     @ CHR '':'' # padded 2 (r div 60000 mod 60) @ CHR '':'' # padded 2 (r div 1000 mod 60)
     @ CHR ''.'' # padded 3 (r mod 1000) @ ''Z''"

definition iso_text :: "int \<Rightarrow> string" where
  "iso_text t =
     (let (y, n) = split_year 1970 (t div MS_PER_DAY); (m, d) = split_month (month_days y) n
      in iso_year y @ iso_rest m d (t mod MS_PER_DAY))"

definition toISOString :: "int \<Rightarrow> string option" where
  "toISOString t = (if 0 \<le> t \<and> t \<le> MAX_TIME then Some (iso_text t) else None)"

definition read_fields :: "string \<Rightarrow> int" where
  \<comment> \<open>the time value of the fields at their places\<close>
  "read_fields s =
     (let (y, r) = (if take 1 s = ''+'' then (decimal (take 6 (drop 1 s)), drop 7 s) else (decimal (take 4 s), drop 4 s));
          m = decimal (take 2 (drop 1 r)) - 1; d = decimal (take 2 (drop 4 r)) - 1;
          days = days_before 1970 y + sum_list (take (nat m) (month_days y)) + d
      in days * MS_PER_DAY + decimal (take 2 (drop 7 r)) * 3600000 + decimal (take 2 (drop 10 r)) * 60000
         + decimal (take 2 (drop 13 r)) * 1000 + decimal (take 3 (drop 16 r)))"

definition Date_parse :: "(string \<Rightarrow> int option) \<Rightarrow> string \<Rightarrow> int option" where
  "Date_parse other s = (if toISOString (read_fields s) = Some s then Some (read_fields s) else other s)"

subsection \<open>What is printed is read back\<close>

lemma split_year_sum:
  "0 \<le> d \<Longrightarrow> split_year y d = (y', n) \<Longrightarrow> y \<le> y' \<and> 0 \<le> n \<and> n < year_days y' \<and> d = days_before y y' + n"
proof (induction y d rule: split_year.induct)
  case (1 y d)
  show ?case
  proof (cases "d < year_days y")
    case True
    with 1 show ?thesis by (simp add: split_year.simps [of y d] days_before.simps)
  next
    case False
    with 1 have "y + 1 \<le> y' \<and> 0 \<le> n \<and> n < year_days y' \<and> d - year_days y = days_before (y + 1) y' + n"
      by (simp add: split_year.simps [of y d])
    then show ?thesis by (simp add: days_before.simps [of y y'])
  qed
qed

lemma split_month_sum:
  assumes "0 \<le> d" "d < sum_list ls" "split_month ls d = (m, k)"
  shows "0 \<le> m \<and> m < int (length ls) \<and> 0 \<le> k \<and> k < ls ! nat m \<and> d = sum_list (take (nat m) ls) + k"
  using assms
proof (induction ls arbitrary: d m)
  case (Cons l ls)
  show ?case
  proof (cases "d < l")
    case True
    with Cons.prems show ?thesis by simp
  next
    case False
    with Cons.prems obtain m' where m: "split_month ls (d - l) = (m', k)" "m = m' + 1"
      by (auto split: prod.splits)
    with Cons.IH [of "d - l" m'] False Cons.prems
    have "0 \<le> m' \<and> m' < int (length ls) \<and> 0 \<le> k \<and> k < ls ! nat m' \<and> d - l = sum_list (take (nat m') ls) + k"
      by simp
    with m show ?thesis by (simp add: nat_add_distrib)
  qed
qed simp

lemma days_before_self [simp]: "days_before a a = 0"
  by (simp add: days_before.simps)

lemma days_before_lower: "a \<le> b \<Longrightarrow> 365 * (b - a) \<le> days_before a b"
proof (induction a b rule: days_before.induct)
  case (1 a b)
  show ?case
  proof (cases "b \<le> a")
    case True
    with 1 show ?thesis by (simp add: days_before.simps [of a b])
  next
    case False
    with 1 have "365 * (b - (a + 1)) \<le> days_before (a + 1) b" by simp
    moreover have "365 \<le> year_days a" by (simp add: year_days_def)
    ultimately show ?thesis using False by (simp add: days_before.simps [of a b])
  qed
qed

lemma month_days_le: "m < 12 \<Longrightarrow> month_days y ! m \<le> 31"
  by (auto simp: month_days_def less_Suc_eq numeral_eq_Suc nth_Cons')

lemma day_split:
  fixes r :: int
  assumes "0 \<le> r" "r < MS_PER_DAY"
  shows "r div 3600000 * 3600000 + r div 60000 mod 60 * 60000 + r div 1000 mod 60 * 1000 + r mod 1000 = r"
    and "0 \<le> r div 3600000" and "r div 3600000 < 24"
proof -
  have "r div 60000 = r div 1000 div 60" and "r div 3600000 = r div 1000 div 60 div 60"
    by (simp_all add: zdiv_zmult2_eq [symmetric])
  moreover have "f * 3600000 + g * 60000 + e * 1000 + b = r"
    if "1000 * a + b = r" "60 * c + e = a" "60 * f + g = c" for a b c e f g :: int
    using that by linarith
  ultimately show "r div 3600000 * 3600000 + r div 60000 mod 60 * 60000 + r div 1000 mod 60 * 1000 + r mod 1000 = r"
    by (metis mult_div_mod_eq)
  show "0 \<le> r div 3600000" using assms by (simp add: pos_imp_zdiv_nonneg_iff)
  show "r div 3600000 < 24" using assms by (simp add: MS_PER_DAY_def div_less_iff_less_mult)
qed

lemma padded_hd: "\<exists>d cs. padded (Suc w) n = digit_char d # cs \<and> d < 10"
proof (induction w arbitrary: n)
  case 0
  have "nat (n mod 10) < 10" by (simp add: nat_less_iff)
  then show ?case by auto
next
  case (Suc w)
  then obtain d cs where "padded (Suc w) (n div 10) = digit_char d # cs" "d < 10" by blast
  then show ?case by (metis append_Cons padded.simps(2))
qed

lemma digit_not_plus: "d < 10 \<Longrightarrow> digit_char d \<noteq> CHR ''+''"
proof
  assume "d < 10" "digit_char d = CHR ''+''"
  then have "is_digit (CHR ''+'')" using is_digit_digit_char [of d] by simp
  then show False by (simp add: is_digit_def)
qed

lemma read_fields_shape:
  assumes y: "1970 \<le> y" "y < 1000000" and m: "0 \<le> m" "m < 12" and d: "0 \<le> d" "d < 31"
    and r: "0 \<le> r" "r < MS_PER_DAY"
  shows "read_fields (iso_year y @ iso_rest m d r)
           = (days_before 1970 y + sum_list (take (nat m) (month_days y)) + d) * MS_PER_DAY + r"
proof -
  have yr: "(if take 1 (iso_year y @ u) = ''+'' then (decimal (take 6 (drop 1 (iso_year y @ u))), drop 7 (iso_year y @ u))
             else (decimal (take 4 (iso_year y @ u)), drop 4 (iso_year y @ u))) = (y, u)" for u
  proof (cases "y \<le> 9999")
    case True
    obtain e cs where e: "padded 4 y = digit_char e # cs" "e < 10" using padded_hd [of 3 y] by (auto simp: numeral_eq_Suc)
    then have "take 1 (iso_year y @ u) \<noteq> ''+''" using digit_not_plus True by (simp add: iso_year_def)
    moreover have "decimal (padded 4 y) = y" using y True by (intro decimal_padded) auto
    ultimately show ?thesis using True by (simp add: iso_year_def)
  next
    case False
    moreover have "decimal (padded 6 y) = y" using y by (intro decimal_padded) auto
    ultimately show ?thesis by (simp add: iso_year_def)
  qed
  have "decimal (padded 2 (m + 1)) = m + 1" "decimal (padded 2 (d + 1)) = d + 1"
    using m d by (auto intro!: decimal_padded)
  moreover have "decimal (padded 2 (r div 3600000)) = r div 3600000"
    using day_split [OF r] by (intro decimal_padded) auto
  moreover have "decimal (padded 2 (r div 60000 mod 60)) = r div 60000 mod 60"
    by (rule decimal_padded) (auto simp: order.strict_trans [OF Euclidean_Rings.pos_mod_bound])
  moreover have "decimal (padded 2 (r div 1000 mod 60)) = r div 1000 mod 60"
    by (rule decimal_padded) (auto simp: order.strict_trans [OF Euclidean_Rings.pos_mod_bound])
  moreover have "decimal (padded 3 (r mod 1000)) = r mod 1000"
    by (rule decimal_padded) auto
  ultimately show ?thesis
    using day_split(1) [OF r] unfolding read_fields_def yr prod.case Let_def iso_rest_def
    by simp
qed

lemma read_fields_iso_text:
  assumes "0 \<le> t" "t \<le> MAX_TIME"
  shows "read_fields (iso_text t) = t"
proof -
  obtain y n where yn: "split_year 1970 (t div MS_PER_DAY) = (y, n)" by fastforce
  obtain m d where md: "split_month (month_days y) n = (m, d)" by fastforce
  have D: "0 \<le> t div MS_PER_DAY" "t div MS_PER_DAY \<le> 100000000" using assms by (auto simp: MS_PER_DAY_def MAX_TIME_def)
  have y: "1970 \<le> y \<and> 0 \<le> n \<and> n < year_days y \<and> t div MS_PER_DAY = days_before 1970 y + n"
    by (rule split_year_sum [OF D(1) yn])
  then have "365 * (y - 1970) \<le> 100000000" using days_before_lower [of 1970 y] D by linarith
  then have y6: "y < 1000000" by simp
  have m: "0 \<le> m \<and> m < int (length (month_days y)) \<and> 0 \<le> d \<and> d < month_days y ! nat m
      \<and> n = sum_list (take (nat m) (month_days y)) + d"
    using y by (intro split_month_sum [OF _ _ md]) (auto simp: sum_month_days)
  then have m12: "m < 12" by (simp add: month_days_def)
  have d: "d < 31" using m m12 month_days_le [of "nat m" y] by linarith
  have r: "0 \<le> t mod MS_PER_DAY" "t mod MS_PER_DAY < MS_PER_DAY" by (simp_all add: MS_PER_DAY_def)
  have "read_fields (iso_text t)
      = (days_before 1970 y + sum_list (take (nat m) (month_days y)) + d) * MS_PER_DAY + t mod MS_PER_DAY"
    unfolding iso_text_def yn prod.case Let_def md using y y6 m m12 d r by (intro read_fields_shape) blast+
  also have "\<dots> = t div MS_PER_DAY * MS_PER_DAY + t mod MS_PER_DAY" using y m by simp
  finally show ?thesis by simp
qed

lemma Date_parse_toISOString: "toISOString t = Some s \<Longrightarrow> Date_parse other s = Some t"
  by (auto simp: toISOString_def Date_parse_def read_fields_iso_text split: if_splits)

lemma toISOString_inject: "toISOString t = Some s \<Longrightarrow> toISOString u = Some s \<Longrightarrow> t = u"
  using Date_parse_toISOString [of t s "\<lambda>_. None"] Date_parse_toISOString [of u s "\<lambda>_. None"] by simp

end
