(* ===== verification/Watch_Scheduler.thy ===== *)
theory Watch_Scheduler
  imports Run_Actions Js_Date
begin

text \<open>
  \<^verbatim>\<open>hub/watch-scheduler.mjs\<close>: packs that are run on a fixed cadence. The configuration is the file
  \<open>watches.json\<close>, represented by what \<open>JSON.parse\<close> makes of it; the table \<open>watch_runs\<close> extends the
  database. The clock, the identifiers that \<open>randomUUID\<close> draws and what \<open>Date.parse\<close> makes of texts that are no
  ISO time stamps are arguments. A tick is executed as a whole.
\<close>

datatype watch_issue =
    No_pack_id
  | Bad_pack_digest
  | Bad_cadence
  | Connector_fed
  | Bad_mode
  | Alerts_not_listed
  | Alert_unknown json
  | Evidences_not_listed
  | No_framework nat
  | No_control_id nat
  | No_creator
  | No_consent

datatype watch_error =
    Invalid_watch "watch_issue list"
  | Watch_workflow_not_found
  | Pack_digest_mismatch string json
  | Watch_inputs_malformed
  | Watch_unknown_node string
  | Watch_inputs_refused string string
  | Watch_id_exists
  | Watches_corrupt
  | Invalid_cadence
  | Watch_pack_gone
  | Time_out_of_range
  | Watch_kernel kernel_error
  | Watch_run run_error
  | Watch_pack pack_error
  | Watch_type_error

subsection \<open>Cadence\<close>

definition CADENCE_UNITS_MS :: "(string \<times> int) list" where
  "CADENCE_UNITS_MS = [(''hours'', 3600000), (''days'', 86400000), (''weeks'', 604800000)]"

definition PHASE1_INPUT_MODES :: "string list" where
  "PHASE1_INPUT_MODES = [''sample'', ''operator_supplied'']"

definition DEFAULT_WATCH_POLL_MS :: int where "DEFAULT_WATCH_POLL_MS = 60000"

definition inherited_names :: "string list" where
  \<comment> \<open>what every object literal inherits from \<open>Object.prototype\<close>\<close>
  "inherited_names =
     [''constructor'', ''toString'', ''valueOf'', ''toLocaleString'', ''hasOwnProperty'', ''isPrototypeOf'',
      ''propertyIsEnumerable'', ''__proto__'', ''__defineGetter__'', ''__defineSetter__'', ''__lookupGetter__'',
      ''__lookupSetter__'']"

definition cadence_unit :: "json option \<Rightarrow> int option option" where
  \<comment> \<open>\<open>CADENCE_UNITS_MS[cadence?.unit]\<close>; \<open>Some None\<close> is an inherited member, of which every multiple is \<open>NaN\<close>\<close>
  "cadence_unit cadence =
     (let key = js_template (jget_opt cadence ''unit'')
      in case map_of CADENCE_UNITS_MS key of
           Some ms \<Rightarrow> Some (Some ms)
         | None \<Rightarrow> if key \<in> set inherited_names then Some None else None)"

definition cadenceIntervalMs :: "json option \<Rightarrow> watch_error + int option" where
  "cadenceIntervalMs cadence =
     (case cadence_unit cadence of
        None \<Rightarrow> Inl Invalid_cadence
      | Some unitMs \<Rightarrow>
          (case jget_opt cadence ''interval'' of
             Some (JNum n) \<Rightarrow> if n < 1 then Inl Invalid_cadence else Inr (map_option (\<lambda>ms. ms * n) unitMs)
           | _ \<Rightarrow> Inl Invalid_cadence))"

definition has_gate_policy :: "json option \<Rightarrow> watch_error + bool" where
  "has_gate_policy arr =
     (case arr of
        Some (JArr xs) \<Rightarrow> Inr (list_ex (\<lambda>i. jget i ''gate_policy'' \<noteq> None) xs)
      | v \<Rightarrow> if js_nullish v then Inr False else Inl Watch_type_error)"

definition packIsHaGateFree :: "json \<Rightarrow> watch_error + bool" where
  "packIsHaGateFree manifest =
     (if manifest = JNull then Inl Watch_type_error
      else and_then (has_gate_policy (jget manifest ''nodes'')) (\<lambda>a.
        if a then Inr False
        else and_then (has_gate_policy (jget manifest ''actions'')) (\<lambda>b.
          Inr (\<not> b \<and> (js_nullish (jget manifest ''gates'')
                      \<or> js_index (the (jget manifest ''gates'')) ''length'' = Some (JNum 0))))))"

subsection \<open>The file\<close>

fun loadWatchesFile :: "state_file \<Rightarrow> watch_error + json list" where
  "loadWatchesFile Missing = Inr []"
| "loadWatchesFile Unparsable = Inl Watches_corrupt"
| "loadWatchesFile (Holds v) = Inr (jarr_or_empty (Some v))"

definition saveWatchesFile :: "json list \<Rightarrow> state_file" where
  "saveWatchesFile watches = Holds (JArr watches)"

definition listWatches :: "state_file \<Rightarrow> watch_error + json list" where
  "listWatches file = loadWatchesFile file"

definition has_watch_id :: "json option \<Rightarrow> json \<Rightarrow> watch_error + bool" where
  "has_watch_id i w = (if w = JNull then Inl Watch_type_error else Inr (js_same (jget w ''watch_id'') i))"

definition getWatch :: "json option \<Rightarrow> state_file \<Rightarrow> watch_error + json option" where
  "getWatch watchId file = and_then (listWatches file) (find_err (has_watch_id watchId))"

subsection \<open>Validation\<close>

definition given_text :: "json option \<Rightarrow> bool" where
  \<comment> \<open>\<open>typeof v === "string" && v\<close>\<close>
  "given_text v \<longleftrightarrow> (case v of Some (JStr s) \<Rightarrow> s \<noteq> [] | _ \<Rightarrow> False)"

definition alert_kinds :: "json list" where
  "alert_kinds = [JStr ''miss'', JStr ''result_change'', JStr ''gate_hold'']"

definition alert_issues :: "json option \<Rightarrow> watch_issue list" where
  "alert_issues v =
     (case v of
        None \<Rightarrow> []
      | Some (JArr (a # as)) \<Rightarrow> map Alert_unknown (filter (\<lambda>x. x \<notin> set alert_kinds) (a # as))
      | Some _ \<Rightarrow> [Alerts_not_listed])"

definition evidence_issue :: "nat \<times> json \<Rightarrow> watch_issue list" where
  "evidence_issue p =
     (case p of (i, e) \<Rightarrow>
        (if given_text (jget e ''framework'') then [] else [No_framework i])
        @ (if given_text (jget e ''control_id'') then [] else [No_control_id i]))"

definition evidence_issues :: "json option \<Rightarrow> watch_issue list" where
  "evidence_issues v =
     (case v of
        None \<Rightarrow> []
      | Some (JArr (e # es)) \<Rightarrow> concat (map evidence_issue (List.enumerate 0 (e # es)))
      | Some _ \<Rightarrow> [Evidences_not_listed])"

definition input_mode :: "json option \<Rightarrow> json option" where
  "input_mode i = jget_opt (jget_opt i ''inputs_source'') ''mode''"

definition validateWatchInput :: "json option \<Rightarrow> watch_issue list" where
  "validateWatchInput i =
     (let ref = jget_opt i ''pack_ref''; mode = input_mode i
      in (if given_text (jget_opt ref ''pack_id'') then [] else [No_pack_id])
         @ (case jget_opt ref ''pack_digest'' of
              Some (JStr d) \<Rightarrow> if starts_with d ''sha256:'' then [] else [Bad_pack_digest]
            | _ \<Rightarrow> [Bad_pack_digest])
         @ (case cadenceIntervalMs (jget_opt i ''cadence'') of Inl _ \<Rightarrow> [Bad_cadence] | Inr _ \<Rightarrow> [])
         @ (if mode \<in> (Some \<circ> JStr) ` set PHASE1_INPUT_MODES then []
            else if mode = Some (JStr ''connector_fed'') then [Connector_fed] else [Bad_mode])
         @ alert_issues (jget_opt i ''alert_on'')
         @ evidence_issues (jget_opt i ''evidences'')
         @ (if given_text (jget_opt (jget_opt i ''created_by'') ''id'') then [] else [No_creator])
         @ (if given_text (jget_opt i ''consent_ref'') then [] else [No_consent]))"

subsection \<open>Creating and revoking\<close>

definition node_of :: "json \<Rightarrow> string \<Rightarrow> watch_error + json option" where
  \<comment> \<open>\<open>(manifest.nodes ?? []).find((n) => n.node_id === nodeId)\<close>\<close>
  "node_of manifest nodeId =
     (case jget manifest ''nodes'' of
        Some (JArr ns) \<Rightarrow>
          find_err (\<lambda>n. if n = JNull then Inl Watch_type_error else Inr (jget n ''node_id'' = Some (JStr nodeId))) ns
      | v \<Rightarrow> if js_nullish v then Inr None else Inl Watch_type_error)"

definition check_node_inputs :: "kernel_env \<Rightarrow> json \<Rightarrow> string \<times> json \<Rightarrow> watch_error + unit" where
  "check_node_inputs ke manifest p =
     (case p of (nodeId, params) \<Rightarrow>
        and_then (node_of manifest nodeId) (\<lambda>node.
          case node of
            None \<Rightarrow> Inl (Watch_unknown_node nodeId)
          | Some n \<Rightarrow>
              (case validateKernelInputs ke (jget n ''kernel_id'') (Some params) of
                 Inl e \<Rightarrow> Inl (Watch_kernel e)
               | Inr (Some m) \<Rightarrow> Inl (Watch_inputs_refused nodeId m)
               | Inr None \<Rightarrow> Inr ())))"

definition check_supplied :: "kernel_env \<Rightarrow> json \<Rightarrow> json option \<Rightarrow> watch_error + unit" where
  "check_supplied ke manifest i =
     (if input_mode i = Some (JStr ''operator_supplied'')
      then case jget_opt (jget_opt i ''inputs_source'') ''inputs'' of
             Some (JObj kvs) \<Rightarrow> each_err (check_node_inputs ke manifest) kvs
           | _ \<Rightarrow> Inl Watch_inputs_malformed
      else Inr ())"

definition evidence_of :: "json \<Rightarrow> json" where
  "evidence_of e = JObj (opt_members [(''framework'', jget e ''framework''), (''control_id'', jget e ''control_id'')])"

definition new_watch :: "json option \<Rightarrow> string \<Rightarrow> string \<Rightarrow> json" where
  "new_watch i uuid now =
     (let ref = jget_opt i ''pack_ref''; cadence = jget_opt i ''cadence''; source = jget_opt i ''inputs_source''
      in JObj (opt_members
        [(''watch_id'', Some (if js_truthy (jget_opt i ''watch_id'') then the (jget_opt i ''watch_id'') else JStr uuid)),
         (''pack_ref'', Some (JObj (opt_members [(''pack_id'', jget_opt ref ''pack_id''), (''pack_digest'', jget_opt ref ''pack_digest'')]))),
         (''cadence'', Some (JObj (opt_members [(''unit'', jget_opt cadence ''unit''), (''interval'', jget_opt cadence ''interval'')]))),
         (''inputs_source'', Some (if input_mode i = Some (JStr ''operator_supplied'')
            then JObj (opt_members [(''mode'', Some (JStr ''operator_supplied'')), (''inputs'', jget_opt source ''inputs'')])
            else JObj [(''mode'', JStr ''sample'')])),
         (''alert_on'', jget_opt i ''alert_on''),
         (''evidences'', map_option (\<lambda>v. JArr (map evidence_of (jarr_or_empty (Some v)))) (jget_opt i ''evidences'')),
         (''created_at'', Some (JStr now)),
         (''created_by'', Some (JObj (opt_members [(''id'', jget_opt (jget_opt i ''created_by'') ''id'')]))),
         (''consent_ref'', jget_opt i ''consent_ref'')]))"

definition check_watch :: "action_env \<Rightarrow> json option \<Rightarrow> watch_error + unit" where
  \<comment> \<open>everything that \<open>createWatch\<close> checks before it reads the file\<close>
  "check_watch ae i =
     and_then (guard_err (validateWatchInput i = []) (Invalid_watch (validateWatchInput i))) (\<lambda>_.
       case map_get (jget_opt (jget_opt i ''pack_ref'') ''pack_id'') (ae_catalog ae) of
         None \<Rightarrow> Inl Watch_workflow_not_found
       | Some pack \<Rightarrow>
           and_then (map_sum Watch_pack id (manifest_of pack)) (\<lambda>manifest.
           and_then (map_sum Watch_run id (manifestDigest (ke_sha (ae_kernels ae)) manifest)) (\<lambda>d.
           and_then (guard_err (jget_opt (jget_opt i ''pack_ref'') ''pack_digest'' = Some (JStr d))
                       (Pack_digest_mismatch d (the (jget_opt (jget_opt i ''pack_ref'') ''pack_digest'')))) (\<lambda>_.
             check_supplied (ae_kernels ae) manifest i))))"

definition createWatch ::
  "action_env \<Rightarrow> string \<Rightarrow> string \<Rightarrow> json option \<Rightarrow> state_file \<Rightarrow> (watch_error + json) \<times> state_file" where
  "createWatch ae uuid now i file =
     (case and_then (check_watch ae i) (\<lambda>_. listWatches file) of
        Inl e \<Rightarrow> (Inl e, file)
      | Inr watches \<Rightarrow>
          let watch = new_watch i uuid now
          in case find_err (has_watch_id (jget watch ''watch_id'')) watches of
               Inl e \<Rightarrow> (Inl e, file)
             | Inr (Some _) \<Rightarrow> (Inl Watch_id_exists, file)
             | Inr None \<Rightarrow> (Inr watch, saveWatchesFile (watches @ [watch])))"

fun take_out :: "('a \<Rightarrow> 'e + bool) \<Rightarrow> 'a list \<Rightarrow> 'e + ('a \<times> 'a list) option" where
  \<comment> \<open>\<open>findIndex\<close> and \<open>splice\<close>\<close>
  "take_out f [] = Inr None"
| "take_out f (x # xs) =
     and_then (f x) (\<lambda>b. if b then Inr (Some (x, xs))
                          else and_then (take_out f xs) (\<lambda>r. Inr (map_option (\<lambda>(y, ys). (y, x # ys)) r)))"

definition revokeWatch ::
  "json option \<Rightarrow> json option \<Rightarrow> string \<Rightarrow> state_file \<Rightarrow> (watch_error + json option) \<times> state_file" where
  "revokeWatch watchId revokedBy now file =
     (case and_then (listWatches file) (take_out (has_watch_id watchId)) of
        Inl e \<Rightarrow> (Inl e, file)
      | Inr None \<Rightarrow> (Inr None, file)
      | Inr (Some (removed, rest)) \<Rightarrow>
          (Inr (Some (js_with (js_with removed ''watch_revoked_at'' (JStr now)) ''revoked_by'' (or_default JNull revokedBy))),
           saveWatchesFile rest))"

subsection \<open>Firings\<close>

record watch_run =
  wr_last_fired_at :: string
  wr_last_run_id :: string
  wr_expected_by :: string

record watch_db = hub_db +
  watch_runs :: "(string, watch_run) tbl"

definition initWatchRunsTable :: "hub_db \<Rightarrow> watch_db" where
  \<comment> \<open>a database without the table; on one that has it, with the column \<open>expected_by\<close>, nothing changes\<close>
  "initWatchRunsTable db = hub_db.extend (hub_db.truncate db) (watch_db.fields [])"

definition bound_id :: "json option \<Rightarrow> watch_error + string" where
  \<comment> \<open>a value bound to the \<open>TEXT\<close> key; a number is stored as the text of a real\<close>
  "bound_id v = (case v of Some (JStr s) \<Rightarrow> Inr s | Some (JNum n) \<Rightarrow> Inr (show_int n @ ''.0'') | _ \<Rightarrow> Inl Watch_type_error)"

definition lastFiredAt :: "string \<Rightarrow> 'a watch_db_scheme \<Rightarrow> string option" where
  "lastFiredAt watchId db = map_option wr_last_fired_at (tbl_get (watch_runs db) watchId)"

definition watchBaseline :: "json \<Rightarrow> 'a watch_db_scheme \<Rightarrow> watch_error + json option" where
  "watchBaseline watch db =
     (if watch = JNull then Inl Watch_type_error
      else and_then (bound_id (jget watch ''watch_id'')) (\<lambda>i.
        Inr (case lastFiredAt i db of Some t \<Rightarrow> Some (JStr t) | None \<Rightarrow> jget watch ''created_at'')))"

definition lastWatchRun :: "json option \<Rightarrow> 'a watch_db_scheme \<Rightarrow> watch_error + watch_run option" where
  "lastWatchRun watchId db = and_then (bound_id watchId) (\<lambda>i. Inr (tbl_get (watch_runs db) i))"

definition recordFired :: "string \<Rightarrow> watch_run \<Rightarrow> 'a watch_db_scheme \<Rightarrow> 'a watch_db_scheme" where
  "recordFired watchId row db = db\<lparr>watch_runs := tbl_upsert watchId row (watch_runs db)\<rparr>"

definition next_due :: "(string \<Rightarrow> int option) \<Rightarrow> json \<Rightarrow> 'a watch_db_scheme \<Rightarrow> watch_error + int option" where
  \<comment> \<open>\<open>Date.parse(baseline) + cadenceIntervalMs(watch.cadence)\<close>; \<open>None\<close> is \<open>NaN\<close>\<close>
  "next_due dates watch db =
     and_then (watchBaseline watch db) (\<lambda>baseline.
     and_then (cadenceIntervalMs (jget watch ''cadence'')) (\<lambda>interval.
       Inr (Option.bind (Date_parse dates (js_template baseline)) (\<lambda>t. map_option ((+) t) interval))))"

definition isWatchDue :: "(string \<Rightarrow> int option) \<Rightarrow> json \<Rightarrow> int \<Rightarrow> 'a watch_db_scheme \<Rightarrow> watch_error + bool" where
  "isWatchDue dates watch nowMs db =
     and_then (next_due dates watch db) (\<lambda>t. Inr (case t of None \<Rightarrow> False | Some t \<Rightarrow> t \<le> nowMs))"

definition cadence_manifest :: "json \<Rightarrow> json" where
  "cadence_manifest m =
     js_with m ''trigger'' (js_with (or_empty_obj (jget m ''trigger'')) ''type'' (JStr ''cadence''))"

definition fill_node :: "json option \<Rightarrow> json \<Rightarrow> watch_error + json" where
  "fill_node inputs node =
     (if js_nullish inputs then Inl Watch_type_error
      else Inr (case js_index (the inputs) (node_key node) of
                  None \<Rightarrow> node | Some p \<Rightarrow> js_with node ''policy_parameters'' p))"

definition watch_manifest :: "action_env \<Rightarrow> json \<Rightarrow> watch_error + json" where
  "watch_manifest ae watch =
     (if js_nullish (jget watch ''pack_ref'') then Inl Watch_type_error
      else case map_get (jget_opt (jget watch ''pack_ref'') ''pack_id'') (ae_catalog ae) of
             None \<Rightarrow> Inl Watch_pack_gone
           | Some pack \<Rightarrow>
               and_then (map_sum Watch_pack id (manifest_of pack)) (\<lambda>m.
                 if js_nullish (jget watch ''inputs_source'') then Inl Watch_type_error
                 else if input_mode (Some watch) = Some (JStr ''operator_supplied'')
                 then map_nodes Watch_type_error (fill_node (jget_opt (jget watch ''inputs_source'') ''inputs'')) (cadence_manifest m)
                 else Inr (cadence_manifest m)))"

definition expected_by :: "(string \<Rightarrow> int option) \<Rightarrow> json \<Rightarrow> 'a watch_db_scheme \<Rightarrow> watch_error + string" where
  "expected_by dates watch db =
     and_then (next_due dates watch db) (\<lambda>t.
       case Option.bind t toISOString of None \<Rightarrow> Inl Time_out_of_range | Some s \<Rightarrow> Inr s)"

definition fireWatch ::
  "action_env \<Rightarrow> (string \<Rightarrow> int option) \<Rightarrow> string \<Rightarrow> string \<Rightarrow> json \<Rightarrow> 'a watch_db_scheme \<Rightarrow>
   (watch_error + run_state option) \<times> 'a watch_db_scheme" where
  "fireWatch ae dates runId nowISO watch db =
     (case and_then (watch_manifest ae watch) (\<lambda>manifest.
           and_then (expected_by dates watch db) (\<lambda>expectedBy.
           and_then (bound_id (jget watch ''watch_id'')) (\<lambda>i. Inr (manifest, expectedBy, i)))) of
        Inl e \<Rightarrow> (Inl e, db)
      | Inr (manifest, expectedBy, i) \<Rightarrow>
          (case executeRun (announced_env ae None runId (ha_check ae)) runId manifest False [] db of
             (Inl e, db1) \<Rightarrow> (Inl (Watch_run e), db1)
           | (Inr result, db1) \<Rightarrow>
               (Inr (ro_state result),
                recordFired i \<lparr>wr_last_fired_at = nowISO, wr_last_run_id = runId, wr_expected_by = expectedBy\<rparr>
                  (publish_in runId (outcome_event runId result) db1))))"

subsection \<open>The loop\<close>

datatype tick_note = Due_check_failed watch_error | Not_due | Fire_failed watch_error | Fired string "run_state option"

fun tick_watches ::
  "action_env \<Rightarrow> (string \<Rightarrow> int option) \<Rightarrow> (nat \<Rightarrow> string) \<Rightarrow> int \<Rightarrow> string \<Rightarrow> nat \<Rightarrow> json list \<Rightarrow> 'a watch_db_scheme \<Rightarrow>
   (watch_error + tick_note list) \<times> 'a watch_db_scheme" where
  \<comment> \<open>a watch that is \<open>null\<close> makes the log call in the handler throw as well\<close>
  "tick_watches ae dates uuid nowMs nowISO n [] db = (Inr [], db)"
| "tick_watches ae dates uuid nowMs nowISO n (w # ws) db =
     (if w = JNull then (Inl Watch_type_error, db)
      else
        let (note, db1) =
          (case isWatchDue dates w nowMs db of
             Inl e \<Rightarrow> (Due_check_failed e, db)
           | Inr False \<Rightarrow> (Not_due, db)
           | Inr True \<Rightarrow>
               (case fireWatch ae dates (uuid n) nowISO w db of
                  (Inl e, db1) \<Rightarrow> (Fire_failed e, db1)
                | (Inr st, db1) \<Rightarrow> (Fired (uuid n) st, db1)));
            (r, db2) = tick_watches ae dates uuid nowMs nowISO (Suc n) ws db1
        in (map_sum id ((#) note) r, db2))"

definition tick ::
  "action_env \<Rightarrow> (string \<Rightarrow> int option) \<Rightarrow> (nat \<Rightarrow> string) \<Rightarrow> int \<Rightarrow> state_file \<Rightarrow> 'a watch_db_scheme \<Rightarrow>
   (watch_error + tick_note list) \<times> 'a watch_db_scheme" where
  "tick ae dates uuid nowMs file db =
     (case toISOString nowMs of
        None \<Rightarrow> (Inl Time_out_of_range, db)
      | Some nowISO \<Rightarrow>
          (case listWatches file of
             Inl e \<Rightarrow> (Inl e, db)
           | Inr ws \<Rightarrow> tick_watches ae dates uuid nowMs nowISO 0 ws db))"

record timers =
  ti_timer :: "nat option"
  ti_running :: "nat list"

definition start :: "nat \<Rightarrow> timers \<Rightarrow> timers" where
  "start i t = (case ti_timer t of Some _ \<Rightarrow> t | None \<Rightarrow> t\<lparr>ti_timer := Some i, ti_running := ti_running t @ [i]\<rparr>)"

definition stop :: "timers \<Rightarrow> timers" where
  "stop t = (case ti_timer t of
               None \<Rightarrow> t | Some i \<Rightarrow> t\<lparr>ti_timer := None, ti_running := filter (\<lambda>j. j \<noteq> i) (ti_running t)\<rparr>)"

subsection \<open>When a watch fires\<close>

lemma cadence_positive: "cadenceIntervalMs c = Inr (Some ms) \<Longrightarrow> 0 < ms"
  by (auto simp: cadenceIntervalMs_def cadence_unit_def CADENCE_UNITS_MS_def Let_def
      split: option.splits json.splits if_splits)

lemma next_due_row:
  assumes "\<And>i. bound_id (jget w ''watch_id'') = Inr i \<Longrightarrow> tbl_get (watch_runs db') i = tbl_get (watch_runs db) i"
  shows "next_due dates w db' = next_due dates w db" and "isWatchDue dates w t db' = isWatchDue dates w t db"
proof -
  show "next_due dates w db' = next_due dates w db"
    using assms by (cases "bound_id (jget w ''watch_id'')") (simp_all add: next_due_def watchBaseline_def lastFiredAt_def)
  then show "isWatchDue dates w t db' = isWatchDue dates w t db" by (simp add: isWatchDue_def)
qed

lemma kept_watch_runs: "hub_kept db db' \<Longrightarrow> watch_runs db' = watch_runs db"
  by (cases db; cases db') (simp add: hub_kept_def)

lemma fireWatch_rows:
  assumes "fireWatch ae dates runId nowISO w db = (r, db')"
  shows "(\<exists>e. r = Inl e) \<and> watch_runs db' = watch_runs db
    \<or> (\<exists>st i e. r = Inr st \<and> w \<noteq> JNull \<and> bound_id (jget w ''watch_id'') = Inr i \<and> expected_by dates w db = Inr e
         \<and> watch_runs db' = tbl_upsert i \<lparr>wr_last_fired_at = nowISO, wr_last_run_id = runId, wr_expected_by = e\<rparr> (watch_runs db))"
proof (cases "and_then (watch_manifest ae w) (\<lambda>manifest.
           and_then (expected_by dates w db) (\<lambda>expectedBy.
           and_then (bound_id (jget w ''watch_id'')) (\<lambda>i. Inr (manifest, expectedBy, i))))")
  case (Inl e)
  with assms show ?thesis unfolding fireWatch_def Inl by auto
next
  case (Inr x)
  obtain m e i where x: "x = (m, e, i)" by (cases x)
  with Inr have m: "watch_manifest ae w = Inr m" and i: "bound_id (jget w ''watch_id'') = Inr i"
    and e: "expected_by dates w db = Inr e" by simp_all
  have w: "w \<noteq> JNull" using e by (auto simp: expected_by_def next_due_def watchBaseline_def)
  obtain q db1 where q: "executeRun (announced_env ae None runId (ha_check ae)) runId m False [] db = (q, db1)" by fastforce
  have "watch_runs db1 = watch_runs db"
    using unattended.executeRun_rel [of db ae runId "ha_check ae" runId m False "[]"] q by (simp add: kept_watch_runs)
  with assms i e w show ?thesis
    by (cases q) (auto simp: fireWatch_def m i e q recordFired_def publish_in_def)
qed

text \<open>C30. A firing that succeeds at \<open>nowMs\<close> records the moment it was due (\<open>expected_by\<close>, which the receipt reads
  back) and makes the watch due again exactly one cadence interval after \<open>nowMs\<close>; a firing that throws leaves
  the watch as due as it was, so the next tick fires it again.\<close>

theorem watch_due_again_after_one_interval:
  "case toISOString nowMs of
     None \<Rightarrow> True
   | Some nowISO \<Rightarrow>
       (case fireWatch ae dates runId nowISO w db of
          (Inl e, db') \<Rightarrow> isWatchDue dates w t db' = isWatchDue dates w t db
        | (Inr st, db') \<Rightarrow>
            \<exists>ms due row. cadenceIntervalMs (jget w ''cadence'') = Inr (Some ms) \<and> 0 < ms
              \<and> next_due dates w db = Inr (Some due)
              \<and> lastWatchRun (jget w ''watch_id'') db' = Inr (Some row)
              \<and> wr_last_run_id row = runId \<and> Date_parse dates (wr_expected_by row) = Some due
              \<and> isWatchDue dates w t db' = Inr (nowMs + ms \<le> t))"
proof (cases "toISOString nowMs")
  case (Some nowISO)
  obtain r db' where f: "fireWatch ae dates runId nowISO w db = (r, db')" by fastforce
  show ?thesis
  proof (cases r)
    case (Inl e)
    with fireWatch_rows [OF f] have "watch_runs db' = watch_runs db" by simp
    then show ?thesis using Inl next_due_row(2) [of w db' db] by (simp add: Some f)
  next
    case (Inr st)
    with fireWatch_rows [OF f] obtain i e where w: "w \<noteq> JNull" and i: "bound_id (jget w ''watch_id'') = Inr i"
      and e: "expected_by dates w db = Inr e"
      and rows: "watch_runs db' = tbl_upsert i \<lparr>wr_last_fired_at = nowISO, wr_last_run_id = runId, wr_expected_by = e\<rparr> (watch_runs db)"
      by auto
    from e obtain due where due: "next_due dates w db = Inr (Some due)" "toISOString due = Some e"
      by (auto simp: expected_by_def split: option.splits bind_splits)
    then obtain ms where ms: "cadenceIntervalMs (jget w ''cadence'') = Inr (Some ms)"
      by (auto simp: next_due_def split: bind_splits)
    have "isWatchDue dates w t db' = Inr (nowMs + ms \<le> t)"
      using w i by (simp add: isWatchDue_def next_due_def watchBaseline_def lastFiredAt_def rows ms Date_parse_toISOString [OF Some])
    then show ?thesis
      using i due ms cadence_positive [OF ms] Date_parse_toISOString [OF due(2)]
      by (simp add: Some f Inr lastWatchRun_def rows)
  qed
qed simp

lemma tick_watches_rows:
  assumes "tick_watches ae dates uuid nowMs nowISO n ws db = (r, db')"
  shows "tbl_get (watch_runs db') k = tbl_get (watch_runs db) k
    \<or> (\<exists>w \<in> set ws. bound_id (jget w ''watch_id'') = Inr k \<and> isWatchDue dates w nowMs db = Inr True)"
  using assms
proof (induction ws arbitrary: n db r)
  case (Cons w ws)
  show ?case
  proof (cases "w = JNull")
    case True
    with Cons.prems show ?thesis by simp
  next
    case False
    let ?p = "case isWatchDue dates w nowMs db of
             Inl e \<Rightarrow> (Due_check_failed e, db)
           | Inr False \<Rightarrow> (Not_due, db)
           | Inr True \<Rightarrow>
               (case fireWatch ae dates (uuid n) nowISO w db of
                  (Inl e, db1) \<Rightarrow> (Fire_failed e, db1)
                | (Inr st, db1) \<Rightarrow> (Fired (uuid n) st, db1))"
    obtain nt db1 where p: "?p = (nt, db1)" by fastforce
    obtain r2 where rest: "tick_watches ae dates uuid nowMs nowISO (Suc n) ws db1 = (r2, db')"
      using Cons.prems False p by (auto simp: Let_def split: prod.splits)
    have first: "tbl_get (watch_runs db1) k = tbl_get (watch_runs db) k
        \<or> bound_id (jget w ''watch_id'') = Inr k \<and> isWatchDue dates w nowMs db = Inr True"
    proof (cases "isWatchDue dates w nowMs db = Inr True")
      case True
      obtain q where "fireWatch ae dates (uuid n) nowISO w db = (q, db1)"
        using p True by (auto split: prod.splits sum.splits)
      from fireWatch_rows [OF this] True show ?thesis by auto
    next
      case False
      with p show ?thesis by (auto split: sum.splits bool.splits)
    qed
    show ?thesis
    proof (cases "tbl_get (watch_runs db1) k = tbl_get (watch_runs db) k")
      case True
      have "isWatchDue dates v nowMs db1 = isWatchDue dates v nowMs db" if "bound_id (jget v ''watch_id'') = Inr k" for v
        by (rule next_due_row(2)) (use that True in simp)
      with Cons.IH [OF rest] True show ?thesis by auto
    next
      case False
      with first show ?thesis by auto
    qed
  qed
qed simp

text \<open>A tick touches the record of a watch only if a watch with that id stands in the configuration and was due
  when the tick began; what other watches do, fail or throw makes no difference to it. A revoked watch never
  fires.\<close>

theorem tick_fires_only_due_watches:
  "tbl_get (watch_runs (snd (tick ae dates uuid nowMs file db))) k = tbl_get (watch_runs db) k
   \<or> (\<exists>ws w. listWatches file = Inr ws \<and> w \<in> set ws \<and> bound_id (jget w ''watch_id'') = Inr k
        \<and> isWatchDue dates w nowMs db = Inr True)"
proof (cases "toISOString nowMs")
  case (Some nowISO)
  show ?thesis
  proof (cases "listWatches file")
    case (Inr ws)
    obtain r db' where "tick_watches ae dates uuid nowMs nowISO 0 ws db = (r, db')" by fastforce
    with tick_watches_rows [OF this, of k] show ?thesis by (auto simp: tick_def Some Inr)
  qed (simp add: tick_def Some)
qed (simp add: tick_def)

text \<open>A unit that every object inherits passes the validation, and a watch with it is never due.\<close>

lemma inherited_unit_never_due:
  assumes "js_template (jget_opt (jget w ''cadence'') ''unit'') = ''constructor''"
    and "jget_opt (jget w ''cadence'') ''interval'' = Some (JNum n)" and "1 \<le> n"
  shows "cadenceIntervalMs (jget w ''cadence'') = Inr None"
    and "isWatchDue dates w t db \<noteq> Inr True"
proof -
  show c: "cadenceIntervalMs (jget w ''cadence'') = Inr None"
    using assms by (simp add: cadenceIntervalMs_def cadence_unit_def CADENCE_UNITS_MS_def inherited_names_def)
  show "isWatchDue dates w t db \<noteq> Inr True"
    by (auto simp: isWatchDue_def next_due_def c split: bind_splits)
qed

subsection \<open>What the file can hold\<close>

lemma enumerate_map_snd: "List.enumerate n (map f xs) = map (\<lambda>(i, x). (i, f x)) (List.enumerate n xs)"
  by (induction xs arbitrary: n) auto

lemma evidence_of_members:
  "jget (evidence_of e) ''framework'' = jget e ''framework''" "jget (evidence_of e) ''control_id'' = jget e ''control_id''"
  by (simp_all add: evidence_of_def map_of_opt_members del: opt_members_Cons)

lemma evidence_issues_copy:
  assumes "evidence_issues v = []"
  shows "evidence_issues (map_option (\<lambda>v. JArr (map evidence_of (jarr_or_empty (Some v)))) v) = []"
proof (cases "\<exists>e es. v = Some (JArr (e # es))")
  case True
  then obtain e es where v: "v = Some (JArr (e # es))" by blast
  have "evidence_issue (i, evidence_of x) = evidence_issue (i, x)" for i x
    by (simp add: evidence_issue_def evidence_of_members)
  then have "map evidence_issue (List.enumerate 0 (map evidence_of xs)) = map evidence_issue (List.enumerate 0 xs)" for xs
    by (simp add: enumerate_map_snd split: prod.split)
  from this [of "e # es"] assms show ?thesis by (simp add: v evidence_issues_def)
next
  case False
  with assms have "v = None" by (auto simp: evidence_issues_def split: option.splits json.splits list.splits)
  then show ?thesis by (simp add: evidence_issues_def)
qed

lemma new_watch_members:
  "jget (new_watch i uuid now) ''pack_ref'' = Some (JObj (opt_members
     [(''pack_id'', jget_opt (jget_opt i ''pack_ref'') ''pack_id''), (''pack_digest'', jget_opt (jget_opt i ''pack_ref'') ''pack_digest'')]))"
  "jget (new_watch i uuid now) ''cadence'' = Some (JObj (opt_members
     [(''unit'', jget_opt (jget_opt i ''cadence'') ''unit''), (''interval'', jget_opt (jget_opt i ''cadence'') ''interval'')]))"
  "jget (new_watch i uuid now) ''inputs_source'' = Some (if input_mode i = Some (JStr ''operator_supplied'')
     then JObj (opt_members [(''mode'', Some (JStr ''operator_supplied'')), (''inputs'', jget_opt (jget_opt i ''inputs_source'') ''inputs'')])
     else JObj [(''mode'', JStr ''sample'')])"
  "jget (new_watch i uuid now) ''alert_on'' = jget_opt i ''alert_on''"
  "jget (new_watch i uuid now) ''evidences'' = map_option (\<lambda>v. JArr (map evidence_of (jarr_or_empty (Some v)))) (jget_opt i ''evidences'')"
  "jget (new_watch i uuid now) ''created_by'' = Some (JObj (opt_members [(''id'', jget_opt (jget_opt i ''created_by'') ''id'')]))"
  "jget (new_watch i uuid now) ''consent_ref'' = jget_opt i ''consent_ref''"
  by (simp_all add: new_watch_def Let_def map_of_opt_members del: opt_members_Cons)

lemma jget_members: "jget (JObj (opt_members ms)) k = map_of (opt_members ms) k"
  by simp

lemma new_watch_valid:
  assumes "validateWatchInput i = []"
  shows "validateWatchInput (Some (new_watch i uuid now)) = []"
proof -
  let ?w = "new_watch i uuid now"
  have ref: "jget_opt (jget ?w ''pack_ref'') k = jget_opt (jget_opt i ''pack_ref'') k" if "k \<in> {''pack_id'', ''pack_digest''}" for k
    using that by (auto simp: jget_opt_def new_watch_members map_of_opt_members simp del: opt_members_Cons)
  have "jget_opt (jget ?w ''cadence'') ''unit'' = jget_opt (jget_opt i ''cadence'') ''unit''"
    "jget_opt (jget ?w ''cadence'') ''interval'' = jget_opt (jget_opt i ''cadence'') ''interval''"
    by (simp_all add: jget_opt_def new_watch_members map_of_opt_members del: opt_members_Cons)
  then have cad: "cadenceIntervalMs (jget ?w ''cadence'') = cadenceIntervalMs (jget_opt i ''cadence'')"
    unfolding cadenceIntervalMs_def cadence_unit_def by (simp only:)
  have mode: "input_mode (Some ?w) \<in> (Some \<circ> JStr) ` set PHASE1_INPUT_MODES"
    by (simp add: input_mode_def jget_opt_def new_watch_members map_of_opt_members PHASE1_INPUT_MODES_def del: opt_members_Cons)
  have by_id: "jget_opt (jget ?w ''created_by'') ''id'' = jget_opt (jget_opt i ''created_by'') ''id''"
    by (simp add: jget_opt_def new_watch_members map_of_opt_members del: opt_members_Cons)
  have some: "jget_opt (Some ?w) k = jget ?w k" for k by (simp add: jget_opt_def)
  show ?thesis
    using assms evidence_issues_copy mode
    unfolding validateWatchInput_def Let_def some ref [of "''pack_id''", simplified] ref [of "''pack_digest''", simplified] cad by_id
      new_watch_members(4,5,7)
    by simp
qed

lemma find_err_None: "find_err f xs = Inr None \<longleftrightarrow> list_all (\<lambda>x. f x = Inr False) xs"
  by (induction xs) auto

lemma take_out_split: "take_out f xs = Inr (Some (y, ys)) \<Longrightarrow> \<exists>as bs. xs = as @ y # bs \<and> ys = as @ bs"
proof (induction xs arbitrary: ys)
  case (Cons x xs)
  then obtain b where b: "f x = Inr b" by auto
  show ?case
  proof (cases b)
    case True
    with Cons.prems b have "xs = ys" "x = y" by simp_all
    then show ?thesis by (intro exI [of _ "[]"] exI [of _ xs]) simp
  next
    case False
    with Cons.prems b obtain zs where z: "take_out f xs = Inr (Some (y, zs))" "ys = x # zs"
      by (auto split: option.splits)
    then obtain as bs where "xs = as @ y # bs" "zs = as @ bs" using Cons.IH by blast
    with z show ?thesis by (intro exI [of _ "x # as"] exI [of _ bs]) simp
  qed
qed simp

definition watches_valid :: "json list \<Rightarrow> bool" where
  "watches_valid ws \<longleftrightarrow>
     list_all (\<lambda>w. w \<noteq> JNull \<and> validateWatchInput (Some w) = []) ws
     \<and> sorted_wrt (\<lambda>v w. \<not> js_same (jget v ''watch_id'') (jget w ''watch_id'')) ws"

datatype watch_op = Create string string "json option" | Revoke "json option" "json option" string

fun after_op :: "action_env \<Rightarrow> watch_op \<Rightarrow> state_file \<Rightarrow> state_file" where
  "after_op ae (Create uuid now i) file = snd (createWatch ae uuid now i file)"
| "after_op ae (Revoke i revokedBy now) file = snd (revokeWatch i revokedBy now file)"

lemma createWatch_valid:
  assumes "listWatches file = Inr ws" "watches_valid ws"
  shows "\<exists>ws'. listWatches (snd (createWatch ae uuid now i file)) = Inr ws' \<and> watches_valid ws'"
proof (cases "fst (createWatch ae uuid now i file)")
  case (Inl e)
  then have "snd (createWatch ae uuid now i file) = file"
    by (auto simp: createWatch_def Let_def split: sum.splits option.splits)
  then show ?thesis using assms by simp
next
  case (Inr w)
  let ?w = "new_watch i uuid now"
  from Inr have c: "check_watch ae i = Inr ()" and f: "find_err (has_watch_id (jget ?w ''watch_id'')) ws = Inr None"
    and s: "snd (createWatch ae uuid now i file) = saveWatchesFile (ws @ [?w])"
    using assms(1) by (auto simp: createWatch_def Let_def split: sum.splits option.splits)
  from c have "validateWatchInput i = []" by (simp add: check_watch_def)
  then have "validateWatchInput (Some ?w) = []" by (rule new_watch_valid)
  moreover have "?w \<noteq> JNull" by (simp add: new_watch_def Let_def)
  moreover have "list_all (\<lambda>v. \<not> js_same (jget v ''watch_id'') (jget ?w ''watch_id'')) ws"
    using f unfolding find_err_None by (auto simp: list_all_iff has_watch_id_def split: if_splits)
  ultimately have "watches_valid (ws @ [?w])"
    using assms(2) by (auto simp: watches_valid_def sorted_wrt_append list_all_iff)
  then show ?thesis by (simp add: s listWatches_def saveWatchesFile_def)
qed

lemma revokeWatch_valid:
  assumes "listWatches file = Inr ws" "watches_valid ws"
  shows "\<exists>ws'. listWatches (snd (revokeWatch i revokedBy now file)) = Inr ws' \<and> watches_valid ws'"
proof (cases "take_out (has_watch_id i) ws")
  case (Inl e)
  with assms show ?thesis by (simp add: revokeWatch_def)
next
  case (Inr r)
  show ?thesis
  proof (cases r)
    case None
    with Inr assms show ?thesis by (simp add: revokeWatch_def)
  next
    case (Some p)
    obtain y ys where p: "p = (y, ys)" by (cases p)
    with Inr Some have t: "take_out (has_watch_id i) ws = Inr (Some (y, ys))" by simp
    obtain as bs where "ws = as @ y # bs" "ys = as @ bs" using take_out_split [OF t] by blast
    with assms(2) have "watches_valid ys" by (auto simp: watches_valid_def sorted_wrt_append)
    with Inr Some p assms(1) show ?thesis by (simp add: revokeWatch_def listWatches_def saveWatchesFile_def)
  qed
qed

text \<open>C31. However watches are created and revoked, refused requests included, the configuration file can be read,
  every watch in it passes the validation that its request passed, and no two watches share an id.\<close>

theorem watches_file_stays_valid:
  "\<exists>ws. listWatches (fold (after_op ae) ops Missing) = Inr ws
     \<and> list_all (\<lambda>w. w \<noteq> JNull \<and> validateWatchInput (Some w) = []) ws
     \<and> sorted_wrt (\<lambda>v w. \<not> js_same (jget v ''watch_id'') (jget w ''watch_id'')) ws"
proof -
  have "\<exists>ws. listWatches (fold (after_op ae) ops f) = Inr ws \<and> watches_valid ws"
    if "\<exists>ws. listWatches f = Inr ws \<and> watches_valid ws" for f
    using that
  proof (induction ops arbitrary: f)
    case (Cons p ops)
    then have "\<exists>ws. listWatches (after_op ae p f) = Inr ws \<and> watches_valid ws"
      using createWatch_valid revokeWatch_valid by (cases p) auto
    with Cons.IH show ?case by simp
  qed simp
  moreover have "\<exists>ws. listWatches Missing = Inr ws \<and> watches_valid ws"
    by (simp add: listWatches_def watches_valid_def)
  ultimately show ?thesis by (simp add: watches_valid_def)
qed

subsection \<open>The timer\<close>

inductive timer_step :: "timers \<Rightarrow> timers \<Rightarrow> bool" where
  started: "timer_step t (start i t)"
| stopped: "timer_step t (stop t)"

lemma one_timer:
  assumes "timer_step\<^sup>*\<^sup>* \<lparr>ti_timer = None, ti_running = []\<rparr> t"
  shows "ti_running t = (case ti_timer t of None \<Rightarrow> [] | Some i \<Rightarrow> [i])"
  using assms
proof (induction rule: rtranclp_induct)
  case (step t t')
  from step.hyps(2) step.IH show ?case
    by cases (auto simp: start_def stop_def split: option.splits)
qed simp

end
