(* ===== verification/Anchoring.thy ===== *)
theory Anchoring
  imports Schema_Validator Js_Date Packs Credentials
begin

text \<open>
  \<^verbatim>\<open>hub/anchor-client.mjs\<close> and \<^verbatim>\<open>hub/anchor-queue.mjs\<close>: time stamps on checkpoint digests from an RFC 3161 relay,
  and the queue of the ones to try again. The relay, the vendored builder of the query and the vendored
  parser that reads the message imprint out of a token are parameters (\<open>anchor_env\<close>); so is the OpenTimestamps
  calendar. The queue file is represented by what \<open>JSON.parse\<close> makes of it. Time passes between readings of the
  clock by amounts that the environment chooses, and a \<open>sleep\<close> lasts at least as long as it is asked to.
\<close>

datatype anchor_error =
    Unknown_ca string
  | Relay_unreached
  | Relay_http int
  | Relay_content_type string
  | Relay_rejected "nat option"
  | Relay_no_token nat
  | Relay_other_digest string
  | Der_type_error
  | Token_unreadable
  | Marker_invalid "schema_error list"
  | Marker_diverges
  | Calendar_failed
  | Anchor_time_range
  | Anchor_type_error

fun is_relay_message :: "anchor_error \<Rightarrow> bool" where
  \<comment> \<open>\<open>err.message.startsWith("anchor relay")\<close>\<close>
  "is_relay_message (Relay_http _) = True"
| "is_relay_message (Relay_content_type _) = True"
| "is_relay_message (Relay_rejected _) = True"
| "is_relay_message (Relay_no_token _) = True"
| "is_relay_message (Relay_other_digest _) = True"
| "is_relay_message _ = False"

definition is_unknown_ca :: "anchor_error \<Rightarrow> bool" where
  \<comment> \<open>\<open>err.message.startsWith("unknown relay CA")\<close>\<close>
  "is_unknown_ca e = (case e of Unknown_ca _ \<Rightarrow> True | _ \<Rightarrow> False)"

record relay_reply =
  ar_ok :: bool
  ar_status :: int
  ar_content_type :: "string option"
  ar_body :: string

record anchor_env =
  ax_tsq :: "nat \<Rightarrow> string \<Rightarrow> string"
  ax_relay :: "nat \<Rightarrow> string \<Rightarrow> string \<Rightarrow> relay_reply option"
  ax_imprint :: "string \<Rightarrow> string option"
  ax_calendar :: "nat \<Rightarrow> string \<Rightarrow> string \<Rightarrow> string option"
  ax_schema :: json
  ax_matches :: "string \<Rightarrow> string \<Rightarrow> bool"
  ax_fuel :: nat
  ax_lag :: "nat \<Rightarrow> nat"
  ax_dates :: "string \<Rightarrow> int option"

record anchor_state =
  as_queue :: state_file
  as_time :: int
  as_reads :: nat
  as_requests :: "(string \<times> string) list"

definition RELAY_BASE :: string where "RELAY_BASE = ''https://anchor.ainumbers.co''"
definition RELAY_CAS :: "string list" where "RELAY_CAS = [''digicert'', ''sectigo'', ''freetsa'']"
definition OTS_CALENDARS :: "string list" where
  "OTS_CALENDARS = [''https://a.pool.opentimestamps.org'', ''https://b.pool.opentimestamps.org'',
     ''https://alice.btc.calendar.opentimestamps.org'']"
definition MIN_RETRY_INTERVAL_MS :: int where "MIN_RETRY_INTERVAL_MS = 20000"

definition clock_now :: "anchor_env \<Rightarrow> anchor_state \<Rightarrow> int \<times> anchor_state" where
  "clock_now env st =
     (let t = as_time st + int (ax_lag env (as_reads st)) in (t, st\<lparr>as_time := t, as_reads := Suc (as_reads st)\<rparr>))"

definition sleep :: "int \<Rightarrow> anchor_state \<Rightarrow> anchor_state" where
  "sleep ms st = st\<lparr>as_time := as_time st + ms\<rparr>"

definition strip_sha256 :: "string \<Rightarrow> string" where
  \<comment> \<open>\<open>s.replace(/^sha256:/, "")\<close>\<close>
  "strip_sha256 s = (if starts_with s ''sha256:'' then drop 7 s else s)"

definition hexToBytes :: "string \<Rightarrow> string" where
  "hexToBytes hex = hex_bytes (strip_sha256 hex)"

subsection \<open>The response of the relay\<close>

text \<open>
  A node of the encoding as the vendored reader sees it: the tag is \<open>undefined\<close> beyond the buffer, the end is
  \<open>NaN\<close> when a byte of the length is missing.
\<close>

record der_node =
  dn_tag :: "nat option"
  dn_start :: nat
  dn_end :: "nat option"
  dn_content :: string
  dn_raw :: string

definition byte_at :: "string \<Rightarrow> nat \<Rightarrow> nat option" where
  "byte_at buf i = (if i < length buf then Some (of_char (buf ! i)) else None)"

definition long_length :: "string \<Rightarrow> nat \<Rightarrow> nat \<Rightarrow> nat option" where
  "long_length buf off n =
     (if off + 2 + n \<le> length buf then Some (foldl (\<lambda>len c. len * 256 + of_char c) 0 (take n (drop (off + 2) buf))) else None)"

definition derRead :: "string \<Rightarrow> nat \<Rightarrow> der_node" where
  "derRead buf off =
     (let (hdr, len) =
        (case byte_at buf (off + 1) of
           None \<Rightarrow> (2, None)
         | Some b \<Rightarrow> if b < 128 then (2, Some b) else (2 + (b - 128), long_length buf off (b - 128)))
      in \<lparr>dn_tag = byte_at buf off, dn_start = off + hdr, dn_end = map_option ((+) (off + hdr)) len,
          dn_content = (case len of None \<Rightarrow> [] | Some n \<Rightarrow> take n (drop (off + hdr) buf)),
          dn_raw = (case len of None \<Rightarrow> [] | Some n \<Rightarrow> take (hdr + n) (drop off buf))\<rparr>)"

lemma derRead_forward: "dn_end (derRead buf off) = Some e \<Longrightarrow> off < e"
  by (auto simp: derRead_def Let_def split: option.splits if_splits)

function der_children :: "string \<Rightarrow> nat \<Rightarrow> nat \<Rightarrow> der_node list" where
  "der_children buf off e =
     (if off < e
      then let c = derRead buf off
           in c # (case dn_end c of None \<Rightarrow> [] | Some off' \<Rightarrow> der_children buf off' e)
      else [])"
  by pat_completeness auto
termination
  by (relation "measure (\<lambda>(buf, off, e). e - off)") (auto dest: derRead_forward)

declare der_children.simps [simp del]

definition derChildrenOf :: "string \<Rightarrow> der_node \<Rightarrow> der_node list" where
  "derChildrenOf buf node = (case dn_end node of None \<Rightarrow> [] | Some e \<Rightarrow> der_children buf (dn_start node) e)"

definition first_content_byte :: "der_node \<Rightarrow> nat option" where
  "first_content_byte n = byte_at (dn_content n) 0"

definition unwrapTimeStampResp :: "string \<Rightarrow> anchor_error + string" where
  "unwrapTimeStampResp der =
     (case derChildrenOf der (derRead der 0) of
        [] \<Rightarrow> Inl Der_type_error
      | first # rest \<Rightarrow>
          if dn_tag first = Some 6 then Inr der
          else
            (case derChildrenOf der first of
               [] \<Rightarrow> Inl Der_type_error
             | kid # _ \<Rightarrow>
                 (case first_content_byte kid of
                    None \<Rightarrow> Inl (Relay_rejected None)
                  | Some status \<Rightarrow>
                      if status \<noteq> 0 \<and> status \<noteq> 1 then Inl (Relay_rejected (Some status))
                      else case rest of [] \<Rightarrow> Inl (Relay_no_token status) | second # _ \<Rightarrow> Inr (dn_raw second))))"

definition relay_url :: "string \<Rightarrow> string \<Rightarrow> string" where
  "relay_url relayBase ca = relayBase @ ''/relay/'' @ ca"

definition content_type :: "string option \<Rightarrow> string" where
  "content_type h = js_trim (hd (js_split (CHR '';'') (case h of None \<Rightarrow> [] | Some s \<Rightarrow> s)))"

definition check_reply :: "anchor_env \<Rightarrow> string \<Rightarrow> relay_reply option \<Rightarrow> anchor_error + string" where
  \<comment> \<open>the token of a response, which must be bound to the digest that was sent\<close>
  "check_reply env hashHex reply =
     (case reply of
        None \<Rightarrow> Inl Relay_unreached
      | Some res \<Rightarrow>
          and_then (guard_err (ar_ok res) (Relay_http (ar_status res))) (\<lambda>_.
          and_then (guard_err (content_type (ar_content_type res) = ''application/timestamp-reply'')
                      (Relay_content_type (content_type (ar_content_type res)))) (\<lambda>_.
          and_then (unwrapTimeStampResp (ar_body res)) (\<lambda>der.
            case ax_imprint env der of
              None \<Rightarrow> Inl Token_unreadable
            | Some imprint \<Rightarrow> and_then (guard_err (imprint = hashHex) (Relay_other_digest imprint)) (\<lambda>_. Inr der)))))"

definition iso_now :: "anchor_env \<Rightarrow> anchor_state \<Rightarrow> (anchor_error + string) \<times> anchor_state" where
  "iso_now env st =
     (let (t, st1) = clock_now env st
      in (case toISOString t of None \<Rightarrow> Inl Anchor_time_range | Some s \<Rightarrow> Inr s, st1))"

definition anchor_entry :: "string \<Rightarrow> string \<Rightarrow> string \<Rightarrow> string \<Rightarrow> string \<Rightarrow> json" where
  "anchor_entry ca relayBase hashHex der now =
     JObj [(''type'', JStr ''rfc3161''), (''ca'', JStr ca), (''log_origin'', JStr (relay_url relayBase ca)),
           (''anchored_hash'', JStr (''sha256:'' @ hashHex)), (''der'', JStr (base64 (map of_char der))), (''requested_at'', JStr now)]"

definition anchorRfc3161 ::
  "anchor_env \<Rightarrow> string \<Rightarrow> string \<Rightarrow> string \<Rightarrow> anchor_state \<Rightarrow> (anchor_error + json) \<times> anchor_state" where
  "anchorRfc3161 env ca relayBase hashHex st =
     (if ca \<notin> set RELAY_CAS then (Inl (Unknown_ca ca), st)
      else
        let n = length (as_requests st); url = relay_url relayBase ca;
            st1 = st\<lparr>as_requests := as_requests st @ [(url, hashHex)]\<rparr>
        in case check_reply env hashHex (ax_relay env n url (ax_tsq env n (hexToBytes hashHex))) of
             Inl e \<Rightarrow> (Inl e, st1)
           | Inr der \<Rightarrow>
               let (now, st2) = iso_now env st1
               in (map_sum id (anchor_entry ca relayBase hashHex der) now, st2))"

definition anchorOpenTimestamps ::
  "anchor_env \<Rightarrow> string \<Rightarrow> string \<Rightarrow> anchor_state \<Rightarrow> (anchor_error + json) \<times> anchor_state" where
  "anchorOpenTimestamps env calendar hashHex st =
     (let n = length (as_requests st); url = calendar @ ''/digest'';
          st1 = st\<lparr>as_requests := as_requests st @ [(url, hashHex)]\<rparr>
      in case ax_calendar env n url (hexToBytes hashHex) of
           None \<Rightarrow> (Inl Calendar_failed, st1)
         | Some proof_bytes \<Rightarrow>
             let (now, st2) = iso_now env st1
             in (map_sum id (\<lambda>t. JObj [(''type'', JStr ''opentimestamps''), (''calendar'', JStr calendar),
                   (''anchored_hash'', JStr (''sha256:'' @ hashHex)), (''pending_proof'', JStr (base64 (map of_char proof_bytes))),
                   (''upgraded'', JBool False), (''submitted_at'', JStr t)]) now, st2))"

subsection \<open>Queue markers\<close>

definition marker_of ::
  "json option \<Rightarrow> string \<Rightarrow> string \<Rightarrow> json option \<Rightarrow> json \<Rightarrow> string option \<Rightarrow> string \<Rightarrow> string \<Rightarrow> json" where
  "marker_of checkpointSeq status reason relayUrl attempts lastAttemptAt journalRootDigest now =
     JObj (opt_members
       [(''checkpoint_seq'', checkpointSeq), (''status'', Some (JStr status)), (''reason'', Some (JStr reason)),
        (''relay_url'', relayUrl), (''recorded_at'', Some (JStr now)), (''attempts'', Some attempts),
        (''last_attempt_at'', case lastAttemptAt of None \<Rightarrow> None | Some t \<Rightarrow> if t = [] then None else Some (JStr t)),
        (''journal_root_digest'', if journalRootDigest = [] then None
           else Some (JStr (if starts_with journalRootDigest ''sha256:'' then journalRootDigest else ''sha256:'' @ journalRootDigest)))])"

definition buildQueueMarker ::
  "anchor_env \<Rightarrow> json option \<Rightarrow> string \<Rightarrow> string \<Rightarrow> json option \<Rightarrow> json \<Rightarrow> string option \<Rightarrow> string \<Rightarrow> string \<Rightarrow> anchor_error + json" where
  "buildQueueMarker env checkpointSeq status reason relayUrl attempts lastAttemptAt journalRootDigest now =
     (let marker = marker_of checkpointSeq status reason relayUrl attempts lastAttemptAt journalRootDigest now
      in case validate (ax_matches env) (ax_fuel env) (ax_schema env) (ax_schema env) marker ''$'' of
           None \<Rightarrow> Inl Marker_diverges
         | Some (e # es) \<Rightarrow> Inl (Marker_invalid (e # es))
         | Some [] \<Rightarrow> Inr marker)"

subsection \<open>The queue\<close>

fun loadAnchorQueue :: "state_file \<Rightarrow> json list" where
  "loadAnchorQueue (Holds v) = jarr_or_empty (Some v)"
| "loadAnchorQueue _ = []"

definition saveAnchorQueue :: "json list \<Rightarrow> state_file" where
  "saveAnchorQueue entries = Holds (JArr entries)"

definition other_entries :: "json option \<Rightarrow> state_file \<Rightarrow> anchor_error + json list" where
  \<comment> \<open>\<open>loadAnchorQueue().filter((e) => e.checkpoint_seq !== seq)\<close>\<close>
  "other_entries seq f =
     and_then (each_err (\<lambda>e. guard_err (e \<noteq> JNull) Anchor_type_error) (loadAnchorQueue f)) (\<lambda>_.
       Inr (filter (\<lambda>e. \<not> js_same (jget e ''checkpoint_seq'') seq) (loadAnchorQueue f)))"

definition enqueueAnchorRetry :: "json \<Rightarrow> state_file \<Rightarrow> (anchor_error + unit) \<times> state_file" where
  "enqueueAnchorRetry marker f =
     (if \<not> js_truthy (Some marker) \<or> jget marker ''status'' \<noteq> Some (JStr ''queued'') \<or> \<not> js_truthy (jget marker ''journal_root_digest'')
      then (Inr (), f)
      else case other_entries (jget marker ''checkpoint_seq'') f of
             Inl e \<Rightarrow> (Inl e, f)
           | Inr es \<Rightarrow> (Inr (), saveAnchorQueue (es @ [JObj (js_entries marker)])))"

definition resolveAnchorRetry :: "json option \<Rightarrow> state_file \<Rightarrow> (anchor_error + unit) \<times> state_file" where
  "resolveAnchorRetry checkpointSeq f =
     (case other_entries checkpointSeq f of Inl e \<Rightarrow> (Inl e, f) | Inr es \<Rightarrow> (Inr (), saveAnchorQueue es))"

definition plus_one :: "json option \<Rightarrow> json" where
  \<comment> \<open>\<open>(v ?? 0) + 1\<close>\<close>
  "plus_one v =
     (case v of
        None \<Rightarrow> JNum 1 | Some JNull \<Rightarrow> JNum 1
      | Some (JNum n) \<Rightarrow> JNum (n + 1)
      | Some (JBool b) \<Rightarrow> JNum (if b then 2 else 1)
      | Some w \<Rightarrow> JStr (js_string w @ ''1''))"

definition requeueAnchorRetry ::
  "anchor_env \<Rightarrow> json \<Rightarrow> string \<Rightarrow> string \<Rightarrow> string \<Rightarrow> state_file \<Rightarrow> (anchor_error + unit) \<times> state_file" where
  "requeueAnchorRetry env entry digest reason lastAttemptAt f =
     (case and_then (buildQueueMarker env (jget entry ''checkpoint_seq'') ''queued'' reason (jget entry ''relay_url'')
                       (plus_one (jget entry ''attempts'')) (Some lastAttemptAt) digest lastAttemptAt)
             (\<lambda>updated. and_then (other_entries (jget entry ''checkpoint_seq'') f) (\<lambda>es. Inr (es @ [updated]))) of
        Inl e \<Rightarrow> (Inl e, f)
      | Inr es \<Rightarrow> (Inr (), saveAnchorQueue es))"

definition relay_reason :: "anchor_error \<Rightarrow> string" where
  "relay_reason e = (if is_relay_message e then ''relay_error'' else ''relay_unreachable'')"

definition in_cooldown :: "anchor_env \<Rightarrow> int \<Rightarrow> json \<Rightarrow> int \<Rightarrow> bool" where
  \<comment> \<open>\<open>now() - lastAttemptMs < minIntervalMs\<close>, false when the recorded time is no time\<close>
  "in_cooldown env minIntervalMs entry now =
     (case (if js_truthy (jget entry ''last_attempt_at'')
            then Date_parse (ax_dates env) (js_template (jget entry ''last_attempt_at'')) else Some 0) of
        None \<Rightarrow> False | Some t \<Rightarrow> now - t < minIntervalMs)"

definition wait_turn :: "anchor_env \<Rightarrow> int \<Rightarrow> int \<Rightarrow> anchor_state \<Rightarrow> anchor_state" where
  "wait_turn env minIntervalMs lastAttemptClock st =
     (if 0 < lastAttemptClock
      then let (now, st1) = clock_now env st; elapsed = now - lastAttemptClock
           in if elapsed < minIntervalMs then sleep (minIntervalMs - elapsed) st1 else st1
      else st)"

definition retry_entry ::
  "anchor_env \<Rightarrow> string \<Rightarrow> string \<Rightarrow> json \<Rightarrow> string \<Rightarrow> anchor_state \<Rightarrow> (anchor_error + json option) \<times> anchor_state" where
  \<comment> \<open>one attempt: the anchor when it succeeded, \<open>None\<close> when the entry stays queued\<close>
  "retry_entry env ca relayBase entry digest st =
     (case iso_now env st of
        (Inl e, st1) \<Rightarrow> (Inl e, st1)
      | (Inr attemptedAt, st1) \<Rightarrow>
          (case anchorRfc3161 env ca relayBase (strip_sha256 digest) st1 of
             (Inr anchor, st2) \<Rightarrow>
               (let (r, f) = resolveAnchorRetry (jget entry ''checkpoint_seq'') (as_queue st2)
                in case r of
                     Inr _ \<Rightarrow> (Inr (Some anchor), st2\<lparr>as_queue := f\<rparr>)
                   | Inl _ \<Rightarrow>
                       let (r', f') = requeueAnchorRetry env entry digest ''relay_unreachable'' attemptedAt (as_queue st2)
                       in (map_sum id (\<lambda>_. None) r', st2\<lparr>as_queue := f'\<rparr>))
           | (Inl e, st2) \<Rightarrow>
               if is_unknown_ca e then (Inl e, st2)
               else (let (r, f) = requeueAnchorRetry env entry digest (relay_reason e) attemptedAt (as_queue st2)
                in (map_sum id (\<lambda>_. None) r, st2\<lparr>as_queue := f\<rparr>))))"

fun drain_entries ::
  "anchor_env \<Rightarrow> string \<Rightarrow> string \<Rightarrow> int \<Rightarrow> int \<Rightarrow> json list \<Rightarrow> anchor_state \<Rightarrow>
   (anchor_error + (json option \<times> json) list) \<times> int list \<times> anchor_state" where
  \<comment> \<open>also the readings of the clock at which attempts were made\<close>
  "drain_entries env ca relayBase minIntervalMs lastAttemptClock [] st = (Inr [], [], st)"
| "drain_entries env ca relayBase minIntervalMs lastAttemptClock (entry # es) st =
     (if entry = JNull then (Inl Anchor_type_error, [], st)
      else if \<not> js_truthy (jget entry ''journal_root_digest'')
      then drain_entries env ca relayBase minIntervalMs lastAttemptClock es st
      else
        let (now, st1) = clock_now env st
        in if in_cooldown env minIntervalMs entry now
           then drain_entries env ca relayBase minIntervalMs lastAttemptClock es st1
           else
             let (attempt, st2) = clock_now env (wait_turn env minIntervalMs lastAttemptClock st1)
             in case jget entry ''journal_root_digest'' of
                  Some (JStr digest) \<Rightarrow>
                    (case retry_entry env ca relayBase entry digest st2 of
                       (Inl e, st3) \<Rightarrow> (Inl e, [attempt], st3)
                     | (Inr a, st3) \<Rightarrow>
                         let (r, ts, st4) = drain_entries env ca relayBase minIntervalMs attempt es st3
                         in (map_sum id (\<lambda>l. case a of None \<Rightarrow> l | Some anchor \<Rightarrow> (jget entry ''checkpoint_seq'', anchor) # l) r,
                             attempt # ts, st4))
                | _ \<Rightarrow> (Inl Anchor_type_error, [], st2))"

definition drainAnchorQueue ::
  "anchor_env \<Rightarrow> string \<Rightarrow> string \<Rightarrow> int \<Rightarrow> anchor_state \<Rightarrow>
   (anchor_error + (json option \<times> json) list) \<times> int list \<times> anchor_state" where
  "drainAnchorQueue env ca relayBase minIntervalMs st =
     drain_entries env ca relayBase minIntervalMs 0 (loadAnchorQueue (as_queue st)) st"

subsection \<open>Anchoring a checkpoint\<close>

record anchored =
  an_anchor :: "json option"
  an_marker :: "json option"
  an_retries :: "(json option \<times> json) list"

definition lower :: "string \<Rightarrow> string" where
  "lower s = map (\<lambda>c. let n = of_char c :: nat
     in if 65 \<le> n \<and> n \<le> 90 \<or> 192 \<le> n \<and> n \<le> 222 \<and> n \<noteq> 215 then char_of (n + 32) else c) s"

definition failed_anchor ::
  "anchor_env \<Rightarrow> json option \<Rightarrow> string \<Rightarrow> string \<Rightarrow> string \<Rightarrow> (json option \<times> json) list \<Rightarrow> anchor_error \<Rightarrow> string \<Rightarrow> anchor_state \<Rightarrow>
   (anchor_error + anchored) \<times> anchor_state" where
  \<comment> \<open>what \<open>anchorForCheckpoint\<close> does in its handler\<close>
  "failed_anchor env checkpointSeq ca relayBase clean retries e attemptedAt st =
     (case iso_now env st of
        (Inl e, st4) \<Rightarrow> (Inl e, st4)
      | (Inr now, st4) \<Rightarrow>
          (case buildQueueMarker env checkpointSeq ''queued'' (relay_reason e) (Some (JStr (relay_url relayBase ca)))
                  (JNum 1) (Some attemptedAt) clean now of
             Inl e' \<Rightarrow> (Inl e', st4)
           | Inr m \<Rightarrow>
               (let (r, f) = enqueueAnchorRetry m (as_queue st4)
                in (map_sum id (\<lambda>_. \<lparr>an_anchor = None, an_marker = Some m, an_retries = retries\<rparr>) r,
                    st4\<lparr>as_queue := f\<rparr>))))"

definition anchorForCheckpoint ::
  "anchor_env \<Rightarrow> json option \<Rightarrow> string \<Rightarrow> string \<Rightarrow> bool \<Rightarrow> string \<Rightarrow> anchor_state \<Rightarrow> (anchor_error + anchored) \<times> anchor_state" where
  "anchorForCheckpoint env checkpointSeq ca relayBase offline hashHex st =
     (let clean = lower (strip_sha256 hashHex); url = Some (JStr (relay_url relayBase ca))
      in if offline
         then case iso_now env st of
                (Inl e, st1) \<Rightarrow> (Inl e, st1)
              | (Inr now, st1) \<Rightarrow>
                  (map_sum id (\<lambda>m. \<lparr>an_anchor = None, an_marker = Some m, an_retries = []\<rparr>)
                     (buildQueueMarker env checkpointSeq ''skipped'' ''egress_blocked'' url (JNum 0) None clean now), st1)
         else
           let (d, _, st1) = drainAnchorQueue env ca relayBase MIN_RETRY_INTERVAL_MS st;
               retries = (case d of Inl _ \<Rightarrow> [] | Inr l \<Rightarrow> l)
           in case iso_now env st1 of
                (Inl e, st2) \<Rightarrow> (Inl e, st2)
              | (Inr attemptedAt, st2) \<Rightarrow>
                  (case anchorRfc3161 env ca relayBase clean st2 of
                     (Inr a, st3) \<Rightarrow> (Inr \<lparr>an_anchor = Some a, an_marker = None, an_retries = retries\<rparr>, st3)
                   | (Inl e, st3) \<Rightarrow>
                       if is_unknown_ca e then (Inl e, st3)
                       else failed_anchor env checkpointSeq ca relayBase clean retries e attemptedAt st3))"

definition toCheckpointAnchorEntry :: "anchored \<Rightarrow> anchor_error + json" where
  "toCheckpointAnchorEntry a =
     (if js_truthy (an_anchor a) then Inr (the (an_anchor a))
      else case an_marker a of
             None \<Rightarrow> Inl Anchor_type_error
           | Some m \<Rightarrow>
               if m = JNull then Inl Anchor_type_error
               else Inr (JObj (opt_members
                 [(''type'', jget m ''status''), (''reason'', jget m ''reason''), (''relay_url'', jget m ''relay_url''),
                  (''recorded_at'', jget m ''recorded_at''), (''attempts'', jget m ''attempts''),
                  (''last_attempt_at'', if js_truthy (jget m ''last_attempt_at'') then jget m ''last_attempt_at'' else None)])))"

subsection \<open>Anchors are bound to the digest\<close>

definition bound_anchor :: "anchor_env \<Rightarrow> json \<Rightarrow> bool" where
  "bound_anchor env a \<longleftrightarrow>
     (\<exists>ca relayBase hashHex der now. a = anchor_entry ca relayBase hashHex der now \<and> ax_imprint env der = Some hashHex)"

lemma map_sum_id_Inr [simp]: "map_sum id f x = Inr y \<longleftrightarrow> (\<exists>z. x = Inr z \<and> y = f z)"
  by (cases x) auto

lemma map_sum_id_Inl [simp]: "map_sum id f x = Inl e \<longleftrightarrow> x = Inl e"
  by (cases x) auto

lemma check_reply_Inr: "check_reply env hashHex reply = Inr der \<Longrightarrow> ax_imprint env der = Some hashHex"
  by (auto simp: check_reply_def split: option.splits)

lemma anchorRfc3161_Inr:
  assumes "anchorRfc3161 env ca relayBase hashHex st = (Inr a, st')"
  shows "\<exists>der now. a = anchor_entry ca relayBase hashHex der now \<and> ax_imprint env der = Some hashHex"
proof -
  obtain der now where "check_reply env hashHex (ax_relay env (length (as_requests st)) (relay_url relayBase ca)
      (ax_tsq env (length (as_requests st)) (hexToBytes hashHex))) = Inr der" "a = anchor_entry ca relayBase hashHex der now"
    using assms by (auto simp: anchorRfc3161_def Let_def split: if_splits sum.splits prod.splits)
  then show ?thesis using check_reply_Inr by blast
qed

lemma iso_now_queue [simp]: "as_queue (snd (iso_now env st)) = as_queue st"
  by (simp add: iso_now_def clock_now_def Let_def)

lemma anchorRfc3161_queue: "as_queue (snd (anchorRfc3161 env ca relayBase hashHex st)) = as_queue st"
  by (auto simp: anchorRfc3161_def Let_def iso_now_def clock_now_def split: sum.split prod.split)

lemma retry_entry_cases:
  assumes "retry_entry env ca relayBase entry digest st = (r, st')"
  obtains (no_time) e where "iso_now env st = (Inl e, st')" "r = Inl e"
  | (solved) t0 st1 anchor st2 where "iso_now env st = (Inr t0, st1)"
      "anchorRfc3161 env ca relayBase (strip_sha256 digest) st1 = (Inr anchor, st2)"
      "resolveAnchorRetry (jget entry ''checkpoint_seq'') (as_queue st2) = (Inr (), as_queue st')"
      "r = Inr (Some anchor)" "as_time st' = as_time st2"
  | (again) t0 st1 q st2 reason r' where "iso_now env st = (Inr t0, st1)"
      "anchorRfc3161 env ca relayBase (strip_sha256 digest) st1 = (q, st2)"
      "requeueAnchorRetry env entry digest reason t0 (as_queue st2) = (r', as_queue st')"
      "r = map_sum id (\<lambda>_. None) r'" "as_time st' = as_time st2"
  | (bad_ca) t0 st1 e where "iso_now env st = (Inr t0, st1)"
      "anchorRfc3161 env ca relayBase (strip_sha256 digest) st1 = (Inl e, st')" "r = Inl e"
proof -
  obtain t st1 where t: "iso_now env st = (t, st1)" by fastforce
  show thesis
  proof (cases t)
    case (Inl e)
    with assms t show ?thesis by (intro no_time) (auto simp: retry_entry_def)
  next
    case t0: (Inr t0)
    obtain q st2 where q: "anchorRfc3161 env ca relayBase (strip_sha256 digest) st1 = (q, st2)" by fastforce
    show ?thesis
    proof (cases q)
      case (Inr anchor)
      obtain x f where x: "resolveAnchorRetry (jget entry ''checkpoint_seq'') (as_queue st2) = (x, f)" by fastforce
      show ?thesis
      proof (cases x)
        case (Inl e)
        obtain y g where "requeueAnchorRetry env entry digest ''relay_unreachable'' t0 (as_queue st2) = (y, g)" by fastforce
        with assms t t0 q Inr x Inl show ?thesis by (intro again [of t0 st1 q st2]) (auto simp: retry_entry_def)
      next
        case ok: (Inr u)
        with assms t t0 q Inr x show ?thesis by (intro solved [of t0 st1 anchor st2]) (auto simp: retry_entry_def)
      qed
    next
      case (Inl e)
      obtain y g where y: "requeueAnchorRetry env entry digest (relay_reason e) t0 (as_queue st2) = (y, g)" by fastforce
      show ?thesis
      proof (cases "is_unknown_ca e")
        case True
        with assms t t0 q Inl show ?thesis by (intro bad_ca [of t0 st1 e]) (auto simp: retry_entry_def)
      next
        case False
        with assms t t0 q Inl y show ?thesis
          by (intro again [of t0 st1 q st2 "relay_reason e" y]) (auto simp: retry_entry_def)
      qed
    qed
  qed
qed

lemma retry_entry_bound:
  assumes "retry_entry env ca relayBase entry digest st = (Inr (Some anchor), st')"
  shows "bound_anchor env anchor"
  using assms
proof (cases rule: retry_entry_cases)
  case (solved t0 st1 a st2)
  then show ?thesis using anchorRfc3161_Inr unfolding bound_anchor_def by blast
next
  case (again t0 st1 q st2 reason r')
  then show ?thesis by (cases r') auto
qed auto

lemma drained_anchors_bound:
  "drain_entries env ca relayBase minMs lastClock es st = (Inr l, ts, st') \<Longrightarrow> list_all (bound_anchor env \<circ> snd) l"
proof (induction es arbitrary: lastClock st l ts)
  case (Cons entry es)
  obtain now st1 where c: "clock_now env st = (now, st1)" by fastforce
  show ?case
  proof (cases "entry = JNull \<or> \<not> js_truthy (jget entry ''journal_root_digest'') \<or> in_cooldown env minMs entry now")
    case True
    with Cons show ?thesis by (auto simp: c split: if_splits)
  next
    case False
    obtain attempt st2 where a: "clock_now env (wait_turn env minMs lastClock st1) = (attempt, st2)" by fastforce
    obtain digest where d: "jget entry ''journal_root_digest'' = Some (JStr digest)"
      using Cons.prems False by (auto simp: c a split: option.splits json.splits)
    obtain x st3 where r: "retry_entry env ca relayBase entry digest st2 = (Inr x, st3)"
      using Cons.prems False by (auto simp: c a d split: prod.splits sum.splits)
    obtain l' ts' where rest: "drain_entries env ca relayBase minMs attempt es st3 = (Inr l', ts', st')"
      and l: "l = (case x of None \<Rightarrow> l' | Some anchor \<Rightarrow> (jget entry ''checkpoint_seq'', anchor) # l')"
      using Cons.prems False by (auto simp: c a d r split: prod.splits sum.splits)
    have "bound_anchor env anchor" if "x = Some anchor" for anchor
      using retry_entry_bound [of env ca relayBase entry digest st2 anchor st3] r that by simp
    with Cons.IH [OF rest] show ?thesis by (auto simp: l split: option.split)
  qed
qed simp

lemma marker_status: "buildQueueMarker env seq status reason url attempts lastAt digest now = Inr m \<Longrightarrow>
    jget m ''status'' = Some (JStr status) \<and> jget m ''checkpoint_seq'' = seq
    \<and> jget m ''journal_root_digest'' = (if digest = [] then None
         else Some (JStr (if starts_with digest ''sha256:'' then digest else ''sha256:'' @ digest)))"
  by (auto simp: buildQueueMarker_def marker_of_def Let_def map_of_opt_members simp del: opt_members_Cons
      split: option.splits list.splits)

fun aborts_checkpoint :: "anchor_error \<Rightarrow> bool" where
  \<comment> \<open>a caller's mistake, a clock out of range, a marker that is not valid, a malformed queue file\<close>
  "aborts_checkpoint (Unknown_ca _) = True"
| "aborts_checkpoint Anchor_time_range = True"
| "aborts_checkpoint (Marker_invalid _) = True"
| "aborts_checkpoint Marker_diverges = True"
| "aborts_checkpoint Anchor_type_error = True"
| "aborts_checkpoint _ = False"

lemma each_err_Inl: "each_err f xs = Inl e \<Longrightarrow> \<exists>x \<in> set xs. f x = Inl e"
  by (induction xs) auto

lemma iso_now_error: "iso_now env st = (Inl e, st') \<Longrightarrow> e = Anchor_time_range"
  by (auto simp: iso_now_def Let_def split: prod.splits option.splits)

lemma marker_error: "buildQueueMarker env seq status reason url attempts lastAt digest now = Inl e \<Longrightarrow> aborts_checkpoint e"
  by (auto simp: buildQueueMarker_def Let_def split: option.splits list.splits)

lemma enqueue_error: "enqueueAnchorRetry m f = (Inl e, f') \<Longrightarrow> e = Anchor_type_error \<and> f' = f"
  by (auto simp: enqueueAnchorRetry_def other_entries_def dest!: each_err_Inl split: if_splits sum.splits)

lemma failed_anchor_result:
  assumes "list_all (bound_anchor env \<circ> snd) retries"
  shows "case fst (failed_anchor env checkpointSeq ca relayBase clean retries e attemptedAt st) of
     Inl e \<Rightarrow> aborts_checkpoint e
   | Inr r \<Rightarrow> list_all (bound_anchor env \<circ> snd) (an_retries r) \<and> an_anchor r = None
       \<and> (\<exists>m. an_marker r = Some m \<and> jget m ''checkpoint_seq'' = checkpointSeq \<and> jget m ''status'' = Some (JStr ''queued''))"
proof -
  obtain u st4 where u: "iso_now env st = (u, st4)" by fastforce
  show ?thesis
  proof (cases u)
    case (Inl e')
    with iso_now_error [of env st e' st4] u show ?thesis by (simp add: failed_anchor_def)
  next
    case now: (Inr now)
    let ?b = "buildQueueMarker env checkpointSeq ''queued'' (relay_reason e) (Some (JStr (relay_url relayBase ca)))
                   (JNum 1) (Some attemptedAt) clean now"
    show ?thesis
    proof (cases ?b)
      case (Inl e')
      with marker_error show ?thesis by (simp add: failed_anchor_def u now)
    next
      case (Inr m)
      obtain r f where r: "enqueueAnchorRetry m (as_queue st4) = (r, f)" by fastforce
      show ?thesis
        using marker_status [OF Inr] enqueue_error [of m "as_queue st4" _ f] r assms
        by (cases r) (simp_all add: failed_anchor_def u now Inr)
    qed
  qed
qed


subsection \<open>Attempts of one pass are spaced\<close>

lemma clock_now_later: "clock_now env st = (t, st') \<Longrightarrow> as_time st \<le> t \<and> as_time st' = t"
  by (auto simp: clock_now_def Let_def)

lemma iso_now_later: "iso_now env st = (r, st') \<Longrightarrow> as_time st \<le> as_time st'"
  by (auto simp: iso_now_def clock_now_def Let_def)

lemma anchorRfc3161_later: "anchorRfc3161 env ca relayBase h st = (r, st') \<Longrightarrow> as_time st \<le> as_time st'"
  by (auto simp: anchorRfc3161_def Let_def dest!: iso_now_later split: if_splits sum.splits prod.splits)

lemma retry_entry_later:
  assumes "retry_entry env ca relayBase entry digest st = (r, st')"
  shows "as_time st \<le> as_time st'"
  using assms by (cases rule: retry_entry_cases) (auto dest!: iso_now_later anchorRfc3161_later)

lemma wait_turn_later:
  assumes "lastClock \<le> as_time st" "0 \<le> minMs" "0 < lastClock"
  shows "lastClock + minMs \<le> as_time (wait_turn env minMs lastClock st)"
    and "as_time st \<le> as_time (wait_turn env minMs lastClock st)"
  using assms by (auto simp: wait_turn_def clock_now_def sleep_def Let_def)

lemma wait_turn_first: "as_time (wait_turn env minMs 0 st) = as_time st"
  by (simp add: wait_turn_def)

lemma drain_spaced:
  assumes "drain_entries env ca relayBase minMs lastClock es st = (r, ts, st')"
    and "0 \<le> minMs" "0 < as_time st" "lastClock = 0 \<or> 0 < lastClock \<and> lastClock \<le> as_time st"
  shows "sorted_wrt (\<lambda>a b. a + minMs \<le> b) ts \<and> list_all (\<lambda>t. lastClock = 0 \<or> lastClock + minMs \<le> t) ts"
  using assms
proof (induction es arbitrary: lastClock st r ts)
  case (Cons entry es)
  obtain now st1 where c: "clock_now env st = (now, st1)" by fastforce
  have s1: "0 < as_time st1" "lastClock = 0 \<or> 0 < lastClock \<and> lastClock \<le> as_time st1"
    using clock_now_later [OF c] Cons.prems(3,4) by auto
  show ?case
  proof (cases "entry = JNull \<or> \<not> js_truthy (jget entry ''journal_root_digest'') \<or> in_cooldown env minMs entry now")
    case True
    with Cons.prems show ?thesis
      using Cons.IH [OF _ Cons.prems(2)] s1 by (auto simp: c split: if_splits)
  next
    case False
    obtain attempt st2 where a: "clock_now env (wait_turn env minMs lastClock st1) = (attempt, st2)" by fastforce
    have w: "as_time st1 \<le> as_time (wait_turn env minMs lastClock st1)"
      "lastClock = 0 \<or> lastClock + minMs \<le> as_time (wait_turn env minMs lastClock st1)"
      using s1 wait_turn_later [of lastClock st1 minMs env] wait_turn_first [of env minMs st1] Cons.prems(2) by auto
    have at: "as_time st2 = attempt" "0 < attempt" "lastClock = 0 \<or> lastClock + minMs \<le> attempt"
      using clock_now_later [OF a] w s1 by auto
    show ?thesis
    proof (cases "\<exists>digest. jget entry ''journal_root_digest'' = Some (JStr digest)")
      case False
      with Cons.prems(1) \<open>\<not> (entry = JNull \<or> _ \<or> _)\<close> have "ts = []"
        by (auto simp: c a split: option.splits json.splits)
      then show ?thesis by simp
    next
      case True
      then obtain digest where d: "jget entry ''journal_root_digest'' = Some (JStr digest)" by blast
      obtain x st3 where r: "retry_entry env ca relayBase entry digest st2 = (x, st3)" by fastforce
      show ?thesis
      proof (cases x)
        case (Inl e)
        with Cons.prems(1) \<open>\<not> (entry = JNull \<or> _ \<or> _)\<close> have "ts = [attempt]" by (simp add: c a d r)
        then show ?thesis using at by simp
      next
        case (Inr y)
        obtain r' ts' where rest: "drain_entries env ca relayBase minMs attempt es st3 = (r', ts', st')" "ts = attempt # ts'"
          using Cons.prems(1) \<open>\<not> (entry = JNull \<or> _ \<or> _)\<close> by (auto simp: c a d r Inr split: prod.splits)
        have "sorted_wrt (\<lambda>a b. a + minMs \<le> b) ts' \<and> list_all (\<lambda>t. attempt = 0 \<or> attempt + minMs \<le> t) ts'"
          using retry_entry_later [OF r] at Cons.prems(2) by (intro Cons.IH [OF rest(1)]) auto
        with at Cons.prems(2) rest(2) show ?thesis by (auto simp: list_all_iff)
      qed
    qed
  qed
qed simp

text \<open>C33. The attempts of one drain pass are at least twenty seconds apart, however the relay behaves and however much
  time passes in between.\<close>

theorem drain_attempts_are_spaced:
  "as_time st \<le> 0
   \<or> sorted_wrt (\<lambda>a b. a + MIN_RETRY_INTERVAL_MS \<le> b) (fst (snd (drainAnchorQueue env ca relayBase MIN_RETRY_INTERVAL_MS st)))"
proof (cases "0 < as_time st")
  case True
  obtain r ts st' where "drainAnchorQueue env ca relayBase MIN_RETRY_INTERVAL_MS st = (r, ts, st')" by (metis prod_cases3)
  with drain_spaced [of env ca relayBase MIN_RETRY_INTERVAL_MS 0 "loadAnchorQueue (as_queue st)" st r ts st'] True
  show ?thesis by (simp add: drainAnchorQueue_def MIN_RETRY_INTERVAL_MS_def)
qed simp

subsection \<open>What the queue can hold\<close>

definition retryable :: "json \<Rightarrow> bool" where
  "retryable e \<longleftrightarrow> e \<noteq> JNull \<and> jget e ''status'' = Some (JStr ''queued'') \<and> js_truthy (jget e ''journal_root_digest'')"

definition queue_ok :: "state_file \<Rightarrow> bool" where
  "queue_ok f \<longleftrightarrow>
     list_all retryable (loadAnchorQueue f)
     \<and> sorted_wrt (\<lambda>a b. \<not> js_same (jget a ''checkpoint_seq'') (jget b ''checkpoint_seq'')) (loadAnchorQueue f)"

lemma load_save [simp]: "loadAnchorQueue (saveAnchorQueue es) = es"
  by (simp add: saveAnchorQueue_def)

lemma other_entries_Inr:
  "other_entries seq f = Inr es \<Longrightarrow> es = filter (\<lambda>e. \<not> js_same (jget e ''checkpoint_seq'') seq) (loadAnchorQueue f)"
  by (auto simp: other_entries_def)

lemma queue_ok_filter:
  assumes "queue_ok f" "other_entries seq f = Inr es"
  shows "queue_ok (saveAnchorQueue es)"
  using assms by (auto simp: queue_ok_def other_entries_Inr [OF assms(2)] list_all_iff sorted_wrt_filter)

lemma queue_ok_put:
  assumes "queue_ok f" "other_entries (jget m ''checkpoint_seq'') f = Inr es" "retryable m"
  shows "queue_ok (saveAnchorQueue (es @ [m]))"
  using queue_ok_filter [OF assms(1,2)] assms(3) other_entries_Inr [OF assms(2)]
  by (auto simp: queue_ok_def sorted_wrt_append)

lemma jget_object: "jget m k = Some v \<Longrightarrow> \<exists>kvs. m = JObj kvs"
  by (cases m) auto

lemma enqueue_keeps: "queue_ok f \<Longrightarrow> queue_ok (snd (enqueueAnchorRetry m f))"
proof -
  assume f: "queue_ok f"
  show ?thesis
  proof (cases "js_truthy (Some m) \<and> jget m ''status'' = Some (JStr ''queued'') \<and> js_truthy (jget m ''journal_root_digest'')")
    case True
    then obtain kvs where m: "m = JObj kvs" using jget_object by blast
    with True have r: "retryable m" by (simp add: retryable_def)
    show ?thesis
      using queue_ok_put [OF f _ r] True f by (auto simp: enqueueAnchorRetry_def m split: sum.split)
  qed (auto simp: enqueueAnchorRetry_def f)
qed

lemma resolve_keeps: "queue_ok f \<Longrightarrow> queue_ok (snd (resolveAnchorRetry seq f))"
  by (auto simp: resolveAnchorRetry_def queue_ok_filter split: sum.split)

lemma requeue_keeps:
  assumes "queue_ok f" "digest \<noteq> []"
  shows "queue_ok (snd (requeueAnchorRetry env entry digest reason lastAt f))"
proof (cases "fst (requeueAnchorRetry env entry digest reason lastAt f)")
  case (Inl e)
  then have "snd (requeueAnchorRetry env entry digest reason lastAt f) = f"
    by (auto simp: requeueAnchorRetry_def split: sum.splits)
  with assms show ?thesis by simp
next
  case (Inr u)
  then obtain m es where m: "buildQueueMarker env (jget entry ''checkpoint_seq'') ''queued'' reason (jget entry ''relay_url'')
          (plus_one (jget entry ''attempts'')) (Some lastAt) digest lastAt = Inr m"
    and es: "other_entries (jget entry ''checkpoint_seq'') f = Inr es"
    and s: "snd (requeueAnchorRetry env entry digest reason lastAt f) = saveAnchorQueue (es @ [m])"
    by (auto simp: requeueAnchorRetry_def split: sum.splits)
  have "retryable m" "jget m ''checkpoint_seq'' = jget entry ''checkpoint_seq''"
    using marker_status [OF m] assms(2) by (auto simp: retryable_def)
  with queue_ok_put [OF assms(1)] es s show ?thesis by metis
qed

lemma retry_entry_keeps:
  assumes "retry_entry env ca relayBase entry digest st = (r, st')" "queue_ok (as_queue st)" "digest \<noteq> []"
  shows "queue_ok (as_queue st')"
proof -
  have iso: "as_queue st1 = as_queue st" if "iso_now env st = (t, st1)" for t st1
    using iso_now_queue [of env st] that by simp
  have call: "as_queue st2 = as_queue st1" if "anchorRfc3161 env ca relayBase (strip_sha256 digest) st1 = (q, st2)" for q st1 st2
    using anchorRfc3161_queue [of env ca relayBase "strip_sha256 digest" st1] that by simp
  from assms(1) show ?thesis
  proof (cases rule: retry_entry_cases)
    case (no_time e)
    with iso assms(2) show ?thesis by simp
  next
    case (solved t0 st1 anchor st2)
    then have q: "queue_ok (as_queue st2)" using iso call assms(2) by metis
    with resolve_keeps [OF q, of "jget entry ''checkpoint_seq''"] solved(3) show ?thesis by simp
  next
    case (again t0 st1 q st2 reason r')
    then have q: "queue_ok (as_queue st2)" using iso call assms(2) by metis
    with requeue_keeps [OF q assms(3), of env entry reason t0] again(3) show ?thesis by simp
  next
    case (bad_ca t0 st1 e)
    then show ?thesis using iso call assms(2) by metis
  qed
qed

lemma clock_now_queue: "clock_now env st = (t, st') \<Longrightarrow> as_queue st' = as_queue st"
  by (auto simp: clock_now_def Let_def)

lemma wait_turn_queue: "as_queue (wait_turn env minMs lastClock st) = as_queue st"
  by (simp add: wait_turn_def clock_now_def sleep_def Let_def)

lemma drain_keeps:
  assumes "drain_entries env ca relayBase minMs lastClock es st = (r, ts, st')" "queue_ok (as_queue st)"
  shows "queue_ok (as_queue st')"
  using assms
proof (induction es arbitrary: lastClock st r ts)
  case (Cons entry es)
  obtain now st1 where c: "clock_now env st = (now, st1)" by fastforce
  have q1: "queue_ok (as_queue st1)" using clock_now_queue [OF c] Cons.prems(2) by simp
  show ?case
  proof (cases "entry = JNull \<or> \<not> js_truthy (jget entry ''journal_root_digest'') \<or> in_cooldown env minMs entry now")
    case True
    with Cons.prems Cons.IH q1 show ?thesis by (auto simp: c split: if_splits)
  next
    case False
    obtain attempt st2 where a: "clock_now env (wait_turn env minMs lastClock st1) = (attempt, st2)" by fastforce
    have q2: "queue_ok (as_queue st2)" using clock_now_queue [OF a] wait_turn_queue q1 by metis
    show ?thesis
    proof (cases "\<exists>digest. jget entry ''journal_root_digest'' = Some (JStr digest)")
      case no: False
      with Cons.prems(1) False have "st' = st2" by (auto simp: c a split: option.splits json.splits)
      with q2 show ?thesis by simp
    next
      case True
      then obtain digest where d: "jget entry ''journal_root_digest'' = Some (JStr digest)" by blast
      with False have "digest \<noteq> []" by auto
      obtain x st3 where r: "retry_entry env ca relayBase entry digest st2 = (x, st3)" by fastforce
      have q3: "queue_ok (as_queue st3)" by (rule retry_entry_keeps [OF r q2 \<open>digest \<noteq> []\<close>])
      show ?thesis
      proof (cases x)
        case (Inl e)
        with Cons.prems(1) False have "st' = st3" by (simp add: c a d r)
        with q3 show ?thesis by simp
      next
        case (Inr y)
        obtain r' ts' where "drain_entries env ca relayBase minMs attempt es st3 = (r', ts', st')"
          using Cons.prems(1) False by (auto simp: c a d r Inr split: prod.splits)
        from Cons.IH [OF this q3] show ?thesis .
      qed
    qed
  qed
qed simp

lemma failed_anchor_keeps:
  "queue_ok (as_queue st) \<Longrightarrow> queue_ok (as_queue (snd (failed_anchor env seq ca relayBase clean retries e attemptedAt st)))"
proof -
  assume q: "queue_ok (as_queue st)"
  obtain u st4 where u: "iso_now env st = (u, st4)" by fastforce
  have q4: "queue_ok (as_queue st4)" using iso_now_queue [of env st] u q by simp
  have "queue_ok f" if "enqueueAnchorRetry m (as_queue st4) = (r, f)" for m r f
    using enqueue_keeps [OF q4, of m] that by simp
  then show ?thesis by (auto simp: failed_anchor_def u q4 Let_def split: sum.split prod.split)
qed

lemma anchorForCheckpoint_keeps:
  assumes "queue_ok (as_queue st)"
  shows "queue_ok (as_queue (snd (anchorForCheckpoint env seq ca relayBase offline hashHex st)))"
proof (cases offline)
  case True
  obtain u st1 where u: "iso_now env st = (u, st1)" by fastforce
  have "queue_ok (as_queue st1)" using iso_now_queue [of env st] u assms by simp
  then show ?thesis by (cases u) (simp_all add: anchorForCheckpoint_def True u)
next
  case False
  let ?clean = "lower (strip_sha256 hashHex)"
  obtain d ts st1 where d: "drainAnchorQueue env ca relayBase MIN_RETRY_INTERVAL_MS st = (d, ts, st1)" by (metis prod_cases3)
  have q1: "queue_ok (as_queue st1)" using d drain_keeps assms unfolding drainAnchorQueue_def by blast
  obtain t st2 where t: "iso_now env st1 = (t, st2)" by fastforce
  have q2: "queue_ok (as_queue st2)" using iso_now_queue [of env st1] t q1 by simp
  obtain q st3 where q: "anchorRfc3161 env ca relayBase ?clean st2 = (q, st3)" by fastforce
  have q3: "queue_ok (as_queue st3)" using anchorRfc3161_queue [of env ca relayBase ?clean st2] q q2 by simp
  show ?thesis
    using False q1 q2 q3 failed_anchor_keeps [OF q3]
    by (cases t; cases q) (simp_all add: anchorForCheckpoint_def d t q)
qed

record checkpoint_request =
  cr_env :: anchor_env
  cr_seq :: "json option"
  cr_ca :: string
  cr_base :: string
  cr_offline :: bool
  cr_hash :: string

definition request_checkpoint :: "checkpoint_request \<Rightarrow> anchor_state \<Rightarrow> anchor_state" where
  "request_checkpoint c st =
     snd (anchorForCheckpoint (cr_env c) (cr_seq c) (cr_ca c) (cr_base c) (cr_offline c) (cr_hash c) st)"

text \<open>C34. Whatever checkpoints are anchored, on line or off line, with whatever relay, the queue that started empty
  holds only markers that may be retried (never one that was skipped, never one without a digest), at most one for each checkpoint.\<close>

theorem queue_holds_retryable_markers:
  "list_all (\<lambda>e. jget e ''status'' = Some (JStr ''queued'') \<and> js_truthy (jget e ''journal_root_digest''))
     (loadAnchorQueue (as_queue (fold request_checkpoint cs (st\<lparr>as_queue := Missing\<rparr>))))
   \<and> sorted_wrt (\<lambda>a b. \<not> js_same (jget a ''checkpoint_seq'') (jget b ''checkpoint_seq''))
     (loadAnchorQueue (as_queue (fold request_checkpoint cs (st\<lparr>as_queue := Missing\<rparr>))))"
proof -
  have "queue_ok (as_queue st) \<Longrightarrow> queue_ok (as_queue (fold request_checkpoint cs st))" for st
    by (induction cs arbitrary: st) (simp_all add: request_checkpoint_def anchorForCheckpoint_keeps)
  moreover have "queue_ok Missing" by (simp add: queue_ok_def)
  ultimately have "queue_ok (as_queue (fold request_checkpoint cs (st\<lparr>as_queue := Missing\<rparr>)))" by simp
  then show ?thesis unfolding queue_ok_def list_all_iff retryable_def by blast
qed

text \<open>An entry that is \<open>null\<close>, in a file edited by hand, makes the checkpoint that meets a failing relay throw.\<close>

lemma null_entry_aborts_enqueue:
  assumes "m = JObj kvs" "jget m ''status'' = Some (JStr ''queued'')" "js_truthy (jget m ''journal_root_digest'')"
  shows "enqueueAnchorRetry m (Holds (JArr [JNull])) = (Inl Anchor_type_error, Holds (JArr [JNull]))"
  using assms by (simp add: enqueueAnchorRetry_def other_entries_def guard_err_def)

end
