(* ===== verification/Signer.thy ===== *)
theory Signer
  imports Credentials Js_Date
begin

text \<open>
  \<^verbatim>\<open>hub/signer-config.mjs\<close> and \<^verbatim>\<open>hub/signer-exec.mjs\<close>: the stored configuration of an external signing
  program, and the call of one. Bytes are strings of code units. The program is a parameter: from the
  command line, the environment and what it reads it yields the sequence of events that the parent sees.
  The reading of a key, the check of a signature and the decoding of UTF-8 belong to \<open>signer_env\<close>.
\<close>

subsection \<open>Decoding base64\<close>

abbreviation alphabet64 :: string where
  "alphabet64 \<equiv> ''ABCDEFGHIJKLMNOPQRSTUVWXYZabcdefghijklmnopqrstuvwxyz0123456789+/''"

definition sextet :: "char \<Rightarrow> nat option" where
  \<comment> \<open>\<open>Buffer.from(s, 'base64')\<close> reads the URL-safe alphabet too\<close>
  "sextet = map_of (zip alphabet64 [0..<64] @ [(CHR ''-'', 62), (CHR ''_'', 63)])"

fun sextets_to_bytes :: "nat list \<Rightarrow> nat list" where
  "sextets_to_bytes (a # b # c # d # r) =
     (a * 4 + b div 16) # (b mod 16 * 16 + c div 4) # (c mod 4 * 64 + d) # sextets_to_bytes r"
| "sextets_to_bytes [a, b, c] = [a * 4 + b div 16, b mod 16 * 16 + c div 4]"
| "sextets_to_bytes [a, b] = [a * 4 + b div 16]"
| "sextets_to_bytes _ = []"

definition base64_decode :: "string \<Rightarrow> nat list" where
  \<comment> \<open>other characters are skipped, the first \<open>=\<close> ends the text\<close>
  "base64_decode s = sextets_to_bytes (List.map_filter sextet (takeWhile (\<lambda>c. c \<noteq> CHR ''='') s))"

subsection \<open>The configuration\<close>

datatype signer_error =
    Config_not_object
  | Bad_command | Bad_args | Bad_env | Env_not_string string | Bad_algo | Bad_public_key | Empty_public_key
  | Bad_timeout | Bad_output_cap | Bad_digest
  | Date_out_of_range
  | Spawn_failed | Timed_out | Output_too_long | Exit_code "int option"
  | Empty_output | Not_one_line | Not_base64
  | Unreadable_key | Signature_rejected

definition is_string :: "json option \<Rightarrow> bool" where
  "is_string v = (case v of Some (JStr _) \<Rightarrow> True | _ \<Rightarrow> False)"

definition string_array :: "json option \<Rightarrow> bool" where
  "string_array v = (case v of Some (JArr xs) \<Rightarrow> list_all (\<lambda>x. is_string (Some x)) xs | _ \<Rightarrow> False)"

definition positive_upto :: "json \<Rightarrow> int \<Rightarrow> bool" where
  "positive_upto v n = (case v of JNum k \<Rightarrow> 0 < k \<and> k \<le> n | _ \<Rightarrow> False)"

definition or_default :: "json option \<Rightarrow> json \<Rightarrow> json" where
  \<comment> \<open>\<open>v ?? d\<close>\<close>
  "or_default v d = (case v of None \<Rightarrow> d | Some x \<Rightarrow> if x = JNull then d else x)"

definition expect_string :: "json option \<Rightarrow> 'e \<Rightarrow> 'e + string" where
  "expect_string v e = (case v of Some (JStr s) \<Rightarrow> Inr s | _ \<Rightarrow> Inl e)"

definition expect_object :: "json \<Rightarrow> 'e \<Rightarrow> 'e + (string \<times> json) list" where
  "expect_object v e = (case v of JObj kvs \<Rightarrow> Inr kvs | _ \<Rightarrow> Inl e)"

lemma expect_string_Inr [simp]: "expect_string v e = Inr s \<longleftrightarrow> v = Some (JStr s)"
  by (auto simp: expect_string_def split: option.splits json.splits)

lemma expect_object_Inr [simp]: "expect_object v e = Inr kvs \<longleftrightarrow> v = JObj kvs"
  by (auto simp: expect_object_def split: json.splits)

definition env_strings :: "(string \<times> json) list \<Rightarrow> signer_error + unit" where
  "env_strings es = (case find (\<lambda>(k, v). \<not> is_string (Some v)) es of Some (k, _) \<Rightarrow> Inl (Env_not_string k) | None \<Rightarrow> Inr ())"

definition validateSignerConfig :: "json option \<Rightarrow> signer_error + json" where
  "validateSignerConfig input =
     (case input of
        Some (JObj m) \<Rightarrow>
          (let get = map_of m;
               args = or_default (get ''args'') (JArr []);
               env = or_default (get ''env'') (JObj []);
               timeout = or_default (get ''timeoutMs'') (JNum 10000);
               cap = or_default (get ''maxOutputBytes'') (JNum 8192)
           in and_then (expect_string (get ''command'') Bad_command) (\<lambda>command.
              and_then (guard_err (js_trim command \<noteq> []) Bad_command) (\<lambda>_.
              and_then (guard_err (string_array (Some args)) Bad_args) (\<lambda>_.
              and_then (expect_object env Bad_env) (\<lambda>es.
              and_then (env_strings es) (\<lambda>_.
              and_then (guard_err (get ''algo'' = Some (JStr ''ed25519'')) Bad_algo) (\<lambda>_.
              and_then (expect_string (get ''publicKeyDerBase64'') Bad_public_key) (\<lambda>pk.
              and_then (guard_err (pk \<noteq> []) Bad_public_key) (\<lambda>_.
              and_then (guard_err (base64_decode pk \<noteq> []) Empty_public_key) (\<lambda>_.
              and_then (guard_err (positive_upto timeout 120000) Bad_timeout) (\<lambda>_.
              and_then (guard_err (positive_upto cap 65536) Bad_output_cap) (\<lambda>_.
              Inr (JObj [(''command'', JStr (js_trim command)), (''args'', args), (''env'', env), (''algo'', JStr ''ed25519''),
                         (''publicKeyDerBase64'', JStr pk), (''timeoutMs'', timeout), (''maxOutputBytes'', cap)])))))))))))))
      | _ \<Rightarrow> Inl Config_not_object)"

definition loadSignerConfig :: "state_file \<Rightarrow> json option" where
  \<comment> \<open>\<open>None\<close>: \<open>JSON.parse\<close> throws\<close>
  "loadSignerConfig f = (case f of Missing \<Rightarrow> Some JNull | Unparsable \<Rightarrow> None | Holds v \<Rightarrow> Some v)"

definition writeSignerConfig :: "json option \<Rightarrow> int \<Rightarrow> state_file \<Rightarrow> (signer_error + json) \<times> state_file" where
  "writeSignerConfig input now f =
     (case validateSignerConfig input of
        Inl e \<Rightarrow> (Inl e, f)
      | Inr clean \<Rightarrow>
          (case toISOString now of
             None \<Rightarrow> (Inl Date_out_of_range, f)
           | Some stamp \<Rightarrow> (Inr clean, Holds (js_with clean ''updatedAt'' (JStr stamp)))))"

definition publicSignerConfigView :: "state_file \<Rightarrow> json option" where
  "publicSignerConfigView = loadSignerConfig"

subsection \<open>The child process\<close>

datatype child_event = Chunk string | Timer_fires | Child_error | Closed "int option"

record child_result =
  ch_code :: "int option"
  ch_stdout :: string
  ch_timed_out :: bool
  ch_oversize :: bool
  ch_spawn_error :: bool

definition fresh_child :: child_result where
  "fresh_child = \<lparr>ch_code = None, ch_stdout = [], ch_timed_out = False, ch_oversize = False, ch_spawn_error = False\<rparr>"

fun child_step :: "nat \<Rightarrow> child_event \<Rightarrow> child_result \<Rightarrow> child_result + child_result" where
  \<comment> \<open>\<open>Inr\<close>: the promise is settled\<close>
  "child_step cap (Chunk c) r =
     (if cap \<le> length (ch_stdout r) then Inl r
      else if cap < length (ch_stdout r) + length c then Inl (r\<lparr>ch_oversize := True\<rparr>)
      else Inl (r\<lparr>ch_stdout := ch_stdout r @ c\<rparr>))"
| "child_step cap Timer_fires r = Inl (r\<lparr>ch_timed_out := True\<rparr>)"
| "child_step cap Child_error r = Inr (r\<lparr>ch_spawn_error := True\<rparr>)"
| "child_step cap (Closed code) r = Inr (r\<lparr>ch_code := code\<rparr>)"

fun runChild :: "nat \<Rightarrow> child_event list \<Rightarrow> child_result \<Rightarrow> child_result option" where
  \<comment> \<open>\<open>None\<close>: neither closed nor failed yet\<close>
  "runChild cap [] r = None"
| "runChild cap (ev # evs) r = (case child_step cap ev r of Inl r' \<Rightarrow> runChild cap evs r' | Inr r' \<Rightarrow> Some r')"

subsection \<open>Signing\<close>

record signer_env =
  sg_spawn :: "string \<Rightarrow> string list \<Rightarrow> json \<Rightarrow> string \<Rightarrow> child_event list option"
  sg_utf8 :: "string \<Rightarrow> string"
  sg_key_readable :: "string \<Rightarrow> bool"
  sg_verify :: "string \<Rightarrow> string \<Rightarrow> string \<Rightarrow> bool option"

definition MAX_DIGEST_BYTES :: nat where "MAX_DIGEST_BYTES = 64"
definition SIGNER_TIMEOUT_MS_DEFAULT :: int where "SIGNER_TIMEOUT_MS_DEFAULT = 10000"
definition SIGNER_MAX_OUTPUT_BYTES_DEFAULT :: int where "SIGNER_MAX_OUTPUT_BYTES_DEFAULT = 8192"

record sign_request =
  sr_command :: "json option"
  sr_args :: "json option"
  sr_digest :: "string option"
  sr_public_key :: "string option"
  sr_algo :: "json option"
  sr_env :: "json option"
  sr_timeout :: "json option"
  sr_cap :: "json option"

definition defaulted :: "json option \<Rightarrow> json \<Rightarrow> json" where
  \<comment> \<open>a default of a destructured parameter replaces \<open>undefined\<close> only\<close>
  "defaulted v d = (case v of None \<Rightarrow> d | Some x \<Rightarrow> x)"

definition is_positive :: "json \<Rightarrow> bool" where
  "is_positive v = (case v of JNum k \<Rightarrow> 0 < k | _ \<Rightarrow> False)"

definition assertValidInputs :: "sign_request \<Rightarrow> signer_error + unit" where
  "assertValidInputs q =
     (if (case sr_command q of Some (JStr (_ # _)) \<Rightarrow> False | _ \<Rightarrow> True) then Inl Bad_command
      else if \<not> string_array (Some (defaulted (sr_args q) (JArr []))) then Inl Bad_args
      else if (case sr_digest q of Some d \<Rightarrow> d = [] \<or> MAX_DIGEST_BYTES < length d | None \<Rightarrow> True) then Inl Bad_digest
      else if (case sr_public_key q of Some (_ # _) \<Rightarrow> False | _ \<Rightarrow> True) then Inl Bad_public_key
      else if (case defaulted (sr_env q) (JObj []) of JNull \<Rightarrow> False | JObj _ \<Rightarrow> False | JArr _ \<Rightarrow> False | _ \<Rightarrow> True) then Inl Bad_env
      else if \<not> is_positive (defaulted (sr_timeout q) (JNum SIGNER_TIMEOUT_MS_DEFAULT)) then Inl Bad_timeout
      else if \<not> is_positive (defaulted (sr_cap q) (JNum SIGNER_MAX_OUTPUT_BYTES_DEFAULT)) then Inl Bad_output_cap
      else Inr ())"

definition strip_padding :: "string \<Rightarrow> string" where
  "strip_padding s = rev (dropWhile (\<lambda>c. c = CHR ''='') (rev s))"

definition parseSignatureOutput :: "(string \<Rightarrow> string) \<Rightarrow> string \<Rightarrow> signer_error + string" where
  "parseSignatureOutput utf8 out =
     (let txt = js_trim (utf8 out)
      in if txt = [] then Inl Empty_output
         else if list_ex is_js_space txt then Inl Not_one_line
         else
           let signature = base64_decode txt
           in if signature = [] \<or> strip_padding (base64 signature) \<noteq> strip_padding txt then Inl Not_base64
              else Inr (map char_of signature))"

text \<open>The strings in an array of strings, and the number of a number.\<close>

definition strings_of :: "json \<Rightarrow> string list" where
  "strings_of v = (case v of JArr xs \<Rightarrow> map js_string xs | _ \<Rightarrow> [])"

definition num_of :: "json \<Rightarrow> nat" where
  "num_of v = (case v of JNum k \<Rightarrow> nat k | _ \<Rightarrow> 0)"

definition signViaExternalSigner :: "signer_env \<Rightarrow> sign_request \<Rightarrow> (signer_error + string) option" where
  \<comment> \<open>\<open>None\<close>: the child neither ended nor failed\<close>
  "signViaExternalSigner env q =
     (case assertValidInputs q of
        Inl e \<Rightarrow> Some (Inl e)
      | Inr _ \<Rightarrow>
          if defaulted (sr_algo q) (JStr ''ed25519'') \<noteq> JStr ''ed25519'' then Some (Inl Bad_algo)
          else
            let digest = the (sr_digest q);
                key = the (sr_public_key q);
                cap = num_of (defaulted (sr_cap q) (JNum SIGNER_MAX_OUTPUT_BYTES_DEFAULT))
            in case sg_spawn env (js_string (the (sr_command q))) (strings_of (defaulted (sr_args q) (JArr [])))
                      (or_default (sr_env q) (JObj [])) digest of
                 None \<Rightarrow> Some (Inl Spawn_failed)
               | Some evs \<Rightarrow>
                   (case runChild cap evs fresh_child of
                      None \<Rightarrow> None
                    | Some r \<Rightarrow> Some
                        (if ch_spawn_error r then Inl Spawn_failed
                         else if ch_timed_out r then Inl Timed_out
                         else if ch_oversize r then Inl Output_too_long
                         else if ch_code r \<noteq> Some 0 then Inl (Exit_code (ch_code r))
                         else and_then (parseSignatureOutput (sg_utf8 env) (ch_stdout r)) (\<lambda>signature.
                           if \<not> sg_key_readable env key then Inl Unreadable_key
                           else if sg_verify env key digest signature = Some True then Inr signature
                           else Inl Signature_rejected))))"

subsection \<open>Base64 is read back\<close>

lemma base64_alphabet: "\<forall>c \<in> set alphabet64. c \<noteq> CHR ''='' \<and> \<not> is_js_space c"
  by (simp add: is_js_space_def)

lemma sextet_base64_char: "n < 64 \<Longrightarrow> sextet (base64_char n) = Some n \<and> base64_char n \<noteq> CHR ''='' \<and> \<not> is_js_space (base64_char n)"
proof -
  assume n: "n < 64"
  have len: "length alphabet64 = 64" by simp
  have d: "distinct alphabet64" by simp
  have "map_of (zip alphabet64 [0..<64]) (alphabet64 ! n) = Some ([0..<64] ! n)"
    by (rule map_of_zip_nth [OF _ d]) (simp_all only: len n length_upt diff_zero)
  then have "sextet (base64_char n) = Some n"
    using n by (simp only: sextet_def base64_char_def map_of_append map_add_Some_iff nth_upt) simp
  moreover have "base64_char n \<in> set alphabet64"
    unfolding base64_char_def by (rule nth_mem) (simp only: len n)
  ultimately show ?thesis using base64_alphabet by blast
qed

lemma base64_sextets:
  "n < 64 \<Longrightarrow> sextet (base64_char n) = Some n"
  "n < 64 \<Longrightarrow> base64_char n \<noteq> CHR ''=''"
  "n < 64 \<Longrightarrow> \<not> is_js_space (base64_char n)"
  using sextet_base64_char by blast+

lemma base64_decode_base64: "list_all (\<lambda>b. b < 256) bs \<Longrightarrow> base64_decode (base64 bs) = bs"
proof (induction bs rule: base64.induct)
  case (2 a)
  then have "a div 4 < 64" "a mod 4 * 16 < 64" by auto
  with 2 show ?case by (simp add: base64_decode_def base64_sextets List.map_filter_simps)
next
  case (3 a b)
  then have "a div 4 < 64" "a mod 4 * 16 + b div 16 < 64" "b mod 16 * 4 < 64" "b div 16 < 16" by auto
  with 3 show ?case by (simp add: base64_decode_def base64_sextets List.map_filter_simps)
next
  case (4 a b c r)
  then have "a div 4 < 64" "a mod 4 * 16 + b div 16 < 64" "b mod 16 * 4 + c div 64 < 64" "c mod 64 < 64" "b div 16 < 16" "c div 64 < 4" by auto
  with 4 show ?case by (simp add: base64_decode_def base64_sextets List.map_filter_simps)
qed (simp add: base64_decode_def List.map_filter_simps)

lemma base64_no_space: "list_all (\<lambda>b. b < 256) bs \<Longrightarrow> list_all (\<lambda>c. \<not> is_js_space c) (base64 bs)"
proof (induction bs rule: base64.induct)
  case (2 a)
  then have "a div 4 < 64" "a mod 4 * 16 < 64" by auto
  then show ?case by (simp add: base64_sextets) (simp add: is_js_space_def)
next
  case (3 a b)
  then have "a div 4 < 64" "a mod 4 * 16 + b div 16 < 64" "b mod 16 * 4 < 64" by auto
  then show ?case by (simp add: base64_sextets) (simp add: is_js_space_def)
next
  case (4 a b c r)
  then have "a div 4 < 64" "a mod 4 * 16 + b div 16 < 64" "b mod 16 * 4 + c div 64 < 64" "c mod 64 < 64" by auto
  with 4 show ?case by (simp add: base64_sextets)
qed simp

lemma base64_Nil_iff [simp]: "base64 bs = [] \<longleftrightarrow> bs = []"
  by (cases bs rule: base64.cases) simp_all

lemma js_trim_of_line:
  assumes "list_all (\<lambda>c. \<not> is_js_space c) s" and "list_all is_js_space e"
  shows "js_trim (s @ e) = s"
proof (cases s)
  case Nil
  have "dropWhile is_js_space e = []" using assms(2) by (induction e) simp_all
  with Nil show ?thesis by (simp only: js_trim_def append_Nil rev.simps dropWhile.simps)
next
  case (Cons c cs)
  then have "dropWhile is_js_space (s @ e) = s @ e" using assms(1) by simp
  moreover have "dropWhile is_js_space (rev e @ rev s) = rev s"
  proof -
    have "dropWhile is_js_space (rev e @ rev s) = dropWhile is_js_space (rev s)"
      using assms(2) by (induction e rule: rev_induct) auto
    moreover have "\<not> is_js_space (hd (rev s))" using assms(1) Cons by (metis hd_in_set list_all_iff neq_Nil_conv rev_is_Nil_conv set_rev)
    ultimately show ?thesis using Cons by (metis dropWhile_eq_self_iff)
  qed
  ultimately show ?thesis by (simp add: js_trim_def)
qed

text \<open>A signature printed in base64 and followed by white space is read back.\<close>

lemma parseSignatureOutput_base64:
  assumes "sig \<noteq> []" and "list_all is_js_space e" and "utf8 (base64 (map of_char sig) @ e) = base64 (map of_char sig) @ e"
  shows "parseSignatureOutput utf8 (base64 (map of_char sig) @ e) = Inr sig"
proof -
  let ?b = "base64 (map of_char sig)"
  have b: "list_all (\<lambda>b. b < 256) (map of_char sig :: nat list)"
    by (simp add: list_all_iff)
  have "js_trim (?b @ e) = ?b" by (rule js_trim_of_line [OF base64_no_space [OF b] assms(2)])
  moreover have "\<not> list_ex is_js_space ?b" using base64_no_space [OF b] by (auto simp: list_ex_iff list_all_iff)
  moreover have "map char_of (map of_char sig :: nat list) = sig" by (simp add: map_idI)
  ultimately show ?thesis using assms(1,3)
    by (simp add: parseSignatureOutput_def Let_def base64_decode_base64 [OF b])
qed

subsection \<open>What a child leaves\<close>

fun chunk_bytes :: "child_event list \<Rightarrow> string" where
  "chunk_bytes [] = []"
| "chunk_bytes (Chunk c # evs) = c @ chunk_bytes evs"
| "chunk_bytes (_ # evs) = chunk_bytes evs"

lemma chunk_bytes_append [simp]: "chunk_bytes (xs @ ys) = chunk_bytes xs @ chunk_bytes ys"
  by (induction xs rule: chunk_bytes.induct) simp_all

definition ends_child :: "child_event \<Rightarrow> bool" where
  "ends_child ev \<longleftrightarrow> (case ev of Child_error \<Rightarrow> True | Closed _ \<Rightarrow> True | _ \<Rightarrow> False)"

text \<open>The flags only ever rise, and without them the output is what was printed.\<close>

lemma runChild_flags:
  "runChild cap evs r = Some r' \<Longrightarrow> (ch_timed_out r \<longrightarrow> ch_timed_out r') \<and> (ch_oversize r \<longrightarrow> ch_oversize r')"
  by (induction cap evs r rule: runChild.induct) (fastforce elim!: child_step.elims split: sum.splits if_splits)+

lemma child_step_clean:
  assumes "child_step cap ev r = Inl r1" and "\<not> ch_timed_out r1" and "\<not> ch_oversize r1" and "length (ch_stdout r) \<le> cap"
  shows "\<not> ends_child ev \<and> ev \<noteq> Timer_fires \<and> length (ch_stdout r1) \<le> cap
    \<and> (\<forall>s. take cap (ch_stdout r1 @ s) = take cap (ch_stdout r @ chunk_bytes [ev] @ s))"
  using assms by (cases ev) (auto simp: ends_child_def split: if_splits)

lemma runChild_clean:
  assumes "runChild cap evs r = Some r'" and "\<not> ch_timed_out r'" and "\<not> ch_oversize r'" and "\<not> ch_spawn_error r'"
    and "length (ch_stdout r) \<le> cap"
  shows "\<exists>pre rest. evs = pre @ Closed (ch_code r') # rest \<and> list_all (\<lambda>ev. \<not> ends_child ev \<and> ev \<noteq> Timer_fires) pre
    \<and> ch_stdout r' = take cap (ch_stdout r @ chunk_bytes pre)"
  using assms(1,5)
proof (induction cap evs r rule: runChild.induct)
  case (2 cap ev evs r)
  show ?case
  proof (cases "child_step cap ev r")
    case (Inl r1)
    then have r1: "runChild cap evs r1 = Some r'" using 2 by simp
    then have "\<not> ch_timed_out r1" "\<not> ch_oversize r1" using runChild_flags assms(2,3) by blast+
    from child_step_clean [OF Inl this 2(3)] have ev: "\<not> ends_child ev" "ev \<noteq> Timer_fires" "length (ch_stdout r1) \<le> cap"
      "\<And>s. take cap (ch_stdout r1 @ s) = take cap (ch_stdout r @ chunk_bytes [ev] @ s)" by blast+
    from "2.IH" [OF Inl r1 ev(3)] obtain pre rest where p:
      "evs = pre @ Closed (ch_code r') # rest" "list_all (\<lambda>ev. \<not> ends_child ev \<and> ev \<noteq> Timer_fires) pre"
      "ch_stdout r' = take cap (ch_stdout r1 @ chunk_bytes pre)" by blast
    then have "ev # evs = (ev # pre) @ Closed (ch_code r') # rest"
      and "list_all (\<lambda>ev. \<not> ends_child ev \<and> ev \<noteq> Timer_fires) (ev # pre)" using ev by simp_all
    moreover have "ch_stdout r' = take cap (ch_stdout r @ chunk_bytes (ev # pre))"
      using p(3) ev(4) chunk_bytes_append [of "[ev]" pre] by simp
    ultimately show ?thesis by blast
  next
    case (Inr r1)
    then have "r1 = r'" using 2 by simp
    with Inr assms(4) 2(3) have "ev # evs = [] @ Closed (ch_code r') # evs" "ch_stdout r' = take cap (ch_stdout r @ chunk_bytes [])"
      by (cases ev; auto split: if_splits)+
    then show ?thesis by fastforce
  qed
qed simp

text \<open>Conversely, output below the cap is collected however it is cut into chunks.\<close>

lemma runChild_collects:
  assumes "list_all (\<lambda>ev. \<not> ends_child ev \<and> ev \<noteq> Timer_fires) pre" and "length (ch_stdout r @ chunk_bytes pre) < cap"
  shows "runChild cap (pre @ Closed code # rest) r = Some (r\<lparr>ch_stdout := ch_stdout r @ chunk_bytes pre, ch_code := code\<rparr>)"
  using assms
proof (induction pre arbitrary: r)
  case (Cons ev pre)
  then show ?case by (cases ev) (auto simp: ends_child_def)
qed simp

text \<open>
  A chunk that arrives when the output is exactly as long as the cap is ignored without a trace, so a
  program that prints more than it may is not always refused.
\<close>

lemma bytes_beyond_the_cap_are_dropped:
  "runChild 4 [Chunk ''QUJD'', Chunk ''more'', Closed (Some 0)] fresh_child
     = Some (fresh_child\<lparr>ch_stdout := ''QUJD'', ch_code := Some 0\<rparr>)"
  by (simp add: fresh_child_def)

subsection \<open>Properties\<close>

lemma assertValidInputs_Inr:
  assumes "assertValidInputs q = Inr u"
  obtains digest key where "sr_digest q = Some digest" "digest \<noteq> []" "length digest \<le> MAX_DIGEST_BYTES" "sr_public_key q = Some key"
  using assms by (auto simp: assertValidInputs_def split: if_splits option.splits)

text \<open>A program that prints the base64 of a valid signature and white space below the cap, cut into
  chunks in any way, and ends with exit code 0 before the timer, has its signature accepted.\<close>

lemma printed_signature_is_accepted:
  assumes "assertValidInputs q = Inr ()" and "defaulted (sr_algo q) (JStr ''ed25519'') = JStr ''ed25519''"
    and "sr_digest q = Some digest" and "sr_public_key q = Some key"
    and "sg_spawn env (js_string (the (sr_command q))) (strings_of (defaulted (sr_args q) (JArr [])))
       (or_default (sr_env q) (JObj [])) digest = Some (pre @ Closed (Some 0) # rest)"
    and "list_all (\<lambda>ev. \<not> ends_child ev \<and> ev \<noteq> Timer_fires) pre"
    and "chunk_bytes pre = base64 (map of_char signature) @ blanks" and "list_all is_js_space blanks" and "signature \<noteq> []"
    and "length (chunk_bytes pre) < num_of (defaulted (sr_cap q) (JNum SIGNER_MAX_OUTPUT_BYTES_DEFAULT))"
    and "sg_utf8 env (chunk_bytes pre) = chunk_bytes pre"
    and "sg_key_readable env key" and "sg_verify env key digest signature = Some True"
  shows "signViaExternalSigner env q = Some (Inr signature)"
proof -
  have "parseSignatureOutput (sg_utf8 env) (chunk_bytes pre) = Inr signature"
    using parseSignatureOutput_base64 [of signature blanks "sg_utf8 env"] assms by simp
  then show ?thesis
    using assms runChild_collects [of pre fresh_child "num_of (defaulted (sr_cap q) (JNum SIGNER_MAX_OUTPUT_BYTES_DEFAULT))" "Some 0" rest]
    by (simp add: signViaExternalSigner_def Let_def fresh_child_def)
qed

definition demo_signer :: signer_env where
  "demo_signer =
     \<lparr>sg_spawn = (\<lambda>_ _ _ digest. Some [Chunk ''Kio'', Chunk ''q'', Chunk [CHR 10], Closed (Some 0)]),
      sg_utf8 = (\<lambda>s. s), sg_key_readable = (\<lambda>_. True), sg_verify = (\<lambda>key digest s. Some (s = ''***''))\<rparr>"

definition demo_sign_request :: sign_request where
  "demo_sign_request =
     \<lparr>sr_command = Some (JStr ''/bin/sign''), sr_args = None, sr_digest = Some ''d'', sr_public_key = Some ''k'',
      sr_algo = None, sr_env = None, sr_timeout = None, sr_cap = None\<rparr>"

lemma demo_inputs: "assertValidInputs demo_sign_request = Inr ()"
  by (simp add: assertValidInputs_def demo_sign_request_def defaulted_def string_array_def is_positive_def
      MAX_DIGEST_BYTES_def SIGNER_TIMEOUT_MS_DEFAULT_def SIGNER_MAX_OUTPUT_BYTES_DEFAULT_def)

lemma demo_base64: "base64 (map of_char ''***'') = ''Kioq''"
  by (simp add: base64_char_def)

lemma demo_accepts:
  "signViaExternalSigner demo_signer demo_sign_request = Some (Inr ''***'')"
  by (rule printed_signature_is_accepted [where digest = "''d''" and key = "''k''" and
        pre = "[Chunk ''Kio'', Chunk ''q'', Chunk [CHR 10]]" and rest = "[]" and blanks = "[CHR 10]"])
    (simp_all add: demo_inputs [unfolded demo_sign_request_def] demo_base64 demo_signer_def demo_sign_request_def defaulted_def
      ends_child_def is_js_space_def num_of_def SIGNER_MAX_OUTPUT_BYTES_DEFAULT_def del: base64.simps list.map)

text \<open>C35. A signature that is accepted from the external program verifies under the declared public key over
  exactly the digest that was asked for, which has at most 64 bytes and is all the program was given. The program ended by
  itself with exit code 0 before the timer, and the signature is what its output up to the cap, trimmed, spells in
  base64.\<close>

theorem accepted_signature_is_checked:
  assumes "signViaExternalSigner env q = Some (Inr signature)"
  shows "\<exists>digest key pre rest.
    sr_digest q = Some digest \<and> 0 < length digest \<and> length digest \<le> 64 \<and> sr_public_key q = Some key
    \<and> sg_verify env key digest signature = Some True
    \<and> sg_spawn env (js_string (the (sr_command q))) (strings_of (defaulted (sr_args q) (JArr [])))
         (or_default (sr_env q) (JObj [])) digest = Some (pre @ Closed (Some 0) # rest)
    \<and> list_all (\<lambda>ev. \<not> ends_child ev \<and> ev \<noteq> Timer_fires) pre
    \<and> parseSignatureOutput (sg_utf8 env)
         (take (num_of (defaulted (sr_cap q) (JNum SIGNER_MAX_OUTPUT_BYTES_DEFAULT))) (chunk_bytes pre)) = Inr signature"
proof -
  let ?cap = "num_of (defaulted (sr_cap q) (JNum SIGNER_MAX_OUTPUT_BYTES_DEFAULT))"
  from assms obtain u where ok: "assertValidInputs q = Inr u"
    by (cases "assertValidInputs q") (auto simp: signViaExternalSigner_def)
  from assertValidInputs_Inr [OF ok] obtain digest key where q: "sr_digest q = Some digest" "digest \<noteq> []"
    "length digest \<le> MAX_DIGEST_BYTES" "sr_public_key q = Some key" .
  from assms ok q obtain evs r where r:
    "sg_spawn env (js_string (the (sr_command q))) (strings_of (defaulted (sr_args q) (JArr [])))
       (or_default (sr_env q) (JObj [])) digest = Some evs" "runChild ?cap evs fresh_child = Some r"
    "\<not> ch_spawn_error r" "\<not> ch_timed_out r" "\<not> ch_oversize r" "ch_code r = Some 0"
    "parseSignatureOutput (sg_utf8 env) (ch_stdout r) = Inr signature" "sg_verify env key digest signature = Some True"
    by (auto simp: signViaExternalSigner_def Let_def split: if_splits option.splits)
  from runChild_clean [OF r(2,4,5,3)] r(6) obtain pre rest where "evs = pre @ Closed (Some 0) # rest"
    "list_all (\<lambda>ev. \<not> ends_child ev \<and> ev \<noteq> Timer_fires) pre" "ch_stdout r = take ?cap (chunk_bytes pre)"
    by (auto simp: fresh_child_def)
  with q r show ?thesis
    by (intro exI [of _ digest] exI [of _ key] exI [of _ pre] exI [of _ rest]) (auto simp: MAX_DIGEST_BYTES_def)
qed

lemma accepted_signature_is_checked_witness:
  "\<exists>digest key pre rest. sr_digest demo_sign_request = Some digest \<and> sr_public_key demo_sign_request = Some key
     \<and> sg_verify demo_signer key digest ''***'' = Some True
     \<and> sg_spawn demo_signer ''/bin/sign'' [] (JObj []) digest = Some (pre @ Closed (Some 0) # rest)"
  using accepted_signature_is_checked [OF demo_accepts]
  by (auto simp: demo_sign_request_def defaulted_def strings_of_def or_default_def)

text \<open>A configuration that was written is read back as the configuration that validation returned, and validating
  it again returns the same.\<close>

lemma trimmed_edges: "js_trim s = [] \<or> (\<not> is_js_space (hd (js_trim s)) \<and> \<not> is_js_space (last (js_trim s)))"
proof (cases "js_trim s = []")
  case False
  let ?t = "dropWhile is_js_space s"
  have p: "\<exists>e. ?t = js_trim s @ e"
    unfolding js_trim_def by (metis rev_append rev_rev_ident takeWhile_dropWhile_id)
  then obtain e where "?t = js_trim s @ e" ..
  then have "hd (js_trim s) = hd ?t" "?t \<noteq> []" using False by (metis hd_append2, metis append_is_Nil_conv)
  moreover have "\<not> is_js_space (last (js_trim s))"
    using False unfolding js_trim_def by (metis hd_dropWhile last_rev rev_is_Nil_conv)
  ultimately show ?thesis using hd_dropWhile by metis
qed simp

lemma js_trim_idem: "js_trim (js_trim s) = js_trim s"
proof -
  have "dropWhile is_js_space (js_trim s) = js_trim s"
    using trimmed_edges [of s] by (metis dropWhile_eq_self_iff)
  moreover have "dropWhile is_js_space (rev (js_trim s)) = rev (js_trim s)"
    using trimmed_edges [of s] by (metis dropWhile_eq_self_iff hd_rev rev_is_Nil_conv)
  ultimately show ?thesis by (simp add: js_trim_def [of "js_trim s"])
qed

lemma string_arrayE: "string_array (Some v) \<Longrightarrow> \<exists>xs. v = JArr xs"
  by (simp add: string_array_def split: json.splits)

lemma positive_uptoE: "positive_upto v n \<Longrightarrow> \<exists>k. v = JNum k"
  by (simp add: positive_upto_def split: json.splits)

lemma validateSignerConfig_Inr:
  assumes "validateSignerConfig input = Inr clean"
  obtains command xs es pk t c where
    "clean = JObj [(''command'', JStr (js_trim command)), (''args'', JArr xs), (''env'', JObj es),
       (''algo'', JStr ''ed25519''), (''publicKeyDerBase64'', JStr pk), (''timeoutMs'', JNum t), (''maxOutputBytes'', JNum c)]"
    "js_trim command \<noteq> []" "string_array (Some (JArr xs))" "env_strings es = Inr ()"
    "pk \<noteq> []" "base64_decode pk \<noteq> []" "positive_upto (JNum t) 120000" "positive_upto (JNum c) 65536"
proof -
  from assms obtain m where m: "input = Some (JObj m)"
    by (simp add: validateSignerConfig_def split: option.splits json.splits)
  from assms[unfolded m validateSignerConfig_def] string_arrayE positive_uptoE that show thesis
    by (simp add: Let_def) metis
qed

lemma written_signer_config_validates:
  assumes "writeSignerConfig input now f = (Inr clean, f')"
  shows "\<exists>stored. loadSignerConfig f' = Some stored \<and> validateSignerConfig (Some stored) = Inr clean
    \<and> (\<forall>k. k = ''updatedAt'' \<or> jget stored k = jget clean k)"
proof -
  from assms obtain stamp where c: "validateSignerConfig input = Inr clean"
    and f': "f' = Holds (js_with clean ''updatedAt'' (JStr stamp))"
    by (auto simp: writeSignerConfig_def split: sum.splits option.splits)
  from validateSignerConfig_Inr [OF c] obtain command xs es pk t n where v:
    "clean = JObj [(''command'', JStr (js_trim command)), (''args'', JArr xs), (''env'', JObj es),
       (''algo'', JStr ''ed25519''), (''publicKeyDerBase64'', JStr pk), (''timeoutMs'', JNum t), (''maxOutputBytes'', JNum n)]"
    "js_trim command \<noteq> []" "string_array (Some (JArr xs))" "env_strings es = Inr ()"
    "pk \<noteq> []" "base64_decode pk \<noteq> []" "positive_upto (JNum t) 120000" "positive_upto (JNum n) 65536" .
  then have "validateSignerConfig (Some (js_with clean ''updatedAt'' (JStr stamp))) = Inr clean"
    by (simp add: validateSignerConfig_def js_with_def Let_def or_default_def js_trim_idem expect_string_def expect_object_def guard_err_def)
  then show ?thesis using f' v(1) by (auto simp: loadSignerConfig_def)
qed

end
