(* ===== verification/Api_Gate.thy ===== *)
theory Api_Gate
  imports Pairing_Tokens Signer
begin

text \<open>
  The front door of \<^verbatim>\<open>hub/server.mjs\<close>: the checks of host, origin and token that \<open>createHelmServer\<close> makes
  on every request, the surfaces before them (static files of \<^verbatim>\<open>hub/ui-manifest.mjs\<close>, detection routes, webhook), the tables of
  routes, and the handlers that mint and redeem single-use tickets.

  \<open>new URL(req.url, base)\<close> is a parameter (path and query lookup, \<open>None\<close> when it throws), and so is the
  parsing of a body. The remaining handlers are the parameter \<open>ap_other\<close>: they see the export tickets and the
  rest of the daemon's state, but not the maps of stream and signer tickets, which no other module of
  the hub touches. \<open>None\<close> in place of a handler's answer is an exception. A response of \<open>None\<close> is an exception that nothing
  catches, which ends the process.
\<close>

subsection \<open>Static files\<close>

definition FILES :: "string list" where
  "FILES =
   [''app.html'', ''app.mjs'', ''api.mjs'', ''theme.css'', ''fixtures/verify-demo.mjs'', ''lib/anchor-browser.mjs'',
     ''lib/blocked-state.mjs'', ''lib/browser-journal-client.mjs'', ''lib/browser-journal.mjs'',
     ''lib/canvas-exec-summary.mjs'', ''lib/committee-deck.mjs'', ''lib/committee-pack.mjs'',
     ''lib/committee-pptx.mjs'', ''lib/company-profile.mjs'', ''lib/connector-browser.mjs'',
     ''lib/custom-connectors.mjs'', ''lib/dag-svg.mjs'', ''lib/durability-banner.mjs'', ''lib/esc.mjs'',
     ''lib/ha-crypto.mjs'', ''lib/journal-worker.mjs'', ''lib/euc-html.mjs'', ''lib/manifest-dag.mjs'',
     ''lib/manifest-digest.mjs'', ''lib/oauth-browser.mjs'', ''lib/pair-form.mjs'', ''lib/presenter.mjs'',
     ''lib/rfc3161-verify.mjs'', ''lib/tab-meta.mjs'', ''lib/to-yaml.mjs'', ''lib/vault.mjs'',
     ''lib/vault-crypto.mjs'', ''lib/vault-token-store.mjs'', ''lib/verify-bundle.mjs'', ''lib/verify-envelope.mjs'',
     ''lib/version-skew.mjs'', ''lib/view-registry.mjs'', ''oauth-callback.html'', ''oauth-callback.mjs'',
     ''vendored/der.mjs'', ''vendored/der-encode.mjs'', ''vendored/evidence-envelope-verify.mjs'',
     ''vendored/hash.mjs'', ''vendored/pkijs.bundle.mjs'', ''vendored/proof.mjs'', ''vendored/schema-validator.mjs'',
     ''vendored/schemas/anchor_queue_marker.schema.mjs'', ''vendored/schemas/checkpoint.schema.mjs'',
     ''vendored/schemas/company_profile.schema.mjs'', ''vendored/schemas/connector_contract.schema.mjs'',
     ''vendored/schemas/evidence_bundle_manifest.schema.mjs'', ''vendored/tsa-roots.mjs'', ''views/agents.mjs'',
     ''views/canvas.mjs'', ''views/choose.mjs'', ''views/connect.mjs'', ''views/deadlines.mjs'', ''views/home.mjs'',
     ''views/learn.mjs'', ''views/matters.mjs'', ''views/operate.mjs'', ''views/register.mjs'', ''views/review.mjs'',
     ''views/run.mjs'', ''views/verify.mjs'', ''views/watches.mjs'']"

definition CONTENT_TYPES :: "(string \<times> string) list" where
  "CONTENT_TYPES =
     [(''html'', ''text/html; charset=utf-8''), (''css'', ''text/css; charset=utf-8''),
      (''mjs'', ''text/javascript; charset=utf-8'')]"

definition extension :: "string \<Rightarrow> string" where
  \<comment> \<open>\<open>rel.slice(rel.lastIndexOf('.') + 1)\<close>\<close>
  "extension rel = rev (takeWhile (\<lambda>c. c \<noteq> CHR ''.'') (rev rel))"

record asset =
  as_rel :: string
  as_sea_key :: string
  as_content_type :: string

fun add_assets :: "string list \<Rightarrow> (string, asset) tbl \<Rightarrow> string + (string, asset) tbl" where
  \<comment> \<open>\<open>Inl\<close>: the module throws while it is loaded\<close>
  "add_assets [] m = Inr m"
| "add_assets (rel # rels) m =
     (case map_of CONTENT_TYPES (extension rel) of
        None \<Rightarrow> Inl rel
      | Some ct \<Rightarrow> add_assets rels (tbl_upsert (CHR ''/'' # rel)
          \<lparr>as_rel = rel, as_sea_key = ''ui/'' @ rel, as_content_type = ct\<rparr> m))"

definition UI_ASSETS :: "string + (string, asset) tbl" where
  "UI_ASSETS = and_then (add_assets FILES []) (\<lambda>m.
     Inr (case map_of m ''/app.html'' of None \<Rightarrow> m | Some a \<Rightarrow> tbl_upsert ''/'' a m))"

subsection \<open>Requests, answers and the daemon\<close>

record http_request =
  rq_method :: string
  rq_url :: string
  rq_host :: "string option"
  rq_origin :: "string option"
  rq_fetch_site :: "string option"
  rq_authorization :: "string option"
  rq_body :: "string option"

datatype body = No_body | Json_body json | Asset_body asset | Other_body string

type_synonym answer = "(nat \<times> body) option"

datatype handler =
    HandleEventsTicket | HandleEvidenceExportTicket | HandlePairRedeem | HandlePairRelink
  | HandleSignerConfigGet | HandleSignerConfigTicket | HandleSignerConfigUpdate
  | Other_handler string

record 'a api_state = token_state +
  signer_file :: state_file
  rest :: 'a

type_synonym params = "(string \<times> string) list"

record 'a api_env =
  ap_port :: nat
  ap_origin :: string
  ap_token :: string
  ap_fingerprint :: "string option"
  ap_url :: "string \<Rightarrow> (string \<times> (string \<Rightarrow> string option)) option"
  ap_parse :: "string \<Rightarrow> json option"
  ap_readable :: "asset \<Rightarrow> bool"
  ap_version :: json
  ap_challenge :: "string \<Rightarrow> json"
  ap_webhook :: "http_request \<Rightarrow> 'a \<Rightarrow> answer \<times> 'a"
  ap_other :: "handler \<Rightarrow> http_request \<Rightarrow> params \<Rightarrow> ticket_map \<times> 'a \<Rightarrow> answer \<times> (ticket_map \<times> 'a)"

text \<open>\<open>fingerprint\<close> is present when the daemon has identity keys.\<close>

definition deny_json :: "nat \<Rightarrow> string \<Rightarrow> nat \<times> body" where
  "deny_json status msg = (status, Json_body (JObj [(''error'', JStr msg)]))"

definition sendJson :: "nat \<Rightarrow> json \<Rightarrow> nat \<times> body" where
  "sendJson status v = (status, Json_body v)"

definition readJsonBody :: "'a api_env \<Rightarrow> http_request \<Rightarrow> json option" where
  \<comment> \<open>\<open>None\<close>: the promise is rejected\<close>
  "readJsonBody env q =
     (case rq_body q of
        None \<Rightarrow> None
      | Some [] \<Rightarrow> Some (JObj [])
      | Some s \<Rightarrow> ap_parse env s)"

subsection \<open>Handlers of tickets\<close>

definition handleEventsTicket :: "string \<Rightarrow> millis \<Rightarrow> 'a api_state \<Rightarrow> answer \<times> 'a api_state" where
  "handleEventsTicket fresh now s =
     (let (ticket, t) = createStreamTicket fresh now (token_state.truncate s)
      in (Some (sendJson 200 (JObj [(''ticket'', JStr ticket)])), s\<lparr>streamTickets := streamTickets t\<rparr>))"

definition handleEvidenceExportTicket :: "string \<Rightarrow> millis \<Rightarrow> 'a api_state \<Rightarrow> answer \<times> 'a api_state" where
  "handleEvidenceExportTicket fresh now s =
     (let (ticket, t) = createExportTicket fresh now (token_state.truncate s)
      in (Some (sendJson 200 (JObj [(''ticket'', JStr ticket)])), s\<lparr>exportTickets := exportTickets t\<rparr>))"

definition handleSignerConfigTicket :: "string \<Rightarrow> millis \<Rightarrow> 'a api_state \<Rightarrow> answer \<times> 'a api_state" where
  "handleSignerConfigTicket fresh now s =
     (let (ticket, t) = createSignerConfigTicket fresh now (token_state.truncate s)
      in (Some (sendJson 200 (JObj [(''ticket'', JStr ticket)])), s\<lparr>signerConfigTickets := signerConfigTickets t\<rparr>))"

definition handleSignerConfigGet :: "'a api_state \<Rightarrow> answer" where
  "handleSignerConfigGet s =
     (case loadSignerConfig (signer_file s) of
        None \<Rightarrow> None
      | Some v \<Rightarrow> Some (sendJson 200 (JObj [(''config'', v)])))"

definition handleSignerConfigUpdate :: "'a api_env \<Rightarrow> http_request \<Rightarrow> millis \<Rightarrow> 'a api_state \<Rightarrow> answer \<times> 'a api_state" where
  "handleSignerConfigUpdate env q now s =
     (case readJsonBody env q of
        None \<Rightarrow> (Some (deny_json 400 ''invalid_json''), s)
      | Some JNull \<Rightarrow> (None, s)
      | Some b \<Rightarrow>
          (case jget b ''ticket'' of
             Some (JStr ticket) \<Rightarrow>
               (let (ok, t) = redeemSignerConfigTicket ticket now (token_state.truncate s);
                    s1 = s\<lparr>signerConfigTickets := signerConfigTickets t\<rparr>
                in if \<not> ok then (Some (deny_json 403 ''consent_required''), s1)
                   else case writeSignerConfig (jget b ''config'') now (signer_file s) of
                     (Inr config, f) \<Rightarrow> (Some (sendJson 200 (JObj [(''config'', config)])), s1\<lparr>signer_file := f\<rparr>)
                   | (Inl _, f) \<Rightarrow> (Some (deny_json 400 ''invalid_signer_config''), s1\<lparr>signer_file := f\<rparr>))
           | _ \<Rightarrow> (Some (deny_json 403 ''consent_required''), s)))"

definition handlePairRedeem :: "'a api_env \<Rightarrow> http_request \<Rightarrow> millis \<Rightarrow> 'a api_state \<Rightarrow> answer \<times> 'a api_state" where
  \<comment> \<open>a nonce that is no string is no key of the map\<close>
  "handlePairRedeem env q now s =
     (case readJsonBody env q of
        None \<Rightarrow> (Some (deny_json 400 ''invalid_json''), s)
      | Some JNull \<Rightarrow> (None, s)
      | Some b \<Rightarrow>
          if \<not> js_truthy (jget b ''nonce'') then (Some (deny_json 400 ''missing_nonce''), s)
          else case jget b ''nonce'' of
            Some (JStr nonce) \<Rightarrow>
              (let (ok, t) = redeemPairingNonce nonce now (token_state.truncate s);
                   s1 = s\<lparr>pairingNonces := pairingNonces t\<rparr>
               in if ok then (Some (sendJson 200 (JObj [(''ok'', JBool True)])), s1)
                  else (Some (deny_json 401 ''pairing_expired_or_used''), s1))
          | _ \<Rightarrow> (Some (deny_json 401 ''pairing_expired_or_used''), s))"

definition handlePairRelink :: "'a api_env \<Rightarrow> string \<Rightarrow> millis \<Rightarrow> 'a api_state \<Rightarrow> answer \<times> 'a api_state" where
  "handlePairRelink env fresh now s =
     (let (nonce, t) = createPairingNonce fresh now (token_state.truncate s)
      in (Some (sendJson 200 (JObj [(''url'', JStr (pairingUrl (ap_token env) (ap_port env) (Some nonce) (ap_fingerprint env)))])),
          s\<lparr>pairingNonces := pairingNonces t\<rparr>))"

definition run_handler ::
  "'a api_env \<Rightarrow> handler \<Rightarrow> http_request \<Rightarrow> params \<Rightarrow> millis \<Rightarrow> string \<Rightarrow> 'a api_state \<Rightarrow> answer \<times> 'a api_state" where
  "run_handler env h q ps now fresh s =
     (case h of
        HandleEventsTicket \<Rightarrow> handleEventsTicket fresh now s
      | HandleEvidenceExportTicket \<Rightarrow> handleEvidenceExportTicket fresh now s
      | HandleSignerConfigTicket \<Rightarrow> handleSignerConfigTicket fresh now s
      | HandleSignerConfigGet \<Rightarrow> (handleSignerConfigGet s, s)
      | HandleSignerConfigUpdate \<Rightarrow> handleSignerConfigUpdate env q now s
      | HandlePairRedeem \<Rightarrow> handlePairRedeem env q now s
      | HandlePairRelink \<Rightarrow> handlePairRelink env fresh now s
      | Other_handler _ \<Rightarrow> (let (a, x, r) = ap_other env h q ps (exportTickets s, rest s) in (a, s\<lparr>exportTickets := x, rest := r\<rparr>)))"

definition runHandlerSafely ::
  "'a api_env \<Rightarrow> handler \<Rightarrow> http_request \<Rightarrow> params \<Rightarrow> millis \<Rightarrow> string \<Rightarrow> 'a api_state \<Rightarrow> (nat \<times> body) \<times> 'a api_state" where
  "runHandlerSafely env h q ps now fresh s =
     (case run_handler env h q ps now fresh s of
        (Some a, s') \<Rightarrow> (a, s')
      | (None, s') \<Rightarrow> (deny_json 500 ''internal_error'', s'))"

subsection \<open>Routes\<close>

definition ROUTES :: "(string \<times> handler) list" where
  "ROUTES =
     [(''GET /health'', Other_handler ''handleHealth''),
      (''GET /version-check'', Other_handler ''handleVersionCheck''),
      (''GET /events'', Other_handler ''handleEvents''),
      (''POST /events/ticket'', HandleEventsTicket),
      (''POST /evidence/export/ticket'', HandleEvidenceExportTicket),
      (''GET /signer/config'', HandleSignerConfigGet),
      (''POST /signer/config/ticket'', HandleSignerConfigTicket),
      (''POST /signer/config'', HandleSignerConfigUpdate),
      (''POST /vault/connections/begin'', Other_handler ''handleBeginConnection''),
      (''GET /vault/connections'', Other_handler ''handleListConnections''),
      (''GET /connectors'', Other_handler ''handleListConnectors''),
      (''GET /workflows'', Other_handler ''handleWorkflows''),
      (''GET /templates'', Other_handler ''handleTemplates''),
      (''GET /workflow-manifest'', Other_handler ''handleWorkflowManifest''),
      (''POST /run/start'', Other_handler ''handleRunStart''),
      (''POST /run/resume'', Other_handler ''handleRunResume''),
      (''GET /run/timeline'', Other_handler ''handleRunTimeline''),
      (''POST /pair/redeem'', HandlePairRedeem),
      (''POST /pair/relink'', HandlePairRelink),
      (''POST /migration/import'', Other_handler ''handleMigrationImport''),
      (''POST /workflows/import'', Other_handler ''handleWorkflowImport''),
      (''GET /autostart'', Other_handler ''handleAutostartStatus''),
      (''POST /autostart'', Other_handler ''handleAutostartSet''),
      (''GET /ha/pending'', Other_handler ''handleHaPending''),
      (''GET /ha/records'', Other_handler ''handleHaRecords''),
      (''GET /ha/slot'', Other_handler ''handleHaSlot''),
      (''POST /ha/records'', Other_handler ''handleHaRecordSubmit''),
      (''POST /ha/maker-sign'', Other_handler ''handleHaMakerSign''),
      (''POST /ha/countersign'', Other_handler ''handleHaCountersign''),
      (''GET /provenance/head'', Other_handler ''handleProvenanceHead''),
      (''GET /matters'', Other_handler ''handleMattersList''),
      (''POST /matters'', Other_handler ''handleMattersCreate''),
      (''GET /watches'', Other_handler ''handleWatchesList''),
      (''POST /watches'', Other_handler ''handleWatchesCreate''),
      (''POST /mcp'', Other_handler ''handleMcp''),
      (''GET /mcp'', Other_handler ''handleMcpMethodNotAllowed''),
      (''DELETE /mcp'', Other_handler ''handleMcpMethodNotAllowed'')]"

definition server_routes :: "(string \<times> handler) list" where
  \<comment> \<open>the table of one server: entries with the same key are bound to its own configuration\<close>
  "server_routes = ROUTES @ [(''POST /ha/replay'', Other_handler ''handleHaReplay''), (''POST /shutdown'', Other_handler ''handleShutdown'')]"

datatype segment = Lit string | Capture string

definition DYNAMIC_ROUTES :: "(string \<times> segment list \<times> handler) list" where
  \<comment> \<open>a pattern is the list of its parts between slashes; a group is \<open>[^/]+\<close>\<close>
  "DYNAMIC_ROUTES =
     [(''GET'', [Lit ''vault'', Lit ''connections'', Lit ''flow'', Capture ''flowId''], Other_handler ''handleFlowStatus''),
      (''POST'', [Lit ''vault'', Lit ''connections'', Capture ''id'', Lit ''revoke''], Other_handler ''handleRevoke''),
      (''GET'', [Lit ''kernels'', Capture ''id'', Lit ''card''], Other_handler ''handleKernelCard''),
      (''GET'', [Lit ''workflows'', Capture ''id'', Lit ''euc-entry''], Other_handler ''handleEucEntry''),
      (''GET'', [Lit ''workflows'', Capture ''id'', Lit ''export''], Other_handler ''handleWorkflowExportRoute''),
      (''GET'', [Lit ''templates'', Capture ''slug''], Other_handler ''handleTemplateDetail''),
      (''GET'', [Lit ''watches'', Capture ''id''], Other_handler ''handleWatchGet''),
      (''GET'', [Lit ''watches'', Capture ''id'', Lit ''receipt''], Other_handler ''handleWatchReceiptGet''),
      (''POST'', [Lit ''watches'', Capture ''id'', Lit ''revoke''], Other_handler ''handleWatchRevoke''),
      (''GET'', [Lit ''matters'', Capture ''id''], Other_handler ''handleMatterGet''),
      (''POST'', [Lit ''matters'', Capture ''id'', Lit ''update''], Other_handler ''handleMatterUpdate''),
      (''POST'', [Lit ''matters'', Capture ''id'', Lit ''delete''], Other_handler ''handleMatterDelete''),
      (''GET'', [Lit ''matters'', Capture ''id'', Lit ''export''], Other_handler ''handleMatterExportGet'')]"

fun match_segments :: "segment list \<Rightarrow> string list \<Rightarrow> params option" where
  "match_segments [] [] = Some []"
| "match_segments (Lit l # ps) (s # ss) = (if s = l then match_segments ps ss else None)"
| "match_segments (Capture n # ps) (s # ss) =
     (if s = [] then None else map_option (\<lambda>r. (n, s) # r) (match_segments ps ss))"
| "match_segments _ _ = None"

definition match_path :: "segment list \<Rightarrow> string \<Rightarrow> params option" where
  \<comment> \<open>\<open>pathname.match(/^\/...$/)\<close>\<close>
  "match_path pattern path = match_segments (Lit [] # pattern) (js_split (CHR ''/'') path)"

fun dynamic_handler :: "string \<Rightarrow> string \<Rightarrow> (string \<times> segment list \<times> handler) list \<Rightarrow> (handler \<times> params) option" where
  "dynamic_handler method path [] = None"
| "dynamic_handler method path ((m, pattern, h) # routes) =
     (if m \<noteq> method then dynamic_handler method path routes
      else case match_path pattern path of
        Some ps \<Rightarrow> Some (h, ps)
      | None \<Rightarrow> dynamic_handler method path routes)"

definition find_handler :: "string \<Rightarrow> string \<Rightarrow> (handler \<times> params) option" where
  "find_handler method path =
     (case map_of server_routes (method @ '' '' @ path) of
        Some h \<Rightarrow> Some (h, [])
      | None \<Rightarrow> dynamic_handler method path DYNAMIC_ROUTES)"

subsection \<open>The gate\<close>

definition DETECTION_ORIGIN :: string where "DETECTION_ORIGIN = ''https://ainumbers.co''"
definition DETECTION_PATHS :: "string list" where "DETECTION_PATHS = [''/version'', ''/pair/challenge'']"
definition INBOUND_WEBHOOK_PATH :: string where "INBOUND_WEBHOOK_PATH = ''/connectors/inbound-webhook''"
definition SUPPORTED_API_VERSIONS :: json where "SUPPORTED_API_VERSIONS = JArr [JStr ''helm/1'']"

definition checkHost :: "http_request \<Rightarrow> nat \<Rightarrow> bool" where
  "checkHost q port \<longleftrightarrow> rq_host q = Some (''127.0.0.1:'' @ show_nat port)"

definition isSameOriginFallback :: "http_request \<Rightarrow> bool" where
  "isSameOriginFallback q \<longleftrightarrow> rq_origin q = None \<and> rq_fetch_site q = Some ''same-origin''"

definition checkOrigin :: "http_request \<Rightarrow> string \<Rightarrow> bool \<Rightarrow> bool" where
  "checkOrigin q allowed allowAbsentOriginOnMcpPost \<longleftrightarrow>
     (if allowAbsentOriginOnMcpPost \<and> rq_origin q = None then True
      else rq_origin q = Some allowed \<or> isSameOriginFallback q)"

definition checkDetectionOrigin :: "http_request \<Rightarrow> string \<Rightarrow> bool" where
  "checkDetectionOrigin q allowed \<longleftrightarrow>
     rq_origin q = Some allowed \<or> rq_origin q = Some DETECTION_ORIGIN \<or> isSameOriginFallback q"

record response =
  rs_status :: nat
  rs_body :: body
  rs_allow_origin :: "string option"
  rs_authenticated :: bool

definition plain :: "nat \<times> body \<Rightarrow> response" where
  "plain a = \<lparr>rs_status = fst a, rs_body = snd a, rs_allow_origin = None, rs_authenticated = False\<rparr>"

definition echoed_origin :: "http_request \<Rightarrow> string \<Rightarrow> string" where
  \<comment> \<open>\<open>req.headers.origin || allowedOrigin\<close>\<close>
  "echoed_origin q allowed = (case rq_origin q of Some (c # cs) \<Rightarrow> c # cs | _ \<Rightarrow> allowed)"

definition handleDetectionRoute :: "'a api_env \<Rightarrow> http_request \<Rightarrow> string \<Rightarrow> string \<Rightarrow> response" where
  "handleDetectionRoute env q path fresh =
     (if \<not> checkDetectionOrigin q (ap_origin env) then plain (deny_json 403 ''origin_mismatch'')
      else
        let a = (if path = ''/version'' then sendJson 200 (JObj [(''daemon'', ap_version env), (''api'', SUPPORTED_API_VERSIONS)])
                 else case ap_fingerprint env of
                   None \<Rightarrow> deny_json 503 ''identity_unavailable''
                 | Some _ \<Rightarrow> sendJson 200 (ap_challenge env fresh))
        in (plain a)\<lparr>rs_allow_origin := Some (echoed_origin q (ap_origin env))\<rparr>)"

definition handleDetectionPreflight :: "'a api_env \<Rightarrow> http_request \<Rightarrow> response" where
  "handleDetectionPreflight env q =
     (if \<not> checkDetectionOrigin q (ap_origin env) then plain (deny_json 403 ''origin_mismatch'')
      else (plain (204, No_body))\<lparr>rs_allow_origin := Some (echoed_origin q (ap_origin env))\<rparr>)"

definition serveStatic :: "'a api_env \<Rightarrow> http_request \<Rightarrow> string \<Rightarrow> response option" where
  "serveStatic env q path =
     (if rq_method q \<noteq> ''GET'' \<and> rq_method q \<noteq> ''HEAD'' then None
      else case UI_ASSETS of
        Inl _ \<Rightarrow> None
      | Inr assets \<Rightarrow>
          (case tbl_get assets path of
             None \<Rightarrow> None
           | Some a \<Rightarrow> if ap_readable env a
                       then Some (plain (200, if rq_method q = ''HEAD'' then No_body else Asset_body a)) else None))"

definition presented :: "http_request \<Rightarrow> string" where
  "presented q =
     (let auth = (case rq_authorization q of None \<Rightarrow> [] | Some a \<Rightarrow> a)
      in if starts_with auth ''Bearer '' then drop 7 auth else [])"

definition event_ticket :: "'a api_env \<Rightarrow> http_request \<Rightarrow> string option" where
  \<comment> \<open>the ticket that is tried instead of the token\<close>
  "event_ticket env q =
     (case ap_url env (rq_url q) of
        None \<Rightarrow> None
      | Some (path, query) \<Rightarrow>
          if presented q = [] \<and> rq_method q = ''GET'' \<and> path = ''/events''
          then (case query ''ticket'' of Some (c # cs) \<Rightarrow> Some (c # cs) | _ \<Rightarrow> None) else None)"

definition serve :: "'a api_env \<Rightarrow> http_request \<Rightarrow> millis \<Rightarrow> string \<Rightarrow> 'a api_state \<Rightarrow> response option \<times> 'a api_state" where
  "serve env q now fresh s =
     (if \<not> checkHost q (ap_port env) then (Some (plain (deny_json 403 ''host_mismatch'')), s)
      else case ap_url env (rq_url q) of
        None \<Rightarrow> (None, s)
      | Some (path, query) \<Rightarrow>
          (case serveStatic env q path of
             Some r \<Rightarrow> (Some r, s)
           | None \<Rightarrow>
          if path \<in> set DETECTION_PATHS then
            (Some (if rq_method q = ''OPTIONS'' then handleDetectionPreflight env q
                   else if rq_method q = ''GET'' then handleDetectionRoute env q path fresh
                   else plain (deny_json 404 ''not_found'')), s)
          else if path = INBOUND_WEBHOOK_PATH then
            (if rq_method q \<noteq> ''POST'' then (Some (plain (deny_json 404 ''not_found'')), s)
             else let (a, r) = ap_webhook env q (rest s) in (map_option plain a, s\<lparr>rest := r\<rparr>))
          else if \<not> checkOrigin q (ap_origin env) (rq_method q = ''POST'' \<and> path = ''/mcp'') then
            (Some (plain (deny_json 403 ''origin_mismatch'')), s)
          else
            let cors = (\<lambda>a. (plain a)\<lparr>rs_allow_origin := Some (ap_origin env)\<rparr>)
            in if rq_method q = ''OPTIONS'' then (Some (cors (204, No_body)), s)
               else
                 let (by_ticket, s1) =
                       (case event_ticket env q of
                          None \<Rightarrow> (False, s)
                        | Some ticket \<Rightarrow>
                            let (ok, t) = redeemStreamTicket ticket now (token_state.truncate s)
                            in (ok, s\<lparr>streamTickets := streamTickets t\<rparr>));
                     token = (if by_ticket then ap_token env else presented q)
                 in if \<not> tokenMatches (ap_token env) (Some (JStr token)) then (Some (cors (deny_json 401 ''unauthorized'')), s1)
                    else case find_handler (rq_method q) path of
                      None \<Rightarrow> (Some ((cors (deny_json 404 ''not_found''))\<lparr>rs_authenticated := True\<rparr>), s1)
                    | Some (h, ps) \<Rightarrow>
                        let (a, s2) = runHandlerSafely env h q ps now fresh s1
                        in (Some ((cors a)\<lparr>rs_authenticated := True\<rparr>), s2)))"

subsection \<open>The stages of the gate\<close>

definition gated :: "'a api_env \<Rightarrow> http_request \<Rightarrow> string \<Rightarrow> bool" where
  \<comment> \<open>a request for \<open>path\<close> gets as far as the check of its token\<close>
  "gated env q path \<longleftrightarrow>
     checkHost q (ap_port env) \<and> map_option fst (ap_url env (rq_url q)) = Some path
     \<and> serveStatic env q path = None \<and> path \<notin> set DETECTION_PATHS \<and> path \<noteq> INBOUND_WEBHOOK_PATH
     \<and> checkOrigin q (ap_origin env) (rq_method q = ''POST'' \<and> path = ''/mcp'') \<and> rq_method q \<noteq> ''OPTIONS''"

definition by_ticket :: "'a api_env \<Rightarrow> http_request \<Rightarrow> millis \<Rightarrow> 'a api_state \<Rightarrow> bool" where
  "by_ticket env q now s = (case event_ticket env q of None \<Rightarrow> False | Some t \<Rightarrow> fst (redeemStreamTicket t now (token_state.truncate s)))"

definition after_ticket :: "'a api_env \<Rightarrow> http_request \<Rightarrow> millis \<Rightarrow> 'a api_state \<Rightarrow> 'a api_state" where
  "after_ticket env q now s =
     (case event_ticket env q of
        None \<Rightarrow> s
      | Some t \<Rightarrow> s\<lparr>streamTickets := tbl_delete t (streamTickets s)\<rparr>)"

definition bearer :: "'a api_env \<Rightarrow> http_request \<Rightarrow> bool" where
  "bearer env q \<longleftrightarrow> ap_token env \<noteq> [] \<and> presented q = ap_token env"

definition credentials :: "'a api_env \<Rightarrow> http_request \<Rightarrow> millis \<Rightarrow> 'a api_state \<Rightarrow> bool" where
  "credentials env q now s \<longleftrightarrow> bearer env q \<or> (ap_token env \<noteq> [] \<and> by_ticket env q now s)"

lemma tokenMatches_iff: "tokenMatches token (Some (JStr p)) \<longleftrightarrow> token \<noteq> [] \<and> p = token"
  by (auto simp: tokenMatches_def list.rel_eq)

lemma snd_redeemStreamTicket:
  "streamTickets (snd (redeemStreamTicket t now x)) = tbl_delete t (streamTickets x)"
  by (simp add: redeemStreamTicket_def Let_def split: option.splits)

lemma truncate_tickets [simp]:
  "streamTickets (token_state.truncate s) = streamTickets s" "exportTickets (token_state.truncate s) = exportTickets s"
  "pairingNonces (token_state.truncate s) = pairingNonces s"
  "signerConfigTickets (token_state.truncate s) = signerConfigTickets s"
  by (simp_all add: token_state.truncate_def)

lemma event_ticket_no_bearer: "event_ticket env q = Some t \<Longrightarrow> presented q = []"
  by (simp add: event_ticket_def split: option.splits prod.splits if_splits)

lemma serve_gated:
  assumes "gated env q path"
  shows "serve env q now fresh s =
    (let cors = (\<lambda>a. (plain a)\<lparr>rs_allow_origin := Some (ap_origin env)\<rparr>); s1 = after_ticket env q now s
     in if \<not> credentials env q now s then (Some (cors (deny_json 401 ''unauthorized'')), s1)
        else case find_handler (rq_method q) path of
          None \<Rightarrow> (Some ((cors (deny_json 404 ''not_found''))\<lparr>rs_authenticated := True\<rparr>), s1)
        | Some (h, ps) \<Rightarrow>
            let (a, s2) = runHandlerSafely env h q ps now fresh s1
            in (Some ((cors a)\<lparr>rs_authenticated := True\<rparr>), s2))"
proof -
  obtain query where url: "ap_url env (rq_url q) = Some (path, query)"
    using assms by (auto simp: gated_def)
  show ?thesis
  proof (cases "event_ticket env q")
    case None
    then have c: "credentials env q now s = tokenMatches (ap_token env) (Some (JStr (presented q)))"
      by (auto simp: credentials_def bearer_def by_ticket_def tokenMatches_iff)
    show ?thesis using assms None
      by (simp add: serve_def gated_def url c after_ticket_def Let_def)
  next
    case (Some t)
    obtain ok x where red: "redeemStreamTicket t now (token_state.truncate s) = (ok, x)" by fastforce
    then have x: "streamTickets x = tbl_delete t (streamTickets s)"
      using snd_redeemStreamTicket [of t now "token_state.truncate s"] by simp
    have c: "credentials env q now s = tokenMatches (ap_token env) (Some (JStr (if ok then ap_token env else presented q)))"
      using event_ticket_no_bearer [OF Some] Some red
      by (auto simp: credentials_def bearer_def by_ticket_def tokenMatches_iff)
    show ?thesis using assms Some
      by (simp add: serve_def gated_def url c after_ticket_def Let_def red x)
  qed
qed

lemma serve_not_gated:
  assumes "\<forall>path. \<not> gated env q path" and "serve env q now fresh s = (resp, s')"
  shows "s' = s\<lparr>rest := rest s'\<rparr>" and "resp = Some r \<Longrightarrow> \<not> rs_authenticated r"
    and "\<forall>query. ap_url env (rq_url q) \<noteq> Some (INBOUND_WEBHOOK_PATH, query) \<Longrightarrow> s' = s"
proof -
  note d = handleDetectionPreflight_def handleDetectionRoute_def plain_def serveStatic_def
  have "s' = s\<lparr>rest := rest s'\<rparr> \<and> (resp = Some r \<longrightarrow> \<not> rs_authenticated r)
    \<and> ((\<forall>query. ap_url env (rq_url q) \<noteq> Some (INBOUND_WEBHOOK_PATH, query)) \<longrightarrow> s' = s)"
  proof (cases "ap_url env (rq_url q)")
    case None
    then show ?thesis using assms(2) by (auto simp: serve_def plain_def split: if_splits)
  next
    case (Some pq)
    obtain path query where pq: "pq = (path, query)" by fastforce
    have ng: "\<not> gated env q path" using assms(1) by blast
    show ?thesis
    proof (cases "serveStatic env q path")
      case (Some r')
      then have "\<not> rs_authenticated r'" by (auto simp: serveStatic_def plain_def split: if_splits sum.splits option.splits)
      with Some assms(2) \<open>ap_url env (rq_url q) = Some pq\<close> pq show ?thesis
        by (auto simp: serve_def plain_def split: if_splits)
    next
      case None
      with ng assms(2) \<open>ap_url env (rq_url q) = Some pq\<close> pq show ?thesis
        by (auto simp: serve_def gated_def Let_def plain_def handleDetectionPreflight_def handleDetectionRoute_def
            split: if_splits prod.splits option.splits)
    qed
  qed
  then show "s' = s\<lparr>rest := rest s'\<rparr>" and "resp = Some r \<Longrightarrow> \<not> rs_authenticated r"
    and "\<forall>query. ap_url env (rq_url q) \<noteq> Some (INBOUND_WEBHOOK_PATH, query) \<Longrightarrow> s' = s" by blast+
qed

subsection \<open>Which handler a request reaches\<close>

lemma dynamic_handlers_are_other:
  "dynamic_handler m p routes = Some (h, ps) \<Longrightarrow> h \<in> (snd \<circ> snd) ` set routes"
  by (induction m p routes rule: dynamic_handler.induct) (auto split: if_splits option.splits)

lemma route_handlers:
  assumes "find_handler m p = Some (h, ps)" and "\<forall>n. h \<noteq> Other_handler n"
  shows "(m @ '' '' @ p, h) \<in> set server_routes"
proof (cases "map_of server_routes (m @ '' '' @ p)")
  case None
  then have "h \<in> (snd \<circ> snd) ` set DYNAMIC_ROUTES"
    using assms(1) dynamic_handlers_are_other by (fastforce simp: find_handler_def)
  then show ?thesis using assms(2) by (auto simp: DYNAMIC_ROUTES_def)
next
  case (Some h')
  then show ?thesis using assms(1) map_of_SomeD by (fastforce simp: find_handler_def)
qed

lemma one_space:
  assumes "m @ CHR '' '' # p = a @ CHR '' '' # b" and "CHR '' '' \<notin> set a" and "CHR '' '' \<notin> set b"
  shows "m = a \<and> p = b"
  using assms by (auto simp: append_eq_append_conv2 Cons_eq_append_conv append_eq_Cons_conv)

lemma ticket_routes:
  "find_handler m p = Some (HandleEventsTicket, ps) \<Longrightarrow> m = ''POST'' \<and> p = ''/events/ticket''"
  "find_handler m p = Some (HandleSignerConfigTicket, ps) \<Longrightarrow> m = ''POST'' \<and> p = ''/signer/config/ticket''"
  "find_handler m p = Some (HandleSignerConfigUpdate, ps) \<Longrightarrow> m = ''POST'' \<and> p = ''/signer/config''"
proof -
  have key: "(m @ '' '' @ p, h) \<in> set server_routes" if "find_handler m p = Some (h, ps)" "\<forall>n. h \<noteq> Other_handler n" for h
    by (rule route_handlers [OF that])
  show "find_handler m p = Some (HandleEventsTicket, ps) \<Longrightarrow> m = ''POST'' \<and> p = ''/events/ticket''"
    using one_space [of m p "''POST''" "''/events/ticket''"] key [of HandleEventsTicket]
    by (simp add: server_routes_def ROUTES_def)
  show "find_handler m p = Some (HandleSignerConfigTicket, ps) \<Longrightarrow> m = ''POST'' \<and> p = ''/signer/config/ticket''"
    using one_space [of m p "''POST''" "''/signer/config/ticket''"] key [of HandleSignerConfigTicket]
    by (simp add: server_routes_def ROUTES_def)
  show "find_handler m p = Some (HandleSignerConfigUpdate, ps) \<Longrightarrow> m = ''POST'' \<and> p = ''/signer/config''"
    using one_space [of m p "''POST''" "''/signer/config''"] key [of HandleSignerConfigUpdate]
    by (simp add: server_routes_def ROUTES_def)
qed

lemma post_routes:
  "find_handler ''POST'' ''/signer/config'' = Some (HandleSignerConfigUpdate, [])"
  "find_handler ''POST'' ''/signer/config/ticket'' = Some (HandleSignerConfigTicket, [])"
  "find_handler ''POST'' ''/events/ticket'' = Some (HandleEventsTicket, [])"
  "find_handler ''GET'' ''/events'' = Some (Other_handler ''handleEvents'', [])"
  by (simp_all add: find_handler_def server_routes_def ROUTES_def)

subsection \<open>What a handler does to the tickets\<close>

lemma run_handler_streams:
  "streamTickets (snd (run_handler env h q ps now fresh s)) =
     (if h = HandleEventsTicket then tbl_upsert fresh (now + STREAM_TICKET_TTL_MS) (streamTickets s) else streamTickets s)"
  by (cases h) (auto simp: run_handler_def handleEventsTicket_def handleEvidenceExportTicket_def handleSignerConfigTicket_def
      handlePairRelink_def handlePairRedeem_def handleSignerConfigUpdate_def createStreamTicket_def Let_def
      split: prod.splits option.splits json.splits sum.splits)

lemma run_handler_signer_file:
  assumes "signer_file (snd (run_handler env h q ps now fresh s)) \<noteq> signer_file s"
  shows "h = HandleSignerConfigUpdate"
  using assms
  by (cases h) (auto simp: run_handler_def handleEventsTicket_def handleEvidenceExportTicket_def handleSignerConfigTicket_def
      handlePairRelink_def handlePairRedeem_def Let_def split: prod.splits option.splits json.splits sum.splits if_splits)

text \<open>The ticket that a request to change the signer configuration carries.\<close>

definition signer_ticket :: "'a api_env \<Rightarrow> http_request \<Rightarrow> string option" where
  "signer_ticket env q =
     (case readJsonBody env q of
        None \<Rightarrow> None
      | Some b \<Rightarrow> (case jget b ''ticket'' of Some (JStr t) \<Rightarrow> Some t | _ \<Rightarrow> None))"

lemma run_handler_signer_tickets:
  "signerConfigTickets (snd (run_handler env h q ps now fresh s)) =
     (if h = HandleSignerConfigTicket then tbl_upsert fresh (now + SIGNER_CONFIG_TICKET_TTL_MS) (signerConfigTickets s)
      else if h = HandleSignerConfigUpdate then
        (case signer_ticket env q of None \<Rightarrow> signerConfigTickets s | Some t \<Rightarrow> tbl_delete t (signerConfigTickets s))
      else signerConfigTickets s)"
proof (cases "h = HandleSignerConfigUpdate")
  case True
  have r: "signerConfigTickets (snd (redeemSignerConfigTicket t now x)) = tbl_delete t (signerConfigTickets x)" for t x
    by (simp add: redeemSignerConfigTicket_def Let_def split: option.splits)
  show ?thesis
    unfolding True run_handler_def handleSignerConfigUpdate_def signer_ticket_def
    by (auto simp: Let_def case_prod_unfold r split: option.split json.split sum.splits)
next
  case False
  then show ?thesis
    by (cases h) (auto simp: run_handler_def handleEventsTicket_def handleEvidenceExportTicket_def handleSignerConfigTicket_def
        handlePairRelink_def handlePairRedeem_def createSignerConfigTicket_def Let_def
        split: prod.splits option.splits json.splits sum.splits)
qed

lemma runHandlerSafely_snd: "snd (runHandlerSafely env h q ps now fresh s) = snd (run_handler env h q ps now fresh s)"
  by (simp add: runHandlerSafely_def split: prod.split option.split)

lemma signer_file_changes:
  assumes "signer_file (snd (run_handler env h q ps now fresh s)) \<noteq> signer_file s"
  shows "\<exists>t. signer_ticket env q = Some t \<and> fst (redeemSignerConfigTicket t now (token_state.truncate s))
    \<and> (\<exists>b clean. readJsonBody env q = Some b
        \<and> writeSignerConfig (jget b ''config'') now (signer_file s)
          = (Inr clean, signer_file (snd (run_handler env h q ps now fresh s))))"
proof -
  have h: "h = HandleSignerConfigUpdate" by (rule run_handler_signer_file [OF assms])
  have w: "fst (writeSignerConfig c now f) = Inl e \<Longrightarrow> snd (writeSignerConfig c now f) = f" for c f e
    by (auto simp: writeSignerConfig_def split: sum.splits option.splits)
  show ?thesis
    using assms unfolding h run_handler_def handleSignerConfigUpdate_def signer_ticket_def
    by (auto simp: Let_def case_prod_unfold split: option.splits json.splits sum.splits if_splits dest!: w) (metis prod.collapse)
qed

subsection \<open>Where a ticket that is held comes from\<close>

text \<open>
  The contract of a store of tickets under a sequence of calls: a ticket that is held after a call was minted by it or
  was held before and not spent by it. The client's lemma finds the call that minted a held ticket.
\<close>

locale earned_ticket =
  fixes step :: "'c \<Rightarrow> 's \<Rightarrow> 's"
    and held :: "'s \<Rightarrow> string \<Rightarrow> millis option"
    and mints :: "'c \<Rightarrow> string \<Rightarrow> bool"
    and spends :: "'c \<Rightarrow> string \<Rightarrow> bool"
    and clock :: "'c \<Rightarrow> millis"
    and ttl :: millis
  assumes held_step: "held (step c s) t = Some e \<Longrightarrow> (mints c t \<and> e = clock c + ttl) \<or> (held s t = Some e \<and> \<not> spends c t)"
begin

lemma provenance:
  assumes "held (fold step cs s) t = Some e" and "held s t = None"
  shows "\<exists>before c after. cs = before @ c # after \<and> mints c t \<and> e = clock c + ttl \<and> (\<forall>c' \<in> set after. \<not> spends c' t)"
  using assms(1)
proof (induction cs rule: rev_induct)
  case Nil
  then show ?case using assms(2) by simp
next
  case (snoc c cs)
  from snoc.prems have "held (step c (fold step cs s)) t = Some e" by simp
  then consider "mints c t" "e = clock c + ttl" | "held (fold step cs s) t = Some e" "\<not> spends c t"
    using held_step by blast
  then show ?case
  proof cases
    case 2
    from snoc.IH [OF 2(1)] obtain before c1 after where "cs = before @ c1 # after" "mints c1 t" "e = clock c1 + ttl"
      "\<forall>c' \<in> set after. \<not> spends c' t" by blast
    then show ?thesis using 2(2)
      by (intro exI [of _ before] exI [of _ c1] exI [of _ "after @ [c]"]) auto
  qed fastforce
qed

end

type_synonym call = "http_request \<times> millis \<times> string"

fun call_step :: "'a api_env \<Rightarrow> call \<Rightarrow> 'a api_state \<Rightarrow> 'a api_state" where
  "call_step env (q, now, fresh) s = snd (serve env q now fresh s)"

fun call_time :: "call \<Rightarrow> millis" where
  "call_time (q, now, fresh) = now"

fun bearer_mints :: "string \<Rightarrow> 'a api_env \<Rightarrow> call \<Rightarrow> string \<Rightarrow> bool" where
  \<comment> \<open>a call with the bearer token to the route \<open>path\<close>, which answers with the ticket \<open>t\<close>\<close>
  "bearer_mints path env (q, now, fresh) t \<longleftrightarrow> gated env q path \<and> rq_method q = ''POST'' \<and> bearer env q \<and> fresh = t"

fun spends_stream :: "'a api_env \<Rightarrow> call \<Rightarrow> string \<Rightarrow> bool" where
  "spends_stream env (q, now, fresh) t \<longleftrightarrow> gated env q ''/events'' \<and> event_ticket env q = Some t"

fun spends_signer :: "'a api_env \<Rightarrow> call \<Rightarrow> string \<Rightarrow> bool" where
  "spends_signer env (q, now, fresh) t \<longleftrightarrow>
     gated env q ''/signer/config'' \<and> rq_method q = ''POST'' \<and> bearer env q \<and> signer_ticket env q = Some t"

lemma gated_unique: "gated env q p \<Longrightarrow> gated env q p' \<Longrightarrow> p = p'"
  by (auto simp: gated_def)

lemma event_ticket_route: "gated env q p \<Longrightarrow> event_ticket env q = Some t \<Longrightarrow> p = ''/events'' \<and> rq_method q = ''GET''"
  by (auto simp: gated_def event_ticket_def split: if_splits)

lemma credentials_elsewhere: "gated env q p \<Longrightarrow> p \<noteq> ''/events'' \<Longrightarrow> credentials env q now s = bearer env q"
  by (cases "event_ticket env q") (auto simp: credentials_def by_ticket_def dest: event_ticket_route)

lemma serve_state:
  "gated env q p \<Longrightarrow> snd (serve env q now fresh s) =
     (if \<not> credentials env q now s then after_ticket env q now s
      else case find_handler (rq_method q) p of
        None \<Rightarrow> after_ticket env q now s
      | Some (h, ps) \<Rightarrow> snd (run_handler env h q ps now fresh (after_ticket env q now s)))"
  by (simp add: serve_gated Let_def case_prod_unfold runHandlerSafely_snd split: option.split)

lemma after_ticket_simps [simp]:
  "signerConfigTickets (after_ticket env q now s) = signerConfigTickets s"
  "signer_file (after_ticket env q now s) = signer_file s"
  "streamTickets (after_ticket env q now s)
     = (case event_ticket env q of None \<Rightarrow> streamTickets s | Some t \<Rightarrow> tbl_delete t (streamTickets s))"
  by (simp_all add: after_ticket_def split: option.split)

lemma serve_not_gated_state:
  assumes "\<forall>p. \<not> gated env q p"
  shows "streamTickets (snd (serve env q now fresh s)) = streamTickets s"
    and "signerConfigTickets (snd (serve env q now fresh s)) = signerConfigTickets s"
    and "signer_file (snd (serve env q now fresh s)) = signer_file s"
proof -
  let ?s = "snd (serve env q now fresh s)"
  have "?s = s\<lparr>rest := rest ?s\<rparr>" by (rule serve_not_gated(1) [OF assms prod.collapse [symmetric]])
  from arg_cong [OF this, of streamTickets] arg_cong [OF this, of signerConfigTickets] arg_cong [OF this, of signer_file]
  show "streamTickets ?s = streamTickets s" "signerConfigTickets ?s = signerConfigTickets s" "signer_file ?s = signer_file s"
    by simp_all
qed

interpretation stream_ticket: earned_ticket "call_step env" "\<lambda>s. tbl_get (streamTickets s)"
    "bearer_mints ''/events/ticket'' env" "spends_stream env" call_time STREAM_TICKET_TTL_MS for env
proof (unfold_locales, goal_cases)
  case (1 c s t e)
  obtain q now fresh where c: "c = (q, now, fresh)" by (cases c)
  show ?case
  proof (cases "\<exists>p. gated env q p")
    case False
    then have "streamTickets (call_step env c s) = streamTickets s" using serve_not_gated_state(1) c by auto
    then show ?thesis using False 1 c by auto
  next
    case True
    then obtain p where p: "gated env q p" by blast
    have mint: "bearer_mints ''/events/ticket'' env c fresh"
      if "find_handler (rq_method q) p = Some (HandleEventsTicket, ps)" "credentials env q now s" for ps
      using ticket_routes(1) [OF that(1)] that(2) credentials_elsewhere [OF p] p c by simp
    show ?thesis
      using 1 c p mint serve_state [OF p, of now fresh s] event_ticket_route [OF p]
      by (auto simp: run_handler_streams split: option.splits if_splits prod.splits dest: gated_unique)
  qed
qed

interpretation signer_config_ticket: earned_ticket "call_step env" "\<lambda>s. tbl_get (signerConfigTickets s)"
    "bearer_mints ''/signer/config/ticket'' env" "spends_signer env" call_time SIGNER_CONFIG_TICKET_TTL_MS for env
proof (unfold_locales, goal_cases)
  case (1 c s t e)
  obtain q now fresh where c: "c = (q, now, fresh)" by (cases c)
  show ?case
  proof (cases "\<exists>p. gated env q p")
    case False
    then have "signerConfigTickets (call_step env c s) = signerConfigTickets s" using serve_not_gated_state(2) c by auto
    then show ?thesis using False 1 c by auto
  next
    case True
    then obtain p where p: "gated env q p" by blast
    have mint: "bearer_mints ''/signer/config/ticket'' env c fresh"
      if "find_handler (rq_method q) p = Some (HandleSignerConfigTicket, ps)" "credentials env q now s" for ps
      using ticket_routes(2) [OF that(1)] that(2) credentials_elsewhere [OF p] p c by simp
    have spent: "find_handler (rq_method q) p = Some (HandleSignerConfigUpdate, []) \<and> credentials env q now s"
      if "spends_signer env c t"
      using that c p gated_unique [OF p, of "''/signer/config''"] credentials_elsewhere [OF p] by (auto simp: post_routes)
    show ?thesis
      using 1 c p mint spent serve_state [OF p, of now fresh s]
      by (auto simp: run_handler_signer_tickets split: option.splits if_splits prod.splits)
  qed
qed

subsection \<open>The static surface\<close>

lemma add_assets_keys:
  "add_assets rels m = Inr m' \<Longrightarrow> tbl_get m' p = Some a \<Longrightarrow> tbl_get m p = Some a \<or> (\<exists>rel \<in> set rels. p = CHR ''/'' # rel)"
  by (induction rels m rule: add_assets.induct) (fastforce split: option.splits if_splits)+

lemma UI_ASSETS_keys:
  "UI_ASSETS = Inr assets \<Longrightarrow> tbl_get assets p = Some a \<Longrightarrow> p = ''/'' \<or> (\<exists>rel \<in> set FILES. p = CHR ''/'' # rel)"
  by (auto simp: UI_ASSETS_def split: option.splits if_splits dest!: add_assets_keys [of FILES "[]"])

lemma files_checked: "list_all (\<lambda>rel. list_ex (\<lambda>c. c = CHR ''.'') rel \<and> map_of CONTENT_TYPES (extension rel) \<noteq> None) FILES"
  by code_simp

lemma serveStatic_other: "p \<noteq> ''/'' \<Longrightarrow> CHR ''.'' \<notin> set p \<Longrightarrow> serveStatic env q p = None"
  using files_checked
  by (fastforce simp: serveStatic_def list_all_iff list_ex_iff split: sum.split option.split dest: UI_ASSETS_keys)

lemma no_route_is_static:
  "serveStatic env q ''/events'' = None" "serveStatic env q ''/events/ticket'' = None"
  "serveStatic env q ''/signer/config'' = None" "serveStatic env q ''/signer/config/ticket'' = None"
  by (rule serveStatic_other; simp)+

lemma add_assets_total:
  "list_all (\<lambda>rel. map_of CONTENT_TYPES (extension rel) \<noteq> None) rels \<Longrightarrow> \<exists>m'. add_assets rels m = Inr m'"
  by (induction rels arbitrary: m) auto

text \<open>The module that builds the table of static files loads: every file in the list has a content type.\<close>

lemma UI_ASSETS_loads: "\<exists>assets. UI_ASSETS = Inr assets"
  using add_assets_total [of FILES "[]"] files_checked by (auto simp: UI_ASSETS_def list_all_iff)

subsection \<open>Properties\<close>

text \<open>\<open>earned env h q now t\<close>: the history \<open>h\<close> minted the ticket \<open>t\<close> for a holder of the bearer token and did not spend it.\<close>

definition earned_stream :: "'a api_env \<Rightarrow> call list \<Rightarrow> millis \<Rightarrow> string \<Rightarrow> bool" where
  "earned_stream env h now t \<longleftrightarrow>
     (\<exists>before q m after. h = before @ (q, m, t) # after \<and> now \<le> m + STREAM_TICKET_TTL_MS
        \<and> rq_method q = ''POST'' \<and> gated env q ''/events/ticket'' \<and> bearer env q \<and> (\<forall>c \<in> set after. \<not> spends_stream env c t))"

definition earned_signer :: "'a api_env \<Rightarrow> call list \<Rightarrow> millis \<Rightarrow> string \<Rightarrow> bool" where
  "earned_signer env h now t \<longleftrightarrow>
     (\<exists>before q m after. h = before @ (q, m, t) # after \<and> now \<le> m + SIGNER_CONFIG_TICKET_TTL_MS
        \<and> rq_method q = ''POST'' \<and> gated env q ''/signer/config/ticket'' \<and> bearer env q \<and> (\<forall>c \<in> set after. \<not> spends_signer env c t))"

lemma by_ticket_earned:
  assumes "streamTickets s = []" and "by_ticket env q now (fold (call_step env) h s)"
  shows "\<exists>t. event_ticket env q = Some t \<and> earned_stream env h now t"
proof -
  from assms(2) obtain t e where t: "event_ticket env q = Some t"
    "tbl_get (streamTickets (fold (call_step env) h s)) t = Some e" "now \<le> e"
    by (auto simp: by_ticket_def stream.redeem_result split: option.splits)
  from stream_ticket.provenance [OF t(2)] assms(1) obtain before c after where
    "h = before @ c # after" "bearer_mints ''/events/ticket'' env c t" "e = call_time c + STREAM_TICKET_TTL_MS"
    "\<forall>c' \<in> set after. \<not> spends_stream env c' t" by auto
  with t show ?thesis by (cases c) (fastforce simp: earned_stream_def)
qed

text \<open>C36. Whatever calls came before: a call other than a webhook delivery either carries the bearer token past the checks of
  host and origin, or opens the event stream with a ticket that an earlier call with the bearer token obtained at most fifteen
  seconds ago and that no call has tried since; or it does nothing except that a stream ticket may be forgotten.\<close>

theorem effects_need_the_bearer_token:
  assumes "streamTickets s = []" and "serve env q now fresh (fold (call_step env) h s) = (resp, s')"
    and "\<And>query. ap_url env (rq_url q) \<noteq> Some (INBOUND_WEBHOOK_PATH, query)"
  shows "(\<exists>r p. resp = Some r \<and> rs_authenticated r \<and> gated env q p
            \<and> (bearer env q \<or> (p = ''/events'' \<and> rq_method q = ''GET'' \<and> (\<exists>t. event_ticket env q = Some t \<and> earned_stream env h now t))))
       \<or> (\<forall>r. resp = Some r \<longrightarrow> \<not> rs_authenticated r)
           \<and> (\<exists>x. s' = (fold (call_step env) h s)\<lparr>streamTickets := x\<rparr> \<and> set x \<subseteq> set (streamTickets (fold (call_step env) h s)))"
proof (cases "\<exists>p. gated env q p")
  case False
  then have "s' = fold (call_step env) h s" "\<forall>r. resp = Some r \<longrightarrow> \<not> rs_authenticated r"
    using serve_not_gated [OF _ assms(2)] assms(3) by auto
  moreover have "fold (call_step env) h s = (fold (call_step env) h s)\<lparr>streamTickets := streamTickets (fold (call_step env) h s)\<rparr>"
    by simp
  ultimately show ?thesis by (metis order_refl)
next
  case True
  let ?s = "fold (call_step env) h s"
  from True obtain p where p: "gated env q p" by blast
  show ?thesis
  proof (cases "credentials env q now ?s")
    case True
    then have "\<exists>r. resp = Some r \<and> rs_authenticated r"
      using assms(2) by (auto simp: serve_gated [OF p] Let_def case_prod_unfold split: option.splits)
    moreover have "bearer env q \<or> (\<exists>t. event_ticket env q = Some t \<and> earned_stream env h now t)"
      using True by_ticket_earned [OF assms(1)] by (auto simp: credentials_def)
    ultimately show ?thesis using p event_ticket_route [OF p] by blast
  next
    case False
    then have "\<forall>r. resp = Some r \<longrightarrow> \<not> rs_authenticated r" "s' = after_ticket env q now ?s"
      using assms(2) by (auto simp: serve_gated [OF p] Let_def plain_def)
    moreover have "\<exists>x. after_ticket env q now ?s = ?s\<lparr>streamTickets := x\<rparr> \<and> set x \<subseteq> set (streamTickets ?s)"
      by (cases "event_ticket env q")
        (auto simp: after_ticket_def tbl_delete_def intro: exI [of _ "streamTickets ?s"])
    ultimately show ?thesis by simp
  qed
qed

text \<open>C37. The configuration of the external signer changes only in a call with the bearer token that carries a consent ticket;
  an earlier call with the bearer token minted that ticket at most five minutes ago, no call has tried it
  since, and what is written is a configuration that validates.\<close>

theorem signer_changes_by_ticket:
  assumes "signerConfigTickets s = []"
    and "signer_file (snd (serve env q now fresh (fold (call_step env) h s))) \<noteq> signer_file (fold (call_step env) h s)"
  shows "gated env q ''/signer/config'' \<and> rq_method q = ''POST'' \<and> bearer env q
    \<and> (\<exists>t. signer_ticket env q = Some t \<and> earned_signer env h now t)
    \<and> (\<exists>b clean. readJsonBody env q = Some b \<and> validateSignerConfig (jget b ''config'') = Inr clean
         \<and> writeSignerConfig (jget b ''config'') now (signer_file (fold (call_step env) h s))
             = (Inr clean, signer_file (snd (serve env q now fresh (fold (call_step env) h s)))))"
proof -
  let ?s = "fold (call_step env) h s"
  obtain p where p: "gated env q p" using assms(2) serve_not_gated_state(3) by blast
  from assms(2) obtain hd ps where f: "credentials env q now ?s" "find_handler (rq_method q) p = Some (hd, ps)"
    "signer_file (snd (run_handler env hd q ps now fresh (after_ticket env q now ?s))) \<noteq> signer_file (after_ticket env q now ?s)"
    by (auto simp: serve_state [OF p] split: if_splits option.splits prod.splits)
  have st: "snd (serve env q now fresh ?s) = snd (run_handler env hd q ps now fresh (after_ticket env q now ?s))"
    using f by (simp add: serve_state [OF p])
  have upd: "hd = HandleSignerConfigUpdate" by (rule run_handler_signer_file [OF f(3)])
  then have route: "rq_method q = ''POST''" "p = ''/signer/config''" using ticket_routes(3) f(2) by blast+
  then have b: "bearer env q" using credentials_elsewhere [OF p] f(1) by simp
  from signer_file_changes [OF f(3)] obtain t e body clean where t: "signer_ticket env q = Some t"
    "tbl_get (signerConfigTickets ?s) t = Some e" "now \<le> e" "readJsonBody env q = Some body"
    "writeSignerConfig (jget body ''config'') now (signer_file ?s) = (Inr clean, signer_file (snd (serve env q now fresh ?s)))"
    by (auto simp: signer.redeem_result st)
  from signer_config_ticket.provenance [OF t(2)] assms(1) obtain before c after where
    "h = before @ c # after" "bearer_mints ''/signer/config/ticket'' env c t" "e = call_time c + SIGNER_CONFIG_TICKET_TTL_MS"
    "\<forall>c' \<in> set after. \<not> spends_signer env c' t" by auto
  then have "earned_signer env h now t" using t(3) by (cases c) (fastforce simp: earned_signer_def)
  moreover have "validateSignerConfig (jget body ''config'') = Inr clean"
    using t(5) by (auto simp: writeSignerConfig_def split: sum.splits option.splits)
  ultimately show ?thesis using p route b t by blast
qed

text \<open>C92. A page of a foreign origin can read only the answers of the detection routes: a response that names an origin
  other than the configured one names the hosted one, answers one of the two paths, leaves the state as it
  was and runs no handler.\<close>

theorem foreign_origin_reads_detection_only:
  assumes "serve env q now fresh s = (Some r, s')" and "rs_allow_origin r = Some origin" and "origin \<noteq> ap_origin env"
  shows "origin = DETECTION_ORIGIN \<and> \<not> rs_authenticated r \<and> s' = s
    \<and> (\<exists>path query. ap_url env (rq_url q) = Some (path, query) \<and> path \<in> set DETECTION_PATHS)"
proof -
  have ng: "\<not> gated env q p" for p
  proof
    assume "gated env q p"
    then have "rs_allow_origin r = Some (ap_origin env)"
      using assms(1) by (auto simp: serve_gated Let_def case_prod_unfold split: option.splits if_splits)
    then show False using assms by simp
  qed
  then have "\<not> rs_authenticated r" using serve_not_gated(2) [OF _ assms(1)] by blast
  moreover obtain path query where url: "ap_url env (rq_url q) = Some (path, query)" "checkHost q (ap_port env)"
    using assms(1,2) by (auto simp: serve_def plain_def split: if_splits option.splits)
  moreover have st: "serveStatic env q path = None"
  proof (rule ccontr)
    assume "serveStatic env q path \<noteq> None"
    then obtain r' where "serveStatic env q path = Some r'" by blast
    moreover from this have "rs_allow_origin r' = None"
      by (auto simp: serveStatic_def plain_def split: if_splits sum.splits option.splits)
    ultimately show False using assms(1,2) url by (simp add: serve_def)
  qed
  moreover have d: "path \<in> set DETECTION_PATHS"
  proof (rule ccontr)
    assume "path \<notin> set DETECTION_PATHS"
    then have "rs_allow_origin r = None \<or> rs_allow_origin r = Some (ap_origin env)"
      using assms(1) ng [of path] url st
      by (auto simp: serve_def gated_def Let_def plain_def split: if_splits prod.splits)
    then show False using assms(2,3) by simp
  qed
  moreover have "checkDetectionOrigin q (ap_origin env) \<and> origin = echoed_origin q (ap_origin env) \<and> s' = s"
    using assms(1,2) url st d
    by (auto simp: serve_def plain_def handleDetectionRoute_def handleDetectionPreflight_def Let_def split: if_splits)
  then have "origin = DETECTION_ORIGIN \<and> s' = s"
    using assms(3) by (auto simp: checkDetectionOrigin_def echoed_origin_def isSameOriginFallback_def split: option.splits list.splits)
  ultimately show ?thesis by blast
qed

subsection \<open>A bearer token is enough to change the signer\<close>

text \<open>
  The two calls need nothing but the bearer token and headers that any local program can set, so the consent ticket does
  not keep a holder of the token from repointing the signer.
\<close>

lemma bearer_holder_writes_signer:
  assumes mint: "gated env q1 ''/signer/config/ticket''" "rq_method q1 = ''POST''" "bearer env q1"
    and upd: "gated env q2 ''/signer/config''" "rq_method q2 = ''POST''" "bearer env q2"
    and b: "readJsonBody env q2 = Some b" "jget b ''ticket'' = Some (JStr t)"
    and v: "validateSignerConfig (jget b ''config'') = Inr clean" "toISOString now2 = Some stamp"
    and now: "0 < now1" "now2 \<le> now1 + SIGNER_CONFIG_TICKET_TTL_MS"
  shows "signer_file (snd (serve env q2 now2 f (snd (serve env q1 now1 t s)))) = Holds (js_with clean ''updatedAt'' (JStr stamp))"
proof -
  let ?s1 = "snd (serve env q1 now1 t s)"
  have "tbl_get (signerConfigTickets ?s1) t = Some (now1 + SIGNER_CONFIG_TICKET_TTL_MS)"
    using mint credentials_elsewhere [OF mint(1)]
    by (simp add: serve_state [OF mint(1)] post_routes run_handler_signer_tickets)
  then have red: "fst (redeemSignerConfigTicket t now2 (token_state.truncate (after_ticket env q2 now2 ?s1)))"
    using now by (simp add: signer.redeem_result SIGNER_CONFIG_TICKET_TTL_MS_def)
  obtain ok x where r: "redeemSignerConfigTicket t now2 (token_state.truncate (after_ticket env q2 now2 ?s1)) = (ok, x)" by fastforce
  have "b \<noteq> JNull" using b(2) by auto
  with red r b v show ?thesis
    using upd credentials_elsewhere [OF upd(1)]
    by (cases b) (simp_all add: serve_state [OF upd(1)] post_routes run_handler_def handleSignerConfigUpdate_def writeSignerConfig_def)
qed

text \<open>A request line that \<open>new URL\<close> does not take ends the process, before anything but the host was checked.\<close>

lemma unparsable_url_ends_process:
  "rq_host q = Some (''127.0.0.1:'' @ show_nat (ap_port env)) \<Longrightarrow> ap_url env (rq_url q) = None \<Longrightarrow> serve env q now fresh s = (None, s)"
  by (simp add: serve_def checkHost_def)

subsection \<open>A concrete daemon\<close>

definition demo_env :: "unit api_env" where
  "demo_env =
     \<lparr>ap_port = 4173, ap_origin = ''o'', ap_token = ''secret'', ap_fingerprint = None,
      ap_url = (\<lambda>u. if u = ''/events?ticket=t'' then Some (''/events'', \<lambda>k. if k = ''ticket'' then Some ''t'' else None)
                    else Some (u, \<lambda>_. None)),
      ap_parse = (\<lambda>_. Some (JObj [(''ticket'', JStr ''t''), (''config'', JObj
         [(''command'', JStr ''x''), (''algo'', JStr ''ed25519''), (''publicKeyDerBase64'', JStr ''AAAA'')])])),
      ap_readable = (\<lambda>_. True), ap_version = JStr ''1'', ap_challenge = JStr,
      ap_webhook = (\<lambda>_ r. (None, r)), ap_other = (\<lambda>_ _ _ x. (Some (200, No_body), x))\<rparr>"

definition demo_state :: "unit api_state" where
  "demo_state = \<lparr>pairingNonces = [], streamTickets = [], exportTickets = [], signerConfigTickets = [], signer_file = Missing, rest = ()\<rparr>"

definition demo_call :: "string \<Rightarrow> string \<Rightarrow> string option \<Rightarrow> http_request" where
  "demo_call method url auth =
     \<lparr>rq_method = method, rq_url = url, rq_host = Some (''127.0.0.1:'' @ show_nat 4173), rq_origin = Some ''o'', rq_fetch_site = None,
      rq_authorization = auth, rq_body = Some ''{}''\<rparr>"

lemma demo_sel [simp]:
  "ap_port demo_env = 4173" "ap_origin demo_env = ''o''" "ap_token demo_env = ''secret''"
  "ap_url demo_env u = (if u = ''/events?ticket=t'' then Some (''/events'', \<lambda>k. if k = ''ticket'' then Some ''t'' else None)
     else Some (u, \<lambda>_. None))"
  "rq_method (demo_call m u a) = m" "rq_url (demo_call m u a) = u" "rq_host (demo_call m u a) = Some (''127.0.0.1:'' @ show_nat 4173)"
  "rq_origin (demo_call m u a) = Some ''o''" "rq_authorization (demo_call m u a) = a" "rq_body (demo_call m u a) = Some ''{}''"
  by (simp_all add: demo_env_def demo_call_def)

lemma demo_gated:
  "gated demo_env (demo_call ''POST'' ''/events/ticket'' a) ''/events/ticket''"
  "gated demo_env (demo_call ''POST'' ''/signer/config'' a) ''/signer/config''"
  "gated demo_env (demo_call ''POST'' ''/signer/config/ticket'' a) ''/signer/config/ticket''"
  "gated demo_env (demo_call ''GET'' ''/events?ticket=t'' a) ''/events''"
  by (simp_all add: gated_def no_route_is_static checkHost_def checkOrigin_def DETECTION_PATHS_def INBOUND_WEBHOOK_PATH_def)

lemma demo_bearer: "bearer demo_env (demo_call m p (Some ''Bearer secret''))"
  by (simp add: bearer_def presented_def starts_with_def)

definition demo_stream_calls :: "call list" where
  "demo_stream_calls = [(demo_call ''POST'' ''/events/ticket'' (Some ''Bearer secret''), 1, ''t'')]"

definition demo_signer_calls :: "call list" where
  "demo_signer_calls = [(demo_call ''POST'' ''/signer/config/ticket'' (Some ''Bearer secret''), 1, ''t'')]"

lemma effects_need_the_bearer_token_witness:
  "let s = fold (call_step demo_env) demo_stream_calls demo_state;
       q = demo_call ''GET'' ''/events?ticket=t'' None; (resp, s') = serve demo_env q 9 '''' s
   in (\<exists>r p. resp = Some r \<and> rs_authenticated r \<and> gated demo_env q p
            \<and> (bearer demo_env q \<or> (p = ''/events'' \<and> rq_method q = ''GET''
                 \<and> (\<exists>t. event_ticket demo_env q = Some t \<and> earned_stream demo_env demo_stream_calls 9 t))))
       \<or> (\<forall>r. resp = Some r \<longrightarrow> \<not> rs_authenticated r) \<and> (\<exists>x. s' = s\<lparr>streamTickets := x\<rparr> \<and> set x \<subseteq> set (streamTickets s))"
proof -
  have "streamTickets demo_state = []" by (simp add: demo_state_def)
  moreover have "ap_url demo_env (rq_url (demo_call ''GET'' ''/events?ticket=t'' None)) \<noteq> Some (INBOUND_WEBHOOK_PATH, query)" for query
    by (simp add: INBOUND_WEBHOOK_PATH_def)
  ultimately show ?thesis
    unfolding Let_def case_prod_unfold by (rule effects_need_the_bearer_token [OF _ prod.collapse [symmetric]])
qed

lemma demo_parse: "ap_parse demo_env x = Some (JObj [(''ticket'', JStr ''t''), (''config'', JObj
     [(''command'', JStr ''x''), (''algo'', JStr ''ed25519''), (''publicKeyDerBase64'', JStr ''AAAA'')])])"
  by (simp add: demo_env_def)

lemma demo_signer_written:
  "signer_file (snd (serve demo_env (demo_call ''POST'' ''/signer/config'' (Some ''Bearer secret'')) 5 ''''
     (fold (call_step demo_env) demo_signer_calls demo_state))) \<noteq> Missing"
proof -
  have "validateSignerConfig (Some (JObj [(''command'', JStr ''x''), (''algo'', JStr ''ed25519''), (''publicKeyDerBase64'', JStr ''AAAA'')]))
      = Inr (JObj [(''command'', JStr ''x''), (''args'', JArr []), (''env'', JObj []), (''algo'', JStr ''ed25519''),
               (''publicKeyDerBase64'', JStr ''AAAA''), (''timeoutMs'', JNum 10000), (''maxOutputBytes'', JNum 8192)])"
    by code_simp
  moreover have "toISOString 5 = Some ''1970-01-01T00:00:00.005Z''" by code_simp
  ultimately show ?thesis
    using bearer_holder_writes_signer [OF demo_gated(3) _ demo_bearer demo_gated(2) _ demo_bearer]
    by (simp add: demo_signer_calls_def readJsonBody_def demo_parse SIGNER_CONFIG_TICKET_TTL_MS_def)
qed

lemma signer_changes_by_ticket_witness:
  "bearer demo_env (demo_call ''POST'' ''/signer/config'' (Some ''Bearer secret''))
     \<and> (\<exists>t. signer_ticket demo_env (demo_call ''POST'' ''/signer/config'' (Some ''Bearer secret'')) = Some t
          \<and> earned_signer demo_env demo_signer_calls 5 t)"
proof -
  have "signerConfigTickets demo_state = []" by (simp add: demo_state_def)
  moreover have "signer_file (fold (call_step demo_env) demo_signer_calls demo_state) = Missing"
    by (simp add: demo_signer_calls_def demo_state_def serve_state [OF demo_gated(3)] credentials_elsewhere [OF demo_gated(3)]
        demo_bearer post_routes run_handler_def handleSignerConfigTicket_def Let_def case_prod_unfold)
  ultimately show ?thesis using signer_changes_by_ticket demo_signer_written by metis
qed

lemma foreign_origin_reads_detection_only_witness:
  "let q = (demo_call ''GET'' ''/version'' None)\<lparr>rq_origin := Some DETECTION_ORIGIN\<rparr>
   in \<not> rs_authenticated (the (fst (serve demo_env q 5 '''' demo_state))) \<and> snd (serve demo_env q 5 '''' demo_state) = demo_state"
proof -
  let ?q = "(demo_call ''GET'' ''/version'' None)\<lparr>rq_origin := Some DETECTION_ORIGIN\<rparr>"
  have "serveStatic demo_env ?q ''/version'' = None" by (rule serveStatic_other) simp_all
  then obtain r where r: "serve demo_env ?q 5 '''' demo_state = (Some r, demo_state)" "rs_allow_origin r = Some DETECTION_ORIGIN"
    by (simp add: serve_def checkHost_def DETECTION_PATHS_def handleDetectionRoute_def checkDetectionOrigin_def
        demo_env_def demo_call_def echoed_origin_def DETECTION_ORIGIN_def Let_def)
  then show ?thesis
    using foreign_origin_reads_detection_only [OF r] by (simp add: DETECTION_ORIGIN_def demo_env_def)
qed

end
