(* ===== verification/Key_Lifecycle.thy ===== *)
theory Key_Lifecycle
  imports Envelope Signer
begin

text \<open>
  \<^verbatim>\<open>hub/key-lifecycle.mjs\<close> and its mirror in the browser, \<^verbatim>\<open>ui/lib/verify-key-lineage.mjs\<close>: pre-rotated signing keys. An
  identity is a chain of signed events, each committing to the digest of the next key. The payload and the signatures of an
  envelope are held as bytes. \<open>Buffer.from(v, 'base64')\<close> is \<open>base64_decode\<close> on strings; on other values, and as an
  exception (\<open>None\<close>), it belongs to the environment, as do SHA-256 and the signature primitives.

  The walk along the chain is a loop without a bound in the code. Its termination is proved by the number of
  rotations whose sequence number lies ahead.
\<close>

subsection \<open>Events\<close>

record key_signature =
  ks_label :: string
  ks_sig :: string

record key_envelope =
  ke_payloadType :: string
  ke_payload :: string
  ke_signatures :: "key_signature list"

record lineage_env =
  le_sha :: "string \<Rightarrow> string"
  le_bytes :: "json \<Rightarrow> string option"
  le_verify :: "string \<Rightarrow> string \<Rightarrow> string \<Rightarrow> bool"

record key_pair =
  kp_public :: string
  kp_private :: string

definition KEY_EVENT_PAYLOAD_TYPE :: string where
  "KEY_EVENT_PAYLOAD_TYPE = ''application/vnd.helm.key-event+json''"

definition key_bytes :: "lineage_env \<Rightarrow> json option \<Rightarrow> string option" where
  "key_bytes env v =
     (case v of
        None \<Rightarrow> None
      | Some (JStr s) \<Rightarrow> Some (map char_of (base64_decode s))
      | Some x \<Rightarrow> le_bytes env x)"

definition spkiB64 :: "string \<Rightarrow> string" where
  "spkiB64 publicKey = base64 (map of_char publicKey)"

definition commitmentOfDer :: "lineage_env \<Rightarrow> string \<Rightarrow> string" where
  "commitmentOfDer env der = ''sha256:'' @ le_sha env der"

definition commitmentOf :: "lineage_env \<Rightarrow> string \<Rightarrow> string" where
  "commitmentOf env publicKey = commitmentOfDer env publicKey"

definition commitmentOfB64 :: "lineage_env \<Rightarrow> json option \<Rightarrow> string option" where
  "commitmentOfB64 env v = map_option (commitmentOfDer env) (key_bytes env v)"

definition envelopeEvent ::
  "(string \<Rightarrow> string \<Rightarrow> string) \<Rightarrow> json \<Rightarrow> (string \<times> string) list \<Rightarrow> ijson_error + key_envelope" where
  \<comment> \<open>the signers are pairs of label and private key\<close>
  "envelopeEvent sign event signers =
     and_then (assertIJson event) (\<lambda>_.
       let payloadBytes = recordCanonV1 event;
           toSign = pae KEY_EVENT_PAYLOAD_TYPE payloadBytes
       in Inr \<lparr>ke_payloadType = KEY_EVENT_PAYLOAD_TYPE, ke_payload = payloadBytes,
               ke_signatures = map (\<lambda>(label, k). \<lparr>ks_label = label, ks_sig = sign k toSign\<rparr>) signers\<rparr>)"

definition decodeEvent :: "key_envelope \<Rightarrow> json option" where
  "decodeEvent envelope = JSON_parse (ke_payload envelope)"

definition eventDigest :: "lineage_env \<Rightarrow> key_envelope \<Rightarrow> string" where
  "eventDigest env envelope = ''sha256:'' @ le_sha env (ke_payload envelope)"

definition verifySignatureByLabel :: "lineage_env \<Rightarrow> key_envelope \<Rightarrow> string \<Rightarrow> json option \<Rightarrow> bool" where
  "verifySignatureByLabel env envelope label publicKeyB64 =
     (case find (\<lambda>s. ks_label s = label) (ke_signatures envelope) of
        None \<Rightarrow> False
      | Some entry \<Rightarrow>
          (case key_bytes env publicKeyB64 of
             None \<Rightarrow> False
           | Some key \<Rightarrow> le_verify env key (pae (ke_payloadType envelope) (ke_payload envelope)) (ks_sig entry)))"

definition buildInceptionEvent ::
  "lineage_env \<Rightarrow> (string \<Rightarrow> string \<Rightarrow> string) \<Rightarrow> string \<Rightarrow> key_pair \<Rightarrow> string \<Rightarrow> string \<Rightarrow> ijson_error + key_envelope" where
  "buildInceptionEvent env sign identityId currentKeys nextPublicKey createdAt =
     envelopeEvent sign
       (JObj [(''key_event'', JStr ''inception''), (''identity_id'', JStr identityId), (''identity_seq'', JNum 0),
              (''public_key'', JStr (spkiB64 (kp_public currentKeys))),
              (''next_key_commitment'', JStr (commitmentOf env nextPublicKey)), (''created_at'', JStr createdAt)])
       [(''self'', kp_private currentKeys)]"

definition buildRotationEvent ::
  "lineage_env \<Rightarrow> (string \<Rightarrow> string \<Rightarrow> string) \<Rightarrow> string \<Rightarrow> int \<Rightarrow> key_envelope \<Rightarrow> key_pair \<Rightarrow> string \<Rightarrow> string option \<Rightarrow> string
     \<Rightarrow> ijson_error + key_envelope" where
  "buildRotationEvent env sign identityId identitySeq priorEnvelope revealedKeys nextPublicKey outgoing createdAt =
     envelopeEvent sign
       (JObj [(''key_event'', JStr ''rotation''), (''identity_id'', JStr identityId), (''identity_seq'', JNum identitySeq),
              (''prev_event_digest'', JStr (eventDigest env priorEnvelope)),
              (''revealed_public_key'', JStr (spkiB64 (kp_public revealedKeys))),
              (''next_key_commitment'', JStr (commitmentOf env nextPublicKey)), (''created_at'', JStr createdAt)])
       ((''revealed'', kp_private revealedKeys) # (case outgoing of None \<Rightarrow> [] | Some k \<Rightarrow> [(''outgoing'', k)]))"

subsection \<open>Walking the chain\<close>

record rotation =
  ro_envelope :: key_envelope
  ro_event :: json
  ro_digest :: string

record trail_entry =
  te_kind :: string
  te_seq :: int
  te_digest :: string
  te_key :: "json option"

record key_head =
  kh_digest :: string
  kh_commitment :: "json option"
  kh_seq :: int
  kh_key :: "json option"
  kh_trail :: "trail_entry list"

datatype lineage_fault =
    Empty_chain | Undecodable_inception | Not_inception | Inception_signature_invalid | Wrong_payload_type
  | Undecodable_rotation
  | Sequence_gap int "json option" "trail_entry list"
  | Commitment_mismatch "trail_entry list"
  | Revealed_signature_invalid "trail_entry list"

datatype lineage =
    Continuous key_head
  | Fork_detected string "string list" key_head
  | Invalid_lineage lineage_fault

datatype lifecycle_error = Lifecycle_type_error | Not_a_rotation | Stale_rotation | Not_next | Not_committed | Not_signed

text \<open>\<open>new Map(rotations.map((r) => [r.digest, r])).values()\<close>: one entry for each digest, the last one under it.\<close>

definition rotationsByDigest :: "rotation list \<Rightarrow> rotation list" where
  "rotationsByDigest rs = map snd (fold (\<lambda>r. tbl_upsert (ro_digest r) r) rs [])"

definition candidates :: "rotation list \<Rightarrow> string \<Rightarrow> rotation list" where
  \<comment> \<open>\<open>byPrevDigest.get(headDigest) ?? []\<close>\<close>
  "candidates rs digest = filter (\<lambda>r. jget (ro_event r) ''prev_event_digest'' = Some (JStr digest)) rs"

definition advance :: "key_head \<Rightarrow> rotation \<Rightarrow> key_head" where
  "advance head r =
     (let key = jget (ro_event r) ''revealed_public_key''; seq = kh_seq head + 1
      in \<lparr>kh_digest = ro_digest r, kh_commitment = jget (ro_event r) ''next_key_commitment'', kh_seq = seq, kh_key = key,
          kh_trail = kh_trail head @ [\<lparr>te_kind = ''rotation'', te_seq = seq, te_digest = ro_digest r, te_key = key\<rparr>]\<rparr>)"

fun beyond :: "int \<Rightarrow> json option \<Rightarrow> bool" where
  "beyond n (Some (JNum k)) \<longleftrightarrow> n < k"
| "beyond n _ \<longleftrightarrow> False"

definition ahead :: "rotation list \<Rightarrow> int \<Rightarrow> nat" where
  "ahead rs n = length (filter (\<lambda>r. beyond n (jget (ro_event r) ''identity_seq'')) rs)"

lemma beyond_mono: "beyond (n + 1) v \<Longrightarrow> beyond n v"
  by (cases "(n, v)" rule: beyond.cases) simp_all

lemma ahead_decreases:
  assumes "candidates rs d = [r]" and "jget (ro_event r) ''identity_seq'' = Some (JNum (n + 1))"
  shows "ahead rs (n + 1) < ahead rs n"
proof -
  let ?P = "\<lambda>n r. beyond n (jget (ro_event r) ''identity_seq'')"
  have "r \<in> set (candidates rs d)" using assms(1) by simp
  then have "r \<in> set rs" by (simp add: candidates_def)
  moreover have "?P n r" "\<not> ?P (n + 1) r" unfolding assms(2) beyond.simps by simp_all
  ultimately have "r \<in> set (filter (?P n) rs)" "\<not> ?P (n + 1) r" by (simp_all only: set_filter mem_Collect_eq simp_thms)
  then have "length (filter (?P (n + 1)) (filter (?P n) rs)) < length (filter (?P n) rs)" 
    using length_filter_less [of r "filter (?P n) rs" "?P (n + 1)"] by blast
  moreover have "filter (?P (n + 1)) (filter (?P n) rs) = filter (?P (n + 1)) rs"
    unfolding filter_filter
  proof (rule filter_cong [OF refl])
    show "(?P n x \<and> ?P (n + 1) x) = ?P (n + 1) x" for x using beyond_mono by metis
  qed
  ultimately show ?thesis by (simp add: ahead_def)
qed

function walk :: "lineage_env \<Rightarrow> rotation list \<Rightarrow> key_head \<Rightarrow> lifecycle_error + lineage" where
  "walk env rs head =
     (case candidates rs (kh_digest head) of
        [] \<Rightarrow> Inr (Continuous head)
      | [r] \<Rightarrow>
          if jget (ro_event r) ''identity_seq'' \<noteq> Some (JNum (kh_seq head + 1))
          then Inr (Invalid_lineage (Sequence_gap (kh_seq head + 1) (jget (ro_event r) ''identity_seq'') (kh_trail head)))
          else (case commitmentOfB64 env (jget (ro_event r) ''revealed_public_key'') of
             None \<Rightarrow> Inl Lifecycle_type_error
           | Some c \<Rightarrow>
               if kh_commitment head \<noteq> Some (JStr c) then Inr (Invalid_lineage (Commitment_mismatch (kh_trail head)))
               else if \<not> verifySignatureByLabel env (ro_envelope r) ''revealed'' (jget (ro_event r) ''revealed_public_key'')
               then Inr (Invalid_lineage (Revealed_signature_invalid (kh_trail head)))
               else walk env rs (advance head r))
      | cs \<Rightarrow> Inr (Fork_detected (kh_digest head) (map ro_digest cs) head))"
  by pat_completeness auto
termination
  by (relation "measure (\<lambda>(env, rs, head). ahead rs (kh_seq head))") (auto simp: advance_def Let_def ahead_decreases)

declare walk.simps [simp del]

fun decode_rotations :: "lineage_env \<Rightarrow> key_envelope list \<Rightarrow> rotation list option" where
  \<comment> \<open>\<open>None\<close>: some event does not decode or is \<open>null\<close>\<close>
  "decode_rotations env [] = Some []"
| "decode_rotations env (e # es) =
     (case decodeEvent e of
        None \<Rightarrow> None
      | Some event \<Rightarrow>
          if event = JNull then None
          else map_option (\<lambda>rs. \<lparr>ro_envelope = e, ro_event = event, ro_digest = eventDigest env e\<rparr> # rs) (decode_rotations env es))"

definition inception_head :: "lineage_env \<Rightarrow> key_envelope \<Rightarrow> json \<Rightarrow> key_head" where
  "inception_head env e event =
     (let d = eventDigest env e; key = jget event ''public_key''
      in \<lparr>kh_digest = d, kh_commitment = jget event ''next_key_commitment'', kh_seq = 0, kh_key = key,
          kh_trail = [\<lparr>te_kind = ''inception'', te_seq = 0, te_digest = d, te_key = key\<rparr>]\<rparr>)"

definition verifyKeyLineage :: "lineage_env \<Rightarrow> key_envelope list \<Rightarrow> lifecycle_error + lineage" where
  "verifyKeyLineage env envelopes =
     (case envelopes of
        [] \<Rightarrow> Inr (Invalid_lineage Empty_chain)
      | e # es \<Rightarrow>
          (case decodeEvent e of
             None \<Rightarrow> Inr (Invalid_lineage Undecodable_inception)
           | Some event \<Rightarrow>
               if event = JNull then Inl Lifecycle_type_error
               else if jget event ''key_event'' \<noteq> Some (JStr ''inception'') \<or> jget event ''identity_seq'' \<noteq> Some (JNum 0)
               then Inr (Invalid_lineage Not_inception)
               else if \<not> verifySignatureByLabel env e ''self'' (jget event ''public_key'')
               then Inr (Invalid_lineage Inception_signature_invalid)
               else (case decode_rotations env es of
                  None \<Rightarrow> Inr (Invalid_lineage Undecodable_rotation)
                | Some rs \<Rightarrow> walk env (rotationsByDigest rs) (inception_head env e event))))"

definition assertRotationAppendable :: "lineage_env \<Rightarrow> key_head \<Rightarrow> key_envelope \<Rightarrow> lifecycle_error + unit" where
  "assertRotationAppendable env head candidate =
     (case decodeEvent candidate of
        None \<Rightarrow> Inl Lifecycle_type_error
      | Some event \<Rightarrow>
          if event = JNull then Inl Lifecycle_type_error
          else if jget event ''key_event'' \<noteq> Some (JStr ''rotation'') then Inl Not_a_rotation
          else if jget event ''prev_event_digest'' \<noteq> Some (JStr (kh_digest head)) then Inl Stale_rotation
          else if jget event ''identity_seq'' \<noteq> Some (JNum (kh_seq head + 1)) then Inl Not_next
          else (case commitmentOfB64 env (jget event ''revealed_public_key'') of
             None \<Rightarrow> Inl Lifecycle_type_error
           | Some c \<Rightarrow>
               if kh_commitment head \<noteq> Some (JStr c) then Inl Not_committed
               else if \<not> verifySignatureByLabel env candidate ''revealed'' (jget event ''revealed_public_key'') then Inl Not_signed
               else Inr ()))"

text \<open>The verifier of the browser: it checks the type of the first payload, and a rotation that is \<open>null\<close> throws.\<close>

fun decode_rotations_ui :: "lineage_env \<Rightarrow> key_envelope list \<Rightarrow> rotation list option" where
  "decode_rotations_ui env [] = Some []"
| "decode_rotations_ui env (e # es) =
     (case decodeEvent e of
        None \<Rightarrow> None
      | Some event \<Rightarrow> map_option (\<lambda>rs. \<lparr>ro_envelope = e, ro_event = event, ro_digest = eventDigest env e\<rparr> # rs) (decode_rotations_ui env es))"

definition verifyKeyLineage_ui :: "lineage_env \<Rightarrow> key_envelope list \<Rightarrow> lifecycle_error + lineage" where
  "verifyKeyLineage_ui env envelopes =
     (case envelopes of
        [] \<Rightarrow> Inr (Invalid_lineage Empty_chain)
      | e # es \<Rightarrow>
          if ke_payloadType e \<noteq> KEY_EVENT_PAYLOAD_TYPE then Inr (Invalid_lineage Wrong_payload_type)
          else (case decodeEvent e of
             None \<Rightarrow> Inr (Invalid_lineage Undecodable_inception)
           | Some event \<Rightarrow>
               if event = JNull then Inl Lifecycle_type_error
               else if jget event ''key_event'' \<noteq> Some (JStr ''inception'') \<or> jget event ''identity_seq'' \<noteq> Some (JNum 0)
               then Inr (Invalid_lineage Not_inception)
               else if \<not> verifySignatureByLabel env e ''self'' (jget event ''public_key'')
               then Inr (Invalid_lineage Inception_signature_invalid)
               else (case decode_rotations_ui env es of
                  None \<Rightarrow> Inr (Invalid_lineage Undecodable_rotation)
                | Some rs \<Rightarrow>
                    if list_ex (\<lambda>r. ro_event r = JNull) (rotationsByDigest rs) then Inl Lifecycle_type_error
                    else walk env (rotationsByDigest rs) (inception_head env e event))))"

subsection \<open>The chain in order\<close>

text \<open>The specification: a list of rotations in order, each checked against the head before it.\<close>

definition authentic :: "lineage_env \<Rightarrow> key_head \<Rightarrow> rotation \<Rightarrow> bool" where
  "authentic env head r \<longleftrightarrow>
     jget (ro_event r) ''prev_event_digest'' = Some (JStr (kh_digest head))
     \<and> jget (ro_event r) ''identity_seq'' = Some (JNum (kh_seq head + 1))
     \<and> (case commitmentOfB64 env (jget (ro_event r) ''revealed_public_key'') of
          None \<Rightarrow> False | Some c \<Rightarrow> kh_commitment head = Some (JStr c))
     \<and> verifySignatureByLabel env (ro_envelope r) ''revealed'' (jget (ro_event r) ''revealed_public_key'')"

fun follow :: "lineage_env \<Rightarrow> rotation list \<Rightarrow> key_head \<Rightarrow> rotation list \<Rightarrow> key_head option" where
  \<comment> \<open>\<open>pool\<close> holds all rotations: a step must be the only candidate\<close>
  "follow env pool head [] = (if candidates pool (kh_digest head) = [] then Some head else None)"
| "follow env pool head (r # rs) =
     (if candidates pool (kh_digest head) = [r] \<and> authentic env head r then follow env pool (advance head r) rs else None)"

lemma candidates_prev: "r \<in> set (candidates rs d) \<Longrightarrow> jget (ro_event r) ''prev_event_digest'' = Some (JStr d)"
  by (simp add: candidates_def)

lemma walk_none: "candidates rs (kh_digest head) = [] \<Longrightarrow> walk env rs head = Inr (Continuous head)"
  by (subst walk.simps) simp

lemma walk_one: "candidates rs (kh_digest head) = [r] \<Longrightarrow> authentic env head r \<Longrightarrow> walk env rs head = walk env rs (advance head r)"
  by (subst walk.simps) (simp add: authentic_def split: option.splits)

lemma walk_other:
  assumes "walk env rs head = Inr (Continuous head')" and "candidates rs (kh_digest head) \<noteq> []"
  obtains r where "candidates rs (kh_digest head) = [r]" "authentic env head r" "walk env rs (advance head r) = Inr (Continuous head')"
proof -
  obtain r cs where c: "candidates rs (kh_digest head) = r # cs" using assms(2) by (cases "candidates rs (kh_digest head)") auto
  have p: "jget (ro_event r) ''prev_event_digest'' = Some (JStr (kh_digest head))"
    by (rule candidates_prev [where rs = rs]) (simp add: c)
  have "cs = []" using assms(1) c by (subst (asm) walk.simps) (simp split: list.splits)
  with c p assms(1) show thesis
    by (intro that [of r]; subst (asm) walk.simps) (auto simp: authentic_def split: option.splits if_splits)
qed

lemma walk_iff_follow: "walk env rs head = Inr (Continuous head') \<longleftrightarrow> (\<exists>path. follow env rs head path = Some head')"
proof
  show "walk env rs head = Inr (Continuous head') \<Longrightarrow> \<exists>path. follow env rs head path = Some head'"
  proof (induction "ahead rs (kh_seq head)" arbitrary: head rule: less_induct)
    case less
    show ?case
    proof (cases "candidates rs (kh_digest head) = []")
      case True
      then have "follow env rs head [] = Some head'" using less.prems by (simp add: walk_none)
      then show ?thesis ..
    next
      case False
      from walk_other [OF less.prems False] obtain r where r: "candidates rs (kh_digest head) = [r]" "authentic env head r"
        "walk env rs (advance head r) = Inr (Continuous head')" .
      have "ahead rs (kh_seq (advance head r)) < ahead rs (kh_seq head)"
        using ahead_decreases [OF r(1)] r(2) by (simp add: authentic_def advance_def Let_def)
      from less.hyps [OF this r(3)] obtain path where "follow env rs (advance head r) path = Some head'" ..
      with r have "follow env rs head (r # path) = Some head'" by simp
      then show ?thesis ..
    qed
  qed
  have "follow env rs head path = Some head' \<Longrightarrow> walk env rs head = Inr (Continuous head')" for path
    by (induction path arbitrary: head) (auto simp: walk_none walk_one split: if_splits)
  then show "\<exists>path. follow env rs head path = Some head' \<Longrightarrow> walk env rs head = Inr (Continuous head')" by blast
qed

subsection \<open>Adding an event\<close>

lemma candidates_append: "candidates (rs @ [c]) d =
    candidates rs d @ (if jget (ro_event c) ''prev_event_digest'' = Some (JStr d) then [c] else [])"
  by (simp add: candidates_def)

lemma kh_advance [simp]:
  "kh_digest (advance head r) = ro_digest r" "kh_seq (advance head r) = kh_seq head + 1"
  "kh_trail (advance head r) = kh_trail head
     @ [\<lparr>te_kind = ''rotation'', te_seq = kh_seq head + 1, te_digest = ro_digest r, te_key = jget (ro_event r) ''revealed_public_key''\<rparr>]"
  by (simp_all add: advance_def Let_def)

lemma follow_end: "follow env rs head path = Some head' \<Longrightarrow> candidates rs (kh_digest head') = []"
  by (induction path arbitrary: head) (auto split: if_splits)

lemma follow_inner:
  "follow env rs head path = Some head' \<Longrightarrow> d \<in> set (butlast (kh_digest head # map ro_digest path)) \<Longrightarrow> candidates rs d \<noteq> []"
proof (induction path arbitrary: head)
  case (Cons r path)
  then have r: "candidates rs (kh_digest head) = [r]" "follow env rs (advance head r) path = Some head'"
    by (auto split: if_splits)
  show ?case
  proof (cases "d = kh_digest head")
    case False
    then have "d \<in> set (butlast (kh_digest (advance head r) # map ro_digest path))" using Cons.prems(2) by simp
    then show ?thesis by (rule Cons.IH [OF r(2)])
  qed (simp add: r)
qed simp

lemma follow_extend:
  assumes "follow env rs head path = Some head'" and "jget (ro_event c) ''prev_event_digest'' = Some (JStr (kh_digest head'))"
    and "authentic env head' c" and "candidates rs (ro_digest c) = []" and "ro_digest c \<noteq> kh_digest head'"
  shows "follow env (rs @ [c]) head (path @ [c]) = Some (advance head' c)"
  using assms(1)
proof (induction path arbitrary: head)
  case Nil
  then have "head' = head" "candidates rs (kh_digest head) = []" by (simp_all split: if_splits)
  with assms show ?case by (simp add: candidates_append)
next
  case (Cons r path)
  then have r: "candidates rs (kh_digest head) = [r]" "authentic env head r" "follow env rs (advance head r) path = Some head'"
    by (auto split: if_splits)
  have "candidates rs (kh_digest head') = []"
    by (rule follow_end [OF r(3)])
  then have "kh_digest head \<noteq> kh_digest head'" using r(1) by auto
  with r assms(2) Cons.IH [OF r(3)] show ?case by (simp add: candidates_append)
qed

lemma follow_fork:
  assumes "follow env rs head path = Some head'" and "jget (ro_event c) ''prev_event_digest'' = Some (JStr d)"
    and "d \<in> set (butlast (kh_digest head # map ro_digest path))"
  shows "\<exists>h r. walk env (rs @ [c]) head = Inr (Fork_detected d [ro_digest r, ro_digest c] h) \<and> r \<in> set path"
  using assms(1,3)
proof (induction path arbitrary: head)
  case (Cons r path)
  then have r: "candidates rs (kh_digest head) = [r]" "authentic env head r" "follow env rs (advance head r) path = Some head'"
    by (auto split: if_splits)
  show ?case
  proof (cases "kh_digest head = d")
    case True
    then have "walk env (rs @ [c]) head = Inr (Fork_detected d [ro_digest r, ro_digest c] head)"
      using r(1) assms(2) by (subst walk.simps) (simp add: candidates_append)
    then show ?thesis by auto
  next
    case False
    then have "walk env (rs @ [c]) head = walk env (rs @ [c]) (advance head r)"
      using r assms(2) by (intro walk_one) (simp_all add: candidates_append)
    moreover have "d \<in> set (butlast (kh_digest (advance head r) # map ro_digest path))" using Cons.prems(2) False by simp
    ultimately show ?thesis using Cons.IH [OF r(3)] by auto
  qed
qed simp

lemma follow_trail: "follow env rs head path = Some head' \<Longrightarrow>
    map te_digest (kh_trail head') = map te_digest (kh_trail head) @ map ro_digest path
    \<and> kh_digest head' = last (kh_digest head # map ro_digest path) \<and> kh_seq head' = kh_seq head + int (length path)"
proof (induction path arbitrary: head)
  case Nil
  then have "head' = head" by (simp split: if_splits)
  then show ?case by simp
next
  case (Cons r path)
  then have "follow env rs (advance head r) path = Some head'" by (auto split: if_splits)
  from Cons.IH [OF this] show ?case by simp
qed

subsection \<open>Rotations by digest\<close>

lemma update_new: "k \<notin> fst ` set t \<Longrightarrow> AList.update k v t = t @ [(k, v)]"
  by (induction t) auto

lemma fold_upsert_keys:
  "fst ` set (fold (\<lambda>r. tbl_upsert (ro_digest r) r) rs t) = fst ` set t \<union> ro_digest ` set rs"
  by (induction rs arbitrary: t) (auto simp: tbl_upsert_def dom_update)

lemma rotationsByDigest_snoc:
  "ro_digest c \<notin> ro_digest ` set rs \<Longrightarrow> rotationsByDigest (rs @ [c]) = rotationsByDigest rs @ [c]"
  using fold_upsert_keys [of rs "[]"] by (simp add: rotationsByDigest_def tbl_upsert_def update_new)

lemma set_rotationsByDigest: "set (rotationsByDigest rs) \<subseteq> set rs"
proof -
  have "snd ` set (fold (\<lambda>r. tbl_upsert (ro_digest r) r) rs t) \<subseteq> snd ` set t \<union> set rs" for t
  proof (induction rs arbitrary: t)
    case (Cons r rs)
    have "snd ` set (tbl_upsert (ro_digest r) r t) \<subseteq> snd ` set t \<union> {r}"
      unfolding tbl_upsert_def by (induction t) auto
    with Cons.IH [of "tbl_upsert (ro_digest r) r t"] show ?case by auto
  qed simp
  from this [of "[]"] show ?thesis by (auto simp: rotationsByDigest_def)
qed

definition rotation_of :: "lineage_env \<Rightarrow> key_envelope \<Rightarrow> json \<Rightarrow> rotation" where
  "rotation_of env e event = \<lparr>ro_envelope = e, ro_event = event, ro_digest = eventDigest env e\<rparr>"

lemma decode_rotations_snoc:
  "decode_rotations env es = Some rs \<Longrightarrow> decodeEvent e = Some event \<Longrightarrow> event \<noteq> JNull \<Longrightarrow>
     decode_rotations env (es @ [e]) = Some (rs @ [rotation_of env e event])"
  by (induction es arbitrary: rs) (auto simp: rotation_of_def split: option.splits if_splits)

lemma decode_rotations_set:
  "decode_rotations env es = Some rs \<Longrightarrow> r \<in> set rs \<Longrightarrow>
     ro_envelope r \<in> set es \<and> decodeEvent (ro_envelope r) = Some (ro_event r) \<and> ro_digest r = eventDigest env (ro_envelope r)"
  by (induction es arbitrary: rs) (auto split: option.splits if_splits)

lemma decode_rotations_digests: "decode_rotations env es = Some rs \<Longrightarrow> map ro_digest rs = map (eventDigest env) es"
  by (induction es arbitrary: rs) (auto split: option.splits if_splits)

subsection \<open>Properties\<close>

definition signed_inception :: "lineage_env \<Rightarrow> key_envelope \<Rightarrow> json \<Rightarrow> bool" where
  "signed_inception env e event \<longleftrightarrow>
     decodeEvent e = Some event \<and> event \<noteq> JNull \<and> jget event ''key_event'' = Some (JStr ''inception'')
     \<and> jget event ''identity_seq'' = Some (JNum 0) \<and> verifySignatureByLabel env e ''self'' (jget event ''public_key'')"

text \<open>C38. A lineage is reported as continuous, with a head, exactly when its first event is a self-signed
  inception, every other one decodes, and the rotations contain a chain from the inception to that head in which each event
  is the only successor of the one before, carries the next number, reveals the key that was committed to and is signed by
  it, and after which no event follows.\<close>

theorem continuous_iff_signed_chain:
  "verifyKeyLineage env (e # es) = Inr (Continuous head) \<longleftrightarrow>
     (\<exists>event rs path. signed_inception env e event \<and> decode_rotations env es = Some rs
        \<and> follow env (rotationsByDigest rs) (inception_head env e event) path = Some head)"
  unfolding verifyKeyLineage_def signed_inception_def
  by (auto simp: walk_iff_follow split: option.splits if_splits)

lemma continuous_obtain:
  assumes "verifyKeyLineage env envs = Inr (Continuous head)"
  obtains e es event rs path where "envs = e # es" "signed_inception env e event" "decode_rotations env es = Some rs"
    "follow env (rotationsByDigest rs) (inception_head env e event) path = Some head"
proof -
  obtain e es where envs: "envs = e # es" using assms by (cases envs) (auto simp: verifyKeyLineage_def)
  have "\<exists>event rs path. signed_inception env e event \<and> decode_rotations env es = Some rs
        \<and> follow env (rotationsByDigest rs) (inception_head env e event) path = Some head"
    using assms unfolding envs verifyKeyLineage_def signed_inception_def
    by (auto simp: walk_iff_follow split: option.splits if_splits)
  then show thesis using envs that by blast
qed

lemma appendable_authentic:
  assumes "assertRotationAppendable env head cand = Inr ()"
  obtains event where "decodeEvent cand = Some event" "event \<noteq> JNull" "authentic env head (rotation_of env cand event)"
  using assms by (auto simp: assertRotationAppendable_def authentic_def rotation_of_def split: option.splits if_splits)

lemma verify_snoc:
  assumes "signed_inception env e event0" and "decode_rotations env es = Some rs" and "decodeEvent cand = Some event" "event \<noteq> JNull"
    and "eventDigest env cand \<notin> eventDigest env ` set es"
  shows "verifyKeyLineage env ((e # es) @ [cand])
    = walk env (rotationsByDigest rs @ [rotation_of env cand event]) (inception_head env e event0)"
proof -
  have "ro_digest (rotation_of env cand event) \<notin> ro_digest ` set rs"
    using assms(5) arg_cong [OF decode_rotations_digests [OF assms(2)], of set] by (simp add: rotation_of_def)
  then show ?thesis
    using assms(1) decode_rotations_snoc [OF assms(2-4)]
    by (simp add: verifyKeyLineage_def signed_inception_def rotationsByDigest_snoc)
qed

lemma head_digest_known:
  assumes "follow env (rotationsByDigest rs) (inception_head env e event) path = Some head" and "decode_rotations env es = Some rs"
  shows "set (map te_digest (kh_trail head)) \<subseteq> eventDigest env ` set (e # es)" and "kh_digest head = last (map te_digest (kh_trail head))"
proof -
  have "follow env pool h p = Some h' \<Longrightarrow> set p \<subseteq> set pool" for pool h h' p
    by (induction p arbitrary: h) (auto split: if_splits simp: candidates_def dest: arg_cong [of _ _ set] filter_eq_ConsD)
  from this [OF assms(1)] have "set path \<subseteq> set rs" using set_rotationsByDigest by blast
  then have "ro_digest ` set path \<subseteq> eventDigest env ` set es"
    using decode_rotations_set [OF assms(2)] by fastforce
  with follow_trail [OF assms(1)]
  show "set (map te_digest (kh_trail head)) \<subseteq> eventDigest env ` set (e # es)" "kh_digest head = last (map te_digest (kh_trail head))"
    by (auto simp: inception_head_def Let_def)
qed

lemma extended:
  assumes "verifyKeyLineage env envs = Inr (Continuous head)" and "assertRotationAppendable env head cand = Inr ()"
    and "eventDigest env cand \<notin> eventDigest env ` set envs"
    and "\<forall>e \<in> set envs. \<forall>event. decodeEvent e = Some event \<longrightarrow> jget event ''prev_event_digest'' \<noteq> Some (JStr (eventDigest env cand))"
  shows "\<exists>event. decodeEvent cand = Some event
    \<and> verifyKeyLineage env (envs @ [cand]) = Inr (Continuous (advance head (rotation_of env cand event)))"
proof -
  from continuous_obtain [OF assms(1)] obtain e es event0 rs path where l: "envs = e # es" "signed_inception env e event0"
    "decode_rotations env es = Some rs" "follow env (rotationsByDigest rs) (inception_head env e event0) path = Some head" .
  from appendable_authentic [OF assms(2)] obtain event where c: "decodeEvent cand = Some event" "event \<noteq> JNull"
    "authentic env head (rotation_of env cand event)" .
  let ?c = "rotation_of env cand event"
  have "candidates (rotationsByDigest rs) (ro_digest ?c) = []"
  proof (rule ccontr)
    assume "candidates (rotationsByDigest rs) (ro_digest ?c) \<noteq> []"
    then obtain r where "r \<in> set rs" "jget (ro_event r) ''prev_event_digest'' = Some (JStr (eventDigest env cand))"
      using set_rotationsByDigest by (fastforce simp: candidates_def filter_empty_conv rotation_of_def)
    then show False using decode_rotations_set [OF l(3)] assms(4) l(1) by fastforce
  qed
  moreover have "ro_digest ?c \<noteq> kh_digest head"
  proof -
    have "kh_trail head \<noteq> []" using follow_trail [OF l(4)] by (auto simp: inception_head_def Let_def)
    then have "kh_digest head \<in> set (map te_digest (kh_trail head))"
      using head_digest_known(2) [OF l(4,3)] by (metis last_in_set list.map_disc_iff)
    then show ?thesis using head_digest_known(1) [OF l(4,3)] assms(3) l(1) by (auto simp: rotation_of_def)
  qed
  ultimately have "follow env (rotationsByDigest rs @ [?c]) (inception_head env e event0) (path @ [?c]) = Some (advance head ?c)"
    using follow_extend [OF l(4)] c(3) by (simp add: authentic_def)
  then have "walk env (rotationsByDigest rs @ [?c]) (inception_head env e event0) = Inr (Continuous (advance head ?c))"
    using walk_iff_follow by blast
  with verify_snoc [OF l(2,3) c(1,2)] assms(3) l(1) c(1) show ?thesis by simp
qed

text \<open>C39. What the write-time guard accepts keeps the lineage continuous: appending an accepted rotation with a new digest, which
  no event of the lineage names already, gives a continuous lineage with that rotation as its head.\<close>

theorem accepted_rotation_extends_lineage:
  assumes "verifyKeyLineage env envs = Inr (Continuous head)" and "assertRotationAppendable env head cand = Inr ()"
    and "eventDigest env cand \<notin> eventDigest env ` set envs"
    and "\<forall>e \<in> set envs. \<forall>event. decodeEvent e = Some event \<longrightarrow> jget event ''prev_event_digest'' \<noteq> Some (JStr (eventDigest env cand))"
  shows "\<exists>event. decodeEvent cand = Some event
    \<and> verifyKeyLineage env (envs @ [cand]) = Inr (Continuous (advance head (rotation_of env cand event)))"
  by (rule extended [OF assms])


text \<open>C96. The verifier of the browser and the one of the daemon return the same on every list of envelopes of the event's payload
  type in which no rotation is \<open>null\<close>.\<close>

theorem both_verifiers_agree:
  assumes "\<forall>e \<in> set envs. ke_payloadType e = KEY_EVENT_PAYLOAD_TYPE \<and> decodeEvent e \<noteq> Some JNull"
  shows "verifyKeyLineage_ui env envs = verifyKeyLineage env envs"
proof (cases envs)
  case (Cons e es)
  have "decode_rotations_ui env xs = decode_rotations env xs" if "set xs \<subseteq> set envs" for xs
    using that assms by (induction xs) (auto split: option.splits)
  then have "decode_rotations_ui env es = decode_rotations env es" using Cons by auto
  moreover have "\<not> list_ex (\<lambda>r. ro_event r = JNull) (rotationsByDigest rs)" if "decode_rotations env es = Some rs" for rs
  proof
    assume "list_ex (\<lambda>r. ro_event r = JNull) (rotationsByDigest rs)"
    then obtain r where "r \<in> set rs" "ro_event r = JNull" using set_rotationsByDigest by (auto simp: list_ex_iff)
    with decode_rotations_set [OF that] assms Cons show False by fastforce
  qed
  ultimately show ?thesis using assms Cons
    by (auto simp: verifyKeyLineage_ui_def verifyKeyLineage_def split: option.split)
qed (simp add: verifyKeyLineage_ui_def verifyKeyLineage_def)

subsection \<open>A lineage that is built verifies\<close>

lemma key_bytes_spki [simp]: "key_bytes env (Some (JStr (spkiB64 pk))) = Some pk"
proof -
  have "list_all (\<lambda>b. b < 256) (map of_char pk :: nat list)" by (simp add: list_all_iff)
  then show ?thesis by (simp add: key_bytes_def spkiB64_def base64_decode_base64 map_idI)
qed

definition signs_for :: "lineage_env \<Rightarrow> (string \<Rightarrow> string \<Rightarrow> string) \<Rightarrow> key_pair \<Rightarrow> bool" where
  \<comment> \<open>what is relied on: a signature made with a key pair verifies under its public half\<close>
  "signs_for env sign k \<longleftrightarrow> (\<forall>m. le_verify env (kp_public k) m (sign (kp_private k) m))"

lemma envelopeEvent_signed:
  assumes "envelopeEvent sign (JObj kvs) ((label, kp_private k) # others) = Inr e" and "json_wf (JObj kvs)" and "signs_for env sign k"
  shows "decodeEvent e = Some (cgCanonV1 (JObj kvs))"
    and "verifySignatureByLabel env e label (Some (JStr (spkiB64 (kp_public k))))"
proof -
  from assms(1) have e: "ke_payload e = recordCanonV1 (JObj kvs)" "ke_payloadType e = KEY_EVENT_PAYLOAD_TYPE"
    "\<exists>rest. ke_signatures e = \<lparr>ks_label = label, ks_sig = sign (kp_private k)
       (pae KEY_EVENT_PAYLOAD_TYPE (recordCanonV1 (JObj kvs)))\<rparr> # rest"
    by (auto simp: envelopeEvent_def Let_def)
  show "decodeEvent e = Some (cgCanonV1 (JObj kvs))" using e(1) assms(2) by (simp add: decodeEvent_def parse_canonical)
  show "verifySignatureByLabel env e label (Some (JStr (spkiB64 (kp_public k))))"
    using e assms(3) by (auto simp: verifySignatureByLabel_def signs_for_def)
qed

inductive managed ::
  "lineage_env \<Rightarrow> (string \<Rightarrow> string \<Rightarrow> string) \<Rightarrow> string \<Rightarrow> key_envelope list \<Rightarrow> key_pair \<Rightarrow> key_pair \<Rightarrow> nat \<Rightarrow> bool"
  for env sign identityId where
  inception: "buildInceptionEvent env sign identityId k0 (kp_public k1) t = Inr e \<Longrightarrow> signs_for env sign k0 \<Longrightarrow>
     managed env sign identityId [e] k0 k1 0"
| rotation: "managed env sign identityId envs k k1 n \<Longrightarrow>
     buildRotationEvent env sign identityId (int n + 1) (last envs) k1 (kp_public k2) outgoing t = Inr e \<Longrightarrow>
     signs_for env sign k1 \<Longrightarrow> eventDigest env e \<notin> eventDigest env ` set envs \<Longrightarrow>
     managed env sign identityId (envs @ [e]) k1 k2 (Suc n)"

lemma built_rotation_accepted:
  assumes "buildRotationEvent env sign i (n + 1) prior k1 pk outgoing t = Inr e" and "signs_for env sign k1"
    and "kh_seq head = n" and "kh_digest head = eventDigest env prior" and "kh_commitment head = Some (JStr (commitmentOf env (kp_public k1)))"
  shows "assertRotationAppendable env head e = Inr ()"
proof -
  let ?kvs = "[(''key_event'', JStr ''rotation''), (''identity_id'', JStr i), (''identity_seq'', JNum (n + 1)),
              (''prev_event_digest'', JStr (eventDigest env prior)), (''revealed_public_key'', JStr (spkiB64 (kp_public k1))),
              (''next_key_commitment'', JStr (commitmentOf env pk)), (''created_at'', JStr t)]"
  let ?ev = "cgCanonV1 (JObj ?kvs)"
  have "json_wf (JObj ?kvs)" by simp
  with envelopeEvent_signed [of sign ?kvs "''revealed''" k1 _ e env] assms(1,2)
  have e: "decodeEvent e = Some ?ev" "verifySignatureByLabel env e ''revealed'' (Some (JStr (spkiB64 (kp_public k1))))"
    by (simp_all add: buildRotationEvent_def)
  have g: "jget ?ev x = map_option cgCanonV1 (map_of ?kvs x)" if "x \<noteq> ''__proto__''" for x
    by (rule jget_canon) (use that in simp_all)
  have nn: "?ev \<noteq> JNull" by simp
  have "jget ?ev ''key_event'' = Some (JStr ''rotation'')" "jget ?ev ''identity_seq'' = Some (JNum (n + 1))"
    "jget ?ev ''prev_event_digest'' = Some (JStr (eventDigest env prior))"
    "jget ?ev ''revealed_public_key'' = Some (JStr (spkiB64 (kp_public k1)))"
    by (subst g; simp)+
  then show ?thesis using e nn assms(3-5) unfolding assertRotationAppendable_def
    by (simp del: cgCanonV1.simps add: commitmentOfB64_def commitmentOf_def)
qed

lemma managed_lineage:
  assumes "managed env sign identityId envs k k1 n"
  shows "envs \<noteq> [] \<and> (\<exists>head. verifyKeyLineage env envs = Inr (Continuous head) \<and> kh_seq head = int n
      \<and> kh_digest head = eventDigest env (last envs) \<and> kh_key head = Some (JStr (spkiB64 (kp_public k)))
      \<and> kh_commitment head = Some (JStr (commitmentOf env (kp_public k1))))
    \<and> (\<forall>e \<in> set envs. \<forall>event d. decodeEvent e = Some event \<longrightarrow> jget event ''prev_event_digest'' = Some (JStr d)
         \<longrightarrow> d \<in> eventDigest env ` set envs)"
  using assms
proof (induction rule: managed.induct)
  case (inception k0 k1 t e)
  let ?kvs = "[(''key_event'', JStr ''inception''), (''identity_id'', JStr identityId), (''identity_seq'', JNum 0),
              (''public_key'', JStr (spkiB64 (kp_public k0))),
              (''next_key_commitment'', JStr (commitmentOf env (kp_public k1))), (''created_at'', JStr t)]"
  have "json_wf (JObj ?kvs)" by simp
  with envelopeEvent_signed [of sign ?kvs "''self''" k0 "[]" e env] inception
  have e: "decodeEvent e = Some (cgCanonV1 (JObj ?kvs))"
    "verifySignatureByLabel env e ''self'' (Some (JStr (spkiB64 (kp_public k0))))"
    by (simp_all add: buildInceptionEvent_def)
  have g: "jget (cgCanonV1 (JObj ?kvs)) x = map_option cgCanonV1 (map_of ?kvs x)" if "x \<noteq> ''__proto__''" for x
    by (rule jget_canon) (use that in simp_all)
  have nn: "cgCanonV1 (JObj ?kvs) \<noteq> JNull" by simp
  let ?ev = "cgCanonV1 (JObj ?kvs)"
  have j: "jget ?ev ''key_event'' = Some (JStr ''inception'')" "jget ?ev ''identity_seq'' = Some (JNum 0)"
    "jget ?ev ''public_key'' = Some (JStr (spkiB64 (kp_public k0)))"
    "jget ?ev ''next_key_commitment'' = Some (JStr (commitmentOf env (kp_public k1)))"
    "jget ?ev ''prev_event_digest'' = None"
    by (subst g; simp)+
  have "verifyKeyLineage env [e] = Inr (Continuous (inception_head env e ?ev))"
    using e nn j unfolding verifyKeyLineage_def
    by (simp del: cgCanonV1.simps add: rotationsByDigest_def candidates_def walk_none)
  with e(1) j show ?case by (simp del: cgCanonV1.simps add: inception_head_def Let_def)
next
  case (rotation envs k k1 n k2 outgoing t e)
  then obtain head where envs: "envs \<noteq> []" and head: "verifyKeyLineage env envs = Inr (Continuous head)" "kh_seq head = int n"
    "kh_digest head = eventDigest env (last envs)" "kh_commitment head = Some (JStr (commitmentOf env (kp_public k1)))"
    and named: "\<forall>e \<in> set envs. \<forall>event d. decodeEvent e = Some event \<longrightarrow> jget event ''prev_event_digest'' = Some (JStr d)
         \<longrightarrow> d \<in> eventDigest env ` set envs" by blast
  let ?kvs = "[(''key_event'', JStr ''rotation''), (''identity_id'', JStr identityId), (''identity_seq'', JNum (int n + 1)),
              (''prev_event_digest'', JStr (eventDigest env (last envs))),
              (''revealed_public_key'', JStr (spkiB64 (kp_public k1))),
              (''next_key_commitment'', JStr (commitmentOf env (kp_public k2))), (''created_at'', JStr t)]"
  let ?ev = "cgCanonV1 (JObj ?kvs)"
  have "json_wf (JObj ?kvs)" by simp
  with envelopeEvent_signed [of sign ?kvs "''revealed''" k1 _ e env] rotation.hyps
  have e: "decodeEvent e = Some ?ev" "verifySignatureByLabel env e ''revealed'' (Some (JStr (spkiB64 (kp_public k1))))"
    by (simp_all add: buildRotationEvent_def)
  have g: "jget ?ev x = map_option cgCanonV1 (map_of ?kvs x)" if "x \<noteq> ''__proto__''" for x
    by (rule jget_canon) (use that in simp_all)
  have nn: "?ev \<noteq> JNull" by simp
  have j: "jget ?ev ''key_event'' = Some (JStr ''rotation'')" "jget ?ev ''identity_seq'' = Some (JNum (int n + 1))"
    "jget ?ev ''prev_event_digest'' = Some (JStr (eventDigest env (last envs)))"
    "jget ?ev ''revealed_public_key'' = Some (JStr (spkiB64 (kp_public k1)))"
    "jget ?ev ''next_key_commitment'' = Some (JStr (commitmentOf env (kp_public k2)))"
    by (subst g; simp)+
  have acc: "assertRotationAppendable env head e = Inr ()"
    by (rule built_rotation_accepted [OF rotation.hyps(2,3) head(2-4)])
  have "\<forall>x \<in> set envs. \<forall>event. decodeEvent x = Some event \<longrightarrow> jget event ''prev_event_digest'' \<noteq> Some (JStr (eventDigest env e))"
    using named rotation.hyps by blast
  from extended [OF head(1) acc rotation.hyps(4) this] e(1)
  have "verifyKeyLineage env (envs @ [e]) = Inr (Continuous (advance head (rotation_of env e ?ev)))" by simp
  moreover have "kh_seq (advance head (rotation_of env e ?ev)) = int (Suc n)" using head(2) by simp
  moreover have "kh_digest (advance head (rotation_of env e ?ev)) = eventDigest env e" by (simp add: rotation_of_def)
  moreover have "kh_key (advance head (rotation_of env e ?ev)) = Some (JStr (spkiB64 (kp_public k1)))"
    "kh_commitment (advance head (rotation_of env e ?ev)) = Some (JStr (commitmentOf env (kp_public k2)))"
    using j by (simp_all add: advance_def Let_def rotation_of_def)
  moreover have "\<forall>x \<in> set (envs @ [e]). \<forall>event d. decodeEvent x = Some event \<longrightarrow> jget event ''prev_event_digest'' = Some (JStr d)
         \<longrightarrow> d \<in> eventDigest env ` set (envs @ [e])"
    using named e(1) j(3) envs by auto
  ultimately show ?case by (simp del: cgCanonV1.simps)
qed

lemma event_member:
  assumes "envelopeEvent sign (JObj kvs) ((label, kp_private k) # others) = Inr e" and "json_wf (JObj kvs)" and "signs_for env sign k"
    and "x \<noteq> ''__proto__''"
  shows "\<exists>ev. decodeEvent e = Some ev \<and> jget ev x = map_option cgCanonV1 (map_of kvs x)"
  using envelopeEvent_signed(1) [OF assms(1-3)] jget_canon [of kvs x] assms(2,4) by (simp del: cgCanonV1.simps)

lemma built_decodes:
  "buildInceptionEvent env sign i k pk t = Inr e \<Longrightarrow> signs_for env sign k \<Longrightarrow>
     \<exists>ev. decodeEvent e = Some ev \<and> jget ev ''prev_event_digest'' = None"
  "buildRotationEvent env sign i n prior k pk outgoing t = Inr e \<Longrightarrow> signs_for env sign k \<Longrightarrow>
     \<exists>ev d. decodeEvent e = Some ev \<and> jget ev ''prev_event_digest'' = Some d"
  by (unfold buildInceptionEvent_def buildRotationEvent_def)
    (drule event_member [where x = "''prev_event_digest''"]; force)+

text \<open>C97. The events that the two builders produce for a sequence of key pairs, each signed with the key committed to before,
  always form a continuous lineage whose head carries the last key revealed, its number and the commitment to the next
  key, as long as no two events have the same digest.\<close>

theorem built_lineage_verifies:
  assumes "managed env sign identityId envs k k1 n"
  shows "\<exists>head. verifyKeyLineage env envs = Inr (Continuous head) \<and> kh_seq head = int n
    \<and> kh_key head = Some (JStr (spkiB64 (kp_public k))) \<and> kh_commitment head = Some (JStr (commitmentOf env (kp_public k1)))"
  using managed_lineage [OF assms] by blast

subsection \<open>Where the code differs from its comments\<close>

text \<open>The verifier is said never to throw: a first event that is \<open>null\<close>, or a rotation without a revealed key, does throw.\<close>

lemma null_inception_throws: "decodeEvent e = Some JNull \<Longrightarrow> verifyKeyLineage env (e # es) = Inl Lifecycle_type_error"
  by (simp add: verifyKeyLineage_def)

lemma missing_key_throws:
  assumes "signed_inception env e event" and "decodeEvent r = Some (JObj kvs)"
    and "map_of kvs ''prev_event_digest'' = Some (JStr (eventDigest env e))" "map_of kvs ''identity_seq'' = Some (JNum 1)"
    and "map_of kvs ''revealed_public_key'' = None"
  shows "verifyKeyLineage env [e, r] = Inl Lifecycle_type_error"
  using assms
  by (simp add: verifyKeyLineage_def signed_inception_def rotationsByDigest_def tbl_upsert_def)
    (subst walk.simps, simp add: candidates_def inception_head_def Let_def commitmentOfB64_def key_bytes_def)

text \<open>The daemon's verifier does not look at the type of a payload, the browser's does.\<close>

lemma verifiers_differ_on_payload_type:
  assumes "signed_inception env e event" and "ke_payloadType e \<noteq> KEY_EVENT_PAYLOAD_TYPE"
  shows "verifyKeyLineage env [e] = Inr (Continuous (inception_head env e event))"
    and "verifyKeyLineage_ui env [e] = Inr (Invalid_lineage Wrong_payload_type)"
  using assms
  by (simp_all add: verifyKeyLineage_def verifyKeyLineage_ui_def signed_inception_def rotationsByDigest_def walk_none candidates_def)

subsection \<open>A concrete lineage\<close>

definition demo_lineage_env :: lineage_env where
  "demo_lineage_env = \<lparr>le_sha = (\<lambda>s. s), le_bytes = (\<lambda>_. None), le_verify = (\<lambda>pk m s. s = pk @ m)\<rparr>"

definition demo_key :: "string \<Rightarrow> key_pair" where
  "demo_key k = \<lparr>kp_public = k, kp_private = k\<rparr>"

definition demo_inception :: "ijson_error + key_envelope" where
  "demo_inception = buildInceptionEvent demo_lineage_env (@) ''i'' (demo_key ''a'') ''b'' ''t''"

definition demo_rotation :: "key_envelope \<Rightarrow> ijson_error + key_envelope" where
  "demo_rotation e = buildRotationEvent demo_lineage_env (@) ''i'' 1 e (demo_key ''b'') ''c'' None ''t''"

lemma builders_total:
  "\<exists>e. buildInceptionEvent env sign i k pk t = Inr e"
  "abs n \<le> 9007199254740991 \<Longrightarrow> \<exists>e. buildRotationEvent env sign i n prior k pk outgoing t = Inr e"
  by (simp_all add: buildInceptionEvent_def buildRotationEvent_def envelopeEvent_def Let_def ijson_ok_def [symmetric] ijson_ok_iff
      MAX_DEPTH_def MAX_ELEMENTS_def del: recordCanonV1_def)

lemma demo_managed:
  obtains e r where "managed demo_lineage_env (@) ''i'' [e] (demo_key ''a'') (demo_key ''b'') 0"
    "managed demo_lineage_env (@) ''i'' [e, r] (demo_key ''b'') (demo_key ''c'') 1" "demo_inception = Inr e" "demo_rotation e = Inr r"
proof -
  have signs: "signs_for demo_lineage_env (@) (demo_key k)" for k
    by (simp add: signs_for_def demo_lineage_env_def demo_key_def)
  obtain e where e: "demo_inception = Inr e" using builders_total(1) unfolding demo_inception_def by blast
  obtain r where r: "demo_rotation e = Inr r" using builders_total(2) [of 1] unfolding demo_rotation_def by fastforce
  have e0: "buildInceptionEvent demo_lineage_env (@) ''i'' (demo_key ''a'') (kp_public (demo_key ''b'')) ''t'' = Inr e"
    using e by (simp add: demo_inception_def demo_key_def)
  have m0: "managed demo_lineage_env (@) ''i'' [e] (demo_key ''a'') (demo_key ''b'') 0"
    by (rule managed.inception [OF e0 signs])
  have "eventDigest demo_lineage_env r \<noteq> eventDigest demo_lineage_env e"
  proof
    assume "eventDigest demo_lineage_env r = eventDigest demo_lineage_env e"
    then have "decodeEvent r = decodeEvent e" by (simp add: eventDigest_def demo_lineage_env_def decodeEvent_def)
    moreover have "\<exists>ev. decodeEvent e = Some ev \<and> jget ev ''prev_event_digest'' = None"
      using built_decodes(1) [OF e0 signs] .
    moreover have "\<exists>ev d. decodeEvent r = Some ev \<and> jget ev ''prev_event_digest'' = Some d"
      using built_decodes(2) [OF _ signs] r unfolding demo_rotation_def by blast
    ultimately show False by auto
  qed
  then have "managed demo_lineage_env (@) ''i'' ([e] @ [r]) (demo_key ''b'') (demo_key ''c'') (Suc 0)"
    using r by (intro managed.rotation [OF m0 _ signs]) (simp_all add: demo_rotation_def demo_key_def)
  then show thesis using m0 e r that by simp
qed

lemma demo_signs: "signs_for demo_lineage_env (@) (demo_key k)"
  by (simp add: signs_for_def demo_lineage_env_def demo_key_def)

lemma demo_digest_iff: "eventDigest demo_lineage_env x = eventDigest demo_lineage_env y \<longleftrightarrow> ke_payload x = ke_payload y"
  by (simp add: eventDigest_def demo_lineage_env_def)

lemma built_lineage_verifies_witness:
  "\<exists>e r head. demo_inception = Inr e \<and> demo_rotation e = Inr r
     \<and> verifyKeyLineage demo_lineage_env [e, r] = Inr (Continuous head) \<and> kh_seq head = 1"
proof -
  from demo_managed obtain e r where "managed demo_lineage_env (@) ''i'' [e, r] (demo_key ''b'') (demo_key ''c'') 1"
    "demo_inception = Inr e" "demo_rotation e = Inr r" by blast
  with built_lineage_verifies [OF this(1)] show ?thesis by auto
qed

lemma accepted_rotation_extends_lineage_witness:
  "\<exists>e r event head. demo_inception = Inr e \<and> demo_rotation e = Inr r \<and> verifyKeyLineage demo_lineage_env [e] = Inr (Continuous head)
     \<and> verifyKeyLineage demo_lineage_env [e, r] = Inr (Continuous (advance head (rotation_of demo_lineage_env r event)))"
proof -
  from demo_managed obtain e r where m: "managed demo_lineage_env (@) ''i'' [e] (demo_key ''a'') (demo_key ''b'') 0"
    "managed demo_lineage_env (@) ''i'' [e, r] (demo_key ''b'') (demo_key ''c'') 1" "demo_inception = Inr e" "demo_rotation e = Inr r" by blast
  from managed_lineage [OF m(1)] obtain head where h: "verifyKeyLineage demo_lineage_env [e] = Inr (Continuous head)"
    "kh_seq head = 0" "kh_digest head = eventDigest demo_lineage_env e"
    "kh_commitment head = Some (JStr (commitmentOf demo_lineage_env (kp_public (demo_key ''b''))))" by auto
  have acc: "assertRotationAppendable demo_lineage_env head r = Inr ()"
    using m(4) built_rotation_accepted [OF _ demo_signs h(2-4)] unfolding demo_rotation_def by fastforce
  have d: "\<exists>ev. decodeEvent e = Some ev \<and> jget ev ''prev_event_digest'' = None"
    "\<exists>ev d. decodeEvent r = Some ev \<and> jget ev ''prev_event_digest'' = Some d"
    using m(3,4) built_decodes [OF _ demo_signs] unfolding demo_inception_def demo_rotation_def by blast+
  then have "ke_payload r \<noteq> ke_payload e" by (auto simp: decodeEvent_def)
  then have "eventDigest demo_lineage_env r \<notin> eventDigest demo_lineage_env ` set [e]" by (simp add: demo_digest_iff)
  from accepted_rotation_extends_lineage [OF h(1) acc this] d(1)
  have "\<exists>event. verifyKeyLineage demo_lineage_env [e, r] = Inr (Continuous (advance head (rotation_of demo_lineage_env r event)))"
    by auto
  then show ?thesis using h(1) m(3,4) by blast
qed


end
