(* ===== verification/Spec2Isabelle.thy ===== *)
theory Spec2Isabelle
  imports Pairing_Tokens Checkpoint Inbound_Route Watch_Scheduler Anchoring Api_Gate Key_Lifecycle
begin

text \<open>
  A model of the Helm daemon: the JavaScript modules under \<^verbatim>\<open>hub/\<close>, the vendored modules that decide
  something for them (\<^verbatim>\<open>hub/vendored/ocg/kernels/_hash.mjs\<close>, \<^verbatim>\<open>_hagate.mjs\<close>, \<^verbatim>\<open>_anchor-testutil.mjs\<close>) and the schema
  validator \<^verbatim>\<open>scripts/lib/schema-validator.mjs\<close>.

  \<^bold>\<open>What the program does.\<close> A run takes a workflow manifest, plans its steps in an order that respects
  the manifest's edges, executes them one by one and records every transition and every step result in a
  hash-chained journal. A step may need a human approval first; the human-accountability gate decides
  that from signed records. Steps that reach the outside go through connectors, and every connector goes
  through one egress boundary with a credential provider and a vault behind it. Checkpoints sign the heads of
  the journal's streams and are anchored with a time-stamping relay; at boot the last checkpoint
  lets the journal be verified from there on. Runs are started over the API, by agents, by a polling
  scheduler, and resumed by an inbound webhook.

  \<^bold>\<open>The theories, from the ground up.\<close>

  \<^item> \<^verbatim>\<open>Helm_Prelude\<close>: thrown errors as values, SQL tables as association lists behind the locale
    \<open>keyed_table\<close>, string functions of the language.
  \<^item> \<^verbatim>\<open>Json_Canon\<close> (\<^verbatim>\<open>record-canon-v1.mjs\<close>, the guard of \<^verbatim>\<open>_hash.mjs\<close>, \<open>jcsDigestHex\<close>): JSON values,
    the frozen canonical form. \<^verbatim>\<open>Json_Parse\<close>: \<open>JSON.parse\<close>. \<^verbatim>\<open>Js_Values\<close>, \<^verbatim>\<open>Js_Date\<close>: conversions, member
    access, iteration and the ISO dates of the language. Canonical bytes determine the content and are
    parsed back to it; a printed date is parsed back to its time value.
  \<^item> \<^verbatim>\<open>Pairing_Tokens\<close> (\<^verbatim>\<open>token.mjs\<close>): the bearer token and four kinds of single-use tickets, one locale
    \<open>ticket_store\<close> interpreted for each; a ticket redeems exactly when a trace specification says so.
  \<^item> \<^verbatim>\<open>Envelope\<close> (\<^verbatim>\<open>envelope.mjs\<close>), \<^verbatim>\<open>Journal\<close> (\<^verbatim>\<open>journal.mjs\<close>), \<^verbatim>\<open>Checkpoint\<close> (\<^verbatim>\<open>checkpoint.mjs\<close> and the boot
    path of \<^verbatim>\<open>index.mjs\<close>): dual-signed statements, the append-only chain, its replay, and the verification
    that starts from a checkpoint.
  \<^item> \<^verbatim>\<open>Run_Plan\<close> and \<^verbatim>\<open>Run_Engine\<close> (\<^verbatim>\<open>run.mjs\<close>): planning (bindings, \<open>orderStepsByEdges\<close>), the lifecycle, the
    memo table, \<open>executeRun\<close> and \<open>replayExecutionHash\<close>. The order is a stable topological sort; a run
    follows the lifecycle; a completed run replays to the hash it recorded; a resumed one repeats nothing.
  \<^item> \<^verbatim>\<open>Ha_Gate_Eval\<close> (\<^verbatim>\<open>_hagate.mjs\<close>), \<^verbatim>\<open>Schema_Validator\<close> (\<^verbatim>\<open>schema-validator.mjs\<close>), \<^verbatim>\<open>Ha_Store\<close>
    (\<^verbatim>\<open>ha-store.mjs\<close>), \<^verbatim>\<open>Ha_Gate\<close> (\<^verbatim>\<open>ha-gate.mjs\<close>): the evaluator of policies, the store of records and countersignature
    slots, and the gate callback of the engine with its submissions and rechecks. A satisfied gate rests on
    enough distinct approvers; a checker is never the maker; evidence is signed; histories only grow.
  \<^item> \<^verbatim>\<open>Kernel_Runner\<close> (\<^verbatim>\<open>kernel-runner.mjs\<close>, \<^verbatim>\<open>attested-artifact-runner.mjs\<close>): the step runner, and what its
    labels promise.
  \<^item> \<^verbatim>\<open>Ip_Guard\<close> and \<^verbatim>\<open>Egress\<close> (\<^verbatim>\<open>connector.mjs\<close>), \<^verbatim>\<open>Vault\<close> (\<^verbatim>\<open>vault.mjs\<close>), \<^verbatim>\<open>Credentials\<close>
    (\<^verbatim>\<open>credential-provider.mjs\<close>), \<^verbatim>\<open>Connectors\<close> (\<^verbatim>\<open>connectors/http-send.mjs\<close>, \<^verbatim>\<open>google-drive-fetch.mjs\<close>,
    \<^verbatim>\<open>inbound-webhook.mjs\<close>), \<^verbatim>\<open>Smtp\<close> (\<^verbatim>\<open>smtp-send.mjs\<close>), \<^verbatim>\<open>Dispatch\<close> (\<^verbatim>\<open>dispatch.mjs\<close>): the boundary to the network. A
    connection goes only to an address the guard vetted, whatever later lookups say; a mail cannot
    end its own transmission; what the dispatcher can and cannot reach.
  \<^item> \<^verbatim>\<open>Webhook_Guard\<close> (\<^verbatim>\<open>webhook-signing.mjs\<close>, \<^verbatim>\<open>webhook-guard.mjs\<close>), \<^verbatim>\<open>Inbound_Route\<close> (\<open>handleInboundWebhook\<close> of
    \<^verbatim>\<open>server.mjs\<close>): authenticity, freshness, single use and idempotency of deliveries, and the only ways by
    which one of them reaches the engine.
  \<^item> \<^verbatim>\<open>Event_Bus\<close> (\<^verbatim>\<open>event-bus.mjs\<close>), \<^verbatim>\<open>Packs\<close> (\<^verbatim>\<open>packs.mjs\<close>, \<^verbatim>\<open>templates.mjs\<close>), \<^verbatim>\<open>Run_Actions\<close> (\<^verbatim>\<open>run-actions.mjs\<close>),
    \<^verbatim>\<open>Watch_Scheduler\<close> (\<^verbatim>\<open>watch-scheduler.mjs\<close>): how runs start. The locale \<open>run_frame\<close> states what a
    start leaves alone, and is interpreted on the engine's environment for unattended runs.
  \<^item> \<^verbatim>\<open>Anchoring\<close> (\<^verbatim>\<open>anchor-client.mjs\<close>, \<^verbatim>\<open>anchor-queue.mjs\<close>): time stamps on checkpoints and the queue of retries.
  \<^item> \<^verbatim>\<open>Signer\<close> (\<^verbatim>\<open>signer-config.mjs\<close>, \<^verbatim>\<open>signer-exec.mjs\<close>), \<^verbatim>\<open>Api_Gate\<close> (the gate, routes and ticket handlers of
    \<^verbatim>\<open>server.mjs\<close>, \<^verbatim>\<open>static.mjs\<close>, \<^verbatim>\<open>ui-manifest.mjs\<close>): who may cause an effect. The locale \<open>earned_ticket\<close> traces a
    ticket that is held to the call that minted it, for the tickets of the event stream and those of the signer configuration.
  \<^item> \<^verbatim>\<open>Key_Lifecycle\<close> (\<^verbatim>\<open>key-lifecycle.mjs\<close>, \<^verbatim>\<open>ui/lib/verify-key-lineage.mjs\<close>): pre-rotated keys; the walk along a lineage ends, agrees
    with a specification in order, and detects forks; the write-time guard refines it.
  \<^bold>\<open>How state corresponds to the code.\<close> The database handle is one record that grows by extension: \<open>journal_db\<close>
  has the tables of \<open>openJournal\<close>, the run engine adds \<open>runs\<close> and \<open>step_results\<close>, the store of
  human accountability adds its two tables, and so on; an operation is polymorphic in the
  extension it does not know. A table is an association list in insertion order, a column of JSON text
  holds the value it denotes, and a module-level \<open>Map\<close> is a field of a state record. A file of JSON is what
  \<open>JSON.parse\<close> makes of it (\<open>state_file\<close>). An operation that may throw returns a sum with an error
  datatype of its component; where a throw leaves partial changes behind, the state is returned beside the
  error, and where the code opens a transaction the rollback is modelled.

  \<^bold>\<open>What is a parameter.\<close> The clock, random values, SHA-256, signatures, keyed hashes and the cipher, the
  resolver, sockets and \<open>fetch\<close>, \<open>RegExp.test\<close> and \<open>new URL\<close>, the directory of the packs, the registry of vendored
  kernels and their proof verifiers. A theorem that depends on one of them says so in a premise (a
  collision is named by the two strings that collide; a signature scheme by the law it keeps).

  \<^bold>\<open>Bounds and fuel.\<close> \<open>JSON_parse\<close> starts with fuel of twice the length of its text plus one, shown
  enough for every canonical text. \<open>validate\<close> takes fuel since a \<open>$ref\<close> may refer to itself; a schema
  whose references are grounded has a fuel from which the verdict no longer changes. A call follows at most
  \<open>MAX_REDIRECTS\<close> redirects, which is the recursion of the model too. The depth and element limits of the
  I-JSON guard are the code's. All other recursion is structural or has a measure.

  \<^bold>\<open>Conventions.\<close> Strings hold code units below 256, numbers are integers (records and manifests of the hub hold no
  fractions; a text with one parses to \<open>None\<close>). A run, a tick of the scheduler and a request are
  executed as a whole: what happens between two awaits of one operation is modelled only where a
  component says so (the pins of the egress boundary, the changing answers of a resolver, clock
  readings that advance).

  \<^bold>\<open>Not modelled.\<close>
  \<^item> Daemon boot and shutdown (\<^verbatim>\<open>hub/index.mjs\<close>,
    \<^verbatim>\<open>hub/idle-timer.mjs\<close>, \<^verbatim>\<open>hub/recovery.mjs\<close>,
    \<^verbatim>\<open>hub/state-dir.mjs\<close>, \<^verbatim>\<open>hub/log.mjs\<close>,
    \<^verbatim>\<open>hub/config.mjs\<close>, \<^verbatim>\<open>hub/cli-channel.mjs\<close>,
    \<^verbatim>\<open>bin/helmd.mjs\<close>): Process control: command verbs, signals, timers, renaming of the state
    directory, reading and defaulting of the configuration file. The part of the boot that verifies the journal is
    modelled with the checkpoints.
  \<^item> Rest of the REST server (\<^verbatim>\<open>hub/server.mjs\<close>): The remaining handlers read a request,
    call one modelled or unmodelled operation and send its answer; the event stream is I/O.
  \<^item> Agent tools endpoint (\<^verbatim>\<open>hub/mcp.mjs\<close>): JSON-RPC dispatch onto operations of other
    components; the start of runs by agents is modelled in Run_Actions.
  \<^item> Key material at rest (\<^verbatim>\<open>hub/keys.mjs\<close>,
    \<^verbatim>\<open>hub/ha-identity.mjs\<close>, \<^verbatim>\<open>hub/release-keys.mjs\<close>): Key generation,
    encrypted files and constants; the cryptography is the language library. The bound keys of an envelope are in
    Envelope.
  \<^item> Evidence bundles and exports (\<^verbatim>\<open>hub/bundle.mjs\<close>,
    \<^verbatim>\<open>hub/euc-register.mjs\<close>, \<^verbatim>\<open>hub/bpmn-export.mjs\<close>,
    \<^verbatim>\<open>hub/workflow-export.mjs\<close>, \<^verbatim>\<open>hub/pq-export.mjs\<close>,
    \<^verbatim>\<open>hub/pq-starter-workbook.mjs\<close>, \<^verbatim>\<open>hub/helios-receipt.mjs\<close>,
    \<^verbatim>\<open>hub/h2h-envelope.mjs\<close>, \<^verbatim>\<open>hub/backup.mjs\<close>,
    \<^verbatim>\<open>hub/migration-import.mjs\<close>): Renderings of records that other components keep (ZIP, HTML,
    XML, spreadsheets, Excel bytes) and copies of the state directory.
  \<^item> Foreign signature formats (\<^verbatim>\<open>hub/extsig.mjs\<close>,
    \<^verbatim>\<open>hub/ci-sign.mjs\<close>, \<^verbatim>\<open>hub/sigstore-verify.mjs\<close>,
    \<^verbatim>\<open>hub/sdjwt-emit.mjs\<close>, \<^verbatim>\<open>hub/challenge.mjs\<close>): Foreign signature
    formats (SSH, Sigstore, SD-JWT); what they compute is cryptography of the language library over parsed DER and PEM.
  \<^item> OAuth connections (\<^verbatim>\<open>hub/oauth-pkce.mjs\<close>,
    \<^verbatim>\<open>hub/oauth-providers.mjs\<close>): A loopback listener, a provider call and a list of connections;
    timers and sockets throughout.
  \<^item> Operating-system integration (\<^verbatim>\<open>hub/autostart.mjs\<close>,
    \<^verbatim>\<open>hub/protocol.mjs\<close>, \<^verbatim>\<open>hub/shortcut.mjs\<close>): Registry entries, launch
    agents and shortcuts written through platform programs.
  \<^item> Diagnostics (\<^verbatim>\<open>hub/doctor.mjs\<close>, \<^verbatim>\<open>hub/check.mjs\<close>,
    \<^verbatim>\<open>hub/version-check.mjs\<close>, \<^verbatim>\<open>hub/uptime-record.mjs\<close>,
    \<^verbatim>\<open>hub/receipt.mjs\<close>): Reports over files and the network, and receipts over the watch tables.
  \<^item> State snapshots (\<^verbatim>\<open>hub/state-snapshot.mjs\<close>): Chained artifacts over the stream heads;
    head commits are built by a vendored module with web cryptography.
  \<^item> Matter store (\<^verbatim>\<open>hub/matter-store.mjs\<close>): Matters with their bindings, deadlines and
    closing export.
  \<^item> Browser interface (\<^verbatim>\<open>ui/app.mjs\<close>, \<^verbatim>\<open>ui/api.mjs\<close>): Views, DOM
    code and browser cryptography under ui/, with the vendored bundle ui/vendored/pkijs.bundle.mjs.
  \<^item> Vendored kernels and bundles
    (\<^verbatim>\<open>hub/vendored/ocg/kernels/_noble-secp256k1.bundle.mjs\<close>): The compliance kernels under
    hub/vendored/ocg/kernels and their bundled libraries are third-party code that the hub only calls; the registry of
    kernels is a parameter of Kernel_Runner.
  \<^item> Build, release and agent packaging (\<^verbatim>\<open>scripts/build-sea.mjs\<close>,
    \<^verbatim>\<open>scripts/compile-packs.mjs\<close>, \<^verbatim>\<open>hub/sea-source-manifest.mjs\<close>):
    Scripts that build, vendor, lint and release; generated packs are data.
\<close>

end
